(* ===== verification/GoPrelude.thy ===== *)
theory GoPrelude
  imports Main "HOL-Library.Word" "HOL-Library.AList" "HOL-Library.Multiset"
begin

text \<open>
  Shared vocabulary of the development: machine integers, Go maps, Go failures and the
  loop combinator, with the lemmas every component uses.

  \<^item> A Go \<^verbatim>\<open>uint64\<close> is \<open>64 word\<close>, so its wrap-around is the code's.
  \<^item> A Go \<^verbatim>\<open>map\<close> is a list of key/value pairs with distinct keys
    (\<open>gm_ok\<close>). The order of the list is the order in which one \<^verbatim>\<open>range\<close> over
    the map visits it, which Go leaves open: a theorem about every list is a theorem about
    every iteration order. \<open>mrel\<close> relates two maps with the same contents, whatever their
    orders, and is what the determinism results of the replicated database are stated with.
  \<^item> A call that can panic, or return an error, has a result of type \<open>gofail + 'a\<close>;
    when it also mutates a receiver it returns the pair of that result and the receiver,
    since a Go panic does not undo the writes made before it.
\<close>

section \<open>Types\<close>

type_synonym u64 = "64 word"
type_synonym ('k, 'v) gomap = "('k \<times> 'v) list"

text \<open>The panics of the modelled code, one constructor per panic site or kind.\<close>

datatype gopanic =
    SystemFailedToLaunch
  | VersionMismatch
  | UnmarshalFailed
  | UnknownUpdateType
  | UnknownChangeType
  | UnknownRequestType
  | MixedLaunchRequests
  | SetLaunchedFailed
  | EmptyKeyOrValue
  | EmptyMembers
  | EmptyAppName
  | EmptyLookupKey
  | NilDereference
  | IndexOutOfRange
  | DivideByZero
  | SameIndexDifferentCount
  | DifferentReplicaIDs
  | ReplicaAddressChanged
  | DuplicatedAddress
  | NodeHostSpecNotFound
  | RandomSourceNil
  | ShardNotLocated
  | InvalidRequest string
  | UnknownElectionState
  | CampaignByLeader
  | NoClientSession
  | InvalidZeroTick
  | UnknownUpdateResponse
  | UnknownCode
  | UnknownBooleanValue
  | UnknownResultCode
  | NeverReached
  | InvalidShardID
  | ShardIDMismatch
  | InvalidDuration
  | InvalidConfigFile
  | LogInfoUnexpected
  | LaunchOverNodeInfo
  | UnknownJoinRestore
  | PluginNotReady
  | UnknownStateMachineType
  | RaftCallFailed
  | TypeAssertion
  | CannotOpenFile
  | LineTooLong
  | UnknownEventResult
  | MarshalFailed
  | ParseFailed
  | PathNotSet
  | ViolationFound
  | InvalidAddress
  | ListenFailed
  | TLSConfigFailed
  | TLSConfigNil
  | NoDrummerServer
  | AlreadyClosed
  | AlreadyAborted
  | CorruptedContent
  | DirectoryDeleted
  | NotADirectory
  | MissingParent
  | FileSystemNotSet
  | FileSystemAlreadySet
  | IndexNotMovingForward
  | IOFailed

text \<open>The errors the modelled code returns as values.\<close>

datatype grpcCode =
    code_InvalidArgument | code_Unavailable | code_NotFound | code_Canceled | code_DeadlineExceeded
  | code_Unknown

datatype goerror =
    ErrNotEnoughNodeHost
  | ErrNotEnoughInRegions
  | ErrSessionNotReady
  | ErrNoSession
  | ErrShardNotFound
  | ErrCanceled
  | ErrContextCanceled
  | ErrDeadlineExceeded
  | ErrTimeout
  | ErrTimeoutTooSmall
  | ErrPayloadTooBig
  | ErrInvalidSession
  | ErrSystemBusy
  | ErrClosed
  | ErrShardClosed
  | ErrShardNotReady
  | ErrShardNotStopped
  | ErrDeadlineNotSet
  | ErrInvalidDeadline
  | ErrInvalidRequest
  | ErrStopped
  | ErrUnknownStateMachine
  | ErrParseUint
  | ErrNotExist
  | ErrIO
  | ErrTLS
  | ErrDBClosed
  | ErrUnexpectedEOF
  | ErrSnapshotStopped
  | ErrSnapshotAborted
  | ErrRaft string
  | ErrGRPC grpcCode

text \<open>A call fails by a panic, by an error it returns, or by not returning at all.\<close>

datatype gofail = Panic gopanic | Err goerror | Diverges

type_synonym 'a go = "gofail + 'a"

definition panic :: "gopanic \<Rightarrow> 'a go" where
  "panic p = Inl (Panic p)"

text \<open>
  Calls in sequence on one state: \<open>thenDo\<close> goes on after a result, \<open>onError\<close> is the branch
  \<^verbatim>\<open>if err != nil\<close>, which a panic does not take.
\<close>

definition thenDo :: "'a go \<times> 's \<Rightarrow> ('a \<Rightarrow> 's \<Rightarrow> 'b go \<times> 's) \<Rightarrow> 'b go \<times> 's" where
  "thenDo m f = (case m of (Inl e, s) \<Rightarrow> (Inl e, s) | (Inr a, s) \<Rightarrow> f a s)"

fun onError :: "'a go \<times> 's \<Rightarrow> (goerror \<Rightarrow> 's \<Rightarrow> 'b go \<times> 's) \<Rightarrow> ('a \<Rightarrow> 's \<Rightarrow> 'b go \<times> 's) \<Rightarrow> 'b go \<times> 's" where
  "onError (Inr a, s) h f = f a s"
| "onError (Inl (Err e), s) h f = h e s"
| "onError (Inl (Panic p), s) h f = (Inl (Panic p), s)"
| "onError (Inl Diverges, s) h f = (Inl Diverges, s)"

lemma thenDo_simps [simp]:
  "thenDo (Inr a, s) f = f a s" "thenDo (Inl e, s) f = (Inl e, s)"
  by (simp_all add: thenDo_def)

lemma thenDo_Inr: "thenDo m f = (Inr b, t) \<longleftrightarrow> (\<exists>a s. m = (Inr a, s) \<and> f a s = (Inr b, t))"
  by (cases m; cases "fst m") auto

text \<open>An invariant of the calls is one of their sequence.\<close>

lemma thenDo_inv:
  assumes "I (snd m)" and "\<And>a t. m = (Inr a, t) \<Longrightarrow> I t \<Longrightarrow> I (snd (f a t))"
  shows "I (snd (thenDo m f))"
  using assms by (cases m; cases "fst m") auto

lemma onError_inv:
  assumes "I (snd m)" and "\<And>e t. m = (Inl (Err e), t) \<Longrightarrow> I t \<Longrightarrow> I (snd (h e t))"
    and "\<And>a t. m = (Inr a, t) \<Longrightarrow> I t \<Longrightarrow> I (snd (f a t))"
  shows "I (snd (onError m h f))"
proof (cases m)
  case (Pair x t)
  show ?thesis
  proof (cases x)
    case (Inl e)
    with Pair assms(1,2) show ?thesis by (cases e) auto
  qed (use Pair assms(1,3) in auto)
qed

text \<open>The same without a state.\<close>

definition goThen :: "'a go \<Rightarrow> ('a \<Rightarrow> 'b go) \<Rightarrow> 'b go" where
  "goThen r f = (case r of Inl e \<Rightarrow> Inl e | Inr a \<Rightarrow> f a)"

lemma goThen_simps [simp]: "goThen (Inr a) f = f a" "goThen (Inl e) f = Inl e"
  by (simp_all add: goThen_def)

text \<open>Go's remainder truncates towards zero; its index expression panics out of range.\<close>

definition go_rem :: "int \<Rightarrow> int \<Rightarrow> int" where
  "go_rem a b = sgn a * (\<bar>a\<bar> mod \<bar>b\<bar>)"

definition goIndex :: "'a list \<Rightarrow> int \<Rightarrow> 'a go" where
  "goIndex xs i = (if 0 \<le> i \<and> i < int (length xs) then Inr (xs ! nat i) else panic IndexOutOfRange)"

section \<open>Go maps\<close>

abbreviation mget :: "('k, 'v) gomap \<Rightarrow> 'k \<Rightarrow> 'v option" where
  "mget \<equiv> map_of"

abbreviation mput :: "'k \<Rightarrow> 'v \<Rightarrow> ('k, 'v) gomap \<Rightarrow> ('k, 'v) gomap" where
  "mput \<equiv> AList.update"

definition mdel :: "'k \<Rightarrow> ('k, 'v) gomap \<Rightarrow> ('k, 'v) gomap" where
  "mdel k m = filter (\<lambda>p. fst p \<noteq> k) m"

definition mkeys :: "('k, 'v) gomap \<Rightarrow> 'k list" where
  "mkeys m = map fst m"

definition mvals :: "('k, 'v) gomap \<Rightarrow> 'v list" where
  "mvals m = map snd m"

definition mhas :: "('k, 'v) gomap \<Rightarrow> 'k \<Rightarrow> bool" where
  "mhas m k \<longleftrightarrow> map_of m k \<noteq> None"

text \<open>Writing every element in place: the effect of a loop over a map of pointers.\<close>

definition mmap :: "('k \<Rightarrow> 'v \<Rightarrow> 'w) \<Rightarrow> ('k, 'v) gomap \<Rightarrow> ('k, 'w) gomap" where
  "mmap f m = map (\<lambda>(k, v). (k, f k v)) m"

definition gm_ok :: "('k, 'v) gomap \<Rightarrow> bool" where
  "gm_ok m \<longleftrightarrow> distinct (map fst m)"

text \<open>Same contents up to \<open>R\<close>, in any iteration order.\<close>

definition mrel :: "('v \<Rightarrow> 'w \<Rightarrow> bool) \<Rightarrow> ('k, 'v) gomap \<Rightarrow> ('k, 'w) gomap \<Rightarrow> bool" where
  "mrel R m m' \<longleftrightarrow> gm_ok m \<and> gm_ok m' \<and> (\<forall>k. rel_option R (map_of m k) (map_of m' k))"

text \<open>A loop whose body may fail; the writes made so far are kept.\<close>

fun foreach :: "('a \<Rightarrow> 's \<Rightarrow> 'b go \<times> 's) \<Rightarrow> 'a list \<Rightarrow> 's \<Rightarrow> unit go \<times> 's" where
  "foreach f [] s = (Inr (), s)"
| "foreach f (x # xs) s =
     (case f x s of (Inl e, s') \<Rightarrow> (Inl e, s') | (Inr _, s') \<Rightarrow> foreach f xs s')"

text \<open>
  Two runs of one operation that agree: the same failure, or related results and related
  receivers. After a failure the receivers need not agree: where a loop over a map panics, what
  it had written before depends on the iteration order.
\<close>

fun go_rel :: "('a \<Rightarrow> 'b \<Rightarrow> bool) \<Rightarrow> ('s \<Rightarrow> 't \<Rightarrow> bool) \<Rightarrow> 'a go \<times> 's \<Rightarrow> 'b go \<times> 't \<Rightarrow> bool" where
  "go_rel V R (Inl e, s) (Inl e', t) = (e = e')"
| "go_rel V R (Inr a, s) (Inr b, t) = (V a b \<and> R s t)"
| "go_rel V R (Inl e, s) (Inr b, t) = False"
| "go_rel V R (Inr a, s) (Inl e', t) = False"

text \<open>
  The collections: \<open>gomap_simps\<close> rewrites lookups after map operations,
  \<open>gomap_rel\<close> holds the introduction rules of \<open>mrel\<close>.
\<close>

named_theorems gomap_simps
named_theorems gomap_rel

section \<open>Lemmas on maps\<close>

lemma gm_ok_Nil [simp]: "gm_ok []"
  by (simp add: gm_ok_def)

lemma gm_ok_mput [simp]: "gm_ok m \<Longrightarrow> gm_ok (mput k v m)"
  by (simp add: gm_ok_def distinct_update)

lemma gm_ok_filter [simp]: "gm_ok m \<Longrightarrow> gm_ok (filter P m)"
  unfolding gm_ok_def by (induction m) auto

lemma gm_ok_mdel [simp]: "gm_ok m \<Longrightarrow> gm_ok (mdel k m)"
  by (simp add: mdel_def)

lemma mmap_keys [simp]: "map fst (mmap f m) = map fst m"
  by (simp add: mmap_def case_prod_unfold comp_def)

lemma gm_ok_mmap [simp]: "gm_ok (mmap f m) \<longleftrightarrow> gm_ok m"
  by (simp add: gm_ok_def)

lemma length_mmap [simp]: "length (mmap f m) = length m"
  by (simp add: mmap_def)

lemma mget_mput [gomap_simps]: "mget (mput k v m) k' = (if k' = k then Some v else mget m k')"
  by (simp add: update_conv')

lemma mget_mdel [gomap_simps]: "mget (mdel k m) k' = (if k' = k then None else mget m k')"
  unfolding mdel_def by (induction m) auto

lemma mget_mmap [gomap_simps]: "mget (mmap f m) k = map_option (f k) (mget m k)"
  unfolding mmap_def by (induction m) auto

lemma mget_filter_key [gomap_simps]:
  "mget (filter (\<lambda>p. P (fst p)) m) k = (if P k then mget m k else None)"
  by (induction m) auto

lemma mhas_iff: "mhas m k \<longleftrightarrow> k \<in> fst ` set m"
  by (simp add: mhas_def map_of_eq_None_iff)

lemma mhas_mkeys: "k \<in> set (mkeys m) \<longleftrightarrow> mhas m k"
  by (simp add: mhas_iff mkeys_def)

lemma mget_in_set: "gm_ok m \<Longrightarrow> mget m k = Some v \<longleftrightarrow> (k, v) \<in> set m"
  by (simp add: gm_ok_def)

lemma mvals_mget: "gm_ok m \<Longrightarrow> v \<in> set (mvals m) \<longleftrightarrow> (\<exists>k. mget m k = Some v)"
  by (force simp: mvals_def mget_in_set)

lemma mget_mvals: "mget m k = Some v \<Longrightarrow> v \<in> set (mvals m)"
  by (force simp: mvals_def dest: map_of_SomeD)

section \<open>Lemmas on the content relation\<close>

lemma mrel_ok: "mrel R m m' \<Longrightarrow> gm_ok m \<and> gm_ok m'"
  by (simp add: mrel_def)

lemma mrel_get: "mrel R m m' \<Longrightarrow> rel_option R (mget m k) (mget m' k)"
  by (simp add: mrel_def)

lemma mrel_sym: "mrel R m m' \<Longrightarrow> (\<And>v v'. R v v' \<Longrightarrow> S v' v) \<Longrightarrow> mrel S m' m"
  unfolding mrel_def by (metis option.rel_cases option.rel_intros)

lemma mrel_Nil [simp]: "mrel R [] []"
  by (simp add: mrel_def)

lemma mrelI:
  "gm_ok m \<Longrightarrow> gm_ok m' \<Longrightarrow> (\<And>k. rel_option R (mget m k) (mget m' k)) \<Longrightarrow> mrel R m m'"
  by (simp add: mrel_def)

lemma mrel_put [gomap_rel]:
  "mrel R m m' \<Longrightarrow> R v v' \<Longrightarrow> mrel R (mput k v m) (mput k v' m')"
  by (simp add: mrel_def gomap_simps)

lemma mrel_del [gomap_rel]: "mrel R m m' \<Longrightarrow> mrel R (mdel k m) (mdel k m')"
  by (simp add: mrel_def gomap_simps)

lemma mrel_filter_key [gomap_rel]:
  "mrel R m m' \<Longrightarrow> (\<And>k. P k = Q k) \<Longrightarrow>
     mrel R (filter (\<lambda>p. P (fst p)) m) (filter (\<lambda>p. Q (fst p)) m')"
  by (simp add: mrel_def gomap_simps)

lemma mrel_mmap:
  assumes "mrel R m m'" and "\<And>k v v'. R v v' \<Longrightarrow> S (f k v) (g k v')"
  shows "mrel S (mmap f m) (mmap g m')"
proof (rule mrelI)
  show "rel_option S (mget (mmap f m) k) (mget (mmap g m') k)" for k
    using mrel_get [OF assms(1), of k] assms(2)
    by (auto simp: gomap_simps elim!: option.rel_cases)
qed (use mrel_ok [OF assms(1)] in auto)

lemma mrel_has: "mrel R m m' \<Longrightarrow> mhas m k = mhas m' k"
  using mrel_get [of R m m' k] by (auto simp: mhas_def elim: option.rel_cases)

lemma mrel_refl: "(\<And>v. v \<in> set (mvals m) \<Longrightarrow> R v v) \<Longrightarrow> gm_ok m \<Longrightarrow> mrel R m m"
  by (rule mrelI) (auto intro!: option.rel_refl_strong mget_mvals)

lemma mrel_diagD: "mrel R m m \<Longrightarrow> mget m k = Some v \<Longrightarrow> R v v"
  using mrel_get [of R m m k] by simp

lemma mrel_keys: "mrel R m m' \<Longrightarrow> mset (mkeys m) = mset (mkeys m')"
proof -
  assume r: "mrel R m m'"
  then have "set (mkeys m) = set (mkeys m')"
    by (auto simp: mhas_mkeys mrel_has)
  moreover have "distinct (mkeys m)" "distinct (mkeys m')"
    using mrel_ok [OF r] by (simp_all add: gm_ok_def mkeys_def)
  ultimately show ?thesis
    by (metis set_eq_iff_mset_eq_distinct)
qed

lemma mrel_length: "mrel R m m' \<Longrightarrow> length m = length m'"
  using mrel_keys [of R m m'] by (metis mkeys_def length_map size_mset)

lemma mrel_eq_mset: "mrel (=) m m' \<Longrightarrow> mset m = mset m'"
proof -
  assume r: "mrel (=) m m'"
  then have ok: "gm_ok m" "gm_ok m'" and g: "mget m = mget m'"
    by (auto simp: mrel_def option.rel_eq)
  have "set m = set m'"
    using ok g by (metis map_of_eqI map_of_inject_set gm_ok_def)
  with ok show ?thesis
    by (simp add: gm_ok_def set_eq_iff_mset_eq_distinct distinct_map)
qed

text \<open>Counting the elements of a map that satisfy a predicate does not depend on the order.\<close>

lemma mrel_count:
  assumes "mrel R m m'" and "\<And>v v'. R v v' \<Longrightarrow> P v = Q v'"
  shows "length (filter P (mvals m)) = length (filter Q (mvals m'))"
proof -
  have eq: "mrel (=) (mmap (\<lambda>_. P) m) (mmap (\<lambda>_. Q) m')"
    by (rule mrel_mmap [OF assms(1)]) (rule assms(2))
  have cnt: "length (filter F (mvals n)) = size (filter_mset snd (mset (mmap (\<lambda>_. F) n)))"
    for F and n :: "('x \<times> 'y) list"
    by (induction n) (auto simp: mvals_def mmap_def)
  show ?thesis
    unfolding cnt [of P m] cnt [of Q m'] mrel_eq_mset [OF eq] ..
qed

lemma length_filter_eq_all: "length (filter P xs) = length xs \<longleftrightarrow> (\<forall>x \<in> set xs. P x)"
  by (metis filter_True length_filter_less less_irrefl)

lemma mrel_all:
  assumes "mrel R m m'" and "\<And>v v'. R v v' \<Longrightarrow> P v = Q v'"
  shows "list_all P (mvals m) = list_all Q (mvals m')"
proof -
  have all: "list_all F (mvals n) \<longleftrightarrow> length (filter F (mvals n)) = length n"
    for F and n :: "('x \<times> 'y) list"
    using length_filter_eq_all [of F "mvals n"] by (simp add: list_all_iff mvals_def)
  show ?thesis
    using mrel_count [OF assms(1), of P Q] assms(2) mrel_length [OF assms(1)]
    by (simp add: all)
qed

section \<open>Lemmas on lists, words and the loop\<close>

lemma go_rem_nonneg: "0 \<le> a \<Longrightarrow> 0 < b \<Longrightarrow> go_rem a b = a mod b"
  by (auto simp: go_rem_def sgn_if)

lemma go_rem_range: "0 \<le> a \<Longrightarrow> 0 < b \<Longrightarrow> 0 \<le> go_rem a b \<and> go_rem a b < b"
  by (simp add: go_rem_nonneg)

lemma goIndex_Inr: "goIndex xs i = Inr x \<longleftrightarrow> 0 \<le> i \<and> i < int (length xs) \<and> x = xs ! nat i"
  by (auto simp: goIndex_def panic_def)

lemma goIndex_0 [simp]: "goIndex (x # xs) 0 = Inr x"
  by (simp add: goIndex_def)

lemma foreach_append:
  "foreach f (xs @ ys) s =
     (case foreach f xs s of (Inl e, s') \<Rightarrow> (Inl e, s') | (Inr _, s') \<Rightarrow> foreach f ys s')"
  by (induction xs arbitrary: s) (auto split: prod.splits sum.splits)

text \<open>An invariant of the body is an invariant of the loop.\<close>

lemma foreach_inv:
  assumes "I s" and "\<And>x s. x \<in> set xs \<Longrightarrow> I s \<Longrightarrow> I (snd (f x s))"
  shows "I (snd (foreach f xs s))"
  using assms
proof (induction xs arbitrary: s)
  case (Cons x xs)
  have step: "I (snd (f x s))" using Cons.prems by simp
  have rest: "I (snd (foreach f xs (snd (f x s))))"
    by (rule Cons.IH [OF step]) (simp add: Cons.prems)
  show ?case using step rest by (cases "f x s") (auto split: sum.splits)
qed simp

text \<open>The same for the runs of the loop that finish, whatever the body does when it fails.\<close>

lemma foreach_success:
  assumes "foreach f xs s = (Inr r, t)" and "I s"
    and "\<And>x s a s'. x \<in> set xs \<Longrightarrow> I s \<Longrightarrow> f x s = (Inr a, s') \<Longrightarrow> I s'"
  shows "I t"
  using assms
proof (induction xs arbitrary: s)
  case (Cons x xs)
  obtain a s' where step: "f x s = (Inr a, s')"
    using Cons.prems(1) by (cases "f x s"; cases "fst (f x s)") auto
  have "I s'" by (rule Cons.prems(3) [OF _ Cons.prems(2) step]) simp
  moreover have "foreach f xs s' = (Inr r, t)" using Cons.prems(1) step by simp
  ultimately show ?case using Cons.IH Cons.prems(3) by (meson list.set_intros(2))
qed simp

lemma go_rel_cases:
  assumes "go_rel V R p q"
  obtains e s t where "p = (Inl e, s)" "q = (Inl e, t)"
  | a b s t where "p = (Inr a, s)" "q = (Inr b, t)" "V a b" "R s t"
proof -
  obtain x s y t where pq: "p = (x, s)" "q = (y, t)" by (cases p; cases q)
  with assms that show thesis by (cases x; cases y) auto
qed

lemma go_rel_panic [simp]: "go_rel V R (panic p, s) (panic p, t)"
  by (simp add: panic_def)

text \<open>Related bodies over related lists make related loops.\<close>

lemma foreach_rel:
  assumes "list_all2 A xs ys" and "R s t"
    and "\<And>x y s t. A x y \<Longrightarrow> R s t \<Longrightarrow> go_rel (\<lambda>_ _. True) R (f x s) (g y t)"
  shows "go_rel (\<lambda>_ _. True) R (foreach f xs s) (foreach g ys t)"
  using assms(1,2)
proof (induction xs ys arbitrary: s t rule: list_all2_induct)
  case (Cons x xs y ys)
  from assms(3) [OF Cons.hyps(1) Cons.prems] show ?case
  proof (rule go_rel_cases)
    fix a b s' t' assume "f x s = (Inr a, s')" "g y t = (Inr b, t')" "R s' t'"
    with Cons.IH [OF \<open>R s' t'\<close>] show ?thesis by simp
  qed simp
qed simp

lemma fold_rel:
  assumes "list_all2 A xs ys" and "R s t"
    and "\<And>x y s t. A x y \<Longrightarrow> R s t \<Longrightarrow> R (f x s) (g y t)"
  shows "R (fold f xs s) (fold g ys t)"
  using assms(1,2)
proof (induction xs ys arbitrary: s t rule: list_all2_induct)
  case (Cons x xs y ys)
  then show ?case by (simp add: assms(3))
qed simp

lemma fold_inv:
  assumes "I s" and "\<And>x s. x \<in> set xs \<Longrightarrow> I s \<Longrightarrow> I (f x s)"
  shows "I (fold f xs s)"
  using assms by (induction xs arbitrary: s) auto

lemma fold_mdel: "fold mdel ks m = filter (\<lambda>p. fst p \<notin> set ks) m"
  by (induction ks arbitrary: m) (auto simp: mdel_def intro!: filter_cong)

lemma filter_length_split:
  "length (filter P xs) + length (filter (\<lambda>x. \<not> P x) xs) = length xs"
  by (rule sum_length_filter_compl)

lemma filter3_length:
  assumes "\<And>x. x \<in> set xs \<Longrightarrow> (P x \<and> \<not> Q x \<and> \<not> R x) \<or> (\<not> P x \<and> Q x \<and> \<not> R x) \<or> (\<not> P x \<and> \<not> Q x \<and> R x)"
  shows "length (filter P xs) + length (filter Q xs) + length (filter R xs) = length xs"
  using assms
proof (induction xs)
  case (Cons a xs)
  have "length (filter P xs) + length (filter Q xs) + length (filter R xs) = length xs"
    by (rule Cons.IH) (simp add: Cons.prems)
  with Cons.prems [of a] show ?case by auto
qed simp

lemma filter3_mset:
  assumes "\<And>x. x \<in> set xs \<Longrightarrow> (P x \<and> \<not> Q x \<and> \<not> R x) \<or> (\<not> P x \<and> Q x \<and> \<not> R x) \<or> (\<not> P x \<and> \<not> Q x \<and> R x)"
  shows "mset (filter P xs) + mset (filter Q xs) + mset (filter R xs) = mset xs"
  using assms
proof (induction xs)
  case (Cons a xs)
  have "mset (filter P xs) + mset (filter Q xs) + mset (filter R xs) = mset xs"
    by (rule Cons.IH) (simp add: Cons.prems)
  with Cons.prems [of a] show ?case by auto
qed simp

text \<open>Sorting by a key all elements share changes nothing.\<close>

lemma sort_key_const: "(\<And>x. x \<in> set xs \<Longrightarrow> f x = c) \<Longrightarrow> sort_key f xs = xs"
  by (induction xs) (auto simp: insort_is_Cons)

end
