(* ===== verification/Settings.thy ===== *)
theory Settings
  imports GoPrelude
begin

text \<open>
  The soft settings of \<^verbatim>\<open>settings/soft.go\<close> and the constants other files derive from
  them. The settings that only size gRPC messages are kept as fields; of them the servers
  read one, for the options of their gRPC server.
\<close>

record soft =
  LocalRaftRequestTimeoutMs :: u64
  GetConnectedTimeoutSecond :: u64
  MaxDrummerServerMsgSize :: u64
  UnknownRegionName :: string
  MaxDrummerClientMsgSize :: u64
  DrummerClientName :: string
  NodeHostInfoReportSecond :: u64
  NodeHostTTL :: u64
  NodeToStartMaxWait :: u64
  DrummerLoopIntervalFactor :: u64
  PersisentLogReportCycle :: u64

definition getDefaultSoftSettings :: soft where
  "getDefaultSoftSettings = (let nodeHostInfoReportSecond = 20 in
     \<lparr> LocalRaftRequestTimeoutMs = 10000,
       GetConnectedTimeoutSecond = 5,
       MaxDrummerServerMsgSize = 256 * 1024 * 1024,
       UnknownRegionName = ''UNKNOWN'',
       MaxDrummerClientMsgSize = 256 * 1024 * 1024,
       DrummerClientName = ''drummer-client'',
       NodeHostInfoReportSecond = nodeHostInfoReportSecond,
       NodeHostTTL = nodeHostInfoReportSecond * 3,
       NodeToStartMaxWait = nodeHostInfoReportSecond * 12,
       DrummerLoopIntervalFactor = 1,
       PersisentLogReportCycle = 3 \<rparr>)"

definition Soft :: soft where
  "Soft = getDefaultSoftSettings"

definition LaunchDeadlineTick :: u64 where
  "LaunchDeadlineTick = 24"

text \<open>\<^verbatim>\<open>shardimage.go\<close>, \<^verbatim>\<open>scheduler.go\<close>, \<^verbatim>\<open>drummer.go\<close> and \<^verbatim>\<open>db.go\<close>: the package variables.\<close>

definition nodeHostTTL :: u64 where
  "nodeHostTTL = NodeHostTTL Soft"

definition unknownRegion :: string where
  "unknownRegion = UnknownRegionName Soft"

definition tickIntervalSecond :: u64 where
  "tickIntervalSecond = 5"

definition loopIntervalSecond :: u64 where
  "loopIntervalSecond = NodeHostInfoReportSecond Soft * DrummerLoopIntervalFactor Soft"

definition launchDeadlineTick :: u64 where
  "launchDeadlineTick = LaunchDeadlineTick"

lemma nodeHostTTL_60 [simp]: "nodeHostTTL = 60"
  by (simp add: nodeHostTTL_def Soft_def getDefaultSoftSettings_def Let_def)

lemma tickIntervalSecond_5 [simp]: "tickIntervalSecond = 5"
  by (simp add: tickIntervalSecond_def)

lemma loopIntervalSecond_20 [simp]: "loopIntervalSecond = 20"
  by (simp add: loopIntervalSecond_def Soft_def getDefaultSoftSettings_def Let_def)

lemma launchDeadlineTick_24 [simp]: "launchDeadlineTick = 24"
  by (simp add: launchDeadlineTick_def LaunchDeadlineTick_def)

end
