(* ===== verification/Drummerpb.thy ===== *)
theory Drummerpb
  imports GoPrelude
begin

text \<open>
  The protobuf messages of \<^verbatim>\<open>drummerpb/drummer.pb.go\<close> that the modelled code reads or
  builds. A message is a record with the struct's exported fields; a pointer to a message that
  may be nil is an \<open>option\<close>; \<^verbatim>\<open>bytes\<close> and \<^verbatim>\<open>string\<close> are lists of 8-bit characters.
  Proto3 enums are open: each datatype has a constructor for the numbers without a name.
\<close>

section \<open>Enums\<close>

datatype Change_Type = Change_CREATE | Change_Type_Other int

datatype ChangeResponse_Code =
    ChangeResponse_OK | ChangeResponse_SHARD_NOT_FOUND | ChangeResponse_CONFLICT_FOUND
  | ChangeResponse_UNKNOWN_RETRY | ChangeResponse_SHARD_EXIST | ChangeResponse_BOOTSTRAPPED
  | ChangeResponse_REGIONS_SET | ChangeResponse_Code_Other int

datatype Update_Type =
    Update_SHARD | Update_KV | Update_TICK | Update_NODEHOST_INFO | Update_REQUESTS
  | Update_Type_Other int

datatype LookupRequest_Type =
    LookupRequest_SHARD | LookupRequest_KV | LookupRequest_SCHEDULER_CONTEXT
  | LookupRequest_REQUESTS | LookupRequest_SHARD_STATES | LookupRequest_Type_Other int

datatype LookupResponse_Code =
    LookupResponse_OK | LookupResponse_SHARD_NOT_FOUND | LookupResponse_Code_Other int

datatype Request_Type =
    Request_CREATE | Request_DELETE | Request_ADD | Request_KILL | Request_Type_Other int

datatype ShardState_State = ShardState_OK | ShardState_UNAVAILABLE | ShardState_State_Other int

section \<open>Definitions of shards, key-value records and changes\<close>

record Regions =
  rg_Region :: "string list"
  rg_Count :: "u64 list"

record Shard =
  sd_Members :: "u64 list"
  sd_ShardId :: u64
  sd_AppName :: string

record KV =
  kv_Key :: string
  kv_Value :: string
  kv_InstanceId :: u64
  kv_Tick :: u64
  kv_OldInstanceId :: u64
  kv_Finalized :: bool

record Change =
  ch_Type :: Change_Type
  ch_ShardId :: u64
  ch_Members :: "u64 list"
  ch_AppName :: string

record ChangeResponse =
  cr_Code :: ChangeResponse_Code

section \<open>NodeHost reports\<close>

record ShardInfo =
  si_ShardId :: u64
  si_ReplicaId :: u64
  si_IsLeader :: bool
  si_Replicas :: "(u64, string) gomap"
  si_ConfigChangeIndex :: u64
  si_Incomplete :: bool
  si_Pending :: bool

record LogInfo =
  li_ShardId :: u64
  li_ReplicaId :: u64

record NodeHostInfo =
  nhi_RaftAddress :: string
  nhi_ShardInfo :: "ShardInfo list"
  nhi_ShardIdList :: "u64 list"
  nhi_LastTick :: u64
  nhi_PlogInfoIncluded :: bool
  nhi_PlogInfo :: "LogInfo list"
  nhi_Region :: string
  nhi_RPCAddress :: string

record NodeHostCollection =
  nhc_Collection :: "NodeHostInfo list"
  nhc_Tick :: u64

record ShardState =
  ss_ShardId :: u64
  ss_LeaderReplicaId :: u64
  ss_Replicas :: "(u64, string) gomap"
  ss_RPCAddresses :: "(u64, string) gomap"
  ss_State :: ShardState_State
  ss_ConfigChangeIndex :: u64

record ShardStates =
  sts_Collection :: "ShardState list"

record ShardStateRequest =
  ssr_ShardIdList :: "u64 list"

section \<open>Requests sent to NodeHosts\<close>

record Request =
  rq_Type :: Request_Type
  rq_ShardId :: u64
  rq_Members :: "u64 list"
  rq_AppName :: string
  rq_ConfChangeId :: u64

record Config =
  cf_ElectionRTT :: u64
  cf_HeartbeatRTT :: u64
  cf_CheckQuorum :: bool
  cf_CompactionOverhead :: u64
  cf_SnapshotEntries :: u64
  cf_RaftShardAddresses :: string
  cf_DrummerAddress :: string
  cf_DrummerNodeID :: u64
  cf_DrummerNodeHostDirectory :: string
  cf_DrummerWALDirectory :: string
  cf_MutualTLS :: bool
  cf_CAFile :: string
  cf_CertFile :: string
  cf_KeyFile :: string
  cf_MaxInMemLogSize :: u64

record NodeHostRequest =
  nr_Change :: "Request option"
  nr_ReplicaIdList :: "u64 list"
  nr_AddressList :: "string list"
  nr_InstantiateReplicaId :: u64
  nr_RaftAddress :: string
  nr_Join :: bool
  nr_Restore :: bool
  nr_AppName :: string
  nr_Config :: "Config option"

record NodeHostRequestCollection =
  nrc_Requests :: "NodeHostRequest list"

section \<open>Commands and queries of the Drummer DB\<close>

record Update =
  up_Change :: "Change option"
  up_Type :: Update_Type
  up_KvUpdate :: "KV option"
  up_NodehostInfo :: "NodeHostInfo option"
  up_Requests :: "NodeHostRequestCollection option"

record LookupRequest =
  lr_Type :: LookupRequest_Type
  lr_ShardIdList :: "u64 list"
  lr_KvLookup :: "KV option"
  lr_RequestsId :: u64
  lr_Address :: string
  lr_Stats :: "ShardStateRequest option"

record LookupResponse =
  lp_Code :: LookupResponse_Code
  lp_Shards :: "Shard list"
  lp_KvResult :: "KV option"
  lp_Requests :: "NodeHostRequestCollection option"

section \<open>Zero values\<close>

text \<open>What Go's composite literals leave unset.\<close>

definition zero_KV :: KV where
  "zero_KV = \<lparr>kv_Key = [], kv_Value = [], kv_InstanceId = 0, kv_Tick = 0,
     kv_OldInstanceId = 0, kv_Finalized = False\<rparr>"

definition zero_Request :: Request where
  "zero_Request = \<lparr>rq_Type = Request_CREATE, rq_ShardId = 0, rq_Members = [], rq_AppName = [],
     rq_ConfChangeId = 0\<rparr>"

definition zero_NodeHostRequest :: NodeHostRequest where
  "zero_NodeHostRequest = \<lparr>nr_Change = None, nr_ReplicaIdList = [], nr_AddressList = [],
     nr_InstantiateReplicaId = 0, nr_RaftAddress = [], nr_Join = False, nr_Restore = False,
     nr_AppName = [], nr_Config = None\<rparr>"

definition zero_Update :: Update where
  "zero_Update = \<lparr>up_Change = None, up_Type = Update_SHARD, up_KvUpdate = None,
     up_NodehostInfo = None, up_Requests = None\<rparr>"

definition zero_LookupRequest :: LookupRequest where
  "zero_LookupRequest = \<lparr>lr_Type = LookupRequest_SHARD, lr_ShardIdList = [], lr_KvLookup = None,
     lr_RequestsId = 0, lr_Address = [], lr_Stats = None\<rparr>"

definition zero_LookupResponse :: LookupResponse where
  "zero_LookupResponse = \<lparr>lp_Code = LookupResponse_OK, lp_Shards = [], lp_KvResult = None,
     lp_Requests = None\<rparr>"

definition zero_Config :: Config where
  "zero_Config = \<lparr>cf_ElectionRTT = 0, cf_HeartbeatRTT = 0, cf_CheckQuorum = False,
     cf_CompactionOverhead = 0, cf_SnapshotEntries = 0, cf_RaftShardAddresses = [],
     cf_DrummerAddress = [], cf_DrummerNodeID = 0, cf_DrummerNodeHostDirectory = [],
     cf_DrummerWALDirectory = [], cf_MutualTLS = False, cf_CAFile = [], cf_CertFile = [],
     cf_KeyFile = [], cf_MaxInMemLogSize = 0\<rparr>"

section \<open>Messages with the same contents\<close>

text \<open>
  Two decodings of one message agree but for the iteration order of the maps they hold.
\<close>

definition si_eq :: "ShardInfo \<Rightarrow> ShardInfo \<Rightarrow> bool" where
  "si_eq a b \<longleftrightarrow> mrel (=) (si_Replicas a) (si_Replicas b) \<and>
     a\<lparr>si_Replicas := []\<rparr> = b\<lparr>si_Replicas := []\<rparr>"

definition nhi_eq :: "NodeHostInfo \<Rightarrow> NodeHostInfo \<Rightarrow> bool" where
  "nhi_eq a b \<longleftrightarrow> list_all2 si_eq (nhi_ShardInfo a) (nhi_ShardInfo b) \<and>
     a\<lparr>nhi_ShardInfo := []\<rparr> = b\<lparr>nhi_ShardInfo := []\<rparr>"

text \<open>A message a decoder can produce: its maps have distinct keys.\<close>

definition nhi_wf :: "NodeHostInfo \<Rightarrow> bool" where
  "nhi_wf nhi \<longleftrightarrow> list_all (\<lambda>ci. gm_ok (si_Replicas ci)) (nhi_ShardInfo nhi)"

lemma si_eqD:
  assumes "si_eq a b"
  shows "si_ShardId a = si_ShardId b" "si_ReplicaId a = si_ReplicaId b"
    "si_IsLeader a = si_IsLeader b" "si_ConfigChangeIndex a = si_ConfigChangeIndex b"
    "si_Incomplete a = si_Incomplete b" "si_Pending a = si_Pending b"
    "mrel (=) (si_Replicas a) (si_Replicas b)"
  using assms by (cases a; cases b; simp add: si_eq_def)+

lemma nhi_eqD:
  assumes "nhi_eq a b"
  shows "nhi_RaftAddress a = nhi_RaftAddress b" "nhi_ShardIdList a = nhi_ShardIdList b"
    "nhi_LastTick a = nhi_LastTick b" "nhi_PlogInfoIncluded a = nhi_PlogInfoIncluded b"
    "nhi_PlogInfo a = nhi_PlogInfo b" "nhi_Region a = nhi_Region b"
    "nhi_RPCAddress a = nhi_RPCAddress b"
    "list_all2 si_eq (nhi_ShardInfo a) (nhi_ShardInfo b)"
  using assms by (cases a; cases b; simp add: nhi_eq_def)+

lemma nhi_eq_LastTick: "nhi_eq a b \<Longrightarrow> nhi_eq (a\<lparr>nhi_LastTick := t\<rparr>) (b\<lparr>nhi_LastTick := t\<rparr>)"
  by (cases a; cases b) (simp add: nhi_eq_def)

lemma nhi_eq_refl: "nhi_wf a \<Longrightarrow> nhi_eq a a"
  by (auto simp: nhi_eq_def nhi_wf_def si_eq_def list_all2_same list_all_iff intro!: mrel_refl)

end
