(* ===== verification/ShardImage.thy ===== *)
theory ShardImage
  imports Settings Drummerpb
begin

text \<open>
  The image of the managed Raft shards (\<^verbatim>\<open>shardimage.go\<close>): what Drummer knows of every
  replica from the reports of the NodeHosts, and which replicas it has found to be zombies.
  The state is \<open>multiShard\<close>; \<open>ms_update\<close> is the only operation that writes it.
\<close>

section \<open>State\<close>

record replica =
  rp_ShardID :: u64
  rp_ReplicaID :: u64
  rp_Address :: string
  rp_IsLeader :: bool
  rp_Tick :: u64
  rp_FirstObserved :: u64

record shard =
  sh_ShardID :: u64
  sh_ConfigChangeIndex :: u64
  sh_Replicas :: "(u64, replica) gomap"

record replicaToKill =
  tk_ShardID :: u64
  tk_ReplicaID :: u64
  tk_Address :: string

record multiShard =
  ms_Shards :: "(u64, shard) gomap"
  ms_ReplicasToKill :: "replicaToKill list"

definition newMultiShard :: multiShard where
  "newMultiShard = \<lparr>ms_Shards = [], ms_ReplicasToKill = []\<rparr>"

section \<open>Liveness of replicas and shards\<close>

definition EntityFailed :: "u64 \<Rightarrow> u64 \<Rightarrow> bool" where
  "EntityFailed lastTick currentTick \<longleftrightarrow> currentTick - lastTick > nodeHostTTL"

definition rp_failed :: "replica \<Rightarrow> u64 \<Rightarrow> bool" where
  "rp_failed n tick =
     (if rp_Tick n = 0 then rp_FirstObserved n = 0 else EntityFailed (rp_Tick n) tick)"

definition waitingToBeStarted :: "replica \<Rightarrow> u64 \<Rightarrow> bool" where
  "waitingToBeStarted n tick \<longleftrightarrow> rp_Tick n = 0 \<and> \<not> rp_failed n tick"

definition sh_quorum :: "shard \<Rightarrow> nat" where
  "sh_quorum c = length (sh_Replicas c) div 2 + 1"

definition getOkReplicas :: "shard \<Rightarrow> u64 \<Rightarrow> replica list" where
  "getOkReplicas c tick =
     filter (\<lambda>n. \<not> rp_failed n tick \<and> \<not> waitingToBeStarted n tick) (mvals (sh_Replicas c))"

definition getReplicasToStart :: "shard \<Rightarrow> u64 \<Rightarrow> replica list" where
  "getReplicasToStart c tick = filter (\<lambda>n. waitingToBeStarted n tick) (mvals (sh_Replicas c))"

definition getFailedReplicas :: "shard \<Rightarrow> u64 \<Rightarrow> replica list" where
  "getFailedReplicas c tick = filter (\<lambda>n. rp_failed n tick) (mvals (sh_Replicas c))"

definition sh_available :: "shard \<Rightarrow> u64 \<Rightarrow> bool" where
  "sh_available c currentTick \<longleftrightarrow> length (getOkReplicas c currentTick) \<ge> sh_quorum c"

section \<open>Copies and queries\<close>

definition sh_deepCopy :: "shard \<Rightarrow> shard" where
  "sh_deepCopy c = \<lparr>sh_ShardID = sh_ShardID c, sh_ConfigChangeIndex = sh_ConfigChangeIndex c,
     sh_Replicas = mmap (\<lambda>_ v. \<lparr>rp_ShardID = rp_ShardID v, rp_ReplicaID = rp_ReplicaID v,
       rp_Address = rp_Address v, rp_IsLeader = rp_IsLeader v, rp_Tick = rp_Tick v,
       rp_FirstObserved = rp_FirstObserved v\<rparr>) (sh_Replicas c)\<rparr>"

definition ms_deepCopy :: "multiShard \<Rightarrow> multiShard" where
  "ms_deepCopy mc = \<lparr>ms_Shards = mmap (\<lambda>_. sh_deepCopy) (ms_Shards mc), ms_ReplicasToKill = []\<rparr>"

definition getToKillReplicas :: "multiShard \<Rightarrow> replicaToKill list \<times> multiShard" where
  "getToKillReplicas mc =
     (map (\<lambda>ntk. \<lparr>tk_ShardID = tk_ShardID ntk, tk_ReplicaID = tk_ReplicaID ntk,
        tk_Address = tk_Address ntk\<rparr>) (ms_ReplicasToKill mc),
      mc\<lparr>ms_ReplicasToKill := []\<rparr>)"

definition ms_size :: "multiShard \<Rightarrow> nat" where
  "ms_size mc = length (ms_Shards mc)"

definition getUnavailableShards :: "multiShard \<Rightarrow> u64 \<Rightarrow> shard list" where
  "getUnavailableShards mc currentTick =
     filter (\<lambda>c. \<not> sh_available c currentTick) (mvals (ms_Shards mc))"

definition getShardInfo :: "multiShard \<Rightarrow> u64 \<Rightarrow> shard option" where
  "getShardInfo mc shardID = map_option sh_deepCopy (mget (ms_Shards mc) shardID)"

section \<open>Reports of NodeHosts\<close>

definition killRequestRequired :: "shard \<Rightarrow> ShardInfo \<Rightarrow> bool" where
  "killRequestRequired c ci =
     (if sh_ConfigChangeIndex c \<le> si_ConfigChangeIndex ci then False
      else list_all (\<lambda>nid. nid \<noteq> si_ReplicaId ci) (mkeys (sh_Replicas c)))"

definition newReplica :: "u64 \<Rightarrow> u64 \<Rightarrow> u64 \<Rightarrow> string \<Rightarrow> replica" where
  "newReplica shardID tick replicaID address =
     \<lparr>rp_ShardID = shardID, rp_ReplicaID = replicaID, rp_Address = address, rp_IsLeader = False,
      rp_Tick = 0, rp_FirstObserved = tick\<rparr>"

definition getShard :: "ShardInfo \<Rightarrow> u64 \<Rightarrow> shard" where
  "getShard ci tick =
     (let rs = mmap (newReplica (si_ShardId ci) tick) (si_Replicas ci)
      in \<lparr>sh_ShardID = si_ShardId ci, sh_ConfigChangeIndex = si_ConfigChangeIndex ci,
          sh_Replicas = (case mget rs (si_ReplicaId ci) of
             Some n \<Rightarrow> mput (si_ReplicaId ci) (n\<lparr>rp_IsLeader := si_IsLeader ci\<rparr>) rs
           | None \<Rightarrow> rs)\<rparr>)"

text \<open>The loop of \<open>syncShard\<close> that adds the new replicas and checks the known ones.\<close>

fun addReplicas :: "u64 \<Rightarrow> u64 \<Rightarrow> (u64 \<times> string) list \<Rightarrow> (u64, replica) gomap
    \<Rightarrow> unit go \<times> (u64, replica) gomap" where
  "addReplicas shardID lastTick [] rs = (Inr (), rs)"
| "addReplicas shardID lastTick ((replicaID, address) # xs) rs =
     (case mget rs replicaID of
        None \<Rightarrow> addReplicas shardID lastTick xs
                  (mput replicaID (newReplica shardID lastTick replicaID address) rs)
      | Some n \<Rightarrow>
          if rp_Address n \<noteq> address then (panic ReplicaAddressChanged, rs)
          else addReplicas shardID lastTick xs rs)"

text \<open>The loop over \<^verbatim>\<open>addrMap\<close>: is some address seen twice?\<close>

fun hasDupAddr :: "string list \<Rightarrow> replica list \<Rightarrow> bool" where
  "hasDupAddr seen [] = False"
| "hasDupAddr seen (n # ns) =
     (if rp_Address n \<in> set seen then True else hasDupAddr (rp_Address n # seen) ns)"

definition syncShard :: "shard \<Rightarrow> ShardInfo \<Rightarrow> u64 \<Rightarrow> bool go \<times> shard" where
  "syncShard c ci lastTick =
     (if sh_ConfigChangeIndex c > si_ConfigChangeIndex ci then (Inr True, c)
      else if sh_ConfigChangeIndex c = si_ConfigChangeIndex ci \<and>
        length (sh_Replicas c) \<noteq> length (si_Replicas ci) then (panic SameIndexDifferentCount, c)
      else if sh_ConfigChangeIndex c = si_ConfigChangeIndex ci \<and>
        \<not> list_all (mhas (sh_Replicas c)) (mkeys (si_Replicas ci)) then (panic DifferentReplicaIDs, c)
      else
        (let c1 = c\<lparr>sh_ConfigChangeIndex := si_ConfigChangeIndex ci\<rparr>;
             toRemove = filter (\<lambda>nid. \<not> mhas (si_Replicas ci) nid) (mkeys (sh_Replicas c1));
             kept = fold mdel toRemove (sh_Replicas c1)
         in case addReplicas (si_ShardId ci) lastTick (si_Replicas ci) kept of
              (Inl e, rs) \<Rightarrow> (Inl e, c1\<lparr>sh_Replicas := rs\<rparr>)
            | (Inr _, rs) \<Rightarrow>
                (if hasDupAddr [] (mvals rs) then (panic DuplicatedAddress, c1\<lparr>sh_Replicas := rs\<rparr>)
                 else (Inr False, c1\<lparr>sh_Replicas := rs\<rparr>))))"

text \<open>
  One iteration of the loop of \<open>doUpdate\<close>. The loop's state is the pair of \<open>toKill\<close> and the
  map of shards.
\<close>

definition doUpdateShard :: "u64 \<Rightarrow> ShardInfo \<Rightarrow> ShardInfo list \<times> (u64, shard) gomap
    \<Rightarrow> unit go \<times> (ShardInfo list \<times> (u64, shard) gomap)" where
  "doUpdateShard lastTick currentShard = (\<lambda>(toKill, shards).
     let cid = si_ShardId currentShard in
     if si_Pending currentShard then
       (case mget shards cid of
          Some ec \<Rightarrow>
            (if length (sh_Replicas ec) > 0 \<and> sh_ConfigChangeIndex ec > 0 \<and>
                killRequestRequired ec currentShard
             then (Inr (), (toKill @ [currentShard], shards)) else (Inr (), (toKill, shards)))
        | None \<Rightarrow> (Inr (), (toKill, shards)))
     else if \<not> si_Incomplete currentShard then
       (case mget shards cid of
          None \<Rightarrow> (Inr (), (toKill, mput cid (getShard currentShard lastTick) shards))
        | Some ec \<Rightarrow>
            (case syncShard ec currentShard lastTick of
               (Inl e, ec') \<Rightarrow> (Inl e, (toKill, mput cid ec' shards))
             | (Inr rejected, ec') \<Rightarrow>
                 (if rejected \<and> killRequestRequired ec' currentShard
                  then (Inr (), (toKill @ [currentShard], mput cid ec' shards))
                  else (Inr (), (toKill, mput cid ec' shards)))))
     else
       (case mget shards cid of
          Some ec \<Rightarrow>
            (if length (sh_Replicas ec) > 0 \<and> sh_ConfigChangeIndex ec > 0 \<and>
                killRequestRequired ec currentShard
             then (Inr (), (toKill @ [currentShard], shards)) else (Inr (), (toKill, shards)))
        | None \<Rightarrow> (Inr (), (toKill, shards))))"

definition tickShard :: "u64 \<Rightarrow> ShardInfo \<Rightarrow> (u64, shard) gomap \<Rightarrow> (u64, shard) gomap" where
  "tickShard lastTick ci shards =
     (case mget shards (si_ShardId ci) of
        None \<Rightarrow> shards
      | Some ec \<Rightarrow>
          (case mget (sh_Replicas ec) (si_ReplicaId ci) of
             None \<Rightarrow> shards
           | Some n \<Rightarrow> mput (si_ShardId ci)
               (ec\<lparr>sh_Replicas := mput (si_ReplicaId ci) (n\<lparr>rp_Tick := lastTick\<rparr>) (sh_Replicas ec)\<rparr>)
               shards))"

definition updateNodeTick :: "(u64, shard) gomap \<Rightarrow> NodeHostInfo \<Rightarrow> (u64, shard) gomap" where
  "updateNodeTick shards nhi = fold (tickShard (nhi_LastTick nhi)) (nhi_ShardInfo nhi) shards"

definition doUpdate :: "multiShard \<Rightarrow> NodeHostInfo \<Rightarrow> ShardInfo list go \<times> multiShard" where
  "doUpdate mc nhi =
     (case foreach (doUpdateShard (nhi_LastTick nhi)) (nhi_ShardInfo nhi) ([], ms_Shards mc) of
        (Inl e, (toKill, shards)) \<Rightarrow> (Inl e, mc\<lparr>ms_Shards := shards\<rparr>)
      | (Inr _, (toKill, shards)) \<Rightarrow>
          (Inr toKill, mc\<lparr>ms_Shards := updateNodeTick shards nhi\<rparr>))"

definition leaderShard :: "ShardInfo \<Rightarrow> (u64, shard) gomap \<Rightarrow> (u64, shard) gomap" where
  "leaderShard ci shards =
     (case mget shards (si_ShardId ci) of
        None \<Rightarrow> shards
      | Some c \<Rightarrow>
          (if sh_ConfigChangeIndex c > si_ConfigChangeIndex ci then shards
           else case mget (sh_Replicas c) (si_ReplicaId ci) of
             None \<Rightarrow> shards
           | Some n \<Rightarrow>
               (if \<not> si_IsLeader ci \<and> rp_IsLeader n then
                  mput (si_ShardId ci) (c\<lparr>sh_Replicas :=
                    mput (si_ReplicaId ci) (n\<lparr>rp_IsLeader := False\<rparr>) (sh_Replicas c)\<rparr>) shards
                else if si_IsLeader ci \<and> \<not> rp_IsLeader n then
                  (let cleared = mmap (\<lambda>_ cn. cn\<lparr>rp_IsLeader := False\<rparr>) (sh_Replicas c)
                   in mput (si_ShardId ci) (c\<lparr>sh_Replicas :=
                        mput (si_ReplicaId ci) (n\<lparr>rp_IsLeader := True\<rparr>) cleared\<rparr>) shards)
                else shards)))"

definition syncLeaderInfo :: "multiShard \<Rightarrow> NodeHostInfo \<Rightarrow> multiShard" where
  "syncLeaderInfo mc nhi = mc\<lparr>ms_Shards := fold leaderShard (nhi_ShardInfo nhi) (ms_Shards mc)\<rparr>"

definition ms_update :: "multiShard \<Rightarrow> NodeHostInfo \<Rightarrow> unit go \<times> multiShard" where
  "ms_update mc nhi =
     (case doUpdate mc nhi of
        (Inl e, mc1) \<Rightarrow> (Inl e, mc1)
      | (Inr toKill, mc1) \<Rightarrow>
          (Inr (), syncLeaderInfo (mc1\<lparr>ms_ReplicasToKill := ms_ReplicasToKill mc1 @
             map (\<lambda>ntk. \<lparr>tk_ShardID = si_ShardId ntk, tk_ReplicaID = si_ReplicaId ntk,
                    tk_Address = nhi_RaftAddress nhi\<rparr>) toKill\<rparr>) nhi))"

end
