(* ===== verification/ShardImageFacts.thy ===== *)
theory ShardImageFacts
  imports ShardImage
begin

text \<open>
  What the operations of the shard image do: the contents of a shard after a report, and that
  the result does not depend on the iteration order of any map (\<open>sh_eq\<close>, \<open>ms_eq\<close>).
\<close>

section \<open>One report applied to one shard\<close>

lemma addReplicas_conflict:
  assumes "distinct (map fst xs)" and "(rid, a) \<in> set xs" and "mget rs rid = Some n"
    and "rp_Address n \<noteq> a"
  shows "fst (addReplicas sid t xs rs) = panic ReplicaAddressChanged"
  using assms
proof (induction xs arbitrary: rs)
  case (Cons x xs)
  obtain rid' a' where x: "x = (rid', a')" by (cases x)
  show ?case
  proof (cases "(rid, a) = x")
    case True
    with x Cons.prems show ?thesis by simp
  next
    case False
    with Cons.prems have mem: "(rid, a) \<in> set xs" and d: "distinct (map fst xs)" by auto
    with Cons.prems(1) x have ne: "rid' \<noteq> rid" by force
    have "fst (addReplicas sid t xs rs) = panic ReplicaAddressChanged"
      by (rule Cons.IH [OF d mem Cons.prems(3,4)])
    moreover have "fst (addReplicas sid t xs (mput rid' r rs)) = panic ReplicaAddressChanged" for r
      by (rule Cons.IH [OF d mem _ Cons.prems(4)]) (use ne Cons.prems(3) in \<open>simp add: gomap_simps\<close>)
    ultimately show ?thesis using x by (auto split: option.splits)
  qed
qed simp

lemma addReplicas_ok:
  assumes "distinct (map fst xs)" and "gm_ok rs"
    and "\<And>rid a n. (rid, a) \<in> set xs \<Longrightarrow> mget rs rid = Some n \<Longrightarrow> rp_Address n = a"
  shows "\<exists>rs'. addReplicas sid t xs rs = (Inr (), rs') \<and> gm_ok rs' \<and>
    (\<forall>k. mget rs' k = (case mget rs k of Some n \<Rightarrow> Some n
                       | None \<Rightarrow> map_option (newReplica sid t k) (mget xs k)))"
  using assms
proof (induction xs arbitrary: rs)
  case Nil
  then show ?case by (auto split: option.splits)
next
  case (Cons x xs)
  obtain rid a where x: "x = (rid, a)" by (cases x)
  have d: "distinct (map fst xs)" and notin: "rid \<notin> fst ` set xs" using Cons.prems(1) x by auto
  show ?case
  proof (cases "mget rs rid")
    case None
    let ?rs = "mput rid (newReplica sid t rid a) rs"
    have "\<exists>rs'. addReplicas sid t xs ?rs = (Inr (), rs') \<and> gm_ok rs' \<and>
      (\<forall>k. mget rs' k = (case mget ?rs k of Some n \<Rightarrow> Some n
                         | None \<Rightarrow> map_option (newReplica sid t k) (mget xs k)))"
    proof (rule Cons.IH [OF d])
      fix rid' a' n assume "(rid', a') \<in> set xs" "mget ?rs rid' = Some n"
      moreover have "rid' \<noteq> rid" using notin calculation(1) by force
      ultimately show "rp_Address n = a'"
        using Cons.prems(3) [of rid' a' n] by (simp add: gomap_simps)
    qed (use Cons.prems(2) in simp)
    then obtain rs' where rs': "addReplicas sid t xs ?rs = (Inr (), rs')" "gm_ok rs'"
      "\<And>k. mget rs' k = (case mget ?rs k of Some n \<Rightarrow> Some n
                         | None \<Rightarrow> map_option (newReplica sid t k) (mget xs k))" by blast
    have "mget rs' k = (case mget rs k of Some n \<Rightarrow> Some n
                       | None \<Rightarrow> map_option (newReplica sid t k) (mget (x # xs) k))" for k
      using None x by (cases "k = rid") (auto simp: rs'(3) gomap_simps split: option.splits)
    with rs' None x show ?thesis by simp
  next
    case (Some n)
    have "\<exists>rs'. addReplicas sid t xs rs = (Inr (), rs') \<and> gm_ok rs' \<and>
      (\<forall>k. mget rs' k = (case mget rs k of Some n \<Rightarrow> Some n
                         | None \<Rightarrow> map_option (newReplica sid t k) (mget xs k)))"
      by (rule Cons.IH [OF d Cons.prems(2)]) (erule Cons.prems(3) [rotated], simp)
    moreover have "rp_Address n = a" using Cons.prems(3) [of rid a n] Some x by simp
    moreover have "(case mget rs k of Some n \<Rightarrow> Some n
        | None \<Rightarrow> map_option (newReplica sid t k) (mget xs k)) =
      (case mget rs k of Some n \<Rightarrow> Some n
        | None \<Rightarrow> map_option (newReplica sid t k) (mget (x # xs) k))" for k
      using Some x by (cases "k = rid") (auto split: option.splits)
    ultimately show ?thesis using Some x by simp
  qed
qed

lemma hasDupAddr_iff:
  "hasDupAddr seen ns \<longleftrightarrow> \<not> distinct (map rp_Address ns) \<or> set seen \<inter> rp_Address ` set ns \<noteq> {}"
  by (induction seen ns rule: hasDupAddr.induct) auto

text \<open>The replicas a report leaves in a shard: those it names, the known ones unchanged.\<close>

definition syncedReplica :: "ShardInfo \<Rightarrow> u64 \<Rightarrow> (u64, replica) gomap \<Rightarrow> u64 \<Rightarrow> replica option" where
  "syncedReplica ci t rs rid =
     (case mget (si_Replicas ci) rid of
        None \<Rightarrow> None
      | Some a \<Rightarrow> Some (case mget rs rid of Some n \<Rightarrow> n | None \<Rightarrow> newReplica (si_ShardId ci) t rid a))"

text \<open>Does the report name a known replica at another address?\<close>

definition addrConflict :: "shard \<Rightarrow> ShardInfo \<Rightarrow> bool" where
  "addrConflict c ci \<longleftrightarrow> (\<exists>rid a n. mget (si_Replicas ci) rid = Some a \<and>
     mget (sh_Replicas c) rid = Some n \<and> rp_Address n \<noteq> a)"

text \<open>\<open>syncShard\<close> by cases; the last case names the new contents by their lookups.\<close>

lemma syncShard_stale:
  "sh_ConfigChangeIndex c > si_ConfigChangeIndex ci \<Longrightarrow> syncShard c ci t = (Inr True, c)"
  by (simp add: syncShard_def)

definition sameIndex :: "shard \<Rightarrow> ShardInfo \<Rightarrow> bool" where
  "sameIndex c ci \<longleftrightarrow> sh_ConfigChangeIndex c = si_ConfigChangeIndex ci"

lemma kept_get:
  "mget (fold mdel (filter (\<lambda>nid. \<not> mhas (si_Replicas ci) nid) (mkeys rs)) rs) k =
     (if mhas (si_Replicas ci) k then mget rs k else None)"
proof -
  have "filter (\<lambda>p. fst p \<notin> set (filter (\<lambda>nid. \<not> mhas (si_Replicas ci) nid) (mkeys rs))) rs =
    filter (\<lambda>p. mhas (si_Replicas ci) (fst p)) rs"
    by (rule filter_cong) (auto simp: mkeys_def)
  then show ?thesis
    by (simp only: fold_mdel mget_filter_key)
qed

lemma syncShard_accept:
  assumes idx: "\<not> sh_ConfigChangeIndex c > si_ConfigChangeIndex ci"
    and same: "sameIndex c ci \<Longrightarrow> length (sh_Replicas c) = length (si_Replicas ci) \<and>
      list_all (mhas (sh_Replicas c)) (mkeys (si_Replicas ci))"
    and ok: "gm_ok (sh_Replicas c)" "gm_ok (si_Replicas ci)" and "\<not> addrConflict c ci"
  shows "\<exists>rs. gm_ok rs \<and> (\<forall>k. mget rs k = syncedReplica ci t (sh_Replicas c) k) \<and>
    syncShard c ci t =
      (if distinct (map rp_Address (mvals rs)) then Inr False else panic DuplicatedAddress,
       c\<lparr>sh_ConfigChangeIndex := si_ConfigChangeIndex ci, sh_Replicas := rs\<rparr>)"
proof -
  let ?kept = "fold mdel (filter (\<lambda>nid. \<not> mhas (si_Replicas ci) nid) (mkeys (sh_Replicas c)))
    (sh_Replicas c)"
  have "\<exists>rs. addReplicas (si_ShardId ci) t (si_Replicas ci) ?kept = (Inr (), rs) \<and> gm_ok rs \<and>
    (\<forall>k. mget rs k = (case mget ?kept k of Some n \<Rightarrow> Some n
          | None \<Rightarrow> map_option (newReplica (si_ShardId ci) t k) (mget (si_Replicas ci) k)))"
  proof (rule addReplicas_ok)
    show "distinct (map fst (si_Replicas ci))" using ok(2) by (simp add: gm_ok_def)
    show "gm_ok ?kept" using ok(1) by (simp add: fold_mdel)
    show "rp_Address n = a" if "(rid, a) \<in> set (si_Replicas ci)" "mget ?kept rid = Some n" for rid a n
      using that ok(2) assms(5) by (auto simp: kept_get addrConflict_def mget_in_set split: if_splits)
  qed
  then obtain rs where rs: "addReplicas (si_ShardId ci) t (si_Replicas ci) ?kept = (Inr (), rs)"
    "gm_ok rs" "\<And>k. mget rs k = (case mget ?kept k of Some n \<Rightarrow> Some n
          | None \<Rightarrow> map_option (newReplica (si_ShardId ci) t k) (mget (si_Replicas ci) k))" by blast
  have "mget rs k = syncedReplica ci t (sh_Replicas c) k" for k
    unfolding rs(3) kept_get by (auto simp: syncedReplica_def mhas_def split: option.splits)
  moreover have "syncShard c ci t =
      (if distinct (map rp_Address (mvals rs)) then Inr False else panic DuplicatedAddress,
       c\<lparr>sh_ConfigChangeIndex := si_ConfigChangeIndex ci, sh_Replicas := rs\<rparr>)"
    using idx same rs(1) by (auto simp: syncShard_def hasDupAddr_iff sameIndex_def Let_def)
  ultimately show ?thesis using rs(2) by blast
qed

lemma syncShard_conflict:
  assumes "\<not> sh_ConfigChangeIndex c > si_ConfigChangeIndex ci"
    and "sameIndex c ci \<Longrightarrow> length (sh_Replicas c) = length (si_Replicas ci) \<and>
      list_all (mhas (sh_Replicas c)) (mkeys (si_Replicas ci))"
    and "gm_ok (si_Replicas ci)" and "addrConflict c ci"
  shows "fst (syncShard c ci t) = panic ReplicaAddressChanged"
proof -
  obtain rid a n where conf: "mget (si_Replicas ci) rid = Some a" "mget (sh_Replicas c) rid = Some n"
    "rp_Address n \<noteq> a" using assms(4) by (auto simp: addrConflict_def)
  let ?kept = "fold mdel (filter (\<lambda>nid. \<not> mhas (si_Replicas ci) nid) (mkeys (sh_Replicas c)))
    (sh_Replicas c)"
  have "fst (addReplicas (si_ShardId ci) t (si_Replicas ci) ?kept) = panic ReplicaAddressChanged"
  proof (rule addReplicas_conflict)
    show "distinct (map fst (si_Replicas ci))" using assms(3) by (simp add: gm_ok_def)
    show "(rid, a) \<in> set (si_Replicas ci)" using conf(1) by (rule map_of_SomeD)
    show "mget ?kept rid = Some n" by (subst kept_get) (simp add: mhas_def conf)
  qed (rule conf(3))
  then show ?thesis
    using assms(1,2) by (auto simp: syncShard_def sameIndex_def Let_def panic_def
        split: prod.splits sum.splits)
qed

lemma syncShard_count:
  "\<not> sh_ConfigChangeIndex c > si_ConfigChangeIndex ci \<Longrightarrow> sameIndex c ci \<Longrightarrow>
   length (sh_Replicas c) \<noteq> length (si_Replicas ci) \<Longrightarrow>
   syncShard c ci t = (panic SameIndexDifferentCount, c)"
  by (simp add: syncShard_def sameIndex_def)

lemma syncShard_ids:
  "\<not> sh_ConfigChangeIndex c > si_ConfigChangeIndex ci \<Longrightarrow> sameIndex c ci \<Longrightarrow>
   length (sh_Replicas c) = length (si_Replicas ci) \<Longrightarrow>
   \<not> list_all (mhas (sh_Replicas c)) (mkeys (si_Replicas ci)) \<Longrightarrow>
   syncShard c ci t = (panic DifferentReplicaIDs, c)"
  by (simp add: syncShard_def sameIndex_def)

end
