(* ===== verification/NodeHostImage.thy ===== *)
theory NodeHostImage
  imports ShardImage
begin

text \<open>
  The image of the NodeHosts (\<^verbatim>\<open>nodehostimage.go\<close>): one specification per Raft address,
  written by the reports of that NodeHost and by \<open>syncShardInfo\<close>, which marks every NodeHost
  with the shards that have a replica on it.
\<close>

section \<open>State\<close>

text \<open>A Go set \<^verbatim>\<open>map[uint64]struct{}\<close> is a map to \<open>unit\<close>.\<close>

record nodeHostSpec =
  nh_Address :: string
  nh_RPCAddress :: string
  nh_Region :: string
  nh_Tick :: u64
  nh_PersistentLog :: "LogInfo list"
  nh_Shards :: "(u64, unit) gomap"

record multiNodeHost =
  mn_Nodehosts :: "(string, nodeHostSpec) gomap"

definition newMultiNodeHost :: multiNodeHost where
  "newMultiNodeHost = \<lparr>mn_Nodehosts = []\<rparr>"

section \<open>Queries\<close>

definition nh_deepCopy :: "nodeHostSpec \<Rightarrow> nodeHostSpec" where
  "nh_deepCopy spec = \<lparr>nh_Address = nh_Address spec, nh_RPCAddress = [], nh_Region = nh_Region spec,
     nh_Tick = nh_Tick spec, nh_PersistentLog = nh_PersistentLog spec, nh_Shards = nh_Shards spec\<rparr>"

definition mn_deepCopy :: "multiNodeHost \<Rightarrow> multiNodeHost" where
  "mn_deepCopy m = \<lparr>mn_Nodehosts = mmap (\<lambda>_. nh_deepCopy) (mn_Nodehosts m)\<rparr>"

fun hasLogIn :: "LogInfo list \<Rightarrow> u64 \<Rightarrow> u64 \<Rightarrow> bool" where
  "hasLogIn [] shardID replicaID = False"
| "hasLogIn (v # vs) shardID replicaID =
     (if li_ShardId v = shardID \<and> li_ReplicaId v = replicaID then True
      else hasLogIn vs shardID replicaID)"

definition hasLog :: "nodeHostSpec \<Rightarrow> u64 \<Rightarrow> u64 \<Rightarrow> bool" where
  "hasLog spec shardID replicaID = hasLogIn (nh_PersistentLog spec) shardID replicaID"

definition nh_available :: "nodeHostSpec \<Rightarrow> u64 \<Rightarrow> bool" where
  "nh_available spec currentTick \<longleftrightarrow> \<not> EntityFailed (nh_Tick spec) currentTick"

definition mn_get :: "multiNodeHost \<Rightarrow> string \<Rightarrow> nodeHostSpec option" where
  "mn_get m address = mget (mn_Nodehosts m) address"

definition toArray :: "multiNodeHost \<Rightarrow> nodeHostSpec list" where
  "toArray m = mvals (mn_Nodehosts m)"

section \<open>Reports of NodeHosts\<close>

text \<open>The set built by \<^verbatim>\<open>for _, cid := range nhi.ShardIdList\<close>.\<close>

definition shardIdSet :: "u64 list \<Rightarrow> (u64, unit) gomap" where
  "shardIdSet ids = fold (\<lambda>cid. mput cid ()) ids []"

definition toNodeHostSpec :: "NodeHostInfo \<Rightarrow> nodeHostSpec" where
  "toNodeHostSpec nhi = \<lparr>nh_Address = nhi_RaftAddress nhi, nh_RPCAddress = nhi_RPCAddress nhi,
     nh_Region = nhi_Region nhi, nh_Tick = nhi_LastTick nhi,
     nh_PersistentLog = (if nhi_PlogInfoIncluded nhi then nhi_PlogInfo nhi else []),
     nh_Shards = shardIdSet (nhi_ShardIdList nhi)\<rparr>"

definition syncNodeHostSpec :: "multiNodeHost \<Rightarrow> NodeHostInfo \<Rightarrow> unit go \<times> multiNodeHost" where
  "syncNodeHostSpec m nhi =
     (case mget (mn_Nodehosts m) (nhi_RaftAddress nhi) of
        None \<Rightarrow> (panic NodeHostSpecNotFound, m)
      | Some spec \<Rightarrow>
          (let spec1 = spec\<lparr>nh_Region := nhi_Region nhi, nh_Tick := nhi_LastTick nhi\<rparr>;
               spec2 = (if nhi_PlogInfoIncluded nhi
                        then spec1\<lparr>nh_PersistentLog := nhi_PlogInfo nhi\<rparr> else spec1);
               spec3 = spec2\<lparr>nh_Shards := shardIdSet (nhi_ShardIdList nhi)\<rparr>
           in (Inr (), m\<lparr>mn_Nodehosts := mput (nhi_RaftAddress nhi) spec3 (mn_Nodehosts m)\<rparr>)))"

definition mn_update :: "multiNodeHost \<Rightarrow> NodeHostInfo \<Rightarrow> unit go \<times> multiNodeHost" where
  "mn_update m nhi =
     (if mhas (mn_Nodehosts m) (nhi_RaftAddress nhi) then syncNodeHostSpec m nhi
      else (Inr (), m\<lparr>mn_Nodehosts :=
              mput (nhi_RaftAddress nhi) (toNodeHostSpec nhi) (mn_Nodehosts m)\<rparr>))"

definition markShard :: "u64 \<Rightarrow> replica \<Rightarrow> (string, nodeHostSpec) gomap
    \<Rightarrow> (string, nodeHostSpec) gomap" where
  "markShard cid node hosts =
     (case mget hosts (rp_Address node) of
        None \<Rightarrow> hosts
      | Some spec \<Rightarrow>
          mput (rp_Address node) (spec\<lparr>nh_Shards := mput cid () (nh_Shards spec)\<rparr>) hosts)"

definition markReplicas :: "u64 \<times> shard \<Rightarrow> (string, nodeHostSpec) gomap
    \<Rightarrow> (string, nodeHostSpec) gomap" where
  "markReplicas entry = fold (markShard (fst entry)) (mvals (sh_Replicas (snd entry)))"

definition syncShardInfo :: "multiNodeHost \<Rightarrow> multiShard \<Rightarrow> multiNodeHost" where
  "syncShardInfo m mc = m\<lparr>mn_Nodehosts := fold markReplicas (ms_Shards mc) (mn_Nodehosts m)\<rparr>"

end
