(* ===== verification/ShardStates.thy ===== *)
theory ShardStates
  imports NodeHostImage
begin

text \<open>
  The state of a shard as reported to clients: \<^verbatim>\<open>toShardState\<close> of \<^verbatim>\<open>server.go\<close>, called by the
  database's \<^verbatim>\<open>SHARD_STATES\<close> lookup.
\<close>

text \<open>The loop over \<^verbatim>\<open>c.Replicas\<close>: the map of addresses and the last leader seen.\<close>

fun collectNodes :: "replica list \<Rightarrow> (u64, string) gomap \<times> u64 \<Rightarrow> (u64, string) gomap \<times> u64" where
  "collectNodes [] st = st"
| "collectNodes (n # ns) (nodes, leaderReplicaID) =
     collectNodes ns (mput (rp_ReplicaID n) (rp_Address n) nodes,
       if rp_IsLeader n then rp_ReplicaID n else leaderReplicaID)"

definition rpcAddress :: "multiNodeHost \<Rightarrow> string \<Rightarrow> string" where
  "rpcAddress mnh addr =
     (case mn_get mnh addr of Some cs \<Rightarrow> nh_RPCAddress cs | None \<Rightarrow> [])"

definition toShardState :: "multiShard \<Rightarrow> multiNodeHost \<Rightarrow> u64 \<Rightarrow> u64 \<Rightarrow> ShardState go" where
  "toShardState mc mnh tick clusterID =
     (case getShardInfo mc clusterID of
        None \<Rightarrow> Inl (Err ErrShardNotFound)
      | Some c \<Rightarrow>
          (let (nodes, leaderReplicaID) = collectNodes (mvals (sh_Replicas c)) ([], 0);
               rpcAddresses = mmap (\<lambda>_. rpcAddress mnh) nodes;
               r = \<lparr>ss_ShardId = sh_ShardID c, ss_LeaderReplicaId = 0, ss_Replicas = nodes,
                    ss_RPCAddresses = rpcAddresses,
                    ss_State = (if \<not> sh_available c tick then ShardState_UNAVAILABLE
                                else ShardState_OK),
                    ss_ConfigChangeIndex = sh_ConfigChangeIndex c\<rparr>
           in Inr (if leaderReplicaID \<noteq> 0 then r\<lparr>ss_LeaderReplicaId := leaderReplicaID\<rparr> else r)))"

lemma sh_deepCopy_id [simp]: "sh_deepCopy c = c"
  by (cases c) (auto simp: sh_deepCopy_def mmap_def case_prod_unfold intro!: map_idI)

end
