(* ===== verification/DrummerDB.thy ===== *)
theory DrummerDB
  imports ShardStates
begin

text \<open>
  The replicated Drummer database (\<^verbatim>\<open>db.go\<close>): the state machine every Drummer server runs over
  the Raft log. \<open>Update_cmd\<close> applies one log entry, \<open>Lookup_query\<close> answers a linearizable read.

  Protobuf, JSON and MD5 are third-party or standard encoders: they are the fields of \<open>codec\<close>
  and \<open>snapCodec\<close>, arguments of the definitions that call them. A panic of the state machine
  leaves the writes made before it in place, so every operation returns its result with the
  database.
\<close>

section \<open>Constants and state\<close>

definition deploymentIDKey :: string where "deploymentIDKey = ''deployment-id''"
definition launchedKey :: string where "launchedKey = ''launched-flag''"
definition bootstrappedKey :: string where "bootstrappedKey = ''bootstrapped-flag''"
definition electionKey :: string where "electionKey = ''election-key''"
definition regionsKey :: string where "regionsKey = ''regions-key''"

definition DBUpdated :: u64 where "DBUpdated = 0"
definition ShardExists :: u64 where "ShardExists = 1"
definition DBBootstrapped :: u64 where "DBBootstrapped = 2"
definition currentVersion :: u64 where "currentVersion = 1"
definition DBKVUpdated :: u64 where "DBKVUpdated = 0"
definition DBKVFinalized :: u64 where "DBKVFinalized = 1"
definition DBKVRejected :: u64 where "DBKVRejected = 2"

lemmas db_codes = DBUpdated_def ShardExists_def DBBootstrapped_def DBKVUpdated_def
  DBKVFinalized_def DBKVRejected_def

record db =
  db_ShardID :: u64
  db_ReplicaID :: u64
  db_Version :: u64
  db_Tick :: u64
  db_LaunchDeadline :: u64
  db_Failed :: bool
  db_Shards :: "(u64, Shard) gomap"
  db_KVMap :: "(string, string) gomap"
  db_ShardImage :: multiShard
  db_NodeHostImage :: multiNodeHost
  db_NodeHostInfo :: "(string, NodeHostInfo) gomap"
  db_Requests :: "(string, NodeHostRequest list) gomap"
  db_Outgoing :: "(string, NodeHostRequest list) gomap"

record schedulerContext =
  ctx_Tick :: u64
  ctx_Shards :: "(u64, Shard) gomap"
  ctx_Regions :: "Regions option"
  ctx_ShardImage :: multiShard
  ctx_NodeHostImage :: multiNodeHost
  ctx_NodeHostInfo :: "(string, NodeHostInfo) gomap"

text \<open>The encoders of messages (\<^verbatim>\<open>proto.Marshal\<close>, \<^verbatim>\<open>proto.Unmarshal\<close>, \<^verbatim>\<open>json.Marshal\<close>).\<close>

record codec =
  mKV :: "KV \<Rightarrow> string"
  uKV :: "string \<Rightarrow> KV option"
  mRegions :: "Regions \<Rightarrow> string"
  uRegions :: "string \<Rightarrow> Regions option"
  mUpdate :: "Update \<Rightarrow> string"
  uUpdate :: "string \<Rightarrow> Update option"
  mLookup :: "LookupRequest \<Rightarrow> string"
  uLookup :: "string \<Rightarrow> LookupRequest option"
  mResponse :: "LookupResponse \<Rightarrow> string"
  uResponse :: "string \<Rightarrow> LookupResponse option"
  mShardStates :: "ShardStates \<Rightarrow> string"
  uShardStates :: "string \<Rightarrow> ShardStates option"
  jContext :: "schedulerContext \<Rightarrow> string"
  ujContext :: "string \<Rightarrow> schedulerContext option"

text \<open>The documented law of the encoder of \<^verbatim>\<open>KV\<close>: decoding gives the message back.\<close>

definition kv_codec :: "codec \<Rightarrow> bool" where
  "kv_codec cdc \<longleftrightarrow> (\<forall>kv. uKV cdc (mKV cdc kv) = Some kv)"

definition NewDB :: "u64 \<Rightarrow> u64 \<Rightarrow> db" where
  "NewDB shardID replicaID = \<lparr>db_ShardID = shardID, db_ReplicaID = replicaID,
     db_Version = currentVersion, db_Tick = 0, db_LaunchDeadline = 0, db_Failed = False,
     db_Shards = [], db_KVMap = [], db_ShardImage = newMultiShard,
     db_NodeHostImage = newMultiNodeHost, db_NodeHostInfo = [], db_Requests = [], db_Outgoing = []\<rparr>"

definition assertNotFailed :: "db \<Rightarrow> unit go" where
  "assertNotFailed d = (if db_Failed d then panic SystemFailedToLaunch else Inr ())"

section \<open>Launch tracking and the tick\<close>

fun launchedLoop :: "shard list \<Rightarrow> (u64, unit) gomap \<Rightarrow> (u64, unit) gomap" where
  "launchedLoop [] shards = shards"
| "launchedLoop (c # cs) shards =
     (if length (filter (\<lambda>n. rp_Tick n > 0) (mvals (sh_Replicas c))) = length (sh_Replicas c)
      then launchedLoop cs (mput (sh_ShardID c) () shards) else launchedLoop cs shards)"

definition getLaunchedShards :: "db \<Rightarrow> (u64, unit) gomap" where
  "getLaunchedShards d = launchedLoop (mvals (ms_Shards (db_ShardImage d))) []"

definition onUpdatedShardInfo :: "db \<Rightarrow> db" where
  "onUpdatedShardInfo d =
     (if db_LaunchDeadline d > 0 then
        (if length (getLaunchedShards d) = length (db_Shards d) then d\<lparr>db_LaunchDeadline := 0\<rparr> else d)
      else d)"

definition checkLaunchDeadline :: "db \<Rightarrow> unit go \<times> db" where
  "checkLaunchDeadline d =
     (let d1 = (if db_LaunchDeadline d > 0 \<and> db_Tick d > db_LaunchDeadline d
                then d\<lparr>db_Failed := True\<rparr> else d)
      in (assertNotFailed d1, d1))"

definition applyTickUpdate :: "db \<Rightarrow> u64 go \<times> db" where
  "applyTickUpdate d =
     (case checkLaunchDeadline (d\<lparr>db_Tick := db_Tick d + tickIntervalSecond\<rparr>) of
        (Inl e, d1) \<Rightarrow> (Inl e, d1)
      | (Inr _, d1) \<Rightarrow> (Inr (db_Tick d1), d1))"

section \<open>Key-value records\<close>

definition applyKVUpdate :: "codec \<Rightarrow> db \<Rightarrow> KV \<Rightarrow> u64 go \<times> db" where
  "applyKVUpdate cdc d kv =
     (if length (kv_Key kv) = 0 \<or> length (kv_Value kv) = 0 then (panic EmptyKeyOrValue, d)
      else
        (let mkv = mKV cdc kv in
         case mget (db_KVMap d) (kv_Key kv) of
           None \<Rightarrow> (Inr DBKVUpdated, d\<lparr>db_KVMap := mput (kv_Key kv) mkv (db_KVMap d)\<rparr>)
         | Some bytes \<Rightarrow>
             (case uKV cdc bytes of
                None \<Rightarrow> (panic UnmarshalFailed, d)
              | Some oldRec \<Rightarrow>
                  (if kv_Finalized oldRec then (Inr DBKVFinalized, d)
                   else if kv_InstanceId oldRec = kv_InstanceId kv \<or>
                           kv_InstanceId oldRec = kv_OldInstanceId kv
                   then (Inr DBKVUpdated, d\<lparr>db_KVMap := mput (kv_Key kv) mkv (db_KVMap d)\<rparr>)
                   else (Inr DBKVRejected, d)))))"

definition setLaunched :: "codec \<Rightarrow> db \<Rightarrow> unit go \<times> db" where
  "setLaunched cdc d =
     (case applyKVUpdate cdc d
         (zero_KV\<lparr>kv_Key := launchedKey, kv_Value := ''true'', kv_Finalized := True\<rparr>) of
        (Inl e, d1) \<Rightarrow> (Inl e, d1)
      | (Inr code, d1) \<Rightarrow> (if code \<noteq> DBKVUpdated then (panic SetLaunchedFailed, d1) else (Inr (), d1)))"

definition launched :: "db \<Rightarrow> bool" where
  "launched d = mhas (db_KVMap d) launchedKey"

definition bootstrapped :: "db \<Rightarrow> bool" where
  "bootstrapped d = mhas (db_KVMap d) bootstrappedKey"

section \<open>Requests for NodeHosts\<close>

fun countLaunch :: "NodeHostRequest list \<Rightarrow> nat go" where
  "countLaunch [] = Inr 0"
| "countLaunch (r # rs) =
     (case nr_Change r of
        None \<Rightarrow> panic NilDereference
      | Some change \<Rightarrow>
          (case countLaunch rs of
             Inl e \<Rightarrow> Inl e
           | Inr launch \<Rightarrow>
               Inr (if rq_Type change = Request_CREATE \<and> \<not> nr_Join r \<and> \<not> nr_Restore r
                    then Suc launch else launch)))"

definition isLaunchRequests :: "NodeHostRequestCollection \<Rightarrow> bool go" where
  "isLaunchRequests reqs =
     (case countLaunch (nrc_Requests reqs) of
        Inl e \<Rightarrow> Inl e
      | Inr launch \<Rightarrow>
          (if launch > 0 \<and> launch \<noteq> length (nrc_Requests reqs) then panic MixedLaunchRequests
           else Inr (launch > 0)))"

definition groupRequest :: "NodeHostRequest \<Rightarrow> (string, NodeHostRequest list) gomap
    \<Rightarrow> (string, NodeHostRequest list) gomap" where
  "groupRequest r requests =
     (case mget requests (nr_RaftAddress r) of
        None \<Rightarrow> mput (nr_RaftAddress r) ([] @ [r]) requests
      | Some q \<Rightarrow> mput (nr_RaftAddress r) (q @ [r]) requests)"

definition applyRequestsUpdate :: "codec \<Rightarrow> db \<Rightarrow> NodeHostRequestCollection \<Rightarrow> u64 go \<times> db" where
  "applyRequestsUpdate cdc d reqs =
     (case isLaunchRequests reqs of
        Inl e \<Rightarrow> (Inl e, d)
      | Inr launch \<Rightarrow>
          (if launched d \<and> launch then (Inr 0, d)
           else
             (let requests = fold groupRequest (nrc_Requests reqs) [];
                  d1 = d\<lparr>db_Requests := fold (\<lambda>(addr, r). mput addr r) requests (db_Requests d)\<rparr>
              in if launch then
                   (case setLaunched cdc d1 of
                      (Inl e, d2) \<Rightarrow> (Inl e, d2)
                    | (Inr _, d2) \<Rightarrow>
                        (Inr (of_nat (length (nrc_Requests reqs))),
                         d2\<lparr>db_LaunchDeadline :=
                              db_Tick d2 + launchDeadlineTick * tickIntervalSecond\<rparr>))
                 else (Inr (of_nat (length (nrc_Requests reqs))), d1))))"

section \<open>Reports of NodeHosts\<close>

definition applyNodeHostInfoUpdate :: "db \<Rightarrow> NodeHostInfo \<Rightarrow> u64 go \<times> db" where
  "applyNodeHostInfoUpdate d nhi0 =
     (let addr = nhi_RaftAddress nhi0;
          d1 = d\<lparr>db_Outgoing := mdel addr (db_Outgoing d)\<rparr>;
          nhi = nhi0\<lparr>nhi_LastTick := db_Tick d1\<rparr>;
          d2 = d1\<lparr>db_NodeHostInfo := mput addr nhi (db_NodeHostInfo d1)\<rparr>
      in case ms_update (db_ShardImage d2) nhi of
           (Inl e, mc) \<Rightarrow> (Inl e, d2\<lparr>db_ShardImage := mc\<rparr>)
         | (Inr _, mc) \<Rightarrow>
             (let d3 = d2\<lparr>db_ShardImage := mc\<rparr> in
              case mn_update (db_NodeHostImage d3) nhi of
                (Inl e, mnh) \<Rightarrow> (Inl e, d3\<lparr>db_NodeHostImage := mnh\<rparr>)
              | (Inr _, mnh) \<Rightarrow>
                  (let d4 = d3\<lparr>db_NodeHostImage := syncShardInfo mnh (db_ShardImage d3)\<rparr>
                   in case mget (db_Requests d4) addr of
                        Some reqs \<Rightarrow>
                          (Inr (of_nat (length reqs)),
                           onUpdatedShardInfo (d4\<lparr>db_Requests := mdel addr (db_Requests d4),
                             db_Outgoing := mput addr reqs (db_Outgoing d4)\<rparr>))
                      | None \<Rightarrow> (Inr 0, onUpdatedShardInfo d4))))"

section \<open>Definitions of shards\<close>

definition tryCreateShard :: "db \<Rightarrow> Change \<Rightarrow> u64 go \<times> db" where
  "tryCreateShard d c =
     (if length (ch_Members c) = 0 then (panic EmptyMembers, d)
      else if length (ch_AppName c) = 0 then (panic EmptyAppName, d)
      else if bootstrapped d then (Inr DBBootstrapped, d)
      else if mhas (db_Shards d) (ch_ShardId c) then (Inr ShardExists, d)
      else (Inr DBUpdated, d\<lparr>db_Shards := mput (ch_ShardId c)
              \<lparr>sd_Members = ch_Members c, sd_ShardId = ch_ShardId c, sd_AppName = ch_AppName c\<rparr>
              (db_Shards d)\<rparr>))"

definition applyShardUpdate :: "db \<Rightarrow> Change \<Rightarrow> u64 go \<times> db" where
  "applyShardUpdate d c =
     (if ch_Type c = Change_CREATE then tryCreateShard d c else (panic UnknownChangeType, d))"

section \<open>The state machine interface\<close>

definition applyUpdate :: "codec \<Rightarrow> db \<Rightarrow> Update \<Rightarrow> u64 go \<times> db" where
  "applyUpdate cdc d c =
     (if up_Type c = Update_SHARD then
        (case up_Change c of None \<Rightarrow> (panic NilDereference, d) | Some x \<Rightarrow> applyShardUpdate d x)
      else if up_Type c = Update_KV then
        (case up_KvUpdate c of None \<Rightarrow> (panic NilDereference, d) | Some x \<Rightarrow> applyKVUpdate cdc d x)
      else if up_Type c = Update_NODEHOST_INFO then
        (case up_NodehostInfo c of None \<Rightarrow> (panic NilDereference, d)
           | Some x \<Rightarrow> applyNodeHostInfoUpdate d x)
      else if up_Type c = Update_REQUESTS then
        (case up_Requests c of None \<Rightarrow> (panic NilDereference, d)
           | Some x \<Rightarrow> applyRequestsUpdate cdc d x)
      else if up_Type c = Update_TICK then applyTickUpdate d
      else (panic UnknownUpdateType, d))"

definition Update_cmd :: "codec \<Rightarrow> db \<Rightarrow> string \<Rightarrow> u64 go \<times> db" where
  "Update_cmd cdc d cmd =
     (case assertNotFailed d of
        Inl e \<Rightarrow> (Inl e, d)
      | Inr _ \<Rightarrow> (case uUpdate cdc cmd of
                   None \<Rightarrow> (panic UnmarshalFailed, d)
                 | Some c \<Rightarrow> applyUpdate cdc d c))"

section \<open>Lookups\<close>

fun shardStatesLoop :: "db \<Rightarrow> u64 list \<Rightarrow> ShardState list option" where
  "shardStatesLoop d [] = Some []"
| "shardStatesLoop d (shardID # ids) =
     (case toShardState (db_ShardImage d) (db_NodeHostImage d) (db_Tick d) shardID of
        Inl _ \<Rightarrow> None
      | Inr ci \<Rightarrow> (case shardStatesLoop d ids of None \<Rightarrow> None | Some cs \<Rightarrow> Some (ci # cs)))"

definition handleShardStatesLookup :: "codec \<Rightarrow> db \<Rightarrow> LookupRequest \<Rightarrow> string go" where
  "handleShardStatesLookup cdc d req =
     (case lr_Stats req of
        None \<Rightarrow> panic NilDereference
      | Some stats \<Rightarrow>
          (case shardStatesLoop d (ssr_ShardIdList stats) of
             None \<Rightarrow> Inr []
           | Some cs \<Rightarrow> Inr (mShardStates cdc \<lparr>sts_Collection = cs\<rparr>)))"

definition schedulerContextOf :: "codec \<Rightarrow> db \<Rightarrow> schedulerContext go" where
  "schedulerContextOf cdc d =
     (let resp = \<lparr>ctx_Tick = db_Tick d, ctx_Shards = db_Shards d, ctx_Regions = None,
                  ctx_ShardImage = db_ShardImage d, ctx_NodeHostImage = db_NodeHostImage d,
                  ctx_NodeHostInfo = db_NodeHostInfo d\<rparr>
      in case mget (db_KVMap d) regionsKey of
           None \<Rightarrow> Inr resp
         | Some kvData \<Rightarrow>
             (case uKV cdc kvData of
                None \<Rightarrow> panic UnmarshalFailed
              | Some kv \<Rightarrow>
                  (case uRegions cdc (kv_Value kv) of
                     None \<Rightarrow> panic UnmarshalFailed
                   | Some regions \<Rightarrow> Inr (resp\<lparr>ctx_Regions := Some regions\<rparr>))))"

definition handleSchedulerContextLookup :: "codec \<Rightarrow> db \<Rightarrow> string go" where
  "handleSchedulerContextLookup cdc d =
     (case schedulerContextOf cdc d of Inl e \<Rightarrow> Inl e | Inr resp \<Rightarrow> Inr (jContext cdc resp))"

definition handleRequestsLookup :: "codec \<Rightarrow> db \<Rightarrow> LookupRequest \<Rightarrow> string go" where
  "handleRequestsLookup cdc d req =
     (let reqs = (case mget (db_Outgoing d) (lr_Address req) of None \<Rightarrow> [] | Some rs \<Rightarrow> rs)
      in Inr (mResponse cdc (zero_LookupResponse\<lparr>lp_Code := LookupResponse_OK,
                lp_Requests := Some \<lparr>nrc_Requests = reqs\<rparr>\<rparr>)))"

definition handleKVLookup :: "codec \<Rightarrow> db \<Rightarrow> LookupRequest \<Rightarrow> string go" where
  "handleKVLookup cdc d req =
     (case lr_KvLookup req of
        None \<Rightarrow> panic NilDereference
      | Some kvl \<Rightarrow>
          (if length (kv_Key kvl) = 0 then panic EmptyLookupKey
           else
             (let resp = zero_LookupResponse\<lparr>lp_KvResult := Some zero_KV, lp_Code := LookupResponse_OK\<rparr>
              in case mget (db_KVMap d) (kv_Key kvl) of
                   None \<Rightarrow> Inr (mResponse cdc resp)
                 | Some v \<Rightarrow>
                     (case uKV cdc v of
                        None \<Rightarrow> panic UnmarshalFailed
                      | Some kv \<Rightarrow> Inr (mResponse cdc (resp\<lparr>lp_KvResult := Some kv\<rparr>))))))"

definition handleShardLookup :: "codec \<Rightarrow> db \<Rightarrow> LookupRequest \<Rightarrow> string go" where
  "handleShardLookup cdc d req =
     Inr (mResponse cdc (zero_LookupResponse\<lparr>lp_Code := LookupResponse_OK,
       lp_Shards := map (\<lambda>v. \<lparr>sd_Members = sd_Members v, sd_ShardId = sd_ShardId v,
         sd_AppName = sd_AppName v\<rparr>) (mvals (db_Shards d))\<rparr>))"

definition Lookup_query :: "codec \<Rightarrow> db \<Rightarrow> string \<Rightarrow> string go" where
  "Lookup_query cdc d key =
     (case assertNotFailed d of
        Inl e \<Rightarrow> Inl e
      | Inr _ \<Rightarrow>
          (case uLookup cdc key of
             None \<Rightarrow> panic UnmarshalFailed
           | Some req \<Rightarrow>
               (if lr_Type req = LookupRequest_SHARD then handleShardLookup cdc d req
                else if lr_Type req = LookupRequest_KV then handleKVLookup cdc d req
                else if lr_Type req = LookupRequest_SCHEDULER_CONTEXT
                then handleSchedulerContextLookup cdc d
                else if lr_Type req = LookupRequest_REQUESTS then handleRequestsLookup cdc d req
                else if lr_Type req = LookupRequest_SHARD_STATES
                then handleShardStatesLookup cdc d req
                else panic UnknownRequestType)))"

section \<open>Snapshots and the hash\<close>

text \<open>
  \<^verbatim>\<open>json.Marshal\<close> and \<^verbatim>\<open>json.Unmarshal\<close> of the database, and MD5. The tags \<^verbatim>\<open>json:"-"\<close> keep
  the shard ID and the replica ID out of the encoding.
\<close>

record snapCodec =
  jDB :: "db \<Rightarrow> string"
  ujDB :: "string \<Rightarrow> db option"
  md5u64 :: "string \<Rightarrow> u64"

definition SaveSnapshot :: "snapCodec \<Rightarrow> db \<Rightarrow> (string \<Rightarrow> goerror option) \<Rightarrow> string go" where
  "SaveSnapshot sc d write =
     (case assertNotFailed d of
        Inl e \<Rightarrow> Inl e
      | Inr _ \<Rightarrow> (case write (jDB sc d) of Some err \<Rightarrow> Inl (Err err) | None \<Rightarrow> Inr (jDB sc d)))"

definition RecoverFromSnapshot :: "snapCodec \<Rightarrow> db \<Rightarrow> goerror + string \<Rightarrow> unit go \<times> db" where
  "RecoverFromSnapshot sc d reader =
     (case assertNotFailed d of
        Inl e \<Rightarrow> (Inl e, d)
      | Inr _ \<Rightarrow>
          (case reader of
             Inl err \<Rightarrow> (Inl (Err err), d)
           | Inr bytes \<Rightarrow>
               (case ujDB sc bytes of
                  None \<Rightarrow> (panic UnmarshalFailed, d)
                | Some x \<Rightarrow>
                    (if db_Version d \<noteq> db_Version x then (panic VersionMismatch, d)
                     else (Inr (), d\<lparr>db_Tick := db_Tick x, db_Version := db_Version x,
                             db_Failed := db_Failed x, db_LaunchDeadline := db_LaunchDeadline x,
                             db_Shards := db_Shards x, db_KVMap := db_KVMap x,
                             db_ShardImage := db_ShardImage x,
                             db_NodeHostImage := db_NodeHostImage x,
                             db_NodeHostInfo := db_NodeHostInfo x, db_Requests := db_Requests x,
                             db_Outgoing := db_Outgoing x\<rparr>)))))"

definition GetHash :: "snapCodec \<Rightarrow> db \<Rightarrow> u64 go" where
  "GetHash sc d =
     (case assertNotFailed d of Inl e \<Rightarrow> Inl e | Inr _ \<Rightarrow> Inr (md5u64 sc (jDB sc d)))"

end
