(* ===== verification/Determinism.thy ===== *)
theory Determinism
  imports ShardImageFacts DrummerDB
begin

text \<open>
  Replica determinism. Every Drummer server applies the same log to its own copy of the
  database, and Go iterates each map in an order of its own on each server: \<open>db_eq\<close> relates two
  copies with the same contents whatever the orders of their maps, \<open>upd_eq\<close> two decodings of one
  command. Each operation of the database is shown to give the same result and related copies,
  from the shard image up to \<open>applyUpdate\<close>. Relatedness of a copy to itself is the
  well-formedness of its maps.
\<close>

section \<open>Shards\<close>

definition sh_eq :: "shard \<Rightarrow> shard \<Rightarrow> bool" where
  "sh_eq c c' \<longleftrightarrow> sh_ShardID c = sh_ShardID c' \<and> sh_ConfigChangeIndex c = sh_ConfigChangeIndex c' \<and>
     mrel (=) (sh_Replicas c) (sh_Replicas c')"

definition shards_eq :: "(u64, shard) gomap \<Rightarrow> (u64, shard) gomap \<Rightarrow> bool" where
  "shards_eq = mrel sh_eq"

lemma mrel_eq_get: "mrel (=) m m' \<Longrightarrow> mget m k = mget m' k"
  using mrel_get [of "(=)" m m' k] by (simp add: option.rel_eq)

lemma mrel_eq_keyset: "mrel R m m' \<Longrightarrow> set (mkeys m) = set (mkeys m')"
  by (auto simp: mhas_mkeys mrel_has)

lemma mrel_eq_vals: "mrel (=) m m' \<Longrightarrow> mset (mvals m) = mset (mvals m')"
  by (drule mrel_eq_mset) (metis mset_map mvals_def)

lemma mrel_eqI: "gm_ok m \<Longrightarrow> gm_ok m' \<Longrightarrow> (\<And>k. mget m k = mget m' k) \<Longrightarrow> mrel (=) m m'"
  by (simp add: mrel_def option.rel_eq)

lemma distinct_mset: "mset xs = mset ys \<Longrightarrow> distinct xs = distinct ys"
  by (simp add: distinct_count_atmost_1 set_mset_mset [symmetric] del: set_mset_mset)

lemma sh_eqD:
  assumes "sh_eq c c'"
  shows "sh_ShardID c = sh_ShardID c'" "sh_ConfigChangeIndex c = sh_ConfigChangeIndex c'"
    "mrel (=) (sh_Replicas c) (sh_Replicas c')" "gm_ok (sh_Replicas c)" "gm_ok (sh_Replicas c')"
    "length (sh_Replicas c) = length (sh_Replicas c')"
    "mget (sh_Replicas c) k = mget (sh_Replicas c') k"
  using assms by (auto simp: sh_eq_def dest: mrel_ok mrel_length mrel_eq_get)

lemma sh_eq_sym: "sh_eq c c' \<Longrightarrow> sh_eq c' c"
  by (auto simp: sh_eq_def intro: mrel_sym)

lemma sh_eq_replicas:
  "sh_eq c c' \<Longrightarrow> mrel (=) rs rs' \<Longrightarrow> sh_eq (c\<lparr>sh_Replicas := rs\<rparr>) (c'\<lparr>sh_Replicas := rs'\<rparr>)"
  by (simp add: sh_eq_def)

lemma killRequestRequired_eq:
  assumes "sh_eq c c'" and "si_eq ci ci'"
  shows "killRequestRequired c ci = killRequestRequired c' ci'"
  using sh_eqD(2) [OF assms(1)] mrel_eq_keyset [OF sh_eqD(3) [OF assms(1)]] si_eqD [OF assms(2)]
  by (simp add: killRequestRequired_def list_all_iff)

lemma syncShard_eq:
  assumes c: "sh_eq c c'" and ci: "si_eq ci ci'"
  shows "go_rel (=) sh_eq (syncShard c ci t) (syncShard c' ci' t)"
proof -
  note cD = sh_eqD [OF c] and iD = si_eqD [OF ci]
  have iok: "gm_ok (si_Replicas ci)" "gm_ok (si_Replicas ci')"
    "length (si_Replicas ci) = length (si_Replicas ci')"
    "\<And>k. mget (si_Replicas ci) k = mget (si_Replicas ci') k"
    using iD(7) by (auto dest: mrel_ok mrel_length mrel_eq_get)
  have ids: "list_all (mhas (sh_Replicas c)) (mkeys (si_Replicas ci)) =
      list_all (mhas (sh_Replicas c')) (mkeys (si_Replicas ci'))"
    using mrel_eq_keyset [OF iD(7)] by (simp add: list_all_iff mrel_has [OF cD(3)])
  have conf: "addrConflict c ci = addrConflict c' ci'"
    by (simp add: addrConflict_def iok(4) cD(7))
  have same: "sameIndex c ci = sameIndex c' ci'"
    by (simp add: sameIndex_def cD(2) iD(4))
  consider (stale) "sh_ConfigChangeIndex c > si_ConfigChangeIndex ci"
    | (cnt) "\<not> sh_ConfigChangeIndex c > si_ConfigChangeIndex ci" "sameIndex c ci"
        "length (sh_Replicas c) \<noteq> length (si_Replicas ci)"
    | (ids) "\<not> sh_ConfigChangeIndex c > si_ConfigChangeIndex ci" "sameIndex c ci"
        "length (sh_Replicas c) = length (si_Replicas ci)"
        "\<not> list_all (mhas (sh_Replicas c)) (mkeys (si_Replicas ci))"
    | (ok) "\<not> sh_ConfigChangeIndex c > si_ConfigChangeIndex ci"
        "sameIndex c ci \<Longrightarrow> length (sh_Replicas c) = length (si_Replicas ci) \<and>
          list_all (mhas (sh_Replicas c)) (mkeys (si_Replicas ci))"
    by blast
  then show ?thesis
  proof cases
    case stale
    then have "sh_ConfigChangeIndex c' > si_ConfigChangeIndex ci'" using cD(2) iD(4) by simp
    with stale c show ?thesis by (simp add: syncShard_stale)
  next
    case cnt
    then have "\<not> sh_ConfigChangeIndex c' > si_ConfigChangeIndex ci'" "sameIndex c' ci'"
      "length (sh_Replicas c') \<noteq> length (si_Replicas ci')" using cD(2,6) iD(4) same iok(3) by simp_all
    with cnt show ?thesis by (simp add: syncShard_count)
  next
    case ids
    then have "\<not> sh_ConfigChangeIndex c' > si_ConfigChangeIndex ci'" "sameIndex c' ci'"
      "length (sh_Replicas c') = length (si_Replicas ci')"
      "\<not> list_all (mhas (sh_Replicas c')) (mkeys (si_Replicas ci'))"
      using cD(2,6) iD(4) same iok(3) \<open>list_all _ _ = list_all _ _\<close> by simp_all
    with ids show ?thesis by (simp add: syncShard_ids)
  next
    case ok
    have ok': "\<not> sh_ConfigChangeIndex c' > si_ConfigChangeIndex ci'"
      "sameIndex c' ci' \<Longrightarrow> length (sh_Replicas c') = length (si_Replicas ci') \<and>
          list_all (mhas (sh_Replicas c')) (mkeys (si_Replicas ci'))"
      using ok same ids cD(2,6) iD(4) iok(3) by simp_all
    show ?thesis
    proof (cases "addrConflict c ci")
      case True
      with conf have True': "addrConflict c' ci'" by simp
      show ?thesis
        using syncShard_conflict [OF ok iok(1) True, of t] syncShard_conflict [OF ok' iok(2) True', of t]
        by (cases "syncShard c ci t"; cases "syncShard c' ci' t") (simp add: panic_def)
    next
      case False
      with conf have False': "\<not> addrConflict c' ci'" by simp
      obtain rs where rs: "gm_ok rs" "\<And>k. mget rs k = syncedReplica ci t (sh_Replicas c) k"
        "syncShard c ci t = (if distinct (map rp_Address (mvals rs)) then Inr False
           else panic DuplicatedAddress,
         c\<lparr>sh_ConfigChangeIndex := si_ConfigChangeIndex ci, sh_Replicas := rs\<rparr>)"
        using syncShard_accept [OF ok cD(4) iok(1) False] by blast
      obtain rs' where rs': "gm_ok rs'" "\<And>k. mget rs' k = syncedReplica ci' t (sh_Replicas c') k"
        "syncShard c' ci' t = (if distinct (map rp_Address (mvals rs')) then Inr False
           else panic DuplicatedAddress,
         c'\<lparr>sh_ConfigChangeIndex := si_ConfigChangeIndex ci', sh_Replicas := rs'\<rparr>)"
        using syncShard_accept [OF ok' cD(5) iok(2) False'] by blast
      have "syncedReplica ci t (sh_Replicas c) k = syncedReplica ci' t (sh_Replicas c') k" for k
        using cD(7) iok(4) iD(1) by (simp add: syncedReplica_def cong: option.case_cong)
      then have eq: "mrel (=) rs rs'"
        using rs(1,2) rs'(1,2) by (intro mrel_eqI) simp_all
      have "distinct (map rp_Address (mvals rs)) = distinct (map rp_Address (mvals rs'))"
        by (rule distinct_mset) (simp add: mrel_eq_vals [OF eq])
      with eq show ?thesis
        unfolding rs(3) rs'(3) by (simp add: sh_eq_def cD(1) iD(4))
    qed
  qed
qed

lemma getShard_eq:
  assumes "si_eq ci ci'"
  shows "sh_eq (getShard ci t) (getShard ci' t)"
proof -
  note D = si_eqD [OF assms]
  let ?r = "mmap (newReplica (si_ShardId ci) t) (si_Replicas ci)"
  let ?r' = "mmap (newReplica (si_ShardId ci') t) (si_Replicas ci')"
  have r: "mrel (=) ?r ?r'" by (rule mrel_mmap [OF D(7)]) (simp add: D(1))
  show ?thesis
    using r D(1-4) mrel_eq_get [OF r, of "si_ReplicaId ci'"]
    by (auto simp: getShard_def sh_eq_def Let_def split: option.splits intro: mrel_put)
qed

section \<open>The image of the shards\<close>

definition ms_eq :: "multiShard \<Rightarrow> multiShard \<Rightarrow> bool" where
  "ms_eq mc mc' \<longleftrightarrow> shards_eq (ms_Shards mc) (ms_Shards mc') \<and>
     ms_ReplicasToKill mc = ms_ReplicasToKill mc'"

text \<open>Two \<open>toKill\<close> lists name the same replicas; they are read for nothing else.\<close>

definition kill_eq :: "ShardInfo list \<times> (u64, shard) gomap \<Rightarrow> ShardInfo list \<times> (u64, shard) gomap
    \<Rightarrow> bool" where
  "kill_eq a b \<longleftrightarrow> list_all2 si_eq (fst a) (fst b) \<and> shards_eq (snd a) (snd b)"

lemma shards_get_cases:
  assumes "shards_eq s s'"
  obtains "mget s k = None" "mget s' k = None"
  | c c' where "mget s k = Some c" "mget s' k = Some c'" "sh_eq c c'"
  using mrel_get [OF assms [unfolded shards_eq_def], of k] by (auto elim: option.rel_cases)

lemma shards_put: "shards_eq s s' \<Longrightarrow> sh_eq c c' \<Longrightarrow> shards_eq (mput k c s) (mput k c' s')"
  by (simp add: shards_eq_def mrel_put)

lemma doUpdateShard_eq:
  assumes ci: "si_eq ci ci'" and st: "kill_eq st st'"
  shows "go_rel (\<lambda>_ _. True) kill_eq (doUpdateShard t ci st) (doUpdateShard t ci' st')"
proof -
  obtain k s k' s' where p: "st = (k, s)" "st' = (k', s')" by (cases st; cases st')
  with st have k: "list_all2 si_eq k k'" and s: "shards_eq s s'" by (simp_all add: kill_eq_def)
  have kk: "list_all2 si_eq (k @ [ci]) (k' @ [ci'])" using k ci by (simp add: list_all2_appendI)
  note D = si_eqD [OF ci]
  show ?thesis
  proof (cases rule: shards_get_cases [OF s, of "si_ShardId ci"])
    case 1
    then show ?thesis
      using k s D(1,5,6) shards_put [OF s getShard_eq [OF ci]]
      by (simp add: doUpdateShard_def Let_def p kill_eq_def)
  next
    case (2 c c')
    note kr = killRequestRequired_eq [OF 2(3) ci] and cD = sh_eqD [OF 2(3)]
    show ?thesis
    proof (cases "si_Pending ci \<or> si_Incomplete ci")
      case True
      then show ?thesis
        using 2 k kk s D(1,5,6) cD(2,6) kr
        by (auto simp: doUpdateShard_def Let_def p kill_eq_def)
    next
      case False
      from syncShard_eq [OF 2(3) ci, of t] show ?thesis
      proof (rule go_rel_cases)
        fix e d d' assume "syncShard c ci t = (Inl e, d)" "syncShard c' ci' t = (Inl e, d')"
        with False 2 D(1,5,6) show ?thesis by (simp add: doUpdateShard_def Let_def p)
      next
        fix a b d d' assume "syncShard c ci t = (Inr a, d)" "syncShard c' ci' t = (Inr b, d')"
          "a = b" "sh_eq d d'"
        with False 2 k kk D(1,5,6) killRequestRequired_eq [OF \<open>sh_eq d d'\<close> ci]
          shards_put [OF s \<open>sh_eq d d'\<close>]
        show ?thesis by (simp add: doUpdateShard_def Let_def p kill_eq_def)
      qed
    qed
  qed
qed

lemma tickShard_eq:
  assumes "si_eq ci ci'" and "shards_eq s s'"
  shows "shards_eq (tickShard t ci s) (tickShard t ci' s')"
proof (cases rule: shards_get_cases [OF assms(2), of "si_ShardId ci"])
  case 1
  with assms si_eqD(1) [OF assms(1)] show ?thesis by (simp add: tickShard_def)
next
  case (2 c c')
  note D = si_eqD [OF assms(1)] and cD = sh_eqD [OF 2(3)]
  show ?thesis
  proof (cases "mget (sh_Replicas c) (si_ReplicaId ci)")
    case None
    with 2 assms D(1,2) cD(7) show ?thesis by (simp add: tickShard_def)
  next
    case (Some n)
    with 2 assms D(1,2) cD(7) [of "si_ReplicaId ci"] show ?thesis
      by (auto simp: tickShard_def intro!: shards_put sh_eq_replicas mrel_put cD(3))
  qed
qed

lemma leaderShard_eq:
  assumes "si_eq ci ci'" and "shards_eq s s'"
  shows "shards_eq (leaderShard ci s) (leaderShard ci' s')"
proof (cases rule: shards_get_cases [OF assms(2), of "si_ShardId ci"])
  case 1
  with assms si_eqD(1) [OF assms(1)] show ?thesis by (simp add: leaderShard_def)
next
  case (2 c c')
  note D = si_eqD [OF assms(1)] and cD = sh_eqD [OF 2(3)]
  have m: "mrel (=) (mmap (\<lambda>_ cn. cn\<lparr>rp_IsLeader := False\<rparr>) (sh_Replicas c))
      (mmap (\<lambda>_ cn. cn\<lparr>rp_IsLeader := False\<rparr>) (sh_Replicas c'))"
    by (rule mrel_mmap [OF cD(3)]) simp
  show ?thesis
  proof (cases "mget (sh_Replicas c) (si_ReplicaId ci)")
    case None
    with 2 assms D(1,2,4) cD(2,7) show ?thesis by (simp add: leaderShard_def)
  next
    case (Some n)
    with 2 assms D(1-4) cD(2) cD(7) [of "si_ReplicaId ci"] show ?thesis
      by (auto simp: leaderShard_def intro!: shards_put sh_eq_replicas mrel_put cD(3) m)
  qed
qed

lemma ms_update_eq:
  assumes mc: "ms_eq mc mc'" and nhi: "nhi_eq nhi nhi'"
  shows "go_rel (=) ms_eq (ms_update mc nhi) (ms_update mc' nhi')"
proof -
  note D = nhi_eqD [OF nhi]
  have "go_rel (\<lambda>_ _. True) kill_eq
      (foreach (doUpdateShard (nhi_LastTick nhi)) (nhi_ShardInfo nhi) ([], ms_Shards mc))
      (foreach (doUpdateShard (nhi_LastTick nhi')) (nhi_ShardInfo nhi') ([], ms_Shards mc'))"
    unfolding D(3) by (rule foreach_rel [OF D(8)])
      (use mc in \<open>auto simp: kill_eq_def ms_eq_def intro: doUpdateShard_eq\<close>)
  then show ?thesis
  proof (rule go_rel_cases)
    fix e s t
    assume "foreach (doUpdateShard (nhi_LastTick nhi)) (nhi_ShardInfo nhi) ([], ms_Shards mc) = (Inl e, s)"
      "foreach (doUpdateShard (nhi_LastTick nhi')) (nhi_ShardInfo nhi') ([], ms_Shards mc') = (Inl e, t)"
    then show ?thesis by (cases s; cases t) (simp add: ms_update_def doUpdate_def)
  next
    fix a b s t
    assume f: "foreach (doUpdateShard (nhi_LastTick nhi)) (nhi_ShardInfo nhi) ([], ms_Shards mc) = (Inr a, s)"
      "foreach (doUpdateShard (nhi_LastTick nhi')) (nhi_ShardInfo nhi') ([], ms_Shards mc') = (Inr b, t)"
      and st: "kill_eq s t"
    obtain k m k' m' where p: "s = (k, m)" "t = (k', m')" by (cases s; cases t)
    with st have k: "list_all2 si_eq k k'" and m: "shards_eq m m'" by (simp_all add: kill_eq_def)
    have kills: "map (\<lambda>ntk. \<lparr>tk_ShardID = si_ShardId ntk, tk_ReplicaID = si_ReplicaId ntk,
        tk_Address = nhi_RaftAddress nhi\<rparr>) k = map (\<lambda>ntk. \<lparr>tk_ShardID = si_ShardId ntk,
        tk_ReplicaID = si_ReplicaId ntk, tk_Address = nhi_RaftAddress nhi'\<rparr>) k'"
      using k by (induction rule: list_all2_induct) (simp_all add: si_eqD D(1))
    have ticks: "shards_eq (updateNodeTick m nhi) (updateNodeTick m' nhi')"
      unfolding updateNodeTick_def D(3) 
      by (rule fold_rel [where R = shards_eq, OF D(8) m]) (rule tickShard_eq)
    have "shards_eq (fold leaderShard (nhi_ShardInfo nhi) (updateNodeTick m nhi))
        (fold leaderShard (nhi_ShardInfo nhi') (updateNodeTick m' nhi'))"
      by (rule fold_rel [where R = shards_eq, OF D(8) ticks]) (rule leaderShard_eq)
    with kills mc show ?thesis
      by (simp add: ms_update_def doUpdate_def f p syncLeaderInfo_def ms_eq_def)
  qed
qed


section \<open>The image of the NodeHosts\<close>

definition spec_rest :: "nodeHostSpec \<Rightarrow> nodeHostSpec \<Rightarrow> bool" where
  "spec_rest a b \<longleftrightarrow> nh_Address a = nh_Address b \<and> nh_RPCAddress a = nh_RPCAddress b \<and>
     nh_Region a = nh_Region b \<and> nh_Tick a = nh_Tick b \<and> nh_PersistentLog a = nh_PersistentLog b"

definition spec_eq :: "nodeHostSpec \<Rightarrow> nodeHostSpec \<Rightarrow> bool" where
  "spec_eq a b \<longleftrightarrow> mrel (=) (nh_Shards a) (nh_Shards b) \<and> spec_rest a b"

definition hosts_eq :: "(string, nodeHostSpec) gomap \<Rightarrow> (string, nodeHostSpec) gomap \<Rightarrow> bool" where
  "hosts_eq = mrel spec_eq"

definition mnh_eq :: "multiNodeHost \<Rightarrow> multiNodeHost \<Rightarrow> bool" where
  "mnh_eq m m' \<longleftrightarrow> hosts_eq (mn_Nodehosts m) (mn_Nodehosts m')"

lemma mrel_unit_iff:
  fixes m m' :: "('k, unit) gomap"
  shows "mrel (=) m m' \<longleftrightarrow> gm_ok m \<and> gm_ok m' \<and> (\<forall>k. mhas m k = mhas m' k)"
proof -
  have "(mget m k = mget m' k) = (mhas m k = mhas m' k)" for k
    by (cases "mget m k"; cases "mget m' k") (simp_all add: mhas_def)
  then show ?thesis by (simp add: mrel_def option.rel_eq)
qed

lemma shardIdSet_ok: "gm_ok (shardIdSet ids)"
  unfolding shardIdSet_def by (rule fold_inv [where I = gm_ok]) simp_all

lemma shardIdSet_refl: "mrel (=) (shardIdSet ids) (shardIdSet ids)"
  by (rule mrel_eqI [OF shardIdSet_ok shardIdSet_ok]) simp

lemma toNodeHostSpec_eq: "nhi_eq a b \<Longrightarrow> spec_eq (toNodeHostSpec a) (toNodeHostSpec b)"
  using nhi_eqD [of a b] by (simp add: spec_eq_def spec_rest_def toNodeHostSpec_def shardIdSet_refl)

lemma spec_eqD:
  assumes "spec_eq a b"
  shows "nh_Address a = nh_Address b" "nh_RPCAddress a = nh_RPCAddress b"
    "nh_Region a = nh_Region b" "nh_Tick a = nh_Tick b" "nh_PersistentLog a = nh_PersistentLog b"
    "mrel (=) (nh_Shards a) (nh_Shards b)"
  using assms by (simp_all add: spec_eq_def spec_rest_def)

lemma hosts_get_cases:
  assumes "hosts_eq s s'"
  obtains "mget s k = None" "mget s' k = None"
  | c c' where "mget s k = Some c" "mget s' k = Some c'" "spec_eq c c'"
  using mrel_get [OF assms [unfolded hosts_eq_def], of k] by (auto elim: option.rel_cases)

lemma mn_update_eq:
  assumes m: "mnh_eq m m'" and nhi: "nhi_eq nhi nhi'"
  shows "go_rel (=) mnh_eq (mn_update m nhi) (mn_update m' nhi')"
proof (cases rule: hosts_get_cases [OF m [unfolded mnh_eq_def], of "nhi_RaftAddress nhi"])
  case 1
  with m toNodeHostSpec_eq [OF nhi] nhi_eqD(1) [OF nhi] show ?thesis
    by (auto simp: mn_update_def mhas_def mnh_eq_def hosts_eq_def intro: mrel_put)
next
  case (2 c c')
  have put: "hosts_eq (mput k a (mn_Nodehosts m)) (mput k b (mn_Nodehosts m'))" if "spec_eq a b" for k a b
    using m that by (simp add: mnh_eq_def hosts_eq_def mrel_put)
  note D = nhi_eqD [OF nhi] and S = spec_eqD [OF 2(3)]
  show ?thesis using 2(1,2)
    by (cases "nhi_PlogInfoIncluded nhi'")
      (simp_all add: mn_update_def syncNodeHostSpec_def mhas_def D Let_def mnh_eq_def put
         spec_eq_def spec_rest_def S shardIdSet_refl)
qed

text \<open>
  \<open>syncShardInfo\<close> as one pass over the pairs of a shard and a replica of it, and what it leaves:
  each NodeHost gains exactly the shards with a replica at its address.
\<close>

definition marks :: "(u64, shard) gomap \<Rightarrow> (u64 \<times> replica) list" where
  "marks shards = concat (map (\<lambda>(cid, c). map (Pair cid) (mvals (sh_Replicas c))) shards)"

lemma fold_markReplicas:
  "fold markReplicas shards hosts = fold (\<lambda>(cid, n). markShard cid n) (marks shards) hosts"
proof (induction shards arbitrary: hosts)
  case (Cons e es)
  obtain cid c where e: "e = (cid, c)" by (cases e)
  have "fold (markShard cid) ns h = fold (\<lambda>(cid, n). markShard cid n) (map (Pair cid) ns) h" for ns h
    by (induction ns arbitrary: h) simp_all
  with Cons e show ?case by (simp add: marks_def markReplicas_def)
qed (simp add: marks_def)

definition hosts_ok :: "(string, nodeHostSpec) gomap \<Rightarrow> bool" where
  "hosts_ok hosts \<longleftrightarrow> gm_ok hosts \<and> (\<forall>a spec. mget hosts a = Some spec \<longrightarrow> gm_ok (nh_Shards spec))"

definition shardsOn :: "(u64, shard) gomap \<Rightarrow> string \<Rightarrow> u64 set" where
  "shardsOn shards addr = {cid. \<exists>c n. (cid, c) \<in> set shards \<and> n \<in> set (mvals (sh_Replicas c)) \<and>
     rp_Address n = addr}"

lemma marks_shardsOn:
  "(\<exists>n. (cid, n) \<in> set (marks shards) \<and> rp_Address n = a) \<longleftrightarrow> cid \<in> shardsOn shards a"
  by (force simp: marks_def shardsOn_def)

lemma fold_markShard_get:
  assumes "hosts_ok hosts"
  shows "hosts_ok (fold (\<lambda>(cid, n). markShard cid n) ms hosts) \<and>
    (\<forall>a. rel_option (\<lambda>s s'. spec_rest s s' \<and>
         (\<forall>cid. mhas (nh_Shards s') cid \<longleftrightarrow>
            mhas (nh_Shards s) cid \<or> (\<exists>n. (cid, n) \<in> set ms \<and> rp_Address n = a)))
       (mget hosts a) (mget (fold (\<lambda>(cid, n). markShard cid n) ms hosts) a))"
  using assms
proof (induction ms arbitrary: hosts)
  case Nil
  then show ?case by (auto simp: spec_rest_def intro!: option.rel_refl)
next
  case (Cons x xs)
  obtain cid n where x: "x = (cid, n)" by (cases x)
  let ?h = "markShard cid n hosts"
  have ok: "hosts_ok ?h" using Cons.prems
    by (auto simp: markShard_def hosts_ok_def gomap_simps split: option.splits)
  have one: "rel_option (\<lambda>s s'. spec_rest s s' \<and>
      (\<forall>c. mhas (nh_Shards s') c \<longleftrightarrow> mhas (nh_Shards s) c \<or> c = cid \<and> rp_Address n = a))
      (mget hosts a) (mget ?h a)" for a
    by (cases "mget hosts a") (auto simp: markShard_def gomap_simps mhas_def spec_rest_def split: option.splits)
  from Cons.IH [OF ok] have rest: "rel_option (\<lambda>s s'. spec_rest s s' \<and>
      (\<forall>cid. mhas (nh_Shards s') cid \<longleftrightarrow>
         mhas (nh_Shards s) cid \<or> (\<exists>n. (cid, n) \<in> set xs \<and> rp_Address n = a)))
      (mget ?h a) (mget (fold (\<lambda>(cid, n). markShard cid n) xs ?h) a)"
    and okf: "hosts_ok (fold (\<lambda>(cid, n). markShard cid n) xs ?h)" for a by blast+
  have "rel_option (\<lambda>s s'. spec_rest s s' \<and>
      (\<forall>c. mhas (nh_Shards s') c \<longleftrightarrow>
         mhas (nh_Shards s) c \<or> (\<exists>m. (c, m) \<in> set (x # xs) \<and> rp_Address m = a)))
      (mget hosts a) (mget (fold (\<lambda>(cid, n). markShard cid n) xs ?h) a)" for a
    using one [of a] rest [of a] x by (auto simp: spec_rest_def elim!: option.rel_cases)
  with okf x show ?case by simp
qed

lemma syncShardInfo_get:
  assumes "hosts_ok (mn_Nodehosts m)"
  shows "hosts_ok (mn_Nodehosts (syncShardInfo m mc))"
    and "rel_option (\<lambda>s s'. spec_rest s s' \<and>
      (\<forall>cid. mhas (nh_Shards s') cid \<longleftrightarrow>
         mhas (nh_Shards s) cid \<or> cid \<in> shardsOn (ms_Shards mc) a))
      (mget (mn_Nodehosts m) a) (mget (mn_Nodehosts (syncShardInfo m mc)) a)"
  using fold_markShard_get [OF assms, of "marks (ms_Shards mc)"]
  by (auto simp: syncShardInfo_def fold_markReplicas marks_shardsOn)

lemma shardsOn_eq:
  assumes "shards_eq s s'"
  shows "shardsOn s a = shardsOn s' a"
proof -
  have sub: "shardsOn s a \<subseteq> shardsOn s' a" if r: "shards_eq s s'" for s s'
  proof
    fix cid assume "cid \<in> shardsOn s a"
    then obtain c n where c: "(cid, c) \<in> set s" "n \<in> set (mvals (sh_Replicas c))" "rp_Address n = a"
      by (auto simp: shardsOn_def)
    have ok: "gm_ok s" "gm_ok s'" using r by (auto simp: shards_eq_def dest: mrel_ok)
    with c(1) have get: "mget s cid = Some c" by (simp add: mget_in_set)
    then obtain c' where c': "mget s' cid = Some c'" "sh_eq c c'"
      by (cases rule: shards_get_cases [OF r, of cid]) auto
    have "set (mvals (sh_Replicas c)) = set (mvals (sh_Replicas c'))"
      by (metis mrel_eq_vals sh_eqD(3) c'(2) set_mset_mset)
    with c c'(1) ok(2) show "cid \<in> shardsOn s' a" by (auto simp: shardsOn_def mget_in_set)
  qed
  have sym: "shards_eq s' s"
    using assms sh_eq_sym unfolding shards_eq_def by (rule mrel_sym)
  show ?thesis using sub [OF assms] sub [OF sym] by blast
qed

lemma hosts_eq_ok: "hosts_eq s s' \<Longrightarrow> hosts_ok s \<and> hosts_ok s'"
  unfolding hosts_eq_def hosts_ok_def
  by (metis mrel_get mrel_ok option.rel_distinct option.rel_inject(2) option.exhaust spec_eqD(6))

lemma marked_spec_eq:
  assumes "spec_rest s t" and "spec_rest s' t'"
    and "\<And>c. mhas (nh_Shards t) c \<longleftrightarrow> mhas (nh_Shards s) c \<or> c \<in> S"
    and "\<And>c. mhas (nh_Shards t') c \<longleftrightarrow> mhas (nh_Shards s') c \<or> c \<in> S"
    and "spec_eq s s'" and "gm_ok (nh_Shards t)" and "gm_ok (nh_Shards t')"
  shows "spec_eq t t'"
  using assms mrel_has [OF spec_eqD(6) [OF assms(5)]]
  by (simp add: spec_eq_def spec_rest_def mrel_unit_iff)

lemma syncShardInfo_eq:
  assumes m: "mnh_eq m m'" and mc: "ms_eq mc mc'"
  shows "mnh_eq (syncShardInfo m mc) (syncShardInfo m' mc')"
proof -
  have r: "hosts_eq (mn_Nodehosts m) (mn_Nodehosts m')" using m by (simp add: mnh_eq_def)
  note ok = hosts_eq_ok [OF r]
  note g = syncShardInfo_get [OF conjunct1 [OF ok], of mc]
    and g' = syncShardInfo_get [OF conjunct2 [OF ok], of mc']
  have S: "shardsOn (ms_Shards mc) a = shardsOn (ms_Shards mc') a" for a
    by (rule shardsOn_eq) (use mc in \<open>simp add: ms_eq_def\<close>)
  show ?thesis
    unfolding mnh_eq_def hosts_eq_def
  proof (rule mrelI)
    show "gm_ok (mn_Nodehosts (syncShardInfo m mc))" "gm_ok (mn_Nodehosts (syncShardInfo m' mc'))"
      using g(1) g'(1) by (simp_all add: hosts_ok_def)
    fix a
    show "rel_option spec_eq (mget (mn_Nodehosts (syncShardInfo m mc)) a)
        (mget (mn_Nodehosts (syncShardInfo m' mc')) a)"
    proof (cases rule: hosts_get_cases [OF r, of a])
      case 1
      then show ?thesis using g(2) [of a] g'(2) [of a] by simp
    next
      case (2 s s')
      obtain t where t: "mget (mn_Nodehosts (syncShardInfo m mc)) a = Some t"
        "spec_rest s t"
        "\<And>c. mhas (nh_Shards t) c \<longleftrightarrow> mhas (nh_Shards s) c \<or> c \<in> shardsOn (ms_Shards mc) a"
        using g(2) [of a] 2(1) by (auto simp: option_rel_Some1)
      obtain t' where t': "mget (mn_Nodehosts (syncShardInfo m' mc')) a = Some t'"
        "spec_rest s' t'"
        "\<And>c. mhas (nh_Shards t') c \<longleftrightarrow> mhas (nh_Shards s') c \<or> c \<in> shardsOn (ms_Shards mc) a"
        using g'(2) [of a] 2(2) S by (auto simp: option_rel_Some1)
      have "gm_ok (nh_Shards t)" "gm_ok (nh_Shards t')"
        using t(1) t'(1) g(1) g'(1) by (auto simp: hosts_ok_def)
      then have "spec_eq t t'"
        by (rule marked_spec_eq [OF t(2) t'(2) t(3) t'(3) 2(3)])
      with t(1) t'(1) show ?thesis by simp
    qed
  qed
qed

section \<open>The database\<close>

text \<open>
  Copies of the database on two servers: the replica IDs may differ, everything else has the
  same contents.
\<close>

definition db_eq :: "db \<Rightarrow> db \<Rightarrow> bool" where
  "db_eq d e \<longleftrightarrow> db_ShardID d = db_ShardID e \<and> db_Version d = db_Version e \<and>
     db_Tick d = db_Tick e \<and> db_LaunchDeadline d = db_LaunchDeadline e \<and>
     db_Failed d = db_Failed e \<and> mrel (=) (db_Shards d) (db_Shards e) \<and>
     mrel (=) (db_KVMap d) (db_KVMap e) \<and> ms_eq (db_ShardImage d) (db_ShardImage e) \<and>
     mnh_eq (db_NodeHostImage d) (db_NodeHostImage e) \<and>
     mrel nhi_eq (db_NodeHostInfo d) (db_NodeHostInfo e) \<and>
     mrel (=) (db_Requests d) (db_Requests e) \<and> mrel (=) (db_Outgoing d) (db_Outgoing e)"

definition upd_eq :: "Update \<Rightarrow> Update \<Rightarrow> bool" where
  "upd_eq u v \<longleftrightarrow> up_Type u = up_Type v \<and> up_Change u = up_Change v \<and>
     up_KvUpdate u = up_KvUpdate v \<and> up_Requests u = up_Requests v \<and>
     rel_option nhi_eq (up_NodehostInfo u) (up_NodehostInfo v)"

lemma applyTickUpdate_eq:
  "db_eq d e \<Longrightarrow> go_rel (=) db_eq (applyTickUpdate d) (applyTickUpdate e)"
  by (simp add: applyTickUpdate_def checkLaunchDeadline_def assertNotFailed_def db_eq_def panic_def
      Let_def)

lemma applyKVUpdate_eq:
  assumes "db_eq d e"
  shows "go_rel (=) db_eq (applyKVUpdate cdc d kv) (applyKVUpdate cdc e kv)"
proof -
  have kv: "mrel (=) (db_KVMap d) (db_KVMap e)" using assms by (simp add: db_eq_def)
  show ?thesis
    using assms mrel_put [OF kv refl, of "kv_Key kv" "mKV cdc kv"]
    by (simp add: applyKVUpdate_def Let_def mrel_eq_get [OF kv] db_eq_def split: option.split)
qed

lemma setLaunched_eq:
  assumes "db_eq d e"
  shows "go_rel (=) db_eq (setLaunched cdc d) (setLaunched cdc e)"
  using applyKVUpdate_eq [OF assms, of cdc
      "zero_KV\<lparr>kv_Key := launchedKey, kv_Value := ''true'', kv_Finalized := True\<rparr>"]
  by (rule go_rel_cases) (simp_all add: setLaunched_def)

lemma applyShardUpdate_eq:
  assumes "db_eq d e"
  shows "go_rel (=) db_eq (applyShardUpdate d c) (applyShardUpdate e c)"
proof -
  have kv: "mrel (=) (db_KVMap d) (db_KVMap e)" and sh: "mrel (=) (db_Shards d) (db_Shards e)"
    using assms by (simp_all add: db_eq_def)
  show ?thesis
    using assms by (simp add: applyShardUpdate_def tryCreateShard_def bootstrapped_def
        mrel_has [OF kv] mrel_has [OF sh] db_eq_def mrel_put)
qed

lemma fold_mput_eq:
  "mrel R m m' \<Longrightarrow> (\<And>k v. (k, v) \<in> set rs \<Longrightarrow> R v v) \<Longrightarrow>
     mrel R (fold (\<lambda>(a, r). mput a r) rs m) (fold (\<lambda>(a, r). mput a r) rs m')"
proof (induction rs arbitrary: m m')
  case (Cons p rs)
  obtain k v where p: "p = (k, v)" by (cases p)
  have "mrel R (mput k v m) (mput k v m')"
    by (rule mrel_put [OF Cons.prems(1)]) (rule Cons.prems(2) [of k], simp add: p)
  then have "mrel R (fold (\<lambda>(a, r). mput a r) rs (mput k v m)) (fold (\<lambda>(a, r). mput a r) rs (mput k v m'))"
    by (rule Cons.IH) (erule Cons.prems(2) [OF list.set_intros(2)])
  then show ?case by (simp add: p)
qed simp

lemma applyRequestsUpdate_eq:
  assumes "db_eq d e"
  shows "go_rel (=) db_eq (applyRequestsUpdate cdc d r) (applyRequestsUpdate cdc e r)"
proof (cases "isLaunchRequests r")
  case (Inl x)
  then show ?thesis by (cases x) (simp_all add: applyRequestsUpdate_def)
next
  case (Inr l)
  have kv: "mrel (=) (db_KVMap d) (db_KVMap e)" and rq: "mrel (=) (db_Requests d) (db_Requests e)"
    using assms by (simp_all add: db_eq_def)
  let ?f = "fold (\<lambda>(addr, r). mput addr r) (fold groupRequest (nrc_Requests r) [])"
  have put: "db_eq (d\<lparr>db_Requests := ?f (db_Requests d)\<rparr>) (e\<lparr>db_Requests := ?f (db_Requests e)\<rparr>)"
    using assms fold_mput_eq [OF rq] by (simp add: db_eq_def)
  have l: "launched d = launched e" by (simp add: launched_def mrel_has [OF kv])
  show ?thesis
  proof (cases "launched d \<and> l")
    case True
    with Inr l assms show ?thesis by (simp add: applyRequestsUpdate_def)
  next
    case False
    show ?thesis
    proof (cases l)
      case True
      with False l have nl: "\<not> launched d" "\<not> launched e" by auto
      from setLaunched_eq [OF put, of cdc] show ?thesis
        by (rule go_rel_cases) (use Inr True nl in \<open>simp_all add: applyRequestsUpdate_def Let_def db_eq_def\<close>)
    next
      case False
      with Inr put show ?thesis by (simp add: applyRequestsUpdate_def Let_def)
    qed
  qed
qed

text \<open>The shards all of whose replicas have reported: a set that does not depend on the order.\<close>

definition shardLaunched :: "shard \<Rightarrow> bool" where
  "shardLaunched c \<longleftrightarrow> list_all (\<lambda>n. rp_Tick n > 0) (mvals (sh_Replicas c))"

lemma launchedLoop_has:
  "gm_ok m \<Longrightarrow> gm_ok (launchedLoop cs m) \<and>
     (\<forall>k. mhas (launchedLoop cs m) k \<longleftrightarrow>
        mhas m k \<or> (\<exists>c \<in> set cs. shardLaunched c \<and> sh_ShardID c = k))"
proof (induction cs m rule: launchedLoop.induct)
  case (2 c cs m)
  have "length (filter (\<lambda>n. rp_Tick n > 0) (mvals (sh_Replicas c))) = length (sh_Replicas c) \<longleftrightarrow>
      shardLaunched c"
    using length_filter_eq_all [of "\<lambda>n. rp_Tick n > 0" "mvals (sh_Replicas c)"]
    by (simp add: mvals_def shardLaunched_def list_all_iff)
  with 2 show ?case by (auto simp: mhas_def gomap_simps)
qed (simp add: mhas_def)

lemma getLaunchedShards_has:
  "gm_ok (getLaunchedShards d)"
  "mhas (getLaunchedShards d) k \<longleftrightarrow>
     (\<exists>c \<in> set (mvals (ms_Shards (db_ShardImage d))). shardLaunched c \<and> sh_ShardID c = k)"
  using launchedLoop_has [of "[]" "mvals (ms_Shards (db_ShardImage d))"]
  by (simp_all add: getLaunchedShards_def mhas_def)

lemma shardLaunched_eq:
  assumes "sh_eq c c'"
  shows "shardLaunched c = shardLaunched c'"
  unfolding shardLaunched_def by (rule mrel_all [OF sh_eqD(3) [OF assms]]) simp

lemma mrel_vals_ex:
  assumes "mrel R m m'" and "v \<in> set (mvals m)"
  obtains v' where "v' \<in> set (mvals m')" "R v v'"
  using assms mrel_ok [OF assms(1)]
  by (metis mget_mvals mrel_get mvals_mget option_rel_Some1)

lemma getLaunchedShards_eq:
  assumes "ms_eq (db_ShardImage d) (db_ShardImage e)"
  shows "length (getLaunchedShards d) = length (getLaunchedShards e)"
proof -
  have r: "mrel sh_eq (ms_Shards (db_ShardImage d)) (ms_Shards (db_ShardImage e))"
    using assms by (simp add: ms_eq_def shards_eq_def)
  have r': "mrel sh_eq (ms_Shards (db_ShardImage e)) (ms_Shards (db_ShardImage d))"
    by (rule mrel_sym [OF r]) (rule sh_eq_sym)
  have sub: "mhas (getLaunchedShards d) k \<Longrightarrow> mhas (getLaunchedShards e) k"
    if r: "mrel sh_eq (ms_Shards (db_ShardImage d)) (ms_Shards (db_ShardImage e))" for d e k
    unfolding getLaunchedShards_has
    by (metis mrel_vals_ex [OF r] shardLaunched_eq sh_eqD(1))
  have "mrel (=) (getLaunchedShards d) (getLaunchedShards e)"
    unfolding mrel_unit_iff using sub [OF r] sub [OF r'] getLaunchedShards_has(1) by blast
  then show ?thesis by (rule mrel_length)
qed

lemma onUpdatedShardInfo_eq: "db_eq d e \<Longrightarrow> db_eq (onUpdatedShardInfo d) (onUpdatedShardInfo e)"
  using getLaunchedShards_eq [of d e] mrel_length [of "(=)" "db_Shards d" "db_Shards e"]
  by (simp add: onUpdatedShardInfo_def db_eq_def)

lemma applyNodeHostInfoUpdate_eq:
  assumes d: "db_eq d e" and n: "nhi_eq a b"
  shows "go_rel (=) db_eq (applyNodeHostInfoUpdate d a) (applyNodeHostInfoUpdate e b)"
proof -
  let ?a = "a\<lparr>nhi_LastTick := db_Tick d\<rparr>" and ?b = "b\<lparr>nhi_LastTick := db_Tick d\<rparr>"
  have ab: "nhi_eq ?a ?b" by (rule nhi_eq_LastTick [OF n])
  have addr: "nhi_RaftAddress a = nhi_RaftAddress b" and t: "db_Tick e = db_Tick d"
    using nhi_eqD(1) [OF n] d by (simp_all add: db_eq_def)
  have ms: "ms_eq (db_ShardImage d) (db_ShardImage e)"
    and mn: "mnh_eq (db_NodeHostImage d) (db_NodeHostImage e)"
    and rq: "mrel (=) (db_Requests d) (db_Requests e)" using d by (simp_all add: db_eq_def)
  from ms_update_eq [OF ms ab] show ?thesis
  proof (rule go_rel_cases)
    fix x s u assume "ms_update (db_ShardImage d) ?a = (Inl x, s)"
      "ms_update (db_ShardImage e) ?b = (Inl x, u)"
    then show ?thesis by (simp add: applyNodeHostInfoUpdate_def Let_def t)
  next
    fix x y mc mc' assume mu: "ms_update (db_ShardImage d) ?a = (Inr x, mc)"
      "ms_update (db_ShardImage e) ?b = (Inr y, mc')" and mc: "ms_eq mc mc'"
    from mn_update_eq [OF mn ab] show ?thesis
    proof (rule go_rel_cases)
      fix x s u assume "mn_update (db_NodeHostImage d) ?a = (Inl x, s)"
        "mn_update (db_NodeHostImage e) ?b = (Inl x, u)"
      with mu show ?thesis by (simp add: applyNodeHostInfoUpdate_def Let_def t)
    next
      fix x y nh nh' assume nu: "mn_update (db_NodeHostImage d) ?a = (Inr x, nh)"
        "mn_update (db_NodeHostImage e) ?b = (Inr y, nh')" and nh: "mnh_eq nh nh'"
      note si = syncShardInfo_eq [OF nh mc]
      show ?thesis
      proof (cases "mget (db_Requests e) (nhi_RaftAddress b)")
        case None
        with mu nu show ?thesis
          by (simp add: applyNodeHostInfoUpdate_def Let_def mrel_eq_get [OF rq] addr t)
            (rule onUpdatedShardInfo_eq, use d t ab mc si in \<open>simp add: db_eq_def mrel_put mrel_del\<close>)
      next
        case (Some q)
        with mu nu show ?thesis
          by (simp add: applyNodeHostInfoUpdate_def Let_def mrel_eq_get [OF rq] addr t)
            (rule onUpdatedShardInfo_eq, use d t ab mc si in \<open>simp add: db_eq_def mrel_put mrel_del\<close>)
      qed
    qed
  qed
qed

text \<open>Every command has the same outcome on related copies.\<close>

lemma applyUpdate_eq:
  assumes d: "db_eq d e" and u: "upd_eq u v"
  shows "go_rel (=) db_eq (applyUpdate cdc d u) (applyUpdate cdc e v)"
proof -
  have same: "up_Type u = up_Type v" "up_Change u = up_Change v" "up_KvUpdate u = up_KvUpdate v"
    "up_Requests u = up_Requests v" and n: "rel_option nhi_eq (up_NodehostInfo u) (up_NodehostInfo v)"
    using u by (simp_all add: upd_eq_def)
  have "go_rel (=) db_eq
      (case up_NodehostInfo u of None \<Rightarrow> (panic NilDereference, d)
         | Some x \<Rightarrow> applyNodeHostInfoUpdate d x)
      (case up_NodehostInfo v of None \<Rightarrow> (panic NilDereference, e)
         | Some x \<Rightarrow> applyNodeHostInfoUpdate e x)"
    using n applyNodeHostInfoUpdate_eq [OF d] by (auto elim!: option.rel_cases)
  then show ?thesis
    using applyShardUpdate_eq [OF d] applyKVUpdate_eq [OF d] applyRequestsUpdate_eq [OF d]
      applyTickUpdate_eq [OF d]
    by (auto simp: applyUpdate_def same split: option.split)
qed

end
