(* ===== verification/LogMachine.thy ===== *)
theory LogMachine
  imports GoPrelude
begin

text \<open>
  A replicated state machine applying its log, and the contracts an operation can keep:
  a relation between two copies (\<open>log_relation\<close>), an invariant that may use up a budget of
  entries (\<open>log_budget\<close>, and \<open>log_invariant\<close> without budget), and a relation between the states
  before and after (\<open>log_progress\<close>). The lemmas of each locale lift its contract from one entry
  to the log; the components interpret them on their own operations.
\<close>

section \<open>Runs\<close>

text \<open>
  The results of the entries applied, the failure that stopped the run if there was one, and the
  state it left. A panic stops the process, so nothing is applied after it.
\<close>

fun runLog :: "('c \<Rightarrow> 's \<Rightarrow> 'r go \<times> 's) \<Rightarrow> 'c list \<Rightarrow> 's \<Rightarrow> 'r list \<times> gofail option \<times> 's" where
  "runLog f [] s = ([], None, s)"
| "runLog f (c # cs) s =
     (case f c s of
        (Inl e, s') \<Rightarrow> ([], Some e, s')
      | (Inr r, s') \<Rightarrow> (case runLog f cs s' of (rs, e, t) \<Rightarrow> (r # rs, e, t)))"

text \<open>The runs that finished, as an inductive relation between the first and the last state.\<close>

inductive runs :: "('c \<Rightarrow> 's \<Rightarrow> 'r go \<times> 's) \<Rightarrow> 's \<Rightarrow> 'c list \<Rightarrow> 'r list \<Rightarrow> 's \<Rightarrow> bool" for f where
  runs_nil: "runs f s [] [] s"
| runs_cons: "f c s = (Inr r, s') \<Longrightarrow> runs f s' cs rs t \<Longrightarrow> runs f s (c # cs) (r # rs) t"

inductive_simps runs_Nil_iff [simp]: "runs f s [] rs t"
inductive_simps runs_Cons_iff: "runs f s (c # cs) rs t"
inductive_cases runs_NilE: "runs f s [] rs t"
inductive_cases runs_ConsE: "runs f s (c # cs) rs t"

lemma runs_runLog: "runs f s cs rs t \<longleftrightarrow> runLog f cs s = (rs, None, t)"
proof (induction cs arbitrary: s rs)
  case (Cons c cs)
  show ?case
    by (cases "f c s"; cases "fst (f c s)")
      (auto simp: runs_Cons_iff Cons.IH split: prod.splits)
qed auto

lemma runs_append:
  "runs f s (as @ bs) rs t \<longleftrightarrow> (\<exists>u xs ys. runs f s as xs u \<and> runs f u bs ys t \<and> rs = xs @ ys)"
  by (induction as arbitrary: s rs) (fastforce simp: runs_Cons_iff)+

lemma runs_length: "runs f s cs rs t \<Longrightarrow> length rs = length cs"
  by (induction rule: runs.induct) simp_all

section \<open>Contracts\<close>

locale log_relation =
  fixes f :: "'c \<Rightarrow> 's \<Rightarrow> 'r go \<times> 's" and R :: "'s \<Rightarrow> 's \<Rightarrow> bool" and A :: "'c \<Rightarrow> 'c \<Rightarrow> bool"
  assumes related: "A c d \<Longrightarrow> R s t \<Longrightarrow> go_rel (=) R (f c s) (f d t)"
begin

text \<open>Two copies that apply related logs give the same results and fail at the same entry.\<close>

lemma runs_agree:
  assumes "list_all2 A cs ds" and "R s t"
  shows "fst (runLog f cs s) = fst (runLog f ds t) \<and>
    fst (snd (runLog f cs s)) = fst (snd (runLog f ds t)) \<and>
    (fst (snd (runLog f cs s)) = None \<longrightarrow>
       R (snd (snd (runLog f cs s))) (snd (snd (runLog f ds t))))"
  using assms
proof (induction cs ds arbitrary: s t rule: list_all2_induct)
  case (Cons c cs d ds)
  from related [OF Cons.hyps(1) Cons.prems] show ?case
  proof (rule go_rel_cases)
    fix a b u v assume step: "f c s = (Inr a, u)" "f d t = (Inr b, v)" "a = b" and uv: "R u v"
    from Cons.IH [OF uv] show ?thesis
      by (cases "runLog f cs u"; cases "runLog f ds v") (simp add: step)
  qed simp
qed simp

end

locale log_budget =
  fixes f :: "'c \<Rightarrow> 's \<Rightarrow> 'r go \<times> 's" and ok :: "'c \<Rightarrow> bool" and I :: "nat \<Rightarrow> 's \<Rightarrow> bool"
  assumes spend: "ok c \<Longrightarrow> I (Suc n) s \<Longrightarrow> f c s = (Inr r, s') \<Longrightarrow> I n s'"
begin

lemma run_spends: "runs f s cs rs t \<Longrightarrow> list_all ok cs \<Longrightarrow> I (length cs + n) s \<Longrightarrow> I n t"
  by (induction rule: runs.induct) (auto intro: spend)

end

locale log_invariant =
  fixes f :: "'c \<Rightarrow> 's \<Rightarrow> 'r go \<times> 's" and ok :: "'c \<Rightarrow> bool" and I :: "'s \<Rightarrow> bool"
  assumes keep: "ok c \<Longrightarrow> I s \<Longrightarrow> f c s = (Inr r, s') \<Longrightarrow> I s'"

sublocale log_invariant \<subseteq> budget: log_budget f ok "\<lambda>_. I"
  by unfold_locales (rule keep)

context log_invariant
begin

lemma run_keeps: "runs f s cs rs t \<Longrightarrow> list_all ok cs \<Longrightarrow> I s \<Longrightarrow> I t"
  by (rule budget.run_spends)

end

text \<open>Progress, from states that satisfy an invariant.\<close>

locale log_progress = log_invariant +
  fixes P :: "'b \<Rightarrow> 'b \<Rightarrow> bool"
  assumes stay: "I s \<Longrightarrow> P s s"
    and join: "P s t \<Longrightarrow> P t u \<Longrightarrow> P s u"
    and advance: "ok c \<Longrightarrow> I s \<Longrightarrow> f c s = (Inr r, s') \<Longrightarrow> P s s'"
begin

lemma run_advances: "runs f s cs rs t \<Longrightarrow> list_all ok cs \<Longrightarrow> I s \<Longrightarrow> P s t"
  by (induction rule: runs.induct) (auto intro: stay advance keep join)

end

end
