(* ===== verification/DBSteps.thy ===== *)
theory DBSteps
  imports Determinism LogMachine
begin

text \<open>
  What a command of the database does when it succeeds: one elimination rule per operation
  (\<open>*_effect\<close>) and one for \<open>Update_cmd\<close>, on which the invariants of the database rest.
\<close>

section \<open>Effects of the operations\<close>

lemma applyTick_effect:
  assumes "applyTickUpdate d = (Inr r, d')"
  shows "d' = d\<lparr>db_Tick := db_Tick d + tickIntervalSecond\<rparr>" "r = db_Tick d'" "\<not> db_Failed d"
    "db_LaunchDeadline d = 0 \<or> db_Tick d' \<le> db_LaunchDeadline d"
  using assms by (auto simp: applyTickUpdate_def checkLaunchDeadline_def assertNotFailed_def Let_def
      panic_def not_less word_neq_0_conv split: if_splits sum.splits)

text \<open>The answer of a KV update, read off the record stored under its key.\<close>

definition kvDecision :: "KV option \<Rightarrow> KV \<Rightarrow> u64" where
  "kvDecision old kv =
     (case old of
        None \<Rightarrow> DBKVUpdated
      | Some rec \<Rightarrow>
          if kv_Finalized rec then DBKVFinalized
          else if kv_InstanceId rec \<in> {kv_InstanceId kv, kv_OldInstanceId kv} then DBKVUpdated
          else DBKVRejected)"

definition storedKV :: "codec \<Rightarrow> db \<Rightarrow> string \<Rightarrow> KV option" where
  "storedKV cdc d key = (case mget (db_KVMap d) key of None \<Rightarrow> None | Some b \<Rightarrow> uKV cdc b)"

lemma applyKV_effect:
  assumes "applyKVUpdate cdc d kv = (Inr r, d')"
  shows "kv_Key kv \<noteq> []" "kv_Value kv \<noteq> []" "r = kvDecision (storedKV cdc d (kv_Key kv)) kv"
    "d' = (if r = DBKVUpdated then d\<lparr>db_KVMap := mput (kv_Key kv) (mKV cdc kv) (db_KVMap d)\<rparr> else d)"
  using assms by (auto simp: applyKVUpdate_def storedKV_def kvDecision_def panic_def Let_def db_codes
      split: if_splits option.splits)

lemma tryCreateShard_effect:
  assumes "tryCreateShard d c = (Inr r, d')"
  shows "ch_Members c \<noteq> []" "ch_AppName c \<noteq> []"
    "r = (if bootstrapped d then DBBootstrapped
          else if mhas (db_Shards d) (ch_ShardId c) then ShardExists else DBUpdated)"
    "d' = (if r = DBUpdated then d\<lparr>db_Shards := mput (ch_ShardId c)
        \<lparr>sd_Members = ch_Members c, sd_ShardId = ch_ShardId c, sd_AppName = ch_AppName c\<rparr>
        (db_Shards d)\<rparr> else d)"
  using assms by (auto simp: tryCreateShard_def panic_def db_codes split: if_splits)

text \<open>The launch flag is free when a launch is accepted, so setting it cannot fail.\<close>

lemma setLaunched_free:
  assumes "\<not> launched d"
  shows "setLaunched cdc d = (Inr (), d\<lparr>db_KVMap := mput launchedKey
    (mKV cdc (zero_KV\<lparr>kv_Key := launchedKey, kv_Value := ''true'', kv_Finalized := True\<rparr>))
    (db_KVMap d)\<rparr>)"
  using assms by (simp add: launched_def mhas_def setLaunched_def applyKVUpdate_def launchedKey_def Let_def)

definition queueRequests :: "NodeHostRequest list \<Rightarrow> (string, NodeHostRequest list) gomap
    \<Rightarrow> (string, NodeHostRequest list) gomap" where
  "queueRequests rs m = fold (\<lambda>(addr, r). mput addr r) (fold groupRequest rs []) m"

definition launchKV :: KV where
  "launchKV = zero_KV\<lparr>kv_Key := launchedKey, kv_Value := ''true'', kv_Finalized := True\<rparr>"

lemma applyRequests_effect:
  assumes "applyRequestsUpdate cdc d reqs = (Inr r, d')"
  obtains (ignored) "isLaunchRequests reqs = Inr True" "launched d" "r = 0" "d' = d"
  | (launching) "isLaunchRequests reqs = Inr True" "\<not> launched d"
      "r = of_nat (length (nrc_Requests reqs))"
      "d' = d\<lparr>db_Requests := queueRequests (nrc_Requests reqs) (db_Requests d),
              db_KVMap := mput launchedKey (mKV cdc launchKV) (db_KVMap d),
              db_LaunchDeadline := db_Tick d + launchDeadlineTick * tickIntervalSecond\<rparr>"
  | (queued) "isLaunchRequests reqs = Inr False" "r = of_nat (length (nrc_Requests reqs))"
      "d' = d\<lparr>db_Requests := queueRequests (nrc_Requests reqs) (db_Requests d)\<rparr>"
proof (cases "isLaunchRequests reqs")
  case (Inl e)
  with assms show thesis by (simp add: applyRequestsUpdate_def)
next
  case (Inr l)
  consider "l" "launched d" | "l" "\<not> launched d" | "\<not> l" by blast
  then show thesis
  proof cases
    case 1
    with assms Inr show thesis by (intro ignored) (simp_all add: applyRequestsUpdate_def)
  next
    case 2
    have nl: "\<not> launched (d\<lparr>db_Requests := q\<rparr>)" for q using 2(2) by (simp add: launched_def)
    have "applyRequestsUpdate cdc d reqs = (Inr (of_nat (length (nrc_Requests reqs))),
        d\<lparr>db_Requests := queueRequests (nrc_Requests reqs) (db_Requests d),
              db_KVMap := mput launchedKey (mKV cdc launchKV) (db_KVMap d),
              db_LaunchDeadline := db_Tick d + launchDeadlineTick * tickIntervalSecond\<rparr>)"
      by (simp add: applyRequestsUpdate_def Inr 2 Let_def setLaunched_free [OF nl] launchKV_def
          queueRequests_def)
    with assms Inr 2 show thesis by (intro launching) simp_all
  next
    case 3
    have "applyRequestsUpdate cdc d reqs = (Inr (of_nat (length (nrc_Requests reqs))),
        d\<lparr>db_Requests := queueRequests (nrc_Requests reqs) (db_Requests d)\<rparr>)"
      by (simp add: applyRequestsUpdate_def Inr 3 Let_def queueRequests_def)
    with assms Inr 3 show thesis by (intro queued) simp_all
  qed
qed

definition reportOf :: "db \<Rightarrow> NodeHostInfo \<Rightarrow> NodeHostInfo" where
  "reportOf d nhi = nhi\<lparr>nhi_LastTick := db_Tick d\<rparr>"

lemma reportOf_simps [simp]:
  "nhi_LastTick (reportOf d nhi) = db_Tick d"
  "nhi_RaftAddress (reportOf d nhi) = nhi_RaftAddress nhi"
  "nhi_ShardInfo (reportOf d nhi) = nhi_ShardInfo nhi"
  by (simp_all add: reportOf_def)

lemma onUpdatedShardInfo_simps [simp]:
  "db_ShardID (onUpdatedShardInfo d) = db_ShardID d"
  "db_ReplicaID (onUpdatedShardInfo d) = db_ReplicaID d"
  "db_Version (onUpdatedShardInfo d) = db_Version d"
  "db_Tick (onUpdatedShardInfo d) = db_Tick d"
  "db_Failed (onUpdatedShardInfo d) = db_Failed d"
  "db_Shards (onUpdatedShardInfo d) = db_Shards d"
  "db_KVMap (onUpdatedShardInfo d) = db_KVMap d"
  "db_ShardImage (onUpdatedShardInfo d) = db_ShardImage d"
  "db_NodeHostImage (onUpdatedShardInfo d) = db_NodeHostImage d"
  "db_NodeHostInfo (onUpdatedShardInfo d) = db_NodeHostInfo d"
  "db_Requests (onUpdatedShardInfo d) = db_Requests d"
  "db_Outgoing (onUpdatedShardInfo d) = db_Outgoing d"
  by (simp_all add: onUpdatedShardInfo_def)

lemma applyReport_effect:
  assumes "applyNodeHostInfoUpdate d nhi = (Inr r, d')"
  obtains mc mnh where
    "ms_update (db_ShardImage d) (reportOf d nhi) = (Inr (), mc)"
    "mn_update (db_NodeHostImage d) (reportOf d nhi) = (Inr (), mnh)"
    "db_Tick d' = db_Tick d" "db_Failed d' = db_Failed d" "db_Version d' = db_Version d"
    "db_Shards d' = db_Shards d" "db_KVMap d' = db_KVMap d"
    "db_ShardImage d' = mc" "db_NodeHostImage d' = syncShardInfo mnh mc"
    "db_NodeHostInfo d' = mput (nhi_RaftAddress nhi) (reportOf d nhi) (db_NodeHostInfo d)"
    "db_Requests d' = mdel (nhi_RaftAddress nhi) (db_Requests d)"
    "db_Outgoing d' = (case mget (db_Requests d) (nhi_RaftAddress nhi) of
       None \<Rightarrow> mdel (nhi_RaftAddress nhi) (db_Outgoing d)
     | Some q \<Rightarrow> mput (nhi_RaftAddress nhi) q (mdel (nhi_RaftAddress nhi) (db_Outgoing d)))"
    "r = (case mget (db_Requests d) (nhi_RaftAddress nhi) of None \<Rightarrow> 0 | Some q \<Rightarrow> of_nat (length q))"
proof -
  have rep: "nhi\<lparr>nhi_LastTick := db_Tick d\<rparr> = reportOf d nhi" by (simp add: reportOf_def)
  obtain x mc where mu: "ms_update (db_ShardImage d) (reportOf d nhi) = (x, mc)"
    by (cases "ms_update (db_ShardImage d) (reportOf d nhi)")
  obtain y mnh where nu: "mn_update (db_NodeHostImage d) (reportOf d nhi) = (y, mnh)"
    by (cases "mn_update (db_NodeHostImage d) (reportOf d nhi)")
  have x: "x = Inr ()" using assms mu
    by (cases x) (simp_all add: applyNodeHostInfoUpdate_def Let_def rep)
  have y: "y = Inr ()" using assms mu nu x
    by (cases y) (simp_all add: applyNodeHostInfoUpdate_def Let_def rep)
  have nodel: "mdel a m = m" if "mget m a = None" for a and m :: "(string, NodeHostRequest list) gomap"
    using that by (auto simp: mdel_def map_of_eq_None_iff intro!: filter_True)
  show thesis
    by (rule that [OF mu [unfolded x] nu [unfolded y]];
        use assms mu nu x y in \<open>cases "mget (db_Requests d) (nhi_RaftAddress nhi)"\<close>;
        auto simp: applyNodeHostInfoUpdate_def Let_def rep nodel)
qed

section \<open>Effects of a command\<close>

lemma Update_cmd_effect:
  assumes "Update_cmd cdc d cmd = (Inr r, d')"
  obtains u where "uUpdate cdc cmd = Some u" "\<not> db_Failed d" "applyUpdate cdc d u = (Inr r, d')"
  using assms by (auto simp: Update_cmd_def assertNotFailed_def panic_def split: if_splits option.splits)

lemma applyUpdate_effect:
  assumes "applyUpdate cdc d u = (Inr r, d')"
  obtains (create) c where "up_Type u = Update_SHARD" "up_Change u = Some c" "ch_Type c = Change_CREATE"
      "tryCreateShard d c = (Inr r, d')"
  | (kv) kv where "up_Type u = Update_KV" "up_KvUpdate u = Some kv"
      "applyKVUpdate cdc d kv = (Inr r, d')"
  | (report) nhi where "up_Type u = Update_NODEHOST_INFO" "up_NodehostInfo u = Some nhi"
      "applyNodeHostInfoUpdate d nhi = (Inr r, d')"
  | (requests) rs where "up_Type u = Update_REQUESTS" "up_Requests u = Some rs"
      "applyRequestsUpdate cdc d rs = (Inr r, d')"
  | (tick) "up_Type u = Update_TICK" "applyTickUpdate d = (Inr r, d')"
  using assms
  by (auto simp: applyUpdate_def applyShardUpdate_def panic_def split: if_splits option.splits)

text \<open>A decoded command whose maps have distinct keys.\<close>

definition upd_wf :: "Update \<Rightarrow> bool" where
  "upd_wf u \<longleftrightarrow> (case up_NodehostInfo u of None \<Rightarrow> True | Some nhi \<Rightarrow> nhi_wf nhi)"

definition entry_ok :: "codec \<Rightarrow> string \<Rightarrow> bool" where
  "entry_ok cdc cmd \<longleftrightarrow> (case uUpdate cdc cmd of None \<Rightarrow> True | Some u \<Rightarrow> upd_wf u)"

lemma entry_okD: "entry_ok cdc cmd \<Longrightarrow> uUpdate cdc cmd = Some u \<Longrightarrow> upd_wf u"
  by (simp add: entry_ok_def)

lemma upd_wf_eq: "upd_wf u \<Longrightarrow> upd_eq u u"
  by (auto simp: upd_wf_def upd_eq_def intro!: option.rel_refl_strong nhi_eq_refl split: option.splits)

section \<open>Determinism of the log\<close>

text \<open>
  A log entry with the decoder a server applied to it: two servers read the same bytes, their
  decoders may order the maps differently, and their encoders agree on key-value records.
\<close>

definition codec_agree :: "codec \<Rightarrow> codec \<Rightarrow> bool" where
  "codec_agree a b \<longleftrightarrow> mKV a = mKV b \<and> uKV a = uKV b \<and>
     (\<forall>bs. rel_option upd_eq (uUpdate a bs) (uUpdate b bs))"

definition entry_agree :: "codec \<times> string \<Rightarrow> codec \<times> string \<Rightarrow> bool" where
  "entry_agree x y \<longleftrightarrow> snd x = snd y \<and> codec_agree (fst x) (fst y)"

definition applyEntry :: "codec \<times> string \<Rightarrow> db \<Rightarrow> u64 go \<times> db" where
  "applyEntry e d = Update_cmd (fst e) d (snd e)"

lemma applyUpdate_codec:
  "mKV a = mKV b \<Longrightarrow> uKV a = uKV b \<Longrightarrow> applyUpdate a d u = applyUpdate b d u"
proof -
  assume eq: "mKV a = mKV b" "uKV a = uKV b"
  have kv: "applyKVUpdate a = applyKVUpdate b"
    by (intro ext) (simp only: applyKVUpdate_def eq)
  have "setLaunched a = setLaunched b"
    by (intro ext) (simp only: setLaunched_def kv)
  then have "applyRequestsUpdate a = applyRequestsUpdate b"
    by (intro ext) (simp only: applyRequestsUpdate_def)
  with kv show ?thesis by (simp only: applyUpdate_def)
qed

lemma applyEntry_eq:
  assumes "entry_agree x y" and "db_eq d e"
  shows "go_rel (=) db_eq (applyEntry x d) (applyEntry y e)"
proof -
  obtain a b bs where xy: "x = (a, bs)" "y = (b, bs)" and ab: "codec_agree a b"
    using assms(1) by (cases x; cases y) (auto simp: entry_agree_def)
  have failed: "db_Failed d = db_Failed e" using assms(2) by (simp add: db_eq_def)
  from ab have "rel_option upd_eq (uUpdate a bs) (uUpdate b bs)" by (simp add: codec_agree_def)
  then show ?thesis
  proof (cases rule: option.rel_cases)
    case (Some u v)
    then show ?thesis
      using applyUpdate_eq [OF assms(2), of u v a] applyUpdate_codec [of a b e v] ab failed
      by (simp add: applyEntry_def xy Update_cmd_def assertNotFailed_def codec_agree_def panic_def)
  qed (simp add: applyEntry_def xy Update_cmd_def assertNotFailed_def failed panic_def)
qed

interpretation db_copies: log_relation applyEntry db_eq entry_agree
  by unfold_locales (rule applyEntry_eq)

text \<open>A copy is related to itself when its maps are well formed, which commands preserve.\<close>

definition db_ok :: "db \<Rightarrow> bool" where
  "db_ok d \<longleftrightarrow> db_eq d d"

lemma db_ok_keep:
  assumes "entry_ok cdc cmd" and "db_ok d" and "Update_cmd cdc d cmd = (Inr r, d')"
  shows "db_ok d'"
proof -
  obtain u where u: "uUpdate cdc cmd = Some u" "applyUpdate cdc d u = (Inr r, d')"
    using assms(3) by (rule Update_cmd_effect)
  have "go_rel (=) db_eq (applyUpdate cdc d u) (applyUpdate cdc d u)"
    by (rule applyUpdate_eq) (use assms(2) upd_wf_eq [OF entry_okD [OF assms(1) u(1)]] in \<open>simp_all add: db_ok_def\<close>)
  with u(2) show ?thesis by (simp add: db_ok_def)
qed

interpretation db_maps: log_invariant "\<lambda>cmd d. Update_cmd cdc d cmd" "entry_ok cdc" db_ok for cdc
  by unfold_locales (rule db_ok_keep)

lemma db_ok_NewDB: "db_ok (NewDB s r)"
  by (simp add: db_ok_def db_eq_def NewDB_def ms_eq_def shards_eq_def mnh_eq_def hosts_eq_def
      newMultiShard_def newMultiNodeHost_def)

end
