(* ===== verification/ImageInvariants.thy ===== *)
theory ImageInvariants
  imports ShardImageFacts
begin

text \<open>
  Invariants of the shard image: keys, IDs and ticks fit together and a shard has at most one
  leader (\<open>shard_ok\<close>); the configuration change index identifies a membership and never goes
  back (\<open>cfg_le\<close>). \<open>ms_update\<close> keeps the first and advances the second.
\<close>

section \<open>Well-formed shards\<close>

definition oneLeader :: "(u64, replica) gomap \<Rightarrow> bool" where
  "oneLeader rs \<longleftrightarrow> (\<forall>i j m n. mget rs i = Some m \<longrightarrow> mget rs j = Some n \<longrightarrow>
     rp_IsLeader m \<longrightarrow> rp_IsLeader n \<longrightarrow> i = j)"

definition replica_ok :: "u64 \<Rightarrow> u64 \<Rightarrow> u64 \<Rightarrow> replica \<Rightarrow> bool" where
  "replica_ok T k rid n \<longleftrightarrow> rp_ReplicaID n = rid \<and> rp_ShardID n = k \<and> rp_Tick n \<le> T \<and>
     rp_FirstObserved n \<le> T"

definition shard_ok :: "u64 \<Rightarrow> u64 \<Rightarrow> shard \<Rightarrow> bool" where
  "shard_ok T k c \<longleftrightarrow> sh_ShardID c = k \<and> gm_ok (sh_Replicas c) \<and> oneLeader (sh_Replicas c) \<and>
     (\<forall>rid n. mget (sh_Replicas c) rid = Some n \<longrightarrow> replica_ok T k rid n)"

definition all_shards :: "(u64 \<Rightarrow> shard \<Rightarrow> bool) \<Rightarrow> (u64, shard) gomap \<Rightarrow> bool" where
  "all_shards Q m \<longleftrightarrow> gm_ok m \<and> (\<forall>k c. mget m k = Some c \<longrightarrow> Q k c)"

lemma all_shards_put: "all_shards Q m \<Longrightarrow> Q k c \<Longrightarrow> all_shards Q (mput k c m)"
  by (simp add: all_shards_def gomap_simps)

lemma all_shards_get: "all_shards Q m \<Longrightarrow> mget m k = Some c \<Longrightarrow> Q k c"
  by (simp add: all_shards_def)

lemma all_shards_mono: "all_shards Q m \<Longrightarrow> (\<And>k c. Q k c \<Longrightarrow> P k c) \<Longrightarrow> all_shards P m"
  by (simp add: all_shards_def)

lemma shard_ok_mono: "shard_ok T k c \<Longrightarrow> T \<le> T' \<Longrightarrow> shard_ok T' k c"
  unfolding shard_ok_def replica_ok_def by (meson order_trans)

lemma shard_okD:
  assumes "shard_ok T k c"
  shows "sh_ShardID c = k" "gm_ok (sh_Replicas c)" "oneLeader (sh_Replicas c)"
    "mget (sh_Replicas c) rid = Some n \<Longrightarrow> replica_ok T k rid n"
  using assms by (auto simp: shard_ok_def)

lemma newReplica_ok: "replica_ok T k rid (newReplica k T rid a)" "\<not> rp_IsLeader (newReplica k T rid a)"
  by (simp_all add: replica_ok_def newReplica_def)

lemma replica_ok_leader: "replica_ok T k rid (n\<lparr>rp_IsLeader := b\<rparr>) = replica_ok T k rid n"
  by (simp add: replica_ok_def)

lemma getShard_ok:
  assumes "gm_ok (si_Replicas ci)"
  shows "shard_ok T (si_ShardId ci) (getShard ci T)"
proof -
  let ?rs = "mmap (newReplica (si_ShardId ci) T) (si_Replicas ci)"
  have ok: "gm_ok ?rs" and each: "replica_ok T (si_ShardId ci) rid n" and no: "\<not> rp_IsLeader n"
    if "mget ?rs rid = Some n" for rid n
    using assms that by (auto simp: gomap_simps newReplica_ok)
  have "gm_ok ?rs" using assms by simp
  with each no show ?thesis
    by (cases "mget ?rs (si_ReplicaId ci)")
      (auto simp: getShard_def shard_ok_def oneLeader_def Let_def mget_mput replica_ok_leader
        split: if_splits)
qed

lemma getShard_ok_le:
  "gm_ok (si_Replicas ci) \<Longrightarrow> t \<le> T \<Longrightarrow> shard_ok T (si_ShardId ci) (getShard ci t)"
  by (rule shard_ok_mono [OF getShard_ok])

lemma newReplica_ok_le: "t \<le> T \<Longrightarrow> replica_ok T k rid (newReplica k t rid a)"
  by (simp add: replica_ok_def newReplica_def)

text \<open>A report that \<open>syncShard\<close> does not fail on is stale or leaves the synced replicas.\<close>

lemma syncShard_success:
  assumes s: "syncShard c ci t = (Inr rejected, c')"
    and ok: "gm_ok (sh_Replicas c)" "gm_ok (si_Replicas ci)"
  obtains (stale) "sh_ConfigChangeIndex c > si_ConfigChangeIndex ci" "rejected" "c' = c"
  | (accepted) rs where "sh_ConfigChangeIndex c \<le> si_ConfigChangeIndex ci" "\<not> rejected" "gm_ok rs"
      "\<And>k. mget rs k = syncedReplica ci t (sh_Replicas c) k" "distinct (map rp_Address (mvals rs))"
      "sh_ConfigChangeIndex c = si_ConfigChangeIndex ci \<Longrightarrow>
         length (sh_Replicas c) = length (si_Replicas ci) \<and>
         list_all (mhas (sh_Replicas c)) (mkeys (si_Replicas ci))"
      "\<not> addrConflict c ci"
      "c' = c\<lparr>sh_ConfigChangeIndex := si_ConfigChangeIndex ci, sh_Replicas := rs\<rparr>"
proof (cases "sh_ConfigChangeIndex c > si_ConfigChangeIndex ci")
  case True
  from s have "rejected" "c' = c" unfolding syncShard_stale [OF True] by simp_all
  then show thesis by (rule stale [OF True])
next
  case False
  have nopanic: "syncShard c ci t \<noteq> (panic p, x)" for p x using s by (simp add: panic_def)
  have same: "length (sh_Replicas c) = length (si_Replicas ci) \<and>
      list_all (mhas (sh_Replicas c)) (mkeys (si_Replicas ci))" if "sameIndex c ci"
  proof (intro conjI)
    show len: "length (sh_Replicas c) = length (si_Replicas ci)"
      by (rule ccontr) (rule notE [OF nopanic syncShard_count [OF False that]])
    show "list_all (mhas (sh_Replicas c)) (mkeys (si_Replicas ci))"
      by (rule ccontr) (rule notE [OF nopanic syncShard_ids [OF False that len]])
  qed
  have noconf: "\<not> addrConflict c ci"
  proof
    assume "addrConflict c ci"
    from syncShard_conflict [OF False same ok(2) this, of t] s show False by (simp add: panic_def)
  qed
  obtain rs where ok': "gm_ok rs" and get: "\<And>k. mget rs k = syncedReplica ci t (sh_Replicas c) k"
    and eq: "syncShard c ci t = (if distinct (map rp_Address (mvals rs)) then Inr False
       else panic DuplicatedAddress,
     c\<lparr>sh_ConfigChangeIndex := si_ConfigChangeIndex ci, sh_Replicas := rs\<rparr>)"
    using syncShard_accept [OF False same ok noconf, of t] by blast
  have d: "distinct (map rp_Address (mvals rs))"
  proof (rule ccontr)
    assume "\<not> distinct (map rp_Address (mvals rs))"
    with eq have "syncShard c ci t = (panic DuplicatedAddress,
        c\<lparr>sh_ConfigChangeIndex := si_ConfigChangeIndex ci, sh_Replicas := rs\<rparr>)" by (simp only: if_False)
    then show False by (rule notE [OF nopanic])
  qed
  have "(Inr rejected, c') =
      (Inr False :: bool go, c\<lparr>sh_ConfigChangeIndex := si_ConfigChangeIndex ci, sh_Replicas := rs\<rparr>)"
    using eq d unfolding s by simp
  then have c': "\<not> rejected"
    "c' = c\<lparr>sh_ConfigChangeIndex := si_ConfigChangeIndex ci, sh_Replicas := rs\<rparr>" by simp_all
  have le: "sh_ConfigChangeIndex c \<le> si_ConfigChangeIndex ci" using False by simp
  show thesis
    by (rule accepted [OF le c'(1) ok' get d _ noconf c'(2)]) (rule same, simp add: sameIndex_def)
qed

lemma syncedReplica_cases:
  assumes "syncedReplica ci t rs rid = Some n"
  obtains "mget rs rid = Some n" | a where "n = newReplica (si_ShardId ci) t rid a"
  using assms by (auto simp: syncedReplica_def split: option.splits)

lemma syncShard_ok:
  assumes s: "syncShard c ci t = (Inr rejected, c')" and c: "shard_ok T (si_ShardId ci) c"
    and ci: "gm_ok (si_Replicas ci)" and t: "t \<le> T"
  shows "shard_ok T (si_ShardId ci) c'"
  using s shard_okD(2) [OF c] ci
proof (cases rule: syncShard_success)
  case stale
  with c show ?thesis by simp
next
  case (accepted rs)
  have old: "mget rs rid = Some n \<Longrightarrow> mget (sh_Replicas c) rid = Some n \<or>
      (\<exists>a. n = newReplica (si_ShardId ci) t rid a)" for rid n
    unfolding accepted(4) by (blast elim: syncedReplica_cases)
  have "oneLeader rs"
    using shard_okD(3) [OF c] old newReplica_ok(2) unfolding oneLeader_def by metis
  moreover have "replica_ok T (si_ShardId ci) rid n" if "mget rs rid = Some n" for rid n
    using old [OF that] shard_okD(4) [OF c] newReplica_ok_le [OF t] by auto
  ultimately show ?thesis
    using shard_okD(1) [OF c] accepted(3,8) by (simp add: shard_ok_def)
qed

section \<open>Configurations\<close>

definition membership :: "shard \<Rightarrow> u64 \<Rightarrow> string option" where
  "membership c rid = map_option rp_Address (mget (sh_Replicas c) rid)"

definition cfg_le :: "shard \<Rightarrow> shard \<Rightarrow> bool" where
  "cfg_le c c' \<longleftrightarrow> sh_ConfigChangeIndex c < sh_ConfigChangeIndex c' \<or>
     sh_ConfigChangeIndex c = sh_ConfigChangeIndex c' \<and> membership c = membership c'"

definition image_le :: "(u64, shard) gomap \<Rightarrow> (u64, shard) gomap \<Rightarrow> bool" where
  "image_le m m' \<longleftrightarrow> (\<forall>k c. mget m k = Some c \<longrightarrow> (\<exists>c'. mget m' k = Some c' \<and> cfg_le c c'))"

lemma cfg_le_refl: "cfg_le c c"
  by (simp add: cfg_le_def)

lemma cfg_le_trans: "cfg_le a b \<Longrightarrow> cfg_le b c \<Longrightarrow> cfg_le a c"
  by (auto simp: cfg_le_def)

lemma image_le_refl: "image_le m m"
  by (simp add: image_le_def cfg_le_refl)

lemma image_le_trans: "image_le a b \<Longrightarrow> image_le b c \<Longrightarrow> image_le a c"
  unfolding image_le_def by (blast intro: cfg_le_trans)

lemma image_le_put:
  assumes "image_le m0 m" and "\<And>c. mget m k = Some c \<Longrightarrow> cfg_le c c'"
  shows "image_le m0 (mput k c' m)"
  unfolding image_le_def
proof (intro allI impI)
  fix j c assume "mget m0 j = Some c"
  with assms(1) obtain c1 where c1: "mget m j = Some c1" "cfg_le c c1" by (auto simp: image_le_def)
  show "\<exists>c2. mget (mput k c' m) j = Some c2 \<and> cfg_le c c2"
  proof (cases "j = k")
    case True
    with c1 assms(2) show ?thesis by (auto simp: mget_mput intro: cfg_le_trans)
  next
    case False
    with c1 show ?thesis by (simp add: mget_mput)
  qed
qed

text \<open>Reports at the same index name the same replicas at the same addresses.\<close>

lemma same_keys:
  assumes "gm_ok m" "gm_ok m'" "length m = length m'" "list_all (mhas m) (mkeys m')"
  shows "mhas m k = mhas m' k"
proof -
  have "set (mkeys m') \<subseteq> set (mkeys m)"
    using assms(4) by (auto simp: list_all_iff mhas_mkeys)
  moreover have "card (set (mkeys m')) = card (set (mkeys m))"
    using assms(1-3) distinct_card [of "map fst m"] distinct_card [of "map fst m'"]
    by (simp add: gm_ok_def mkeys_def)
  ultimately have "set (mkeys m') = set (mkeys m)"
    by (intro card_subset_eq) simp_all
  then show ?thesis by (metis mhas_mkeys)
qed

lemma syncShard_cfg:
  assumes s: "syncShard c ci t = (Inr rejected, c')"
    and ok: "gm_ok (sh_Replicas c)" "gm_ok (si_Replicas ci)"
  shows "cfg_le c c'"
  using s ok
proof (cases rule: syncShard_success)
  case stale
  then show ?thesis by (simp add: cfg_le_refl)
next
  case (accepted rs)
  show ?thesis
  proof (cases "sh_ConfigChangeIndex c = si_ConfigChangeIndex ci")
    case True
    have keys: "mhas (sh_Replicas c) k = mhas (si_Replicas ci) k" for k
      using same_keys [OF ok] accepted(6) [OF True] by simp
    have "membership c rid = membership c' rid" for rid
    proof (cases "mget (sh_Replicas c) rid")
      case None
      then have "mget (si_Replicas ci) rid = None" using keys [of rid] by (simp add: mhas_def)
      then show ?thesis using None accepted(4,8) by (simp add: membership_def syncedReplica_def)
    next
      case (Some n)
      then obtain a where "mget (si_Replicas ci) rid = Some a" using keys [of rid] by (auto simp: mhas_def)
      then show ?thesis using Some accepted(4,8) by (simp add: membership_def syncedReplica_def)
    qed
    with True accepted(8) show ?thesis by (auto simp: cfg_le_def)
  next
    case False
    with accepted(1,8) show ?thesis by (simp add: cfg_le_def)
  qed
qed

section \<open>The whole image\<close>

definition image_ok :: "u64 \<Rightarrow> (u64, shard) gomap \<Rightarrow> bool" where
  "image_ok T = all_shards (shard_ok T)"

lemma image_ok_get: "image_ok T m \<Longrightarrow> mget m k = Some c \<Longrightarrow> shard_ok T k c"
  unfolding image_ok_def by (rule all_shards_get)

lemma image_ok_put: "image_ok T m \<Longrightarrow> shard_ok T k c \<Longrightarrow> image_ok T (mput k c m)"
  unfolding image_ok_def by (rule all_shards_put)

lemma doUpdateShard_others:
  assumes "k \<noteq> si_ShardId ci"
  shows "mget (snd (snd (doUpdateShard t ci (ks, m)))) k = mget m k"
  using assms by (auto simp: doUpdateShard_def Let_def gomap_simps split: option.split prod.split sum.split)

lemma doUpdateShard_keeps:
  assumes d: "doUpdateShard t ci (kill, m) = (Inr r, (kill', m'))" and m: "image_ok T m"
    and ci: "gm_ok (si_Replicas ci)" and t: "t \<le> T"
  shows "image_ok T m' \<and> image_le m m'"
proof (cases "mget m (si_ShardId ci)")
  case None
  then show ?thesis
    using d m getShard_ok_le [OF ci t]
    by (auto simp: doUpdateShard_def Let_def image_ok_put image_le_refl None intro!: image_le_put
        split: if_splits)
next
  case (Some c)
  note ok = image_ok_get [OF m Some]
  show ?thesis
  proof (cases "si_Pending ci \<or> si_Incomplete ci")
    case True
    with d Some m show ?thesis
      by (auto simp: doUpdateShard_def Let_def image_le_refl split: if_splits)
  next
    case False
    obtain x c' where s: "syncShard c ci t = (x, c')" by (cases "syncShard c ci t")
    with d Some False obtain rej where x: "x = Inr rej" and m': "m' = mput (si_ShardId ci) c' m"
      by (cases x) (auto simp: doUpdateShard_def Let_def split: if_splits)
    note s = s [unfolded x]
    have "shard_ok T (si_ShardId ci) c'" by (rule syncShard_ok [OF s ok ci t])
    moreover have "cfg_le c c'" by (rule syncShard_cfg [OF s shard_okD(2) [OF ok] ci])
    ultimately show ?thesis
      using m Some by (auto simp: m' image_ok_put image_le_refl intro!: image_le_put)
  qed
qed

text \<open>Writing the replicas of a shard without moving any of them.\<close>

lemma shard_write:
  assumes m: "image_ok T m" and c: "mget m k = Some c" and rs: "gm_ok rs" "oneLeader rs"
    and each: "\<And>rid n'. mget rs rid = Some n' \<Longrightarrow> \<exists>n. mget (sh_Replicas c) rid = Some n \<and>
      rp_ReplicaID n' = rp_ReplicaID n \<and> rp_ShardID n' = rp_ShardID n \<and>
      rp_Address n' = rp_Address n \<and> rp_Tick n' \<le> T \<and> rp_FirstObserved n' = rp_FirstObserved n"
    and keys: "\<And>rid. mhas rs rid = mhas (sh_Replicas c) rid"
  shows "image_ok T (mput k (c\<lparr>sh_Replicas := rs\<rparr>) m) \<and> image_le m (mput k (c\<lparr>sh_Replicas := rs\<rparr>) m)"
proof
  note ok = image_ok_get [OF m c]
  have "replica_ok T k rid n'" if "mget rs rid = Some n'" for rid n'
    using each [OF that] shard_okD(4) [OF ok, of rid] by (auto simp: replica_ok_def)
  then have "shard_ok T k (c\<lparr>sh_Replicas := rs\<rparr>)"
    using shard_okD(1) [OF ok] rs by (simp add: shard_ok_def)
  then show "image_ok T (mput k (c\<lparr>sh_Replicas := rs\<rparr>) m)" by (rule image_ok_put [OF m])
  have "membership c rid = membership (c\<lparr>sh_Replicas := rs\<rparr>) rid" for rid
    using each [of rid] keys [of rid]
    by (cases "mget rs rid"; cases "mget (sh_Replicas c) rid") (auto simp: membership_def mhas_def)
  then have "cfg_le c (c\<lparr>sh_Replicas := rs\<rparr>)" by (auto simp: cfg_le_def)
  then show "image_le m (mput k (c\<lparr>sh_Replicas := rs\<rparr>) m)"
    by (intro image_le_put image_le_refl) (use c in simp)
qed

lemma tickShard_keeps:
  assumes m: "image_ok T m" and t: "t \<le> T"
  shows "image_ok T (tickShard t ci m) \<and> image_le m (tickShard t ci m)"
proof (cases "mget m (si_ShardId ci)")
  case None
  with m show ?thesis by (simp add: tickShard_def image_le_refl)
next
  case (Some c)
  note ok = image_ok_get [OF m Some] and get = Some
  show ?thesis
  proof (cases "mget (sh_Replicas c) (si_ReplicaId ci)")
    case None
    with m get show ?thesis by (simp add: tickShard_def image_le_refl)
  next
    case (Some n)
    have each: "\<exists>n. mget (sh_Replicas c) rid = Some n \<and> rp_ReplicaID n' = rp_ReplicaID n \<and>
        rp_ShardID n' = rp_ShardID n \<and> rp_Address n' = rp_Address n \<and> rp_Tick n' \<le> T \<and>
        rp_FirstObserved n' = rp_FirstObserved n"
      if "mget (mput (si_ReplicaId ci) (n\<lparr>rp_Tick := t\<rparr>) (sh_Replicas c)) rid = Some n'" for rid n'
    proof (cases "rid = si_ReplicaId ci")
      case True
      with that have n': "n' = n\<lparr>rp_Tick := t\<rparr>" by (simp add: mget_mput)
      from Some True t show ?thesis by (simp add: n')
    next
      case False
      with that have "mget (sh_Replicas c) rid = Some n'" by (simp add: mget_mput)
      with shard_okD(4) [OF ok this] show ?thesis by (simp add: replica_ok_def)
    qed
    have lead: "oneLeader (mput (si_ReplicaId ci) (n\<lparr>rp_Tick := t\<rparr>) (sh_Replicas c))"
      using shard_okD(3) [OF ok] Some by (auto simp: oneLeader_def mget_mput split: if_splits)
    have "mhas (mput (si_ReplicaId ci) (n\<lparr>rp_Tick := t\<rparr>) (sh_Replicas c)) rid = mhas (sh_Replicas c) rid"
      for rid using Some by (simp add: mhas_def mget_mput)
    from shard_write [OF m get _ lead each this] shard_okD(2) [OF ok] show ?thesis
      by (simp add: tickShard_def get Some)
  qed
qed

lemma leaderShard_keeps:
  assumes m: "image_ok T m"
  shows "image_ok T (leaderShard ci m) \<and> image_le m (leaderShard ci m)"
proof (cases "mget m (si_ShardId ci)")
  case None
  with m show ?thesis by (simp add: leaderShard_def image_le_refl)
next
  case (Some c)
  note ok = image_ok_get [OF m Some] and get = Some
  show ?thesis
  proof (cases "sh_ConfigChangeIndex c > si_ConfigChangeIndex ci \<or>
      mget (sh_Replicas c) (si_ReplicaId ci) = None")
    case True
    with m get show ?thesis by (auto simp: leaderShard_def image_le_refl)
  next
    case False
    then obtain n where n: "mget (sh_Replicas c) (si_ReplicaId ci) = Some n" by auto
    let ?down = "mput (si_ReplicaId ci) (n\<lparr>rp_IsLeader := False\<rparr>) (sh_Replicas c)"
    let ?up = "mput (si_ReplicaId ci) (n\<lparr>rp_IsLeader := True\<rparr>)
        (mmap (\<lambda>_ cn. cn\<lparr>rp_IsLeader := False\<rparr>) (sh_Replicas c))"
    have tick: "rp_Tick n' \<le> T" if "mget (sh_Replicas c) rid = Some n'" for rid n'
      using shard_okD(4) [OF ok that] by (simp add: replica_ok_def)
    have down: "image_ok T (mput (si_ShardId ci) (c\<lparr>sh_Replicas := ?down\<rparr>) m) \<and>
        image_le m (mput (si_ShardId ci) (c\<lparr>sh_Replicas := ?down\<rparr>) m)"
    proof (rule shard_write [OF m get])
      show "oneLeader ?down"
        using shard_okD(3) [OF ok] by (auto simp: oneLeader_def mget_mput split: if_splits)
    qed (use n tick shard_okD(2) [OF ok] in \<open>auto simp: mget_mput mhas_def split: if_splits\<close>)
    have up: "image_ok T (mput (si_ShardId ci) (c\<lparr>sh_Replicas := ?up\<rparr>) m) \<and>
        image_le m (mput (si_ShardId ci) (c\<lparr>sh_Replicas := ?up\<rparr>) m)"
    proof (rule shard_write [OF m get])
      show "oneLeader ?up" by (auto simp: oneLeader_def mget_mput mget_mmap split: if_splits)
    qed (use n tick shard_okD(2) [OF ok] in \<open>auto simp: mget_mput mget_mmap mhas_def split: if_splits\<close>)
    show ?thesis
      using m get n False down up by (auto simp: leaderShard_def Let_def image_le_refl)
  qed
qed

text \<open>What a successful \<open>ms_update\<close> is made of.\<close>

lemma ms_update_success:
  assumes "ms_update mc nhi = (Inr r, mc')"
  obtains toKill shards where
    "foreach (doUpdateShard (nhi_LastTick nhi)) (nhi_ShardInfo nhi) ([], ms_Shards mc) =
       (Inr (), (toKill, shards))"
    "ms_Shards mc' = fold leaderShard (nhi_ShardInfo nhi)
       (fold (tickShard (nhi_LastTick nhi)) (nhi_ShardInfo nhi) shards)"
    "ms_ReplicasToKill mc' = ms_ReplicasToKill mc @ map (\<lambda>ntk. \<lparr>tk_ShardID = si_ShardId ntk,
       tk_ReplicaID = si_ReplicaId ntk, tk_Address = nhi_RaftAddress nhi\<rparr>) toKill"
  using assms by (auto simp: ms_update_def doUpdate_def syncLeaderInfo_def updateNodeTick_def
      split: prod.splits sum.splits)

lemma ms_update_keeps:
  assumes u: "ms_update mc nhi = (Inr r, mc')" and m: "image_ok B (ms_Shards mc)"
    and nhi: "nhi_wf nhi" and B: "nhi_LastTick nhi \<le> B"
  shows "image_ok B (ms_Shards mc') \<and> image_le (ms_Shards mc) (ms_Shards mc')"
proof -
  let ?T = "nhi_LastTick nhi"
  let ?I = "\<lambda>m'. image_ok B m' \<and> image_le (ms_Shards mc) m'"
  obtain toKill shards where
    l: "foreach (doUpdateShard ?T) (nhi_ShardInfo nhi) ([], ms_Shards mc) = (Inr (), (toKill, shards))"
    and mc': "ms_Shards mc' = fold leaderShard (nhi_ShardInfo nhi)
       (fold (tickShard ?T) (nhi_ShardInfo nhi) shards)"
    using u by (rule ms_update_success)
  have "?I (snd (toKill, shards))"
  proof (rule foreach_success [OF l, where I = "\<lambda>s. ?I (snd s)"])
    fix ci s a s' assume ci: "ci \<in> set (nhi_ShardInfo nhi)" and s: "?I (snd s)"
      and step: "doUpdateShard ?T ci s = (Inr a, s')"
    have "gm_ok (si_Replicas ci)" using nhi ci by (simp add: nhi_wf_def list_all_iff)
    then show "?I (snd s')"
      using doUpdateShard_keeps [of ?T ci "fst s" "snd s" a "fst s'" "snd s'"] step s B
      by (auto intro: image_le_trans)
  qed (use m in \<open>simp add: image_le_refl\<close>)
  then have start: "?I shards" by simp
  have tick: "?I (tickShard ?T ci s)" if "?I s" for ci s
    using that tickShard_keeps [OF _ B, of s ci] by (blast intro: image_le_trans)
  have lead: "?I (leaderShard ci s)" if "?I s" for ci s
    using that leaderShard_keeps [of B s ci] by (blast intro: image_le_trans)
  have "?I (fold (tickShard ?T) (nhi_ShardInfo nhi) shards)"
    by (rule fold_inv [where I = ?I]) (rule start, rule tick)
  then show ?thesis
    unfolding mc' by (rule fold_inv [where I = ?I]) (rule lead)
qed

end
