(* ===== verification/DBInvariants.thy ===== *)
theory DBInvariants
  imports DBSteps ImageInvariants
begin

text \<open>
  The invariant of the database (\<open>db_inv\<close>): what the keys, IDs, ticks, queues and images of
  every reachable database have to do with each other. Each operation keeps it, for as long as
  the tick does not wrap: \<open>db_inv n d\<close> leaves room for \<open>n\<close> more commands. Beside it stand the
  relations a command can only move forward along (\<open>db_progress\<close>).
\<close>

section \<open>NodeHosts\<close>

definition hosts_inv :: "u64 \<Rightarrow> (string, nodeHostSpec) gomap \<Rightarrow> bool" where
  "hosts_inv T hosts \<longleftrightarrow> hosts_ok hosts \<and>
     (\<forall>a s. mget hosts a = Some s \<longrightarrow> nh_Address s = a \<and> nh_Tick s \<le> T)"

text \<open>Every NodeHost is marked with the shards that have a replica on it.\<close>

definition hosts_marked :: "(u64, shard) gomap \<Rightarrow> (string, nodeHostSpec) gomap \<Rightarrow> bool" where
  "hosts_marked shards hosts \<longleftrightarrow>
     (\<forall>a s cid. mget hosts a = Some s \<longrightarrow> cid \<in> shardsOn shards a \<longrightarrow> mhas (nh_Shards s) cid)"

lemma mn_update_inv:
  assumes "mn_update m nhi = (Inr r, m')" and "hosts_inv (nhi_LastTick nhi) (mn_Nodehosts m)"
  shows "hosts_inv (nhi_LastTick nhi) (mn_Nodehosts m')"
proof -
  have put: "hosts_inv (nhi_LastTick nhi) (mput (nhi_RaftAddress nhi) s (mn_Nodehosts m))"
    if "gm_ok (nh_Shards s)" "nh_Address s = nhi_RaftAddress nhi" "nh_Tick s = nhi_LastTick nhi" for s
    using assms(2) that by (auto simp: hosts_inv_def hosts_ok_def mget_mput split: if_splits)
  have addr: "nh_Address s = a" if "mget (mn_Nodehosts m) a = Some s" for a s
    using assms(2) that by (simp add: hosts_inv_def)
  show ?thesis
  proof (cases "mget (mn_Nodehosts m) (nhi_RaftAddress nhi)")
    case None
    with assms(1) put show ?thesis
      by (auto simp: mn_update_def mhas_def toNodeHostSpec_def shardIdSet_ok)
  next
    case (Some s)
    define s' where "s' = s\<lparr>nh_Region := nhi_Region nhi, nh_Tick := nhi_LastTick nhi,
        nh_PersistentLog := (if nhi_PlogInfoIncluded nhi then nhi_PlogInfo nhi
          else nh_PersistentLog s), nh_Shards := shardIdSet (nhi_ShardIdList nhi)\<rparr>"
    have m': "mn_Nodehosts m' = mput (nhi_RaftAddress nhi) s' (mn_Nodehosts m)"
      using assms(1) Some s'_def
      by (cases "nhi_PlogInfoIncluded nhi") (auto simp: mn_update_def mhas_def syncNodeHostSpec_def Let_def)
    show ?thesis
      unfolding m' by (rule put) (use addr [OF Some] in \<open>simp_all add: s'_def shardIdSet_ok\<close>)
  qed
qed

lemma syncShardInfo_inv:
  assumes "hosts_inv T (mn_Nodehosts m)"
  shows "hosts_inv T (mn_Nodehosts (syncShardInfo m mc))"
    and "hosts_marked (ms_Shards mc) (mn_Nodehosts (syncShardInfo m mc))"
proof -
  have ok: "hosts_ok (mn_Nodehosts m)" using assms by (simp add: hosts_inv_def)
  note g = syncShardInfo_get [OF ok, of mc]
  have origin: "\<exists>s. mget (mn_Nodehosts m) a = Some s \<and> spec_rest s t \<and>
      (\<forall>cid. mhas (nh_Shards t) cid \<longleftrightarrow> mhas (nh_Shards s) cid \<or> cid \<in> shardsOn (ms_Shards mc) a)"
    if "mget (mn_Nodehosts (syncShardInfo m mc)) a = Some t" for a t
    using g(2) [of a] that by (auto simp: option_rel_Some2)
  show "hosts_inv T (mn_Nodehosts (syncShardInfo m mc))"
    unfolding hosts_inv_def
  proof (intro conjI allI impI g(1))
    fix a t assume "mget (mn_Nodehosts (syncShardInfo m mc)) a = Some t"
    then obtain s where "mget (mn_Nodehosts m) a = Some s" "nh_Address s = nh_Address t" "nh_Tick s = nh_Tick t"
      using origin by (fastforce simp: spec_rest_def)
    moreover have "nh_Address s = a \<and> nh_Tick s \<le> T"
      using assms calculation(1) by (simp add: hosts_inv_def)
    ultimately show "nh_Address t = a" "nh_Tick t \<le> T" by simp_all
  qed
  show "hosts_marked (ms_Shards mc) (mn_Nodehosts (syncShardInfo m mc))"
    unfolding hosts_marked_def using origin by blast
qed

section \<open>Queues of requests\<close>

definition queues_ok :: "(string, NodeHostRequest list) gomap \<Rightarrow> bool" where
  "queues_ok m \<longleftrightarrow> gm_ok m \<and>
     (\<forall>a q. mget m a = Some q \<longrightarrow> q \<noteq> [] \<and> (\<forall>r \<in> set q. nr_RaftAddress r = a))"

definition forAddress :: "string \<Rightarrow> NodeHostRequest list \<Rightarrow> NodeHostRequest list" where
  "forAddress a rs = filter (\<lambda>r. nr_RaftAddress r = a) rs"

lemma groupRequest_get:
  assumes "gm_ok m"
  shows "gm_ok (fold groupRequest rs m) \<and>
    mget (fold groupRequest rs m) a =
      (case mget m a of Some q \<Rightarrow> Some (q @ forAddress a rs)
       | None \<Rightarrow> if forAddress a rs = [] then None else Some (forAddress a rs))"
  using assms
proof (induction rs arbitrary: m)
  case Nil
  then show ?case by (simp add: forAddress_def split: option.split)
next
  case (Cons r rs)
  have "gm_ok (groupRequest r m)" using Cons.prems by (simp add: groupRequest_def split: option.split)
  from Cons.IH [OF this] show ?case
    by (cases "mget m (nr_RaftAddress r)"; cases "nr_RaftAddress r = a")
      (auto simp: groupRequest_def forAddress_def mget_mput split: option.splits)
qed

lemma fold_mput_get:
  assumes "gm_ok qs"
  shows "mget (fold (\<lambda>(a, q). mput a q) qs m) a = (case mget qs a of Some q \<Rightarrow> Some q | None \<Rightarrow> mget m a)"
  using assms
proof (induction qs arbitrary: m)
  case (Cons p qs)
  obtain k q where p: "p = (k, q)" by (cases p)
  with Cons.prems have ok: "gm_ok qs" and "mget qs k = None"
    by (simp_all add: gm_ok_def map_of_eq_None_iff)
  with Cons.IH [OF ok] p show ?case by (auto simp: mget_mput split: option.split)
qed simp

lemma gm_ok_fold_mput: "gm_ok m \<Longrightarrow> gm_ok (fold (\<lambda>(a, q). mput a q) qs m)"
  by (rule fold_inv [where I = gm_ok]) (auto split: prod.splits)

lemma queueRequests_get:
  "mget (queueRequests rs m) a = (if forAddress a rs = [] then mget m a else Some (forAddress a rs))"
  using groupRequest_get [of "[]" rs a] groupRequest_get [of "[]" rs]
  by (simp add: queueRequests_def fold_mput_get)

lemma queueRequests_ok: "queues_ok m \<Longrightarrow> queues_ok (queueRequests rs m)"
  unfolding queues_ok_def queueRequests_get
  by (auto simp: queueRequests_def gm_ok_fold_mput forAddress_def split: if_splits)

lemma queues_ok_mdel: "queues_ok m \<Longrightarrow> queues_ok (mdel a m)"
  by (auto simp: queues_ok_def mget_mdel split: if_splits)

lemma queues_ok_move: "queues_ok m \<Longrightarrow> queues_ok m' \<Longrightarrow> mget m a = Some q \<Longrightarrow> queues_ok (mput a q m')"
  by (auto simp: queues_ok_def mget_mput split: if_splits)

section \<open>The invariant\<close>

definition shards_keyed :: "(u64, Shard) gomap \<Rightarrow> bool" where
  "shards_keyed m \<longleftrightarrow>
     (\<forall>k s. mget m k = Some s \<longrightarrow> sd_ShardId s = k \<and> sd_Members s \<noteq> [] \<and> sd_AppName s \<noteq> [])"

definition infos_keyed :: "u64 \<Rightarrow> (string, NodeHostInfo) gomap \<Rightarrow> bool" where
  "infos_keyed T m \<longleftrightarrow>
     (\<forall>a nhi. mget m a = Some nhi \<longrightarrow> nhi_RaftAddress nhi = a \<and> nhi_LastTick nhi \<le> T)"

definition db_inv :: "nat \<Rightarrow> db \<Rightarrow> bool" where
  "db_inv n d \<longleftrightarrow> db_ok d \<and> unat (db_Tick d) + 5 * n < 2 ^ 64 \<and>
     image_ok (db_Tick d) (ms_Shards (db_ShardImage d)) \<and>
     hosts_inv (db_Tick d) (mn_Nodehosts (db_NodeHostImage d)) \<and>
     hosts_marked (ms_Shards (db_ShardImage d)) (mn_Nodehosts (db_NodeHostImage d)) \<and>
     shards_keyed (db_Shards d) \<and> infos_keyed (db_Tick d) (db_NodeHostInfo d) \<and>
     queues_ok (db_Requests d) \<and> queues_ok (db_Outgoing d)"

lemma db_invD:
  assumes "db_inv n d"
  shows "db_ok d" "unat (db_Tick d) + 5 * n < 2 ^ 64"
    "image_ok (db_Tick d) (ms_Shards (db_ShardImage d))"
    "hosts_inv (db_Tick d) (mn_Nodehosts (db_NodeHostImage d))"
    "hosts_marked (ms_Shards (db_ShardImage d)) (mn_Nodehosts (db_NodeHostImage d))"
    "shards_keyed (db_Shards d)" "infos_keyed (db_Tick d) (db_NodeHostInfo d)"
    "queues_ok (db_Requests d)" "queues_ok (db_Outgoing d)"
  using assms by (simp_all add: db_inv_def)

lemma db_inv_NewDB: "5 * n < 2 ^ 64 \<Longrightarrow> db_inv n (NewDB s r)"
  using db_ok_NewDB [of s r]
  by (simp add: db_inv_def NewDB_def newMultiShard_def newMultiNodeHost_def image_ok_def all_shards_def
      hosts_inv_def hosts_ok_def hosts_marked_def shards_keyed_def infos_keyed_def queues_ok_def)

text \<open>The tick moves on without wrapping while the budget lasts.\<close>

lemma tick_no_wrap:
  assumes "db_inv (Suc n) d"
  shows "unat (db_Tick d + tickIntervalSecond) = unat (db_Tick d) + 5"
    and "db_Tick d \<le> db_Tick d + tickIntervalSecond"
proof -
  have small: "unat (db_Tick d) + unat (5 :: u64) < 2 ^ 64" using db_invD(2) [OF assms] by simp
  then show sum: "unat (db_Tick d + tickIntervalSecond) = unat (db_Tick d) + 5"
    using unat_add_lem [of "db_Tick d" 5] by (simp add: tickIntervalSecond_def)
  show "db_Tick d \<le> db_Tick d + tickIntervalSecond"
    by (simp only: word_le_nat_alt sum)
qed

lemma hosts_inv_mono: "hosts_inv T h \<Longrightarrow> T \<le> T' \<Longrightarrow> hosts_inv T' h"
  unfolding hosts_inv_def by (meson order_trans)

lemma infos_keyed_mono: "infos_keyed T m \<Longrightarrow> T \<le> T' \<Longrightarrow> infos_keyed T' m"
  unfolding infos_keyed_def by (meson order_trans)

lemma image_ok_mono: "image_ok T m \<Longrightarrow> T \<le> T' \<Longrightarrow> image_ok T' m"
  unfolding image_ok_def by (erule all_shards_mono) (rule shard_ok_mono)

lemma db_inv_tick:
  assumes "db_inv (Suc n) d" and "applyTickUpdate d = (Inr r, d')" and "db_ok d'"
  shows "db_inv n d'"
  using assms(3) db_invD [OF assms(1)] tick_no_wrap [OF assms(1)]
  by (simp add: db_inv_def applyTick_effect(1) [OF assms(2)] hosts_inv_mono infos_keyed_mono image_ok_mono)

lemma db_inv_report:
  assumes i: "db_inv (Suc n) d" and s: "applyNodeHostInfoUpdate d nhi = (Inr r, d')" and "db_ok d'"
    and wf: "nhi_wf nhi"
  shows "db_inv n d'"
proof -
  note D = db_invD [OF i]
  from s obtain mc mnh where
    mu: "ms_update (db_ShardImage d) (reportOf d nhi) = (Inr (), mc)"
    and nu: "mn_update (db_NodeHostImage d) (reportOf d nhi) = (Inr (), mnh)"
    and eff: "db_Tick d' = db_Tick d" "db_Shards d' = db_Shards d"
     "db_ShardImage d' = mc" "db_NodeHostImage d' = syncShardInfo mnh mc"
     "db_NodeHostInfo d' = mput (nhi_RaftAddress nhi) (reportOf d nhi) (db_NodeHostInfo d)"
     "db_Requests d' = mdel (nhi_RaftAddress nhi) (db_Requests d)"
     "db_Outgoing d' = (case mget (db_Requests d) (nhi_RaftAddress nhi) of
       None \<Rightarrow> mdel (nhi_RaftAddress nhi) (db_Outgoing d)
     | Some q \<Rightarrow> mput (nhi_RaftAddress nhi) q (mdel (nhi_RaftAddress nhi) (db_Outgoing d)))"
    by (rule applyReport_effect)
  have wf': "nhi_wf (reportOf d nhi)" using wf by (simp add: nhi_wf_def)
  have im: "image_ok (db_Tick d) (ms_Shards mc)"
    using ms_update_keeps [OF mu D(3) wf'] by simp
  have h: "hosts_inv (db_Tick d) (mn_Nodehosts mnh)"
    using mn_update_inv [OF nu] D(4) by simp
  have "infos_keyed (db_Tick d) (db_NodeHostInfo d')"
    using D(7) by (auto simp: infos_keyed_def eff mget_mput split: if_splits)
  moreover have "queues_ok (db_Outgoing d')"
    using D(8,9) by (auto simp: eff intro: queues_ok_move queues_ok_mdel split: option.split)
  ultimately show ?thesis
    using D(2,6,8) im syncShardInfo_inv [OF h, of mc] assms(3)
    by (simp add: db_inv_def eff queues_ok_mdel)
qed

lemma db_inv_keep:
  assumes ok: "entry_ok cdc cmd" and i: "db_inv (Suc n) d" and s: "Update_cmd cdc d cmd = (Inr r, d')"
  shows "db_inv n d'"
proof -
  note D = db_invD [OF i]
  have ok': "db_ok d'" by (rule db_ok_keep [OF ok D(1) s])
  obtain u where u: "uUpdate cdc cmd = Some u" "applyUpdate cdc d u = (Inr r, d')"
    using s by (rule Update_cmd_effect)
  have less: "unat (db_Tick d) + 5 * n < 2 ^ 64" using D(2) by simp
  from u(2) show ?thesis
  proof (cases rule: applyUpdate_effect)
    case (create c)
    have "shards_keyed (db_Shards d')"
      using D(6) tryCreateShard_effect [OF create(4)]
      by (auto simp: shards_keyed_def mget_mput split: if_splits)
    then show ?thesis
      using D ok' less tryCreateShard_effect(4) [OF create(4)]
      by (cases "r = DBUpdated") (simp_all add: db_inv_def)
  next
    case (kv kv)
    show ?thesis
      using D ok' less applyKV_effect(4) [OF kv(3)] by (cases "r = DBKVUpdated") (simp_all add: db_inv_def)
  next
    case (report nhi)
    have "nhi_wf nhi" using entry_okD [OF ok u(1)] report(2) by (simp add: upd_wf_def)
    then show ?thesis by (rule db_inv_report [OF i report(3) ok'])
  next
    case (requests rs)
    from requests(3) show ?thesis
      by (cases rule: applyRequests_effect) (use D ok' less in \<open>simp_all add: db_inv_def queueRequests_ok\<close>)
  next
    case tick
    show ?thesis by (rule db_inv_tick [OF i tick(2) ok'])
  qed
qed

interpretation db_reach: log_budget "\<lambda>cmd d. Update_cmd cdc d cmd" "entry_ok cdc" db_inv for cdc
  by unfold_locales (rule db_inv_keep)

text \<open>The databases a Drummer server can hold: a finished run of its log from the empty database.\<close>

definition reachableDB :: "codec \<Rightarrow> nat \<Rightarrow> db \<Rightarrow> bool" where
  "reachableDB cdc n d \<longleftrightarrow> (\<exists>s r cmds rs. runs (\<lambda>cmd d. Update_cmd cdc d cmd) (NewDB s r) cmds rs d \<and>
     list_all (entry_ok cdc) cmds \<and> length cmds = n)"

lemma reachableDB_inv:
  assumes "reachableDB cdc n d" and "5 * (n + m) < 2 ^ 64"
  shows "db_inv m d"
proof -
  obtain s r cmds rs where run: "runs (\<lambda>cmd d. Update_cmd cdc d cmd) (NewDB s r) cmds rs d"
    "list_all (entry_ok cdc) cmds" "length cmds = n"
    using assms(1) by (auto simp: reachableDB_def)
  have "db_inv (length cmds + m) (NewDB s r)" by (rule db_inv_NewDB) (use assms(2) run(3) in simp)
  with run(1,2) show ?thesis by (rule db_reach.run_spends)
qed

end
