(* ===== verification/DBProgress.thy ===== *)
theory DBProgress
  imports DBInvariants
begin

text \<open>
  What no command of the database takes back (\<open>db_le\<close>): finalized records, definitions of
  shards, the flags, the configuration of a shard other than along its index, and the replicas
  to kill. The invariant it rests on (\<open>images_wf\<close>) needs no budget: it is the shard image's, with
  the ticks left unbounded.
\<close>

definition images_wf :: "db \<Rightarrow> bool" where
  "images_wf d \<longleftrightarrow> image_ok (- 1) (ms_Shards (db_ShardImage d))"

definition finalized :: "codec \<Rightarrow> db \<Rightarrow> string \<Rightarrow> KV \<Rightarrow> bool" where
  "finalized cdc d k kv \<longleftrightarrow> storedKV cdc d k = Some kv \<and> kv_Finalized kv"

definition db_le :: "codec \<Rightarrow> db \<Rightarrow> db \<Rightarrow> bool" where
  "db_le cdc d d' \<longleftrightarrow>
     (\<forall>k kv. finalized cdc d k kv \<longrightarrow> mget (db_KVMap d') k = mget (db_KVMap d) k) \<and>
     (\<forall>k. mhas (db_KVMap d) k \<longrightarrow> mhas (db_KVMap d') k) \<and>
     (\<forall>k s. mget (db_Shards d) k = Some s \<longrightarrow> mget (db_Shards d') k = Some s) \<and>
     (bootstrapped d \<longrightarrow> db_Shards d' = db_Shards d) \<and>
     image_le (ms_Shards (db_ShardImage d)) (ms_Shards (db_ShardImage d')) \<and>
     (\<exists>more. ms_ReplicasToKill (db_ShardImage d') = ms_ReplicasToKill (db_ShardImage d) @ more)"

lemma db_leD:
  assumes "db_le cdc d d'"
  shows "finalized cdc d k kv \<Longrightarrow> mget (db_KVMap d') k = mget (db_KVMap d) k"
    "mhas (db_KVMap d) k \<Longrightarrow> mhas (db_KVMap d') k"
    "mget (db_Shards d) i = Some s \<Longrightarrow> mget (db_Shards d') i = Some s"
    "bootstrapped d \<Longrightarrow> db_Shards d' = db_Shards d"
    "image_le (ms_Shards (db_ShardImage d)) (ms_Shards (db_ShardImage d'))"
    "\<exists>more. ms_ReplicasToKill (db_ShardImage d') = ms_ReplicasToKill (db_ShardImage d) @ more"
  using assms by (auto simp: db_le_def)

lemma db_le_refl: "db_le cdc d d"
  by (simp add: db_le_def image_le_refl)

lemma db_le_trans:
  assumes "db_le cdc a b" and "db_le cdc b c"
  shows "db_le cdc a c"
  unfolding db_le_def
proof (intro conjI allI impI)
  note ab = db_leD [OF assms(1)] and bc = db_leD [OF assms(2)]
  show "mget (db_KVMap c) k = mget (db_KVMap a) k" if "finalized cdc a k kv" for k kv
  proof -
    have "finalized cdc b k kv" using that ab(1) [OF that] by (simp add: finalized_def storedKV_def)
    with ab(1) [OF that] bc(1) show ?thesis by simp
  qed
  show "mhas (db_KVMap c) k" if "mhas (db_KVMap a) k" for k using ab(2) bc(2) that by blast
  show "mget (db_Shards c) k = Some s" if "mget (db_Shards a) k = Some s" for k s
    using ab(3) bc(3) that by blast
  show "db_Shards c = db_Shards a" if "bootstrapped a"
    using ab(2,4) bc(4) that by (simp add: bootstrapped_def)
  show "image_le (ms_Shards (db_ShardImage a)) (ms_Shards (db_ShardImage c))"
    using ab(5) bc(5) by (rule image_le_trans)
  show "\<exists>more. ms_ReplicasToKill (db_ShardImage c) = ms_ReplicasToKill (db_ShardImage a) @ more"
    using ab(6) bc(6) by (metis append.assoc)
qed

text \<open>A write to a key is harmless where nothing finalized is stored.\<close>

lemma db_le_kv:
  assumes "\<And>kv. \<not> finalized cdc d k kv" and "db_KVMap d' = mput k b (db_KVMap d)"
    and "db_Shards d' = db_Shards d" and "db_ShardImage d' = db_ShardImage d"
  shows "db_le cdc d d'"
  using assms by (auto simp: db_le_def mget_mput mhas_def image_le_refl)

lemma db_le_same:
  "db_KVMap d' = db_KVMap d \<Longrightarrow> db_Shards d' = db_Shards d \<Longrightarrow> db_ShardImage d' = db_ShardImage d \<Longrightarrow>
     db_le cdc d d'"
  by (simp add: db_le_def image_le_refl)

lemma report_image:
  assumes s: "applyNodeHostInfoUpdate d nhi = (Inr r, d')" and wf: "nhi_wf nhi" and i: "images_wf d"
  shows "images_wf d' \<and> db_le cdc d d'"
  using s
proof (rule applyReport_effect)
  fix mc mnh
  assume mu: "ms_update (db_ShardImage d) (reportOf d nhi) = (Inr (), mc)"
    and eff: "db_KVMap d' = db_KVMap d" "db_Shards d' = db_Shards d" "db_ShardImage d' = mc"
  have wf': "nhi_wf (reportOf d nhi)" using wf by (simp add: nhi_wf_def)
  have "image_ok (- 1) (ms_Shards mc) \<and> image_le (ms_Shards (db_ShardImage d)) (ms_Shards mc)"
    by (rule ms_update_keeps [OF mu _ wf']) (use i in \<open>simp_all add: images_wf_def\<close>)
  moreover obtain more where "ms_ReplicasToKill mc = ms_ReplicasToKill (db_ShardImage d) @ more"
    using mu by (rule ms_update_success) blast
  ultimately show ?thesis using eff by (auto simp: images_wf_def db_le_def)
qed

lemma applyUpdate_le:
  assumes s: "applyUpdate cdc d u = (Inr r, d')" and wf: "upd_wf u" and i: "images_wf d"
  shows "images_wf d' \<and> db_le cdc d d'"
  using s
proof (cases rule: applyUpdate_effect)
  case (create c)
  note e = tryCreateShard_effect [OF create(4)]
  show ?thesis
  proof (cases "r = DBUpdated")
    case True
    then have "\<not> bootstrapped d" "mget (db_Shards d) (ch_ShardId c) = None"
      using e(3) by (auto simp: db_codes mhas_def split: if_splits)
    with True e(4) i show ?thesis
      by (auto simp: db_le_def images_wf_def mget_mput image_le_refl)
  qed (use e(4) i db_le_refl in simp)
next
  case (kv kv)
  note e = applyKV_effect [OF kv(3)]
  show ?thesis
  proof (cases "r = DBKVUpdated")
    case True
    have "\<not> finalized cdc d (kv_Key kv) rec" for rec
      using e(3) True by (auto simp: finalized_def kvDecision_def db_codes)
    then have "db_le cdc d d'" by (rule db_le_kv) (use e(4) True in simp_all)
    then show ?thesis using e(4) True i by (simp add: images_wf_def)
  qed (use e(4) i db_le_refl in simp)
next
  case (report nhi)
  with wf i show ?thesis by (intro report_image) (simp_all add: upd_wf_def)
next
  case (requests rs)
  from requests(3) show ?thesis
  proof (cases rule: applyRequests_effect)
    case launching
    have "\<not> finalized cdc d launchedKey rec" for rec
      using launching(2) by (auto simp: finalized_def storedKV_def launched_def mhas_def)
    then have "db_le cdc d d'" by (rule db_le_kv) (simp_all add: launching(4))
    with i launching(4) show ?thesis by (simp add: images_wf_def)
  qed (use i in \<open>auto simp: images_wf_def intro: db_le_same db_le_refl\<close>)
next
  case tick
  from applyTick_effect(1) [OF tick(2)] i show ?thesis by (auto simp: images_wf_def intro: db_le_same)
qed

interpretation db_moves: log_progress "\<lambda>cmd d. Update_cmd cdc d cmd" "entry_ok cdc" images_wf "db_le cdc"
  for cdc
proof
  fix cmd d r d'
  assume a: "entry_ok cdc cmd" "images_wf d" "Update_cmd cdc d cmd = (Inr r, d')"
  obtain u where "uUpdate cdc cmd = Some u" "applyUpdate cdc d u = (Inr r, d')"
    using a(3) by (rule Update_cmd_effect)
  with a(1,2) show "images_wf d'" "db_le cdc d d'"
    using applyUpdate_le entry_okD by blast+
qed (auto intro: db_le_refl db_le_trans)

lemma images_wf_NewDB: "images_wf (NewDB s r)"
  by (simp add: images_wf_def NewDB_def newMultiShard_def image_ok_def all_shards_def)

end
