(* ===== verification/Samples.thy ===== *)
theory Samples
  imports DBProgress
begin

text \<open>
  Concrete inputs the witnesses use: an encoder of key-value records that satisfies the law
  \<open>kv_codec\<close>, a decoder that reads a handful of commands from one-letter strings, and a
  database that has applied some of them.
\<close>

section \<open>An encoder of key-value records\<close>

definition enc_nat :: "nat \<Rightarrow> string" where
  "enc_nat n = replicate n (CHR 0x01) @ [CHR 0x00]"

definition dec_nat :: "string \<Rightarrow> (nat \<times> string) option" where
  "dec_nat s = (let ones = takeWhile (\<lambda>c. c = CHR 0x01) s; rest = dropWhile (\<lambda>c. c = CHR 0x01) s
     in case rest of [] \<Rightarrow> None | _ # t \<Rightarrow> Some (length ones, t))"

lemma dec_enc_nat: "dec_nat (enc_nat n @ s) = Some (n, s)"
  by (simp add: dec_nat_def enc_nat_def takeWhile_append dropWhile_append Let_def)

definition enc_str :: "string \<Rightarrow> string" where
  "enc_str s = enc_nat (length s) @ s"

definition dec_str :: "string \<Rightarrow> (string \<times> string) option" where
  "dec_str s = (case dec_nat s of None \<Rightarrow> None
     | Some (n, t) \<Rightarrow> if n \<le> length t then Some (take n t, drop n t) else None)"

lemma dec_enc_str: "dec_str (enc_str x @ s) = Some (x, s)"
  by (simp add: dec_str_def enc_str_def dec_enc_nat)

definition sample_mKV :: "KV \<Rightarrow> string" where
  "sample_mKV kv = enc_str (kv_Key kv) @ enc_str (kv_Value kv) @ enc_nat (unat (kv_InstanceId kv)) @
     enc_nat (unat (kv_Tick kv)) @ enc_nat (unat (kv_OldInstanceId kv)) @
     enc_nat (if kv_Finalized kv then 1 else 0)"

definition sample_uKV :: "string \<Rightarrow> KV option" where
  "sample_uKV s =
     Option.bind (dec_str s) (\<lambda>(k, s1). Option.bind (dec_str s1) (\<lambda>(v, s2).
     Option.bind (dec_nat s2) (\<lambda>(i, s3). Option.bind (dec_nat s3) (\<lambda>(t, s4).
     Option.bind (dec_nat s4) (\<lambda>(old, s5). Option.bind (dec_nat s5) (\<lambda>(f, s6).
       Some \<lparr>kv_Key = k, kv_Value = v, kv_InstanceId = of_nat i, kv_Tick = of_nat t,
         kv_OldInstanceId = of_nat old, kv_Finalized = (f = 1)\<rparr>))))))"

lemma sample_kv: "sample_uKV (sample_mKV kv) = Some kv"
  using dec_enc_nat [where s = "[]"]
  by (cases kv) (simp add: sample_uKV_def sample_mKV_def dec_enc_str dec_enc_nat)

section \<open>Commands\<close>

definition sample_info :: ShardInfo where
  "sample_info = \<lparr>si_ShardId = 1, si_ReplicaId = 1, si_IsLeader = True,
     si_Replicas = [(1, ''a1''), (2, ''a2''), (3, ''a3'')], si_ConfigChangeIndex = 4,
     si_Incomplete = False, si_Pending = False\<rparr>"

definition sample_report :: NodeHostInfo where
  "sample_report = \<lparr>nhi_RaftAddress = ''a1'', nhi_ShardInfo = [sample_info], nhi_ShardIdList = [1],
     nhi_LastTick = 0, nhi_PlogInfoIncluded = False, nhi_PlogInfo = [], nhi_Region = ''r1'',
     nhi_RPCAddress = ''p1''\<rparr>"

definition sample_change :: Change where
  "sample_change = \<lparr>ch_Type = Change_CREATE, ch_ShardId = 1, ch_Members = [1, 2, 3], ch_AppName = ''kv''\<rparr>"

definition sample_launch :: NodeHostRequest where
  "sample_launch = zero_NodeHostRequest\<lparr>nr_Change := Some (zero_Request\<lparr>rq_ShardId := 1\<rparr>),
     nr_RaftAddress := ''a1''\<rparr>"

definition sample_flag :: KV where
  "sample_flag = zero_KV\<lparr>kv_Key := bootstrappedKey, kv_Value := ''true'', kv_Finalized := True\<rparr>"

definition sample_uUpdate :: "string \<Rightarrow> Update option" where
  "sample_uUpdate s =
     (if s = ''T'' then Some (zero_Update\<lparr>up_Type := Update_TICK\<rparr>)
      else if s = ''N'' then
        Some (zero_Update\<lparr>up_Type := Update_NODEHOST_INFO, up_NodehostInfo := Some sample_report\<rparr>)
      else if s = ''C'' then Some (zero_Update\<lparr>up_Type := Update_SHARD, up_Change := Some sample_change\<rparr>)
      else if s = ''B'' then Some (zero_Update\<lparr>up_Type := Update_KV, up_KvUpdate := Some sample_flag\<rparr>)
      else if s = ''L'' then Some (zero_Update\<lparr>up_Type := Update_REQUESTS,
        up_Requests := Some \<lparr>nrc_Requests = [sample_launch]\<rparr>\<rparr>)
      else None)"

definition sample_uLookup :: "string \<Rightarrow> LookupRequest option" where
  "sample_uLookup s = (if s = ''E'' then Some (zero_LookupRequest\<lparr>lr_Type := LookupRequest_KV,
     lr_KvLookup := Some (zero_KV\<lparr>kv_Key := electionKey\<rparr>)\<rparr>) else None)"

definition sampleCodec :: codec where
  "sampleCodec = \<lparr>mKV = sample_mKV, uKV = sample_uKV, mRegions = (\<lambda>_. []), uRegions = (\<lambda>_. None),
     mUpdate = (\<lambda>_. []), uUpdate = sample_uUpdate, mLookup = (\<lambda>_. []), uLookup = sample_uLookup,
     mResponse = (\<lambda>_. []), uResponse = (\<lambda>_. None), mShardStates = (\<lambda>_. []),
     uShardStates = (\<lambda>_. None), jContext = (\<lambda>_. []), ujContext = (\<lambda>_. None)\<rparr>"

lemma sampleCodec_simps [simp]:
  "mKV sampleCodec = sample_mKV" "uKV sampleCodec = sample_uKV"
  "uUpdate sampleCodec = sample_uUpdate" "uLookup sampleCodec = sample_uLookup"
  by (simp_all add: sampleCodec_def)

lemma sampleCodec_law: "kv_codec sampleCodec"
  by (simp add: kv_codec_def sample_kv)

lemma sample_report_wf: "nhi_wf sample_report"
  by (simp add: nhi_wf_def sample_report_def sample_info_def gm_ok_def)

lemma sample_entries: "entry_ok sampleCodec cmd"
  by (simp add: entry_ok_def sample_uUpdate_def upd_wf_def zero_Update_def sample_report_wf)

lemma sample_agree: "codec_agree sampleCodec sampleCodec"
  by (auto simp: codec_agree_def intro!: option.rel_refl_strong upd_wf_eq
      entry_okD [OF sample_entries, unfolded sampleCodec_simps])

section \<open>Databases\<close>

text \<open>One tick, the definition of a shard, its first report, the launch flag.\<close>

definition sampleLog :: "string list" where
  "sampleLog = [''T'', ''C'', ''N'', ''B'']"

definition sampleDB :: db where
  "sampleDB = snd (snd (runLog (\<lambda>cmd d. Update_cmd sampleCodec d cmd) sampleLog (NewDB 0 1)))"

lemmas sample_defs = sample_report_def sample_info_def sample_change_def sample_launch_def
  sample_flag_def zero_Update_def zero_KV_def zero_NodeHostRequest_def zero_Request_def
  bootstrappedKey_def launchedKey_def electionKey_def

text \<open>The contents of the sample database, field by field.\<close>

definition sampleReplica :: "u64 \<Rightarrow> string \<Rightarrow> bool \<Rightarrow> u64 \<Rightarrow> replica" where
  "sampleReplica i a l t = \<lparr>rp_ShardID = 1, rp_ReplicaID = i, rp_Address = a, rp_IsLeader = l,
     rp_Tick = t, rp_FirstObserved = 5\<rparr>"

definition sampleShard :: shard where
  "sampleShard = \<lparr>sh_ShardID = 1, sh_ConfigChangeIndex = 4, sh_Replicas =
     [(1, sampleReplica 1 ''a1'' True 5), (2, sampleReplica 2 ''a2'' False 0),
      (3, sampleReplica 3 ''a3'' False 0)]\<rparr>"

lemma sample_finishes:
  "fst (snd (runLog (\<lambda>cmd d. Update_cmd sampleCodec d cmd) sampleLog (NewDB 0 1))) = None"
  by code_simp

lemma sample_reachable: "reachableDB sampleCodec 4 sampleDB"
  unfolding reachableDB_def
proof (intro exI conjI)
  show "runs (\<lambda>cmd d. Update_cmd sampleCodec d cmd) (NewDB 0 1) sampleLog
      (fst (runLog (\<lambda>cmd d. Update_cmd sampleCodec d cmd) sampleLog (NewDB 0 1))) sampleDB"
    unfolding runs_runLog sampleDB_def
    using sample_finishes by (metis prod.collapse)
qed (simp_all add: sampleLog_def sample_entries)

lemma sampleDB_Tick: "db_Tick sampleDB = 5"
  by code_simp

lemma sampleDB_Shards: "db_Shards sampleDB =
    [(1, \<lparr>sd_Members = [1, 2, 3], sd_ShardId = 1, sd_AppName = ''kv''\<rparr>)]"
  by code_simp

lemma sampleDB_KVMap: "db_KVMap sampleDB = [(bootstrappedKey, sample_mKV sample_flag)]"
  by code_simp

lemma sampleDB_image: "db_ShardImage sampleDB =
    \<lparr>ms_Shards = [(1, sampleShard)], ms_ReplicasToKill = []\<rparr>"
  by code_simp

lemma sampleDB_hosts: "mn_Nodehosts (db_NodeHostImage sampleDB) =
    [(''a1'', \<lparr>nh_Address = ''a1'', nh_RPCAddress = ''p1'', nh_Region = ''r1'', nh_Tick = 5,
       nh_PersistentLog = [], nh_Shards = [(1, ())]\<rparr>)]"
  by code_simp

end
