(* ===== verification/DBProperties.thy ===== *)
theory DBProperties
  imports Samples
begin

text \<open>
  The properties of the database, over every database a server can reach
  (\<open>reachableDB\<close>), with a witness for each.
\<close>

section \<open>Support\<close>

lemma reachable_images: "reachableDB cdc n d \<Longrightarrow> images_wf d"
  unfolding reachableDB_def using db_moves.run_keeps images_wf_NewDB by blast

text \<open>Stored records decode, to a record filed under its own key.\<close>

definition kv_decodes :: "codec \<Rightarrow> db \<Rightarrow> bool" where
  "kv_decodes cdc d \<longleftrightarrow> kv_codec cdc \<longrightarrow>
     (\<forall>k b. mget (db_KVMap d) k = Some b \<longrightarrow> (\<exists>kv. uKV cdc b = Some kv \<and> kv_Key kv = k))"

lemma kv_decodes_keep:
  assumes "kv_decodes cdc d" and "Update_cmd cdc d cmd = (Inr r, d')"
  shows "kv_decodes cdc d'"
proof -
  have put: "kv_decodes cdc e" if "db_KVMap e = mput (kv_Key kv) (mKV cdc kv) (db_KVMap d)" for e kv
    using assms(1) that by (auto simp: kv_decodes_def kv_codec_def mget_mput split: if_splits)
  have same: "kv_decodes cdc e" if "db_KVMap e = db_KVMap d" for e
    using assms(1) that by (simp add: kv_decodes_def)
  obtain u where "applyUpdate cdc d u = (Inr r, d')" using assms(2) by (rule Update_cmd_effect)
  then show ?thesis
  proof (cases rule: applyUpdate_effect)
    case (create c)
    show ?thesis
      by (rule same) (cases "r = DBUpdated"; simp add: tryCreateShard_effect(4) [OF create(4)])
  next
    case (kv kv)
    show ?thesis
    proof (cases "r = DBKVUpdated")
      case True
      show ?thesis by (rule put [of _ kv]) (use applyKV_effect(4) [OF kv(3)] True in simp)
    next
      case False
      show ?thesis by (rule same) (use applyKV_effect(4) [OF kv(3)] False in simp)
    qed
  next
    case (report nhi)
    from report(3) show ?thesis by (rule applyReport_effect) (rule same)
  next
    case (requests rs)
    from requests(3) show ?thesis
    proof (cases rule: applyRequests_effect)
      case launching
      show ?thesis by (rule put [of _ launchKV]) (simp add: launching(4) launchKV_def)
    qed (auto intro: same assms(1))
  next
    case tick
    show ?thesis by (rule same) (simp add: applyTick_effect(1) [OF tick(2)])
  qed
qed

interpretation db_records: log_invariant "\<lambda>cmd d. Update_cmd cdc d cmd" "\<lambda>_. True" "kv_decodes cdc" for cdc
  by unfold_locales (rule kv_decodes_keep)

lemma reachable_records: "reachableDB cdc n d \<Longrightarrow> kv_decodes cdc d"
  unfolding reachableDB_def
  using db_records.run_keeps [of cdc] by (fastforce simp: kv_decodes_def NewDB_def list_all_iff)

section \<open>Replicas of the database\<close>

text \<open>
  C1. Two servers whose databases have the same contents, and which apply the same log entries,
  return the same results, fail at the same entry with the same panic or not at all, and end
  with databases of the same contents, whatever order Go iterates their maps in.
\<close>

theorem replicas_agree:
  assumes "db_eq d e" and "list_all2 entry_agree log log'"
  shows "fst (runLog applyEntry log d) = fst (runLog applyEntry log' e) \<and>
    fst (snd (runLog applyEntry log d)) = fst (snd (runLog applyEntry log' e)) \<and>
    (fst (snd (runLog applyEntry log d)) = None \<longrightarrow>
       db_eq (snd (snd (runLog applyEntry log d))) (snd (snd (runLog applyEntry log' e))))"
  by (rule db_copies.runs_agree [OF assms(2,1)])

lemma replicas_agree_witness:
  "fst (runLog applyEntry (map (Pair sampleCodec) sampleLog) (NewDB 0 1)) =
     fst (runLog applyEntry (map (Pair sampleCodec) sampleLog) (NewDB 0 2)) \<and> sampleLog \<noteq> []"
proof -
  have eq: "db_eq (NewDB 0 1) (NewDB 0 2)"
    using db_ok_NewDB [of 0 1] by (simp add: db_ok_def db_eq_def NewDB_def)
  have "list_all2 entry_agree (map (Pair sampleCodec) sampleLog) (map (Pair sampleCodec) sampleLog)"
    by (simp add: sampleLog_def entry_agree_def sample_agree)
  from replicas_agree [OF eq this] show ?thesis by (simp add: sampleLog_def)
qed

section \<open>Invariants\<close>

text \<open>
  C2. In every database reached by a log whose ticks do not wrap (\<open>n\<close> commands, \<open>5 * n < 2 ^ 64\<close>), a
  shard is filed under its ID, its replicas under theirs, and no replica was seen or heard of after
  the present tick; a NodeHost and its stored report are filed under its address, with a tick that
  is not after the present one, and every queued request is filed under the address it is for.
\<close>

theorem reachable_well_formed:
  assumes "reachableDB cdc n d" and "5 * n < 2 ^ 64"
  shows "(\<forall>k c. mget (ms_Shards (db_ShardImage d)) k = Some c \<longrightarrow> sh_ShardID c = k \<and>
      (\<forall>rid m. mget (sh_Replicas c) rid = Some m \<longrightarrow> rp_ReplicaID m = rid \<and> rp_ShardID m = k \<and>
         rp_Tick m \<le> db_Tick d \<and> rp_FirstObserved m \<le> db_Tick d)) \<and>
    (\<forall>a s. mget (mn_Nodehosts (db_NodeHostImage d)) a = Some s \<longrightarrow>
       nh_Address s = a \<and> nh_Tick s \<le> db_Tick d) \<and>
    (\<forall>a nhi. mget (db_NodeHostInfo d) a = Some nhi \<longrightarrow>
       nhi_RaftAddress nhi = a \<and> nhi_LastTick nhi \<le> db_Tick d) \<and>
    (\<forall>a q r. mget (db_Requests d) a = Some q \<longrightarrow> r \<in> set q \<longrightarrow> nr_RaftAddress r = a) \<and>
    (\<forall>a q r. mget (db_Outgoing d) a = Some q \<longrightarrow> r \<in> set q \<longrightarrow> nr_RaftAddress r = a)"
proof -
  have i: "db_inv 0 d" by (rule reachableDB_inv [OF assms(1)]) (use assms(2) in simp)
  show ?thesis
    using db_invD(3) [OF i] db_invD(4,7,8,9) [OF i]
    by (auto simp: image_ok_def all_shards_def shard_ok_def replica_ok_def hosts_inv_def infos_keyed_def queues_ok_def)
qed

lemma reachable_well_formed_witness:
  "sh_ShardID sampleShard = 1 \<and> rp_Tick (sampleReplica 1 ''a1'' True 5) \<le> db_Tick sampleDB"
proof -
  have "mget (ms_Shards (db_ShardImage sampleDB)) 1 = Some sampleShard" by (simp add: sampleDB_image)
  moreover have "mget (sh_Replicas sampleShard) 1 = Some (sampleReplica 1 ''a1'' True 5)"
    by (simp add: sampleShard_def)
  ultimately show ?thesis using reachable_well_formed [OF sample_reachable] by auto
qed

text \<open>C11. At no time does a shard of the image have two replicas marked as its leader.\<close>

theorem one_leader:
  assumes "reachableDB cdc n d" and "mget (ms_Shards (db_ShardImage d)) k = Some c"
    and "mget (sh_Replicas c) i = Some a" and "mget (sh_Replicas c) j = Some b"
    and "rp_IsLeader a" and "rp_IsLeader b"
  shows "i = j \<and> a = b"
proof -
  have "shard_ok (- 1) k c"
    using reachable_images [OF assms(1)] assms(2) unfolding images_wf_def by (rule image_ok_get)
  then have "i = j" using assms(3-6) shard_okD(3) unfolding oneLeader_def by blast
  with assms(3,4) show ?thesis by simp
qed

lemma one_leader_witness:
  "mget (ms_Shards (db_ShardImage sampleDB)) 1 = Some sampleShard \<and>
     {i. \<exists>a. mget (sh_Replicas sampleShard) i = Some a \<and> rp_IsLeader a} = {1}"
proof -
  have c: "mget (ms_Shards (db_ShardImage sampleDB)) 1 = Some sampleShard" by (simp add: sampleDB_image)
  have led: "mget (sh_Replicas sampleShard) 1 = Some (sampleReplica 1 ''a1'' True 5)"
    "rp_IsLeader (sampleReplica 1 ''a1'' True 5)"
    by (simp_all add: sampleShard_def sampleReplica_def)
  have "i = 1" if "mget (sh_Replicas sampleShard) i = Some a" "rp_IsLeader a" for i a
    using one_leader [OF sample_reachable c that(1) led(1) that(2) led(2)] by simp
  with c led show ?thesis by auto
qed

text \<open>
  The failure test of \<open>EntityFailed\<close> is a subtraction of unsigned numbers; on a reachable
  database it never wraps, so a replica is failed exactly when it has been silent for more than
  \<open>nodeHostTTL\<close> seconds, or was never seen at all.
\<close>

theorem failed_means_silent:
  assumes "reachableDB cdc n d" and "5 * n < 2 ^ 64"
    and "mget (ms_Shards (db_ShardImage d)) k = Some c" and "mget (sh_Replicas c) rid = Some m"
  shows "rp_failed m (db_Tick d) \<longleftrightarrow>
    (if rp_Tick m = 0 then rp_FirstObserved m = 0
     else unat (rp_Tick m) + 60 < unat (db_Tick d))"
proof -
  have i: "db_inv 0 d" by (rule reachableDB_inv [OF assms(1)]) (use assms(2) in simp)
  have "rp_Tick m \<le> db_Tick d"
    using shard_okD(4) [OF image_ok_get [OF db_invD(3) [OF i] assms(3)] assms(4)]
    by (simp add: replica_ok_def)
  then have "unat (db_Tick d - rp_Tick m) = unat (db_Tick d) - unat (rp_Tick m)"
    and le: "unat (rp_Tick m) \<le> unat (db_Tick d)"
    by (simp_all add: unat_sub word_le_nat_alt)
  then show ?thesis
    by (simp add: rp_failed_def EntityFailed_def nodeHostTTL_def word_less_nat_alt) linarith
qed

lemma failed_means_silent_witness: "\<not> rp_failed (sampleReplica 1 ''a1'' True 5) (db_Tick sampleDB)"
  using failed_means_silent [OF sample_reachable, of 1 sampleShard 1 "sampleReplica 1 ''a1'' True 5"]
  by (simp add: sampleDB_image sampleShard_def sampleReplica_def sampleDB_Tick)

text \<open>
  Every NodeHost the image knows is marked with every shard that has a replica at its
  address, so the filter \<open>newDrummerFilter\<close> rejects it as a place for another replica.
\<close>

theorem hosts_know_their_shards:
  assumes "reachableDB cdc n d" and "5 * n < 2 ^ 64"
    and "mget (ms_Shards (db_ShardImage d)) k = Some c" and "mget (sh_Replicas c) rid = Some m"
    and "mget (mn_Nodehosts (db_NodeHostImage d)) (rp_Address m) = Some s"
  shows "mhas (nh_Shards s) k"
proof -
  have i: "db_inv 0 d" by (rule reachableDB_inv [OF assms(1)]) (use assms(2) in simp)
  have "k \<in> shardsOn (ms_Shards (db_ShardImage d)) (rp_Address m)"
    using map_of_SomeD [OF assms(3)] mget_mvals [OF assms(4)] by (auto simp: shardsOn_def)
  with db_invD(5) [OF i] assms(5) show ?thesis by (auto simp: hosts_marked_def)
qed

lemma hosts_know_their_shards_witness: "mhas [(1 :: u64, ())] 1"
  using hosts_know_their_shards [OF sample_reachable, of 1 sampleShard 1 "sampleReplica 1 ''a1'' True 5"]
  by (simp add: sampleDB_image sampleShard_def sampleReplica_def sampleDB_hosts)

section \<open>Progress\<close>

text \<open>
  C13. A finalized record is never changed again, by any sequence of commands.
\<close>

theorem finalized_forever:
  assumes "reachableDB cdc n d" and "runs (\<lambda>cmd d. Update_cmd cdc d cmd) d cmds rs d'"
    and "list_all (entry_ok cdc) cmds" and "finalized cdc d k kv"
  shows "finalized cdc d' k kv"
proof -
  have "db_le cdc d d'" by (rule db_moves.run_advances [OF assms(2,3) reachable_images [OF assms(1)]])
  from db_leD(1) [OF this assms(4)] assms(4) show ?thesis by (simp add: finalized_def storedKV_def)
qed

lemma sample_tick:
  "runs (\<lambda>cmd d. Update_cmd sampleCodec d cmd) sampleDB [''T''] [10] (sampleDB\<lparr>db_Tick := 10\<rparr>)"
proof -
  have "Update_cmd sampleCodec sampleDB ''T'' = (Inr 10, sampleDB\<lparr>db_Tick := 10\<rparr>)" by code_simp
  then show ?thesis by (simp add: runs_Cons_iff)
qed

lemma finalized_forever_witness:
  "finalized sampleCodec (sampleDB\<lparr>db_Tick := 10\<rparr>) bootstrappedKey sample_flag"
  by (rule finalized_forever [OF sample_reachable sample_tick])
    (simp_all add: sample_entries finalized_def storedKV_def sampleDB_KVMap sample_kv, simp add: sample_flag_def)

text \<open>
  The definition of a shard never changes once it is accepted, and after the bootstrapped
  flag is set the set of definitions is frozen.
\<close>

theorem definitions_frozen:
  assumes "reachableDB cdc n d" and "runs (\<lambda>cmd d. Update_cmd cdc d cmd) d cmds rs d'"
    and "list_all (entry_ok cdc) cmds"
  shows "(mget (db_Shards d) k = Some s \<longrightarrow> mget (db_Shards d') k = Some s) \<and>
    (bootstrapped d \<longrightarrow> db_Shards d' = db_Shards d \<and> bootstrapped d')"
proof -
  have "db_le cdc d d'" by (rule db_moves.run_advances [OF assms(2,3) reachable_images [OF assms(1)]])
  from db_leD(2-4) [OF this] show ?thesis by (simp add: bootstrapped_def)
qed

lemma definitions_frozen_witness: "db_Shards (sampleDB\<lparr>db_Tick := 10\<rparr>) = db_Shards sampleDB"
proof -
  have "bootstrapped sampleDB" by (simp add: bootstrapped_def sampleDB_KVMap mhas_def)
  with definitions_frozen [OF sample_reachable sample_tick] show ?thesis by (simp add: sample_entries)
qed

text \<open>
  C12. A shard once in the image stays there; its configuration change index never goes back, and
  as long as it stands still the members and their addresses stay the same: the index identifies
  the configuration.
\<close>

theorem index_identifies_membership:
  assumes "reachableDB cdc n d" and "runs (\<lambda>cmd d. Update_cmd cdc d cmd) d cmds rs d'"
    and "list_all (entry_ok cdc) cmds" and "mget (ms_Shards (db_ShardImage d)) k = Some c"
  shows "\<exists>c'. mget (ms_Shards (db_ShardImage d')) k = Some c' \<and>
    sh_ConfigChangeIndex c \<le> sh_ConfigChangeIndex c' \<and>
    (sh_ConfigChangeIndex c = sh_ConfigChangeIndex c' \<longrightarrow>
       (\<forall>rid. map_option rp_Address (mget (sh_Replicas c) rid) =
              map_option rp_Address (mget (sh_Replicas c') rid)))"
proof -
  have "db_le cdc d d'" by (rule db_moves.run_advances [OF assms(2,3) reachable_images [OF assms(1)]])
  then obtain c' where "mget (ms_Shards (db_ShardImage d')) k = Some c'" "cfg_le c c'"
    using db_leD(5) assms(4) unfolding image_le_def by blast
  then show ?thesis by (auto simp: cfg_le_def membership_def fun_eq_iff)
qed

lemma index_identifies_membership_witness:
  "\<exists>c'. mget (ms_Shards (db_ShardImage (sampleDB\<lparr>db_Tick := 10\<rparr>))) 1 = Some c' \<and>
     sh_ConfigChangeIndex sampleShard \<le> sh_ConfigChangeIndex c'"
  using index_identifies_membership [OF sample_reachable sample_tick, of 1 sampleShard]
  by (auto simp: sample_entries sampleDB_image)

text \<open>
  The list of replicas to kill only grows: no command takes an entry off it. The scheduler
  empties the list of its own decoded copy, so the kill requests of a zombie are queued again in
  every round.
\<close>

theorem kill_list_only_grows:
  assumes "reachableDB cdc n d" and "runs (\<lambda>cmd d. Update_cmd cdc d cmd) d cmds rs d'"
    and "list_all (entry_ok cdc) cmds"
  shows "\<exists>more. ms_ReplicasToKill (db_ShardImage d') = ms_ReplicasToKill (db_ShardImage d) @ more"
proof -
  have "db_le cdc d d'" by (rule db_moves.run_advances [OF assms(2,3) reachable_images [OF assms(1)]])
  then show ?thesis by (rule db_leD(6))
qed

lemma kill_list_only_grows_witness:
  "\<exists>more. ms_ReplicasToKill (db_ShardImage (sampleDB\<lparr>db_Tick := 10\<rparr>)) =
     ms_ReplicasToKill (db_ShardImage sampleDB) @ more"
  by (rule kill_list_only_grows [OF sample_reachable sample_tick]) (simp add: sample_entries)

end
