(* ===== verification/DBOperations.thy ===== *)
theory DBOperations
  imports DBProperties
begin

text \<open>
  The functional behaviour of the database's commands and queries on every branch: key-value
  records, the launch and its deadline, the hand-off of requests, snapshots.
\<close>

section \<open>Key-value records\<close>

text \<open>
  C14. On a reachable database, and with an encoder that decodes what it encoded, a KV update with
  a key and a value never fails: its answer is the compare-and-swap decision on the record stored
  under the key, an accepted record replaces the stored one, and nothing else changes.
\<close>

theorem kv_update_cas:
  assumes "reachableDB cdc n d" and "kv_codec cdc" and "kv_Key kv \<noteq> []" and "kv_Value kv \<noteq> []"
  shows "\<exists>d'. applyKVUpdate cdc d kv = (Inr (kvDecision (storedKV cdc d (kv_Key kv)) kv), d') \<and>
    (\<forall>k. storedKV cdc d' k =
       (if k = kv_Key kv \<and> kvDecision (storedKV cdc d k) kv = DBKVUpdated then Some kv
        else storedKV cdc d k)) \<and>
    d'\<lparr>db_KVMap := db_KVMap d\<rparr> = d"
proof -
  have "\<exists>rec. uKV cdc b = Some rec" if "mget (db_KVMap d) (kv_Key kv) = Some b" for b
    using reachable_records [OF assms(1)] assms(2) that by (auto simp: kv_decodes_def)
  then obtain r d' where s: "applyKVUpdate cdc d kv = (Inr r, d')"
    using assms(3,4) by (fastforce simp: applyKVUpdate_def Let_def split: option.splits)
  note e = applyKV_effect [OF s]
  have "storedKV cdc d' k = (if k = kv_Key kv \<and> r = DBKVUpdated then Some kv else storedKV cdc d k)" for k
    using e(4) assms(2) by (auto simp: storedKV_def kv_codec_def mget_mput split: option.split)
  moreover have "d'\<lparr>db_KVMap := db_KVMap d\<rparr> = d" using e(4) by (simp split: if_splits)
  ultimately show ?thesis using s e(3) by auto
qed

definition sample_vote :: KV where
  "sample_vote = zero_KV\<lparr>kv_Key := electionKey, kv_Value := electionKey, kv_InstanceId := 7, kv_Tick := 1\<rparr>"

lemma kv_update_cas_witness: "\<exists>d'. applyKVUpdate sampleCodec sampleDB sample_vote = (Inr DBKVUpdated, d') \<and>
    storedKV sampleCodec d' electionKey = Some sample_vote"
proof -
  have "storedKV sampleCodec sampleDB (kv_Key sample_vote) = None"
    by (simp add: storedKV_def sampleDB_KVMap sample_vote_def sample_defs)
  with kv_update_cas [OF sample_reachable sampleCodec_law, of sample_vote] show ?thesis
    by (auto simp: kvDecision_def) (auto simp: sample_vote_def sample_defs)
qed

text \<open>
  On a reachable database a KV lookup with a key answers with the record stored under it, and
  with an empty record when there is none.
\<close>

theorem kv_lookup_answers:
  assumes "reachableDB cdc n d" and "kv_codec cdc" and "\<not> db_Failed d"
    and "uLookup cdc bs = Some req" and "lr_Type req = LookupRequest_KV"
    and "lr_KvLookup req = Some kvl" and "kv_Key kvl \<noteq> []"
  shows "Lookup_query cdc d bs = Inr (mResponse cdc
    \<lparr>lp_Code = LookupResponse_OK, lp_Shards = [],
     lp_KvResult = Some (case storedKV cdc d (kv_Key kvl) of None \<Rightarrow> zero_KV | Some kv \<Rightarrow> kv),
     lp_Requests = None\<rparr>)"
proof -
  have "\<exists>rec. uKV cdc b = Some rec" if "mget (db_KVMap d) (kv_Key kvl) = Some b" for b
    using reachable_records [OF assms(1)] assms(2) that by (auto simp: kv_decodes_def)
  with assms(3-7) show ?thesis
    by (fastforce simp: Lookup_query_def assertNotFailed_def handleKVLookup_def storedKV_def Let_def
        zero_LookupResponse_def split: option.splits)
qed

lemma kv_lookup_answers_witness: "Lookup_query sampleCodec sampleDB ''E'' = Inr []"
proof -
  have u: "uLookup sampleCodec ''E'' = Some (zero_LookupRequest\<lparr>lr_Type := LookupRequest_KV,
     lr_KvLookup := Some (zero_KV\<lparr>kv_Key := electionKey\<rparr>)\<rparr>)"
    by (simp add: sample_uLookup_def)
  have f: "\<not> db_Failed sampleDB" by code_simp
  show ?thesis
    using kv_lookup_answers [OF sample_reachable sampleCodec_law f u, of "zero_KV\<lparr>kv_Key := electionKey\<rparr>"]
    by (simp add: electionKey_def) (simp add: sampleCodec_def)
qed

section \<open>Launch\<close>

text \<open>
  C21. A batch of launch requests is accepted once: it queues the requests, sets the launched flag
  and the deadline 120 seconds ahead, and the panic of \<open>setLaunched\<close> cannot happen. When the
  flag is set already the batch is ignored.
\<close>

theorem launch_accepted_once:
  assumes "isLaunchRequests reqs = Inr True"
  shows "if launched d then applyRequestsUpdate cdc d reqs = (Inr 0, d)
    else \<exists>d'. applyRequestsUpdate cdc d reqs = (Inr (of_nat (length (nrc_Requests reqs))), d') \<and>
      launched d' \<and> db_LaunchDeadline d' = db_Tick d + 120 \<and> db_Tick d' = db_Tick d \<and>
      (\<forall>a. mget (db_Requests d') a = (if forAddress a (nrc_Requests reqs) = []
             then mget (db_Requests d) a else Some (forAddress a (nrc_Requests reqs))))"
proof (cases "launched d")
  case False
  have nl: "\<not> launched (d\<lparr>db_Requests := q\<rparr>)" for q using False by (simp add: launched_def)
  show ?thesis
    using False assms
    by (simp add: applyRequestsUpdate_def Let_def setLaunched_free [OF nl]
        queueRequests_def [symmetric] queueRequests_get)
      (simp add: launched_def mhas_def mget_mput launchDeadlineTick_def tickIntervalSecond_def Soft_def
        getDefaultSoftSettings_def)
qed (simp add: applyRequestsUpdate_def assms)

lemma launch_accepted_once_witness:
  "\<exists>d'. applyRequestsUpdate sampleCodec sampleDB \<lparr>nrc_Requests = [sample_launch]\<rparr> = (Inr 1, d') \<and>
     db_LaunchDeadline d' = 125"
proof -
  have l: "isLaunchRequests \<lparr>nrc_Requests = [sample_launch]\<rparr> = Inr True" by code_simp
  have "\<not> launched sampleDB" by (simp add: launched_def sampleDB_KVMap mhas_def sample_defs)
  with launch_accepted_once [OF l, of sampleDB sampleCodec] show ?thesis
    by (auto simp: sampleDB_Tick)
qed

text \<open>One tick, in terms of unsigned numbers that do not wrap.\<close>

lemma tick_before_deadline:
  assumes "unat (db_Tick d) + 5 \<le> unat (db_LaunchDeadline d)" and "\<not> db_Failed d"
  shows "applyTickUpdate d = (Inr (db_Tick d + 5), d\<lparr>db_Tick := db_Tick d + 5\<rparr>) \<and>
    unat (db_Tick d + 5) = unat (db_Tick d) + 5"
proof -
  have "unat (db_LaunchDeadline d) < 2 ^ 64" using unsigned_less [where w = "db_LaunchDeadline d"] by simp
  then have "unat (db_Tick d) + unat (5 :: u64) < 2 ^ LENGTH(64)" using assms(1) by simp
  then have sum: "unat (db_Tick d + 5) = unat (db_Tick d) + 5"
    using unat_add_lem [of "db_Tick d" 5] by simp
  then have "\<not> db_Tick d + 5 > db_LaunchDeadline d" using assms(1) by (simp add: word_less_nat_alt)
  with sum assms(2) show ?thesis
    by (simp add: applyTickUpdate_def checkLaunchDeadline_def assertNotFailed_def tickIntervalSecond_def)
qed

lemma tick_after_deadline:
  assumes "unat (db_Tick d) + 5 > unat (db_LaunchDeadline d)" and "unat (db_Tick d) + 5 < 2 ^ 64"
    and "db_LaunchDeadline d > 0"
  shows "applyTickUpdate d = (panic SystemFailedToLaunch, d\<lparr>db_Tick := db_Tick d + 5, db_Failed := True\<rparr>)"
proof -
  have "unat (db_Tick d + 5) = unat (db_Tick d) + 5"
    using unat_add_lem [of "db_Tick d" 5] assms(2) by simp
  then have "db_Tick d + 5 > db_LaunchDeadline d" using assms(1) by (simp add: word_less_nat_alt)
  with assms(3) show ?thesis
    by (simp add: applyTickUpdate_def checkLaunchDeadline_def assertNotFailed_def tickIntervalSecond_def
        panic_def)
qed

lemma launch_ticks:
  assumes "unat (db_LaunchDeadline d) = unat (db_Tick d) + 5 * k" and "unat (db_LaunchDeadline d) + 5 < 2 ^ 64"
    and "\<not> db_Failed d" and "db_LaunchDeadline d > 0"
  shows "\<exists>rs d'. runLog (\<lambda>_. applyTickUpdate) (replicate (Suc k) u) d = (rs, Some (Panic SystemFailedToLaunch), d') \<and>
    length rs = k \<and> db_Failed d'"
  using assms
proof (induction k arbitrary: d)
  case 0
  then show ?case using tick_after_deadline [of d] by (simp add: panic_def)
next
  case (Suc k)
  let ?d = "d\<lparr>db_Tick := db_Tick d + 5\<rparr>"
  have t: "applyTickUpdate d = (Inr (db_Tick d + 5), ?d)" "unat (db_Tick d + 5) = unat (db_Tick d) + 5"
    using tick_before_deadline [of d] Suc.prems by simp_all
  obtain rs d' where "runLog (\<lambda>_. applyTickUpdate) (replicate (Suc k) u) ?d =
      (rs, Some (Panic SystemFailedToLaunch), d')" "length rs = k" "db_Failed d'"
    using Suc.IH [of ?d] Suc.prems t(2) by auto
  with t(1) show ?case by (simp del: replicate.simps add: replicate.simps(2) [of "Suc k"])
qed

text \<open>
  C22. A system whose shards do not come up is declared failed: with the deadline 120 seconds
  ahead, the next 24 ticks are answered and the 25th marks the database as failed and panics.
\<close>

theorem launch_deadline_fails:
  assumes "db_LaunchDeadline d = db_Tick d + 120" and "unat (db_Tick d) + 125 < 2 ^ 64"
    and "\<not> db_Failed d"
  shows "\<exists>rs d'. runLog (\<lambda>_. applyTickUpdate) (replicate 25 u) d =
      (rs, Some (Panic SystemFailedToLaunch), d') \<and> length rs = 24 \<and> db_Failed d'"
proof -
  have "unat (db_Tick d + 120) = unat (db_Tick d) + 120"
    using unat_add_lem [of "db_Tick d" 120] assms(2) by simp
  then have dl: "unat (db_LaunchDeadline d) = unat (db_Tick d) + 5 * 24" using assms(1) by simp
  then have "db_LaunchDeadline d > 0" by (auto simp: word_neq_0_conv [symmetric])
  from launch_ticks [OF dl _ assms(3) this, of u] assms(2) dl show ?thesis by simp
qed

lemma launch_deadline_fails_witness:
  "\<exists>rs d'. runLog (\<lambda>_. applyTickUpdate) (replicate 25 ()) (sampleDB\<lparr>db_LaunchDeadline := 125\<rparr>) =
     (rs, Some (Panic SystemFailedToLaunch), d') \<and> length rs = 24 \<and> db_Failed d'"
proof (rule launch_deadline_fails)
  have "\<not> db_Failed sampleDB" by code_simp
  then show "\<not> db_Failed (sampleDB\<lparr>db_LaunchDeadline := 125\<rparr>)" by simp
qed (simp_all add: sampleDB_Tick)

text \<open>
  A failed database refuses everything: updates, lookups, snapshots, recovery and the hash
  panic, and nothing is written.
\<close>

theorem failed_refuses_all:
  assumes "db_Failed d"
  shows "Update_cmd cdc d cmd = (panic SystemFailedToLaunch, d) \<and>
    Lookup_query cdc d key = panic SystemFailedToLaunch \<and>
    SaveSnapshot sc d write = panic SystemFailedToLaunch \<and>
    RecoverFromSnapshot sc d reader = (panic SystemFailedToLaunch, d) \<and>
    GetHash sc d = panic SystemFailedToLaunch"
  using assms by (simp add: Update_cmd_def Lookup_query_def SaveSnapshot_def RecoverFromSnapshot_def
      GetHash_def assertNotFailed_def panic_def)

lemma failed_refuses_all_witness:
  "Update_cmd sampleCodec (sampleDB\<lparr>db_Failed := True\<rparr>) ''T'' =
     (panic SystemFailedToLaunch, sampleDB\<lparr>db_Failed := True\<rparr>)"
  using failed_refuses_all [of "sampleDB\<lparr>db_Failed := True\<rparr>" sampleCodec "''T''"] by simp

section \<open>Requests\<close>

text \<open>
  A batch that is not a launch replaces the queue of each NodeHost it names by its requests
  for that NodeHost, in order, and leaves the queues of the others.
\<close>

theorem requests_queued_by_address:
  assumes "isLaunchRequests reqs = Inr False"
  shows "\<exists>m. applyRequestsUpdate cdc d reqs =
      (Inr (of_nat (length (nrc_Requests reqs))), d\<lparr>db_Requests := m\<rparr>) \<and>
    (\<forall>a. mget m a = (let q = filter (\<lambda>r. nr_RaftAddress r = a) (nrc_Requests reqs)
           in if q = [] then mget (db_Requests d) a else Some q))"
proof -
  have "applyRequestsUpdate cdc d reqs = (Inr (of_nat (length (nrc_Requests reqs))),
      d\<lparr>db_Requests := queueRequests (nrc_Requests reqs) (db_Requests d)\<rparr>)"
    by (simp add: applyRequestsUpdate_def assms Let_def queueRequests_def)
  then show ?thesis
    using queueRequests_get [of "nrc_Requests reqs" "db_Requests d"]
    by (auto simp: forAddress_def Let_def)
qed

definition sample_kill :: "string \<Rightarrow> NodeHostRequest" where
  "sample_kill a = zero_NodeHostRequest\<lparr>nr_Change := Some (zero_Request\<lparr>rq_Type := Request_KILL\<rparr>),
     nr_RaftAddress := a\<rparr>"

lemma requests_queued_by_address_witness:
  "\<exists>m. applyRequestsUpdate sampleCodec sampleDB \<lparr>nrc_Requests = [sample_kill ''a1'', sample_kill ''a2'']\<rparr> =
     (Inr 2, sampleDB\<lparr>db_Requests := m\<rparr>) \<and> mget m ''a1'' = Some [sample_kill ''a1'']"
proof -
  have "isLaunchRequests \<lparr>nrc_Requests = [sample_kill ''a1'', sample_kill ''a2'']\<rparr> = Inr False"
    by code_simp
  from requests_queued_by_address [OF this, of sampleCodec sampleDB] show ?thesis
    by (auto simp: sample_kill_def zero_NodeHostRequest_def)
qed

section \<open>Snapshots\<close>

text \<open>Copies with maps in different orders give the same answers to the lookups of a record and of requests.\<close>

lemma copies_answer:
  assumes "db_eq d e" and "uLookup cdc q = Some req" and "lr_Type req \<in> {LookupRequest_KV, LookupRequest_REQUESTS}"
  shows "Lookup_query cdc d q = Lookup_query cdc e q"
proof -
  have "mget (db_KVMap d) k = mget (db_KVMap e) k" "mget (db_Outgoing d) a = mget (db_Outgoing e) a"
    "db_Failed d = db_Failed e" for k a
    using assms(1) by (auto simp: db_eq_def dest: mrel_eq_get)
  with assms(2,3) show ?thesis
    by (auto simp: Lookup_query_def assertNotFailed_def handleKVLookup_def handleRequestsLookup_def panic_def Let_def
        split: option.split)
qed

text \<open>
  C24. A server that recovers from the snapshot of another is a copy of it. Let the encoder decode the
  snapshot to what it encodes, the shard and replica ID left out and the maps in whatever order, and let
  the server that recovers be one that has not failed, of the same shard ID and version. Then recovery
  succeeds and keeps the server's own replica ID; every other field is the one of the snapshot, up to the
  order of maps; every log the two apply afterwards, of commands whose decoded maps have distinct keys, has
  the same results and the same failure if any, and, if it has none, ends in such copies again, which
  answer a lookup of a record, or of the requests for a NodeHost, alike.
\<close>

theorem recovered_server_is_a_copy:
  assumes "SaveSnapshot sc d (\<lambda>_. None) = Inr bytes"
    and "ujDB sc (jDB sc d) = Some x" and "db_eq x (d\<lparr>db_ShardID := 0\<rparr>)"
    and "\<not> db_Failed e" and "db_Version e = db_Version d" and "db_ShardID e = db_ShardID d"
    and "list_all (\<lambda>x. codec_agree (fst x) (fst x)) log"
  shows "\<exists>e'. RecoverFromSnapshot sc e (Inr bytes) = (Inr (), e') \<and> db_ReplicaID e' = db_ReplicaID e \<and> db_eq e' d \<and>
    (case (runLog applyEntry log e', runLog applyEntry log d) of ((rs, f, e2), (rs', f', d2)) \<Rightarrow>
       rs = rs' \<and> f = f' \<and> (f = None \<longrightarrow> db_eq e2 d2 \<and>
       (\<forall>cdc q req. uLookup cdc q = Some req \<longrightarrow> lr_Type req \<in> {LookupRequest_KV, LookupRequest_REQUESTS} \<longrightarrow>
          Lookup_query cdc e2 q = Lookup_query cdc d2 q)))"
proof -
  have bytes: "bytes = jDB sc d"
    using assms(1) by (auto simp: SaveSnapshot_def assertNotFailed_def panic_def split: if_splits)
  obtain e' where rec: "RecoverFromSnapshot sc e (Inr bytes) = (Inr (), e')" "db_ReplicaID e' = db_ReplicaID e"
    and copy: "db_eq e' d"
    using assms(2-6) by (auto simp: RecoverFromSnapshot_def assertNotFailed_def bytes db_eq_def)
  obtain rs f e2 rs' f' d2 where runs: "runLog applyEntry log e' = (rs, f, e2)" "runLog applyEntry log d = (rs', f', d2)"
    by (metis surj_pair)
  have "list_all2 entry_agree log log"
    using assms(7) by (auto simp: list_all2_same entry_agree_def list_all_iff)
  from db_copies.runs_agree [OF this copy] have same: "rs = rs'" "f = f'" "f = None \<Longrightarrow> db_eq e2 d2"
    by (simp_all add: runs)
  with rec copy copies_answer show ?thesis by (auto simp: runs)
qed

definition sampleSnap :: snapCodec where
  "sampleSnap = \<lparr>jDB = (\<lambda>_. ''s''), ujDB = (\<lambda>_. Some (sampleDB\<lparr>db_ShardID := 0, db_ReplicaID := 0\<rparr>)),
     md5u64 = (\<lambda>_. 0)\<rparr>"

lemma recovered_server_is_a_copy_witness:
  "\<exists>e'. RecoverFromSnapshot sampleSnap (NewDB 0 2) (Inr ''s'') = (Inr (), e') \<and> db_ReplicaID e' = 2 \<and> db_eq e' sampleDB"
proof -
  have f: "db_Failed sampleDB = False" "db_Version sampleDB = 1" "db_ShardID sampleDB = 0" by code_simp+
  have save: "SaveSnapshot sampleSnap sampleDB (\<lambda>_. None) = Inr ''s''"
    by (simp add: SaveSnapshot_def assertNotFailed_def f sampleSnap_def)
  have new: "\<not> db_Failed (NewDB 0 2)" "db_Version (NewDB 0 2) = db_Version sampleDB"
    "db_ShardID (NewDB 0 2) = db_ShardID sampleDB" "db_ReplicaID (NewDB 0 2) = 2"
    by (simp_all add: NewDB_def f currentVersion_def)
  have read: "ujDB sampleSnap (jDB sampleSnap sampleDB) = Some (sampleDB\<lparr>db_ShardID := 0, db_ReplicaID := 0\<rparr>)"
    by (simp add: sampleSnap_def)
  have "db_inv 0 sampleDB" by (rule reachableDB_inv [OF sample_reachable]) simp
  then have "db_eq (sampleDB\<lparr>db_ShardID := 0, db_ReplicaID := 0\<rparr>) (sampleDB\<lparr>db_ShardID := 0\<rparr>)"
    using db_invD(1) by (simp add: db_ok_def db_eq_def)
  from recovered_server_is_a_copy [OF save read this new(1,2,3), of "[]"] new(4)
  show ?thesis by auto
qed

end
