(* ===== verification/ShardRepair.thy ===== *)
theory ShardRepair
  imports NodeHostImage
begin

text \<open>
  The repair view of one shard (\<^verbatim>\<open>shardRepair\<close> in \<^verbatim>\<open>shardimage.go\<close>): its replicas split into
  failed, running and still to be started, and the conditions under which the scheduler adds,
  creates, deletes or restores replicas.
\<close>

record shardRepair =
  sr_shardID :: u64
  sr_shard :: shard
  sr_failedReplicas :: "replica list"
  sr_okReplicas :: "replica list"
  sr_replicasToStart :: "replica list"

definition sr_quorum :: "shardRepair \<Rightarrow> nat" where
  "sr_quorum cr =
     (let count = length (sr_failedReplicas cr) + length (sr_okReplicas cr) +
                  length (sr_replicasToStart cr)
      in count div 2 + 1)"

definition sr_available :: "shardRepair \<Rightarrow> bool" where
  "sr_available cr \<longleftrightarrow> length (sr_okReplicas cr) \<ge> sr_quorum cr"

definition addRequired :: "shardRepair \<Rightarrow> bool" where
  "addRequired cr \<longleftrightarrow> length (sr_failedReplicas cr) > 0 \<and>
     length (sr_replicasToStart cr) = 0 \<and> sr_available cr"

definition createRequired :: "shardRepair \<Rightarrow> bool" where
  "createRequired cr \<longleftrightarrow> length (sr_replicasToStart cr) > 0"

definition deleteRequired :: "shardRepair \<Rightarrow> nat \<Rightarrow> bool" where
  "deleteRequired cr expectedShardSize \<longleftrightarrow> sr_available cr \<and> length (sr_failedReplicas cr) > 0 \<and>
     length (sr_failedReplicas cr) + length (sr_okReplicas cr) > expectedShardSize"

definition hasReplicasToStart :: "shardRepair \<Rightarrow> bool" where
  "hasReplicasToStart cr \<longleftrightarrow> length (sr_replicasToStart cr) > 0"

definition needToBeRestored :: "shardRepair \<Rightarrow> bool" where
  "needToBeRestored cr =
     (if sr_available cr \<or> length (sr_replicasToStart cr) > 0 then False else True)"

text \<open>The test both restore loops make of a failed replica.\<close>

definition restorable :: "multiNodeHost \<Rightarrow> u64 \<Rightarrow> replica \<Rightarrow> bool" where
  "restorable mnh currentTick n =
     (case mget (mn_Nodehosts mnh) (rp_Address n) of
        None \<Rightarrow> False
      | Some spec \<Rightarrow> nh_available spec currentTick \<and> hasLog spec (rp_ShardID n) (rp_ReplicaID n))"

definition canBeRestored :: "shardRepair \<Rightarrow> multiNodeHost \<Rightarrow> u64 \<Rightarrow> replica list" where
  "canBeRestored cr mnh currentTick = filter (restorable mnh currentTick) (sr_failedReplicas cr)"

definition readyToBeRestored :: "shardRepair \<Rightarrow> multiNodeHost \<Rightarrow> u64 \<Rightarrow> replica list \<times> bool" where
  "readyToBeRestored cr mnh currentTick =
     (if \<not> needToBeRestored cr then ([], False)
      else (let nl = filter (restorable mnh currentTick) (sr_failedReplicas cr)
            in (nl, length (sr_okReplicas cr) + length nl \<ge> sr_quorum cr)))"

text \<open>
  \<^verbatim>\<open>getShardForRepair\<close>. Go's \<^verbatim>\<open>sort.Slice\<close> orders the lists by shard ID; it may permute equal
  elements, which the arbitrary order of the map covers.
\<close>

definition toShardRepair :: "u64 \<Rightarrow> shard \<Rightarrow> shardRepair" where
  "toShardRepair currentTick c =
     \<lparr>sr_shardID = sh_ShardID c, sr_shard = c,
      sr_failedReplicas = sort_key rp_ShardID (getFailedReplicas c currentTick),
      sr_okReplicas = sort_key rp_ShardID (getOkReplicas c currentTick),
      sr_replicasToStart = sort_key rp_ShardID (getReplicasToStart c currentTick)\<rparr>"

definition getShardForRepair :: "multiShard \<Rightarrow> u64 \<Rightarrow> shardRepair list" where
  "getShardForRepair mc currentTick =
     map (toShardRepair currentTick)
       (filter (\<lambda>c. \<not> (length (getFailedReplicas c currentTick) = 0 \<and>
                       length (getReplicasToStart c currentTick) = 0)) (mvals (ms_Shards mc)))"

section \<open>The three groups partition the replicas\<close>

lemma replica_state_cases:
  "(rp_failed n t \<and> \<not> (\<not> rp_failed n t \<and> \<not> waitingToBeStarted n t) \<and> \<not> waitingToBeStarted n t) \<or>
   (\<not> rp_failed n t \<and> (\<not> rp_failed n t \<and> \<not> waitingToBeStarted n t) \<and> \<not> waitingToBeStarted n t) \<or>
   (\<not> rp_failed n t \<and> \<not> (\<not> rp_failed n t \<and> \<not> waitingToBeStarted n t) \<and> waitingToBeStarted n t)"
  by (auto simp: waitingToBeStarted_def)

lemma groups_mset:
  "mset (getFailedReplicas c t) + mset (getOkReplicas c t) + mset (getReplicasToStart c t)
     = mset (mvals (sh_Replicas c))"
  unfolding getFailedReplicas_def getOkReplicas_def getReplicasToStart_def
  by (rule filter3_mset) (rule replica_state_cases)

lemma groups_length:
  "length (getFailedReplicas c t) + length (getOkReplicas c t) + length (getReplicasToStart c t)
     = length (sh_Replicas c)"
  unfolding getFailedReplicas_def getOkReplicas_def getReplicasToStart_def
  by (subst filter3_length) (rule replica_state_cases, simp add: mvals_def)

lemma toShardRepair_simps [simp]:
  "sr_shardID (toShardRepair t c) = sh_ShardID c"
  "sr_shard (toShardRepair t c) = c"
  "length (sr_failedReplicas (toShardRepair t c)) = length (getFailedReplicas c t)"
  "length (sr_okReplicas (toShardRepair t c)) = length (getOkReplicas c t)"
  "length (sr_replicasToStart (toShardRepair t c)) = length (getReplicasToStart c t)"
  "set (sr_failedReplicas (toShardRepair t c)) = set (getFailedReplicas c t)"
  "set (sr_okReplicas (toShardRepair t c)) = set (getOkReplicas c t)"
  "set (sr_replicasToStart (toShardRepair t c)) = set (getReplicasToStart c t)"
  by (simp_all add: toShardRepair_def)

lemma sr_quorum_toShardRepair [simp]: "sr_quorum (toShardRepair t c) = sh_quorum c"
  using groups_length [of c t] by (simp add: sr_quorum_def sh_quorum_def Let_def)

lemma sr_available_toShardRepair [simp]: "sr_available (toShardRepair t c) = sh_available c t"
  by (simp add: sr_available_def sh_available_def)

lemma in_getShardForRepair:
  "cr \<in> set (getShardForRepair mc t) \<longleftrightarrow>
     (\<exists>c \<in> set (mvals (ms_Shards mc)). cr = toShardRepair t c \<and>
        (getFailedReplicas c t \<noteq> [] \<or> getReplicasToStart c t \<noteq> []))"
  by (auto simp: getShardForRepair_def)

lemma ok_nonempty_if_available: "sr_available cr \<Longrightarrow> sr_okReplicas cr \<noteq> []"
  by (auto simp: sr_available_def sr_quorum_def Let_def)

end
