(* ===== verification/Filters.thy ===== *)
theory Filters
  imports NodeHostImage
begin

text \<open>
  The NodeHost filters (\<^verbatim>\<open>filter.go\<close>). The interface \<^verbatim>\<open>nodeHostFilter\<close> and its implementations are
  one datatype; \<open>filter_run\<close> is the method \<^verbatim>\<open>filter\<close> of each of them.
\<close>

datatype nodeHostFilter =
    basicFilter u64
  | liveFilter u64 u64
  | regionFilter string
  | combinedFilter "nodeHostFilter list"

definition newBasicFilter :: "u64 \<Rightarrow> nodeHostFilter" where
  "newBasicFilter shardID = basicFilter shardID"

definition newLiveFilter :: "u64 \<Rightarrow> u64 \<Rightarrow> nodeHostFilter" where
  "newLiveFilter ct gap = liveFilter ct gap"

definition newRegionFilter :: "string \<Rightarrow> nodeHostFilter" where
  "newRegionFilter region = regionFilter region"

definition newCombinedFilter :: "nodeHostFilter list \<Rightarrow> nodeHostFilter" where
  "newCombinedFilter filters = combinedFilter filters"

fun basic_run :: "u64 \<Rightarrow> nodeHostSpec list \<Rightarrow> nodeHostSpec list" where
  "basic_run shardID [] = []"
| "basic_run shardID (v # vs) =
     (if \<not> mhas (nh_Shards v) shardID then v # basic_run shardID vs else basic_run shardID vs)"

fun live_run :: "u64 \<Rightarrow> u64 \<Rightarrow> nodeHostSpec list \<Rightarrow> nodeHostSpec list" where
  "live_run currentTick gap [] = []"
| "live_run currentTick gap (v # vs) =
     (if currentTick - nh_Tick v < gap then v # live_run currentTick gap vs
      else live_run currentTick gap vs)"

fun region_run :: "string \<Rightarrow> nodeHostSpec list \<Rightarrow> nodeHostSpec list" where
  "region_run region [] = []"
| "region_run region (v # vs) =
     (if region = nh_Region v then v # region_run region vs else region_run region vs)"

fun filter_run :: "nodeHostFilter \<Rightarrow> nodeHostSpec list \<Rightarrow> nodeHostSpec list"
and filters_run :: "nodeHostFilter list \<Rightarrow> nodeHostSpec list \<Rightarrow> nodeHostSpec list" where
  "filter_run (basicFilter shardID) input = basic_run shardID input"
| "filter_run (liveFilter currentTick gap) input = live_run currentTick gap input"
| "filter_run (regionFilter region) input = region_run region input"
| "filter_run (combinedFilter fs) input = filters_run fs input"
| "filters_run [] list = list"
| "filters_run (f # fs) list = filters_run fs (filter_run f list)"

text \<open>\<^verbatim>\<open>defaultFilter\<close> and \<^verbatim>\<open>defaultRegionFilter\<close> wrap a combined filter and only delegate to it.\<close>

definition newDrummerFilter :: "u64 \<Rightarrow> u64 \<Rightarrow> u64 \<Rightarrow> nodeHostFilter" where
  "newDrummerFilter shardID currentTick allowedTickGap =
     (let lf = newLiveFilter currentTick allowedTickGap; bf = newBasicFilter shardID
      in newCombinedFilter [lf, bf])"

definition newDrummerRegionFilter :: "string \<Rightarrow> u64 \<Rightarrow> u64 \<Rightarrow> u64 \<Rightarrow> nodeHostFilter" where
  "newDrummerRegionFilter region shardID currentTick allowedTickGap =
     (let lf = newLiveFilter currentTick allowedTickGap; bf = newBasicFilter shardID;
          rf = newRegionFilter region
      in newCombinedFilter [lf, bf, rf])"

section \<open>A filter keeps the NodeHosts that pass a predicate\<close>

text \<open>The specification: which single NodeHost a filter lets through.\<close>

fun passes :: "nodeHostFilter \<Rightarrow> nodeHostSpec \<Rightarrow> bool" where
  "passes (basicFilter shardID) v = (\<not> mhas (nh_Shards v) shardID)"
| "passes (liveFilter currentTick gap) v = (currentTick - nh_Tick v < gap)"
| "passes (regionFilter region) v = (region = nh_Region v)"
| "passes (combinedFilter fs) v = list_all (\<lambda>f. passes f v) fs"

lemma basic_run_filter: "basic_run s xs = filter (\<lambda>v. \<not> mhas (nh_Shards v) s) xs"
  by (induction xs) auto

lemma live_run_filter: "live_run t g xs = filter (\<lambda>v. t - nh_Tick v < g) xs"
  by (induction xs) auto

lemma region_run_filter: "region_run r xs = filter (\<lambda>v. r = nh_Region v) xs"
  by (induction xs) auto

lemma filter_run_passes:
  "filter_run f xs = filter (passes f) xs"
  "filters_run fs xs = filter (\<lambda>v. list_all (\<lambda>f. passes f v) fs) xs"
proof (induction f xs and fs xs rule: filter_run_filters_run.induct)
  case (6 f fs list)
  then show ?case by (simp add: conj_commute)
qed (simp_all add: basic_run_filter live_run_filter region_run_filter)

lemma passes_drummer [simp]:
  "passes (newDrummerFilter s t g) v \<longleftrightarrow> t - nh_Tick v < g \<and> \<not> mhas (nh_Shards v) s"
  by (simp add: newDrummerFilter_def newLiveFilter_def newBasicFilter_def newCombinedFilter_def Let_def)

lemma passes_drummer_region [simp]:
  "passes (newDrummerRegionFilter r s t g) v \<longleftrightarrow>
     t - nh_Tick v < g \<and> \<not> mhas (nh_Shards v) s \<and> r = nh_Region v"
  by (simp add: newDrummerRegionFilter_def newLiveFilter_def newBasicFilter_def newRegionFilter_def
      newCombinedFilter_def Let_def)

end
