(* ===== verification/Selector.thy ===== *)
theory Selector
  imports Filters
begin

text \<open>
  Random selection of NodeHosts (\<^verbatim>\<open>selector.go\<close>). The random source is third-party code: it is
  the record \<open>rand_src\<close> of the values its calls return, the \<open>i\<close>-th call of either method
  reading entry \<open>i\<close>; the functions thread the number of calls made so far. Its documented
  behaviour, \<open>rand_ok\<close>, is that \<^verbatim>\<open>Int()\<close> is never negative.

  The selection loop draws until it has enough distinct indexes, so it need not end: it is a
  partial function, and not returning is the result \<open>Diverges\<close> of \<open>findSuitableNodeHost\<close>.
\<close>

record rand_src =
  rnd_Int :: "nat \<Rightarrow> int"
  rnd_Uint64 :: "nat \<Rightarrow> u64"

definition rand_ok :: "rand_src \<Rightarrow> bool" where
  "rand_ok r \<longleftrightarrow> (\<forall>i. 0 \<le> rnd_Int r i)"

record randomSelector =
  rs_filter :: nodeHostFilter
  rs_randomSource :: rand_src

definition newRandomSelector :: "u64 \<Rightarrow> u64 \<Rightarrow> u64 \<Rightarrow> rand_src option \<Rightarrow> randomSelector go" where
  "newRandomSelector clusterID currentTick allowedTickGap randomSource =
     (case randomSource of
        None \<Rightarrow> panic RandomSourceNil
      | Some r \<Rightarrow> Inr \<lparr>rs_filter = newDrummerFilter clusterID currentTick allowedTickGap,
                      rs_randomSource = r\<rparr>)"

definition newRandomRegionSelector ::
    "string \<Rightarrow> u64 \<Rightarrow> u64 \<Rightarrow> u64 \<Rightarrow> rand_src option \<Rightarrow> randomSelector go" where
  "newRandomRegionSelector region clusterID currentTick allowedTickGap randomSource =
     (case randomSource of
        None \<Rightarrow> panic RandomSourceNil
      | Some r \<Rightarrow> Inr \<lparr>rs_filter = newDrummerRegionFilter region clusterID currentTick allowedTickGap,
                      rs_randomSource = r\<rparr>)"

text \<open>The local closure \<^verbatim>\<open>contains\<close>.\<close>

fun contains :: "int list \<Rightarrow> int \<Rightarrow> bool" where
  "contains [] v = False"
| "contains (x # xs) v = (if v = x then True else contains xs v)"

text \<open>The loop \<^verbatim>\<open>for len(selected) != num\<close> over \<open>n\<close> candidates.\<close>

partial_function (option) selectLoop ::
    "(nat \<Rightarrow> int) \<Rightarrow> int \<Rightarrow> int \<Rightarrow> nat \<Rightarrow> int list \<Rightarrow> (int list go \<times> nat) option" where
  "selectLoop draw n num pos selected =
     (if int (length selected) = num then Some (Inr selected, pos)
      else if n = 0 then Some (panic DivideByZero, Suc pos)
      else if contains selected (go_rem (draw pos) n)
      then selectLoop draw n num (Suc pos) selected
      else selectLoop draw n num (Suc pos) (selected @ [go_rem (draw pos) n]))"

declare selectLoop.simps [code]

fun indexAll :: "'a list \<Rightarrow> int list \<Rightarrow> 'a list go" where
  "indexAll filtered [] = Inr []"
| "indexAll filtered (idx # xs) =
     (case goIndex filtered idx of
        Inl e \<Rightarrow> Inl e
      | Inr v \<Rightarrow> (case indexAll filtered xs of Inl e \<Rightarrow> Inl e | Inr vs \<Rightarrow> Inr (v # vs)))"

definition findSuitableNodeHost ::
    "randomSelector \<Rightarrow> nodeHostSpec list \<Rightarrow> int \<Rightarrow> nat \<Rightarrow> nodeHostSpec list go \<times> nat" where
  "findSuitableNodeHost rs input num pos =
     (let filtered = filter_run (rs_filter rs) input in
      if int (length filtered) < num then (Inr [], pos)
      else case selectLoop (rnd_Int (rs_randomSource rs)) (int (length filtered)) num pos [] of
        None \<Rightarrow> (Inl Diverges, pos)
      | Some (Inl e, pos') \<Rightarrow> (Inl e, pos')
      | Some (Inr selected, pos') \<Rightarrow> (indexAll filtered selected, pos'))"

section \<open>The loop when it returns\<close>

lemma contains_set [simp]: "contains xs v \<longleftrightarrow> v \<in> set xs"
  by (induction xs) auto

text \<open>What a returning run guarantees: \<open>num\<close> distinct indexes in range.\<close>

definition good_selection :: "int \<Rightarrow> int list \<Rightarrow> bool" where
  "good_selection n sel \<longleftrightarrow> distinct sel \<and> (\<forall>i \<in> set sel. 0 \<le> i \<and> i < n)"

lemma selectLoop_result:
  assumes "selectLoop draw n num pos selected = Some (r, pos')"
  shows "(\<forall>i. 0 \<le> draw i) \<longrightarrow> 0 \<le> n \<longrightarrow> good_selection n selected \<longrightarrow>
    (case r of Inr sel \<Rightarrow> int (length sel) = num \<and> good_selection n sel
       | Inl e \<Rightarrow> n = 0 \<and> int (length selected) \<noteq> num)"
proof -
  have "case (r, pos') of (r, pos') \<Rightarrow> (\<forall>i. 0 \<le> draw i) \<longrightarrow> 0 \<le> n \<longrightarrow> good_selection n selected \<longrightarrow>
    (case r of Inr sel \<Rightarrow> int (length sel) = num \<and> good_selection n sel
       | Inl e \<Rightarrow> n = 0 \<and> int (length selected) \<noteq> num)"
  proof (rule selectLoop.raw_induct [where P = "\<lambda>draw n num pos selected res. case res of (r, pos') \<Rightarrow>
      (\<forall>i. 0 \<le> draw i) \<longrightarrow> 0 \<le> n \<longrightarrow> good_selection n selected \<longrightarrow>
      (case r of Inr sel \<Rightarrow> int (length sel) = num \<and> good_selection n sel
         | Inl e \<Rightarrow> n = 0 \<and> int (length selected) \<noteq> num)", OF _ assms], goal_cases)
    case (1 f draw n num pos selected y)
    show ?case
    proof (cases "int (length selected) = num \<or> n = 0")
      case True
      with 1(2) show ?thesis by (auto simp: panic_def split: if_splits)
    next
      case False
      have step: "(\<forall>i. 0 \<le> draw i) \<longrightarrow> 0 \<le> n \<longrightarrow> good_selection n selected \<longrightarrow>
          go_rem (draw pos) n \<notin> set selected \<longrightarrow> good_selection n (selected @ [go_rem (draw pos) n])"
        using False go_rem_range [of "draw pos" n] by (auto simp: good_selection_def)
      show ?thesis
      proof (cases "go_rem (draw pos) n \<in> set selected")
        case True
        with 1(2) False have "f draw n num (Suc pos) selected = Some y" by simp
        from 1(1) [OF this] False show ?thesis by (auto split: sum.splits)
      next
        case notin: False
        with 1(2) False have "f draw n num (Suc pos) (selected @ [go_rem (draw pos) n]) = Some y"
          by simp
        from 1(1) [OF this] step notin False show ?thesis by (auto split: sum.splits)
      qed
    qed
  qed
  then show ?thesis by simp
qed

lemma indexAll_Inr:
  "(\<forall>i \<in> set sel. 0 \<le> i \<and> i < int (length xs)) \<Longrightarrow>
     indexAll xs sel = Inr (map (\<lambda>i. xs ! nat i) sel)"
  by (induction sel) (auto simp: goIndex_def)

section \<open>The loop returns under a fair source\<close>

text \<open>Every candidate is drawn again and again.\<close>

definition fair :: "(nat \<Rightarrow> int) \<Rightarrow> int \<Rightarrow> bool" where
  "fair draw n \<longleftrightarrow> (\<forall>pos. \<forall>r \<in> {0..<n}. \<exists>p\<ge>pos. go_rem (draw p) n = r)"

lemma selectLoop_skip:
  assumes "\<And>i. pos \<le> i \<Longrightarrow> i < pos + k \<Longrightarrow> go_rem (draw i) n \<in> set selected"
    and "int (length selected) \<noteq> num" and "n \<noteq> 0"
  shows "selectLoop draw n num pos selected = selectLoop draw n num (pos + k) selected"
  using assms
proof (induction k arbitrary: pos)
  case (Suc k)
  have "selectLoop draw n num pos selected = selectLoop draw n num (Suc pos) selected"
    using Suc.prems(1) [of pos] Suc.prems(2,3) by (subst selectLoop.simps) simp
  also have "\<dots> = selectLoop draw n num (Suc pos + k) selected"
    by (rule Suc.IH) (use Suc.prems in auto)
  finally show ?case by simp
qed simp

lemma selectLoop_returns:
  assumes fair: "fair draw n" and nonneg: "\<And>i. 0 \<le> draw i" and n: "num \<le> n"
    and sel: "good_selection n selected" and len: "int (length selected) \<le> num"
  shows "\<exists>sel pos'. selectLoop draw n num pos selected = Some (Inr sel, pos')"
  using sel len
proof (induction "nat (num - int (length selected))" arbitrary: pos selected)
  case 0
  then have "int (length selected) = num" by simp
  then show ?case by (subst selectLoop.simps) simp
next
  case (Suc d)
  have lt: "int (length selected) < num" using Suc.hyps(2) by linarith
  have "set selected \<subset> {0..<n}"
  proof
    show "set selected \<subseteq> {0..<n}" using Suc.prems(1) by (auto simp: good_selection_def)
    have "card (set selected) = length selected"
      using Suc.prems(1) by (simp add: good_selection_def distinct_card)
    then show "set selected \<noteq> {0..<n}" using lt n by auto
  qed
  then obtain r where r: "r \<in> {0..<n}" "r \<notin> set selected" by blast
  from fair r(1) obtain p where p: "p \<ge> pos" "go_rem (draw p) n = r"
    unfolding fair_def by blast
  define P where "P k \<longleftrightarrow> go_rem (draw (pos + k)) n \<notin> set selected" for k
  have "P (p - pos)" using p r(2) by (simp add: P_def)
  define k where "k = (LEAST k. P k)"
  have Pk: "P k" unfolding k_def by (rule LeastI) (rule \<open>P (p - pos)\<close>)
  have before: "go_rem (draw i) n \<in> set selected" if "pos \<le> i" "i < pos + k" for i
    using not_less_Least [of "i - pos" P] that by (auto simp: k_def P_def)
  have n0: "n \<noteq> 0" and npos: "0 < n" using lt n by auto
  let ?rv = "go_rem (draw (pos + k)) n"
  have good: "good_selection n (selected @ [?rv])"
    using Suc.prems(1) Pk go_rem_range [OF nonneg npos] by (auto simp: good_selection_def P_def)
  have "selectLoop draw n num pos selected = selectLoop draw n num (pos + k) selected"
    by (rule selectLoop_skip) (use before lt n0 in auto)
  also have "\<dots> = selectLoop draw n num (Suc (pos + k)) (selected @ [?rv])"
    using Pk lt n0 by (subst selectLoop.simps) (simp add: P_def)
  finally have eq: "selectLoop draw n num pos selected =
    selectLoop draw n num (Suc (pos + k)) (selected @ [?rv])" .
  have "\<exists>sel pos'. selectLoop draw n num (Suc (pos + k)) (selected @ [?rv]) = Some (Inr sel, pos')"
    by (rule Suc.hyps(1)) (use Suc.hyps(2) lt good in auto)
  then show ?case by (simp add: eq)
qed

section \<open>What a selection returns\<close>

text \<open>
  The contract the scheduler relies on: a selection that returns is empty, or has \<open>num\<close>
  distinct positions of the filtered NodeHosts.
\<close>

definition selection_of :: "nodeHostSpec list \<Rightarrow> nodeHostSpec list \<Rightarrow> bool" where
  "selection_of candidates result \<longleftrightarrow>
     (\<exists>sel. good_selection (int (length candidates)) sel \<and> result = map (\<lambda>i. candidates ! nat i) sel)"

lemma selection_of_subset: "selection_of cs res \<Longrightarrow> set res \<subseteq> set cs"
  unfolding selection_of_def good_selection_def by (auto intro!: nth_mem simp: nat_less_iff)

lemma selection_of_distinct:
  assumes "selection_of cs res" and "distinct (map g cs)"
  shows "distinct (map g res)"
proof -
  obtain sel where sel: "good_selection (int (length cs)) sel" "res = map (\<lambda>i. cs ! nat i) sel"
    using assms(1) by (auto simp: selection_of_def)
  have "inj_on (\<lambda>i. g (cs ! nat i)) (set sel)"
  proof (rule inj_onI)
    fix i j assume ij: "i \<in> set sel" "j \<in> set sel" "g (cs ! nat i) = g (cs ! nat j)"
    then have "nat i < length cs" "nat j < length cs" "0 \<le> i" "0 \<le> j"
      using sel(1) by (auto simp: good_selection_def)
    with ij(3) assms(2) have "nat i = nat j" by (auto simp: distinct_conv_nth)
    with \<open>0 \<le> i\<close> \<open>0 \<le> j\<close> show "i = j" by simp
  qed
  with sel show ?thesis by (simp add: distinct_map good_selection_def comp_def)
qed

lemma findSuitableNodeHost_spec:
  assumes "findSuitableNodeHost rs input num pos = (r, pos')" and "rand_ok (rs_randomSource rs)"
  shows "r = Inl Diverges \<or> r = panic DivideByZero \<or>
    (\<exists>res. r = Inr res \<and>
       (res = [] \<and> int (length (filter (passes (rs_filter rs)) input)) < num \<or>
        int (length res) = num \<and> selection_of (filter (passes (rs_filter rs)) input) res))"
proof -
  let ?cs = "filter (passes (rs_filter rs)) input"
  let ?loop = "selectLoop (rnd_Int (rs_randomSource rs)) (int (length ?cs)) num pos []"
  show ?thesis
  proof (cases "int (length ?cs) < num")
    case True
    with assms(1) have "r = Inr []"
      by (simp add: findSuitableNodeHost_def filter_run_passes Let_def)
    with True show ?thesis by simp
  next
    case False
    show ?thesis
    proof (cases ?loop)
      case None
      with False assms(1) show ?thesis
        by (simp add: findSuitableNodeHost_def filter_run_passes Let_def)
    next
      case (Some res)
      obtain x p where x: "?loop = Some (x, p)" using Some by (cases res) auto
      note res = selectLoop_result [OF x]
      show ?thesis
      proof (cases x)
        case (Inl e)
        have "e = Panic DivideByZero"
          using x Inl res assms(2) False
          by (subst (asm) selectLoop.simps)
            (auto simp: panic_def rand_ok_def good_selection_def split: if_splits)
        with x Inl False assms(1) show ?thesis
          by (simp add: findSuitableNodeHost_def filter_run_passes Let_def panic_def)
      next
        case (Inr sel)
        then have good: "int (length sel) = num" "good_selection (int (length ?cs)) sel"
          using res assms(2) by (auto simp: rand_ok_def good_selection_def)
        then have "indexAll ?cs sel = Inr (map (\<lambda>i. ?cs ! nat i) sel)"
          by (intro indexAll_Inr) (auto simp: good_selection_def)
        moreover have "r = indexAll ?cs sel"
          using x Inr False assms(1)
          by (simp add: findSuitableNodeHost_def filter_run_passes Let_def)
        ultimately show ?thesis using good by (auto simp: selection_of_def)
      qed
    qed
  qed
qed

text \<open>A division by zero needs a negative number of NodeHosts.\<close>

lemma findSuitableNodeHost_zero:
  assumes "findSuitableNodeHost rs input num pos = (panic DivideByZero, pos')" and "rand_ok (rs_randomSource rs)"
  shows "num < 0"
proof -
  let ?n = "int (length (filter (passes (rs_filter rs)) input))"
  let ?loop = "selectLoop (rnd_Int (rs_randomSource rs)) ?n num pos []"
  have enough: "\<not> ?n < num"
    using assms(1) by (auto simp: findSuitableNodeHost_def filter_run_passes panic_def Let_def)
  show ?thesis
  proof (cases ?loop)
    case None
    with enough assms(1) show ?thesis
      by (simp add: findSuitableNodeHost_def filter_run_passes panic_def Let_def)
  next
    case (Some y)
    obtain x p where x: "?loop = Some (x, p)" using Some by (cases y) auto
    have res: "case x of Inr sel \<Rightarrow> int (length sel) = num \<and> good_selection ?n sel
        | Inl e \<Rightarrow> ?n = 0 \<and> int (length ([] :: int list)) \<noteq> num"
      using selectLoop_result [OF x] assms(2) by (auto simp: rand_ok_def good_selection_def)
    show ?thesis
    proof (cases x)
      case (Inl e)
      with res enough show ?thesis by auto
    next
      case (Inr sel)
      then have "indexAll (filter (passes (rs_filter rs)) input) sel \<noteq> panic DivideByZero"
        using res indexAll_Inr [of sel "filter (passes (rs_filter rs)) input"]
        by (auto simp: panic_def good_selection_def)
      with x Inr enough assms(1) show ?thesis
        by (simp add: findSuitableNodeHost_def filter_run_passes Let_def)
    qed
  qed
qed

section \<open>The interface of selectors\<close>

text \<open>
  What the scheduler asks of a selector: a search that returns finds nothing because there are
  too few NodeHosts it accepts, or finds as many distinct ones as asked for; it fails only by not
  returning, unless asked for a negative number.
\<close>

locale node_selector =
  fixes find :: "'s \<Rightarrow> nodeHostSpec list \<Rightarrow> int \<Rightarrow> nat \<Rightarrow> nodeHostSpec list go \<times> nat"
    and accepts :: "'s \<Rightarrow> nodeHostSpec \<Rightarrow> bool" and usable :: "'s \<Rightarrow> bool"
  assumes found: "usable s \<Longrightarrow> find s hosts num pos = (Inr res, pos') \<Longrightarrow>
      res = [] \<and> int (length (filter (accepts s) hosts)) < num \<or>
      int (length res) = num \<and> selection_of (filter (accepts s) hosts) res"
    and fails: "usable s \<Longrightarrow> 0 \<le> num \<Longrightarrow> find s hosts num pos = (Inl e, pos') \<Longrightarrow> e = Diverges"
begin

lemma found_accepted:
  assumes "usable s" and "find s hosts num pos = (Inr res, pos')"
  shows "set res \<subseteq> {h \<in> set hosts. accepts s h}"
  using found [OF assms] selection_of_subset [of "filter (accepts s) hosts" res] by auto

lemma found_distinct:
  assumes "usable s" and "find s hosts num pos = (Inr res, pos')" and "distinct (map g hosts)"
  shows "distinct (map g res)"
proof -
  have "distinct (map g (filter (accepts s) hosts))"
    using assms(3) by (simp add: distinct_map_filter)
  with found [OF assms(1,2)] show ?thesis by (auto dest: selection_of_distinct)
qed

lemma found_count:
  assumes "usable s" and "find s hosts num pos = (Inr res, pos')"
  shows "res = [] \<or> int (length res) = num"
  using found [OF assms] by blast

lemma no_panic:
  assumes "usable s" and "0 \<le> num"
  shows "fst (find s hosts num pos) \<noteq> panic p"
  using fails [OF assms] by (cases "find s hosts num pos") (auto simp: panic_def)

end

interpretation drummer_selector: node_selector findSuitableNodeHost "\<lambda>s. passes (rs_filter s)"
  "\<lambda>s. rand_ok (rs_randomSource s)"
proof
  fix s hosts num pos res pos'
  assume "rand_ok (rs_randomSource s)" "findSuitableNodeHost s hosts num pos = (Inr res, pos')"
  from findSuitableNodeHost_spec [OF this(2,1)]
  show "res = [] \<and> int (length (filter (passes (rs_filter s)) hosts)) < num \<or>
      int (length res) = num \<and> selection_of (filter (passes (rs_filter s)) hosts) res"
    by (auto simp: panic_def)
next
  fix s hosts pos e pos' and num :: int
  assume a: "rand_ok (rs_randomSource s)" "0 \<le> num" "findSuitableNodeHost s hosts num pos = (Inl e, pos')"
  from findSuitableNodeHost_spec [OF a(3,1)] findSuitableNodeHost_zero [OF _ a(1), of hosts num pos pos'] a(2,3)
  show "e = Diverges" by (auto simp: panic_def)
qed

end
