(* ===== verification/Scheduler.thy ===== *)
theory Scheduler
  imports ShardRepair Selector DrummerDB
begin

text \<open>
  The scheduler (\<^verbatim>\<open>scheduler.go\<close>): from one snapshot of the database it computes the requests
  that launch, repair and restore shards and kill zombie replicas. It only reads the snapshot;
  the one thing it consumes is the random source, whose position every randomised function
  takes and returns.
\<close>

section \<open>State\<close>

record scheduler =
  sch_randomSrc :: "rand_src option"
  sch_config :: Config
  sch_shards :: "Shard list"
  sch_tick :: u64
  sch_regions :: "Regions option"
  sch_multiShard :: multiShard
  sch_multiNodeHost :: multiNodeHost
  sch_shardsToRepair :: "shardRepair list"
  sch_nodeHostList :: "nodeHostSpec list"
  sch_replicasToKill :: "replicaToKill list"

definition newScheduler :: "rand_src option \<Rightarrow> Config \<Rightarrow> scheduler" where
  "newScheduler randSrc config = \<lparr>sch_randomSrc = randSrc,
     sch_config = config\<lparr>cf_RaftShardAddresses := [], cf_DrummerAddress := [],
       cf_DrummerWALDirectory := [], cf_DrummerNodeHostDirectory := []\<rparr>,
     sch_shards = [], sch_tick = 0, sch_regions = None, sch_multiShard = newMultiShard,
     sch_multiNodeHost = newMultiNodeHost, sch_shardsToRepair = [], sch_nodeHostList = [],
     sch_replicasToKill = []\<rparr>"

definition newSchedulerWithContext ::
    "rand_src option \<Rightarrow> Config \<Rightarrow> u64 \<Rightarrow> Shard list \<Rightarrow> multiShard \<Rightarrow> multiNodeHost \<Rightarrow> scheduler" where
  "newSchedulerWithContext randSrc config tick shards mc mnh = \<lparr>sch_randomSrc = randSrc,
     sch_config = config, sch_shards = shards, sch_tick = tick, sch_regions = None,
     sch_multiShard = mc, sch_multiNodeHost = mnh,
     sch_shardsToRepair = getShardForRepair mc tick, sch_nodeHostList = toArray mnh,
     sch_replicasToKill = []\<rparr>"

definition updateSchedulerContext :: "scheduler \<Rightarrow> schedulerContext \<Rightarrow> scheduler" where
  "updateSchedulerContext s sc =
     (let (toKill, mc) = getToKillReplicas (ctx_ShardImage sc)
      in s\<lparr>sch_tick := ctx_Tick sc, sch_shards := mvals (ctx_Shards sc),
           sch_multiShard := mc, sch_multiNodeHost := ctx_NodeHostImage sc,
           sch_regions := ctx_Regions sc,
           sch_shardsToRepair := getShardForRepair (ctx_ShardImage sc) (ctx_Tick sc),
           sch_nodeHostList := toArray (ctx_NodeHostImage sc), sch_replicasToKill := toKill\<rparr>)"

definition hasRunningShard :: "scheduler \<Rightarrow> bool" where
  "hasRunningShard s \<longleftrightarrow> ms_size (sch_multiShard s) > 0"

section \<open>Helpers\<close>

fun findShard :: "Shard list \<Rightarrow> u64 \<Rightarrow> Shard go" where
  "findShard [] shardID = panic ShardNotLocated"
| "findShard (c # cs) shardID = (if sd_ShardId c = shardID then Inr c else findShard cs shardID)"

definition getShardSize :: "scheduler \<Rightarrow> u64 \<Rightarrow> nat go" where
  "getShardSize s shardID =
     (case findShard (sch_shards s) shardID of Inl e \<Rightarrow> Inl e | Inr c \<Rightarrow> Inr (length (sd_Members c)))"

definition getAppName :: "scheduler \<Rightarrow> u64 \<Rightarrow> string go" where
  "getAppName s shardID =
     (case findShard (sch_shards s) shardID of Inl e \<Rightarrow> Inl e | Inr c \<Rightarrow> Inr (sd_AppName c))"

text \<open>\<^verbatim>\<open>okReplicas[s.randomSrc.Int()%okNodeCount]\<close>\<close>

definition randomReplica :: "scheduler \<Rightarrow> replica list \<Rightarrow> nat \<Rightarrow> replica go \<times> nat" where
  "randomReplica s ok pos =
     (case sch_randomSrc s of
        None \<Rightarrow> (panic NilDereference, pos)
      | Some r \<Rightarrow>
          (if length ok = 0 then (panic DivideByZero, Suc pos)
           else (goIndex ok (go_rem (rnd_Int r pos) (int (length ok))), Suc pos)))"

section \<open>Launch\<close>

text \<open>The loop over the regions; \<^verbatim>\<open>regions.Count[idx]\<close> may be out of range.\<close>

fun selectRegions :: "scheduler \<Rightarrow> u64 \<Rightarrow> string list \<Rightarrow> u64 list \<Rightarrow> nodeHostSpec list \<Rightarrow> nat
    \<Rightarrow> nodeHostSpec list go \<times> nat" where
  "selectRegions s shardId [] cnts selected pos = (Inr selected, pos)"
| "selectRegions s shardId (reg # regs) [] selected pos = (panic IndexOutOfRange, pos)"
| "selectRegions s shardId (reg # regs) (c # cs) selected pos =
     (case newRandomRegionSelector reg shardId (sch_tick s) nodeHostTTL (sch_randomSrc s) of
        Inl e \<Rightarrow> (Inl e, pos)
      | Inr randSelector \<Rightarrow>
          (case findSuitableNodeHost randSelector (sch_nodeHostList s) (sint c) pos of
             (Inl e, pos1) \<Rightarrow> (Inl e, pos1)
           | (Inr regionReplicas, pos1) \<Rightarrow>
               selectRegions s shardId regs cs (selected @ regionReplicas) pos1))"

text \<open>The loop over the selected NodeHosts; \<^verbatim>\<open>shard.Members[idx]\<close> may be out of range.\<close>

fun launchRequests :: "scheduler \<Rightarrow> Shard \<Rightarrow> string list \<Rightarrow> u64 list \<Rightarrow> nodeHostSpec list
    \<Rightarrow> NodeHostRequest list go" where
  "launchRequests s shard addressList members [] = Inr []"
| "launchRequests s shard addressList [] (targetNode # ts) = panic IndexOutOfRange"
| "launchRequests s shard addressList (m # ms) (targetNode # ts) =
     (case launchRequests s shard addressList ms ts of
        Inl e \<Rightarrow> Inl e
      | Inr rs \<Rightarrow> Inr (\<lparr>nr_Change = Some (zero_Request\<lparr>rq_Type := Request_CREATE,
              rq_ShardId := sd_ShardId shard, rq_Members := sd_Members shard\<rparr>),
            nr_ReplicaIdList = sd_Members shard, nr_AddressList = addressList,
            nr_InstantiateReplicaId = m, nr_RaftAddress = nh_Address targetNode,
            nr_Join = False, nr_Restore = False, nr_AppName = sd_AppName shard,
            nr_Config = Some (sch_config s)\<rparr> # rs))"

definition launchShard :: "scheduler \<Rightarrow> Regions option \<Rightarrow> Shard \<Rightarrow> nat
    \<Rightarrow> NodeHostRequest list go \<times> nat" where
  "launchShard s regions shard pos =
     (case regions of
        None \<Rightarrow> (panic NilDereference, pos)
      | Some rg \<Rightarrow>
          (case selectRegions s (sd_ShardId shard) (rg_Region rg) (rg_Count rg) [] pos of
             (Inl e, pos1) \<Rightarrow> (Inl e, pos1)
           | (Inr selected, pos1) \<Rightarrow>
               (if length selected < length (sd_Members shard)
                then (Inl (Err ErrNotEnoughInRegions), pos1)
                else (launchRequests s shard
                        (map nh_Address (take (length (sd_Members shard)) selected))
                        (sd_Members shard) selected, pos1))))"

fun getLaunchRequests :: "scheduler \<Rightarrow> Shard list \<Rightarrow> Regions option \<Rightarrow> nat
    \<Rightarrow> NodeHostRequest list go \<times> nat" where
  "getLaunchRequests s [] regions pos = (Inr [], pos)"
| "getLaunchRequests s (shard # shards) regions pos =
     (case launchShard s regions shard pos of
        (Inl e, pos1) \<Rightarrow> (Inl e, pos1)
      | (Inr rs, pos1) \<Rightarrow>
          (case getLaunchRequests s shards regions pos1 of
             (Inl e, pos2) \<Rightarrow> (Inl e, pos2)
           | (Inr rest, pos2) \<Rightarrow> (Inr (rs @ rest), pos2)))"

definition launch :: "scheduler \<Rightarrow> nat \<Rightarrow> NodeHostRequest list go \<times> nat" where
  "launch s pos = getLaunchRequests s (sch_shards s) (sch_regions s) pos"

section \<open>Requests that repair and restore\<close>

definition getCreateRequest :: "scheduler \<Rightarrow> replica \<Rightarrow> shard \<Rightarrow> string \<Rightarrow> bool \<Rightarrow> bool
    \<Rightarrow> NodeHostRequest list" where
  "getCreateRequest s target ci appName join restore =
     (let replicaIDList = map rp_ReplicaID (mvals (sh_Replicas ci));
          addressList = map rp_Address (mvals (sh_Replicas ci))
      in [\<lparr>nr_Change = Some (zero_Request\<lparr>rq_Type := Request_CREATE, rq_ShardId := sh_ShardID ci,
              rq_Members := replicaIDList\<rparr>),
           nr_ReplicaIdList = replicaIDList, nr_AddressList = addressList,
           nr_InstantiateReplicaId = rp_ReplicaID target, nr_RaftAddress = rp_Address target,
           nr_Join = join, nr_Restore = restore, nr_AppName = appName,
           nr_Config = Some (sch_config s)\<rparr>])"

definition getRepairCreateRequest :: "scheduler \<Rightarrow> replica \<Rightarrow> shard \<Rightarrow> string \<Rightarrow> NodeHostRequest list" where
  "getRepairCreateRequest s target ci appName = getCreateRequest s target ci appName True False"

definition getRestoreCreateRequest :: "scheduler \<Rightarrow> replica \<Rightarrow> shard \<Rightarrow> string \<Rightarrow> NodeHostRequest list" where
  "getRestoreCreateRequest s target ci appName = getCreateRequest s target ci appName False True"

definition getRepairDeleteRequest :: "scheduler \<Rightarrow> replica \<Rightarrow> shardRepair \<Rightarrow> nat
    \<Rightarrow> NodeHostRequest list go \<times> nat" where
  "getRepairDeleteRequest s replicaToDelete ctr pos =
     (case randomReplica s (sr_okReplicas ctr) pos of
        (Inl e, pos1) \<Rightarrow> (Inl e, pos1)
      | (Inr existing, pos1) \<Rightarrow>
          (Inr [zero_NodeHostRequest\<lparr>
             nr_Change := Some (zero_Request\<lparr>rq_Type := Request_DELETE,
               rq_ShardId := sr_shardID ctr, rq_Members := [rp_ReplicaID replicaToDelete],
               rq_ConfChangeId := sh_ConfigChangeIndex (sr_shard ctr)\<rparr>),
             nr_RaftAddress := rp_Address existing\<rparr>], pos1))"

definition getReplacementNode :: "scheduler \<Rightarrow> replica \<Rightarrow> nat \<Rightarrow> nodeHostSpec list go \<times> nat" where
  "getReplacementNode s failedReplica pos =
     (let region = (case mget (mn_Nodehosts (sch_multiNodeHost s)) (rp_Address failedReplica) of
                      None \<Rightarrow> unknownRegion | Some spec \<Rightarrow> nh_Region spec)
      in case newRandomRegionSelector region (rp_ShardID failedReplica) (sch_tick s) nodeHostTTL
                (sch_randomSrc s) of
           Inl e \<Rightarrow> (Inl e, pos)
         | Inr regionSelector \<Rightarrow>
             (case findSuitableNodeHost regionSelector (sch_nodeHostList s) 1 pos of
                (Inl e, pos1) \<Rightarrow> (Inl e, pos1)
              | (Inr selected, pos1) \<Rightarrow>
                  (if length selected = 1 then (Inr selected, pos1)
                   else case newRandomSelector (rp_ShardID failedReplica) (sch_tick s) nodeHostTTL
                               (sch_randomSrc s) of
                     Inl e \<Rightarrow> (Inl e, pos1)
                   | Inr randSelector \<Rightarrow>
                       findSuitableNodeHost randSelector (sch_nodeHostList s) 1 pos1)))"

definition getRepairAddRequest :: "scheduler \<Rightarrow> replica \<Rightarrow> shardRepair \<Rightarrow> nat
    \<Rightarrow> NodeHostRequest list go \<times> nat" where
  "getRepairAddRequest s failedReplica ctr pos =
     (case getReplacementNode s failedReplica pos of
        (Inl e, pos1) \<Rightarrow> (Inl e, pos1)
      | (Inr selected, pos1) \<Rightarrow>
          (case selected of
             [selectedNode] \<Rightarrow>
               (case randomReplica s (sr_okReplicas ctr) pos1 of
                  (Inl e, pos2) \<Rightarrow> (Inl e, pos2)
                | (Inr existing, pos2) \<Rightarrow>
                    (case sch_randomSrc s of
                       None \<Rightarrow> (panic NilDereference, pos2)
                     | Some r \<Rightarrow>
                         (Inr [zero_NodeHostRequest\<lparr>
                            nr_Change := Some (zero_Request\<lparr>rq_Type := Request_ADD,
                              rq_ShardId := sr_shardID ctr, rq_Members := [rnd_Uint64 r pos2],
                              rq_ConfChangeId := sh_ConfigChangeIndex (sr_shard ctr)\<rparr>),
                            nr_RaftAddress := rp_Address existing,
                            nr_AddressList := [nh_Address selectedNode]\<rparr>], Suc pos2)))
           | _ \<Rightarrow> (Inl (Err ErrNotEnoughNodeHost), pos1)))"

section \<open>Repair\<close>

text \<open>One iteration of the loop of \<^verbatim>\<open>repair\<close>: delete, else create, else add.\<close>

definition repairShard :: "scheduler \<Rightarrow> shardRepair \<Rightarrow> nat \<Rightarrow> NodeHostRequest list go \<times> nat" where
  "repairShard s cc pos =
     (case getShardSize s (sr_shardID cc) of
        Inl e \<Rightarrow> (Inl e, pos)
      | Inr expectedShardSize \<Rightarrow>
          (if deleteRequired cc expectedShardSize then
             (case goIndex (sr_failedReplicas cc) 0 of
                Inl e \<Rightarrow> (Inl e, pos)
              | Inr toDeleteNode \<Rightarrow> getRepairDeleteRequest s toDeleteNode cc pos)
           else if createRequired cc then
             (case goIndex (sr_replicasToStart cc) 0 of
                Inl e \<Rightarrow> (Inl e, pos)
              | Inr toCreateNode \<Rightarrow>
                  (case getAppName s (sr_shardID cc) of
                     Inl e \<Rightarrow> (Inl e, pos)
                   | Inr appName \<Rightarrow>
                       (Inr (getRepairCreateRequest s toCreateNode (sr_shard cc) appName), pos)))
           else if addRequired cc then
             (case goIndex (sr_failedReplicas cc) 0 of
                Inl e \<Rightarrow> (Inl e, pos)
              | Inr failedReplica \<Rightarrow> getRepairAddRequest s failedReplica cc pos)
           else (Inr [], pos)))"

fun repairLoop :: "scheduler \<Rightarrow> (u64, unit) gomap \<Rightarrow> shardRepair list \<Rightarrow> nat
    \<Rightarrow> NodeHostRequest list go \<times> nat" where
  "repairLoop s restored [] pos = (Inr [], pos)"
| "repairLoop s restored (cc # ccs) pos =
     (if mhas restored (sr_shardID cc) then repairLoop s restored ccs pos
      else case repairShard s cc pos of
        (Inl e, pos1) \<Rightarrow> (Inl e, pos1)
      | (Inr reqs, pos1) \<Rightarrow>
          (case repairLoop s restored ccs pos1 of
             (Inl e, pos2) \<Rightarrow> (Inl e, pos2)
           | (Inr rest, pos2) \<Rightarrow> (Inr (reqs @ rest), pos2)))"

definition repair :: "scheduler \<Rightarrow> (u64, unit) gomap \<Rightarrow> nat \<Rightarrow> NodeHostRequest list go \<times> nat" where
  "repair s restored pos = repairLoop s restored (sch_shardsToRepair s) pos"

section \<open>Restore\<close>

fun restoreReplicas :: "scheduler \<Rightarrow> shardRepair \<Rightarrow> replica list \<Rightarrow> NodeHostRequest list go" where
  "restoreReplicas s cc [] = Inr []"
| "restoreReplicas s cc (toRestoreNode # ns) =
     (case getAppName s (sr_shardID cc) of
        Inl e \<Rightarrow> Inl e
      | Inr appName \<Rightarrow>
          (case restoreReplicas s cc ns of
             Inl e \<Rightarrow> Inl e
           | Inr rest \<Rightarrow> Inr (getRestoreCreateRequest s toRestoreNode (sr_shard cc) appName @ rest)))"

fun restoreUnavailable :: "scheduler \<Rightarrow> shardRepair list \<Rightarrow> (u64, unit) gomap
    \<Rightarrow> (NodeHostRequest list \<times> (u64, unit) gomap) go" where
  "restoreUnavailable s [] idMap = Inr ([], idMap)"
| "restoreUnavailable s (cc # ccs) idMap =
     (if \<not> needToBeRestored cc then restoreUnavailable s ccs idMap
      else
        (let (replicasToRestore, ok) = readyToBeRestored cc (sch_multiNodeHost s) (sch_tick s) in
         if ok then
           (case restoreReplicas s cc replicasToRestore of
              Inl e \<Rightarrow> Inl e
            | Inr reqs \<Rightarrow>
                (case restoreUnavailable s ccs
                    (if replicasToRestore = [] then idMap else mput (sr_shardID cc) () idMap) of
                   Inl e \<Rightarrow> Inl e
                 | Inr (rest, idMap1) \<Rightarrow> Inr (reqs @ rest, idMap1)))
         else restoreUnavailable s ccs idMap))"

definition restoreUnavailableShards :: "scheduler \<Rightarrow> (NodeHostRequest list \<times> (u64, unit) gomap) go" where
  "restoreUnavailableShards s = restoreUnavailable s (sch_shardsToRepair s) []"

fun restoreFailedLoop :: "scheduler \<Rightarrow> shardRepair list \<Rightarrow> (u64, unit) gomap
    \<Rightarrow> NodeHostRequest list go" where
  "restoreFailedLoop s [] doneSet = Inr []"
| "restoreFailedLoop s (cc # ccs) doneSet =
     (if needToBeRestored cc \<or> mhas doneSet (sr_shardID cc) then restoreFailedLoop s ccs doneSet
      else case restoreReplicas s cc (canBeRestored cc (sch_multiNodeHost s) (sch_tick s)) of
        Inl e \<Rightarrow> Inl e
      | Inr reqs \<Rightarrow>
          (case restoreFailedLoop s ccs doneSet of Inl e \<Rightarrow> Inl e | Inr rest \<Rightarrow> Inr (reqs @ rest)))"

definition restoreFailed :: "scheduler \<Rightarrow> (u64, unit) gomap \<Rightarrow> NodeHostRequest list go" where
  "restoreFailed s doneSet = restoreFailedLoop s (sch_shardsToRepair s) doneSet"

definition restore :: "scheduler \<Rightarrow> NodeHostRequest list go" where
  "restore s =
     (case restoreUnavailableShards s of
        Inl e \<Rightarrow> Inl e
      | Inr (ureqs, doneSet) \<Rightarrow>
          (case restoreFailed s doneSet of Inl e \<Rightarrow> Inl e | Inr reqs \<Rightarrow> Inr (ureqs @ reqs)))"

section \<open>Zombies\<close>

definition getKillRequest :: "u64 \<Rightarrow> u64 \<Rightarrow> string \<Rightarrow> NodeHostRequest" where
  "getKillRequest shardID replicaID addr = zero_NodeHostRequest\<lparr>
     nr_Change := Some (zero_Request\<lparr>rq_Type := Request_KILL, rq_ShardId := shardID,
       rq_Members := [replicaID]\<rparr>), nr_RaftAddress := addr\<rparr>"

definition killZombieReplicas :: "scheduler \<Rightarrow> NodeHostRequest list" where
  "killZombieReplicas s =
     map (\<lambda>ntk. getKillRequest (tk_ShardID ntk) (tk_ReplicaID ntk) (tk_Address ntk))
       (sch_replicasToKill s)"

end
