(* ===== verification/RepairSamples.thy ===== *)
theory RepairSamples
  imports Scheduler DBOperations
begin

text \<open>
  A larger concrete system for the scheduler's witnesses: a shard of three replicas on the
  NodeHosts \<open>a1\<close>, \<open>a2\<close>, \<open>a3\<close>, of which \<open>a3\<close> falls silent, and an idle NodeHost \<open>a4\<close>.
\<close>

definition hostReport :: "u64 \<Rightarrow> string \<Rightarrow> NodeHostInfo" where
  "hostReport i a = \<lparr>nhi_RaftAddress = a,
     nhi_ShardInfo = (if i = 0 then [] else [sample_info\<lparr>si_ReplicaId := i, si_IsLeader := (i = 1)\<rparr>]),
     nhi_ShardIdList = (if i = 0 then [] else [1]), nhi_LastTick = 0, nhi_PlogInfoIncluded = True,
     nhi_PlogInfo = (if i = 0 then [] else [\<lparr>li_ShardId = 1, li_ReplicaId = i\<rparr>]),
     nhi_Region = ''r1'', nhi_RPCAddress = ''p'' @ a\<rparr>"

definition report_uUpdate :: "string \<Rightarrow> Update option" where
  "report_uUpdate s =
     (let rep = \<lambda>i a. Some (zero_Update\<lparr>up_Type := Update_NODEHOST_INFO,
            up_NodehostInfo := Some (hostReport i a)\<rparr>)
      in if s = ''1'' then rep 1 ''a1'' else if s = ''2'' then rep 2 ''a2''
         else if s = ''3'' then rep 3 ''a3'' else if s = ''4'' then rep 0 ''a4''
         else sample_uUpdate s)"

definition repairCodec :: codec where
  "repairCodec = sampleCodec\<lparr>uUpdate := report_uUpdate\<rparr>"

lemma repair_entries: "entry_ok repairCodec cmd"
  using sample_entries [of cmd]
  by (simp add: entry_ok_def repairCodec_def report_uUpdate_def Let_def upd_wf_def zero_Update_def nhi_wf_def
      hostReport_def sample_info_def gm_ok_def)

text \<open>Everyone reports once, then \<open>a3\<close> is silent for 65 seconds.\<close>

definition repairLog :: "string list" where
  "repairLog = [''T'', ''C'', ''1'', ''2'', ''3''] @ replicate 13 ''T'' @ [''1'', ''2'', ''4'']"

definition repairDB :: db where
  "repairDB = snd (snd (runLog (\<lambda>cmd d. Update_cmd repairCodec d cmd) repairLog (NewDB 0 1)))"

lemma repair_finishes:
  "fst (snd (runLog (\<lambda>cmd d. Update_cmd repairCodec d cmd) repairLog (NewDB 0 1))) = None"
  by code_simp

lemma repair_reachable: "reachableDB repairCodec 21 repairDB"
  unfolding reachableDB_def
proof (intro exI conjI)
  show "runs (\<lambda>cmd d. Update_cmd repairCodec d cmd) (NewDB 0 1) repairLog
      (fst (runLog (\<lambda>cmd d. Update_cmd repairCodec d cmd) repairLog (NewDB 0 1))) repairDB"
    unfolding runs_runLog repairDB_def
    using repair_finishes by (metis prod.collapse)
qed (simp_all add: repairLog_def repair_entries list_all_iff)

definition repairReplica :: "u64 \<Rightarrow> string \<Rightarrow> u64 \<Rightarrow> replica" where
  "repairReplica i a t = \<lparr>rp_ShardID = 1, rp_ReplicaID = i, rp_Address = a, rp_IsLeader = (i = 1),
     rp_Tick = t, rp_FirstObserved = 5\<rparr>"

definition repairShard3 :: shard where
  "repairShard3 = \<lparr>sh_ShardID = 1, sh_ConfigChangeIndex = 4, sh_Replicas =
     [(1, repairReplica 1 ''a1'' 70), (2, repairReplica 2 ''a2'' 70), (3, repairReplica 3 ''a3'' 5)]\<rparr>"

definition repairHost :: "string \<Rightarrow> u64 \<Rightarrow> u64 \<Rightarrow> nodeHostSpec" where
  "repairHost a i t = \<lparr>nh_Address = a, nh_RPCAddress = ''p'' @ a, nh_Region = ''r1'', nh_Tick = t,
     nh_PersistentLog = (if i = 0 then [] else [\<lparr>li_ShardId = 1, li_ReplicaId = i\<rparr>]),
     nh_Shards = (if i = 0 then [] else [(1, ())])\<rparr>"

lemma repairDB_Tick: "db_Tick repairDB = 70"
  by code_simp

lemma repairDB_image: "db_ShardImage repairDB = \<lparr>ms_Shards = [(1, repairShard3)], ms_ReplicasToKill = []\<rparr>"
  by code_simp

lemma repairDB_hosts: "mn_Nodehosts (db_NodeHostImage repairDB) =
    [(''a1'', repairHost ''a1'' 1 70), (''a2'', repairHost ''a2'' 2 70), (''a3'', repairHost ''a3'' 3 5),
     (''a4'', repairHost ''a4'' 0 70)]"
  by code_simp

section \<open>The scheduler on it\<close>

text \<open>A random source that counts up.\<close>

definition countingRand :: rand_src where
  "countingRand = \<lparr>rnd_Int = int, rnd_Uint64 = (\<lambda>i. of_nat i + 100)\<rparr>"

lemma countingRand_ok: "rand_ok countingRand"
  by (simp add: rand_ok_def countingRand_def)

definition repairContext :: schedulerContext where
  "repairContext = \<lparr>ctx_Tick = db_Tick repairDB, ctx_Shards = db_Shards repairDB, ctx_Regions = None,
     ctx_ShardImage = db_ShardImage repairDB, ctx_NodeHostImage = db_NodeHostImage repairDB,
     ctx_NodeHostInfo = db_NodeHostInfo repairDB\<rparr>"

definition repairScheduler :: scheduler where
  "repairScheduler = updateSchedulerContext (newScheduler (Some countingRand) zero_Config) repairContext"

lemma repairDB_Shards: "db_Shards repairDB =
    [(1, \<lparr>sd_Members = [1, 2, 3], sd_ShardId = 1, sd_AppName = ''kv''\<rparr>)]"
  by code_simp

lemma repairScheduler_simps [simp]:
  "sch_randomSrc repairScheduler = Some countingRand"
  "sch_tick repairScheduler = 70"
  "sch_shards repairScheduler = [\<lparr>sd_Members = [1, 2, 3], sd_ShardId = 1, sd_AppName = ''kv''\<rparr>]"
  "sch_nodeHostList repairScheduler = [repairHost ''a1'' 1 70, repairHost ''a2'' 2 70,
     repairHost ''a3'' 3 5, repairHost ''a4'' 0 70]"
  "sch_multiNodeHost repairScheduler = db_NodeHostImage repairDB"
  "sch_shardsToRepair repairScheduler = getShardForRepair (db_ShardImage repairDB) 70"
  "sch_replicasToKill repairScheduler = []"
  by (simp_all add: repairScheduler_def updateSchedulerContext_def newScheduler_def repairContext_def
      getToKillReplicas_def Let_def mvals_def toArray_def repairDB_Shards repairDB_hosts repairDB_Tick
      repairDB_image)

end
