(* ===== verification/SchedulerFacts.thy ===== *)
theory SchedulerFacts
  imports RepairSamples
begin

text \<open>
  What the scheduler decides: an abstract decision per shard (\<open>decide\<close>) that the repair loop
  implements request by request, where a replacement is placed, when an unavailable shard is
  restored and how a shard is launched.
\<close>

section \<open>Drawing from a list\<close>

lemma goIndex_in: "goIndex xs i = Inr x \<Longrightarrow> x \<in> set xs"
  by (auto simp: goIndex_Inr)

lemma randomReplica_in:
  "randomReplica s ok pos = (Inr x, pos') \<Longrightarrow> x \<in> set ok \<and> pos' = Suc pos \<and> sch_randomSrc s \<noteq> None"
  by (auto simp: randomReplica_def panic_def intro: goIndex_in split: option.splits if_splits)

lemma randomReplica_ok:
  assumes "sch_randomSrc s = Some r" and "rand_ok r" and "ok \<noteq> []"
  obtains x where "randomReplica s ok pos = (Inr x, Suc pos)" "x \<in> set ok"
proof -
  have range: "0 \<le> go_rem (rnd_Int r pos) (int (length ok)) \<and>
      go_rem (rnd_Int r pos) (int (length ok)) < int (length ok)"
    by (rule go_rem_range) (use assms in \<open>auto simp: rand_ok_def\<close>)
  then obtain x where "goIndex ok (go_rem (rnd_Int r pos) (int (length ok))) = Inr x"
    by (simp add: goIndex_def)
  note x = this goIndex_in [OF this]
  with assms that show thesis by (auto simp: randomReplica_def)
qed

lemma findShard_in: "findShard cs k = Inr c \<Longrightarrow> c \<in> set cs \<and> sd_ShardId c = k"
  by (induction cs k rule: findShard.induct) (auto simp: panic_def split: if_splits)

lemma findShard_ok: "k \<in> sd_ShardId ` set cs \<Longrightarrow> \<exists>c. findShard cs k = Inr c"
  by (induction cs k rule: findShard.induct) auto

section \<open>The decision\<close>

datatype repairAction = NoAction | DeleteFailed | CreateWaiting | ReplaceFailed

text \<open>
  What a shard needs, from its failed, waiting and running replicas and the expected of its
  definition.
\<close>

definition decide :: "shard \<Rightarrow> u64 \<Rightarrow> nat \<Rightarrow> repairAction" where
  "decide c t expected =
     (let failed = length (getFailedReplicas c t); waiting = length (getReplicasToStart c t);
          running = length (getOkReplicas c t); quorate = sh_available c t
      in if quorate \<and> failed > 0 \<and> failed + running > expected then DeleteFailed
         else if waiting > 0 then CreateWaiting
         else if quorate \<and> failed > 0 then ReplaceFailed
         else NoAction)"

text \<open>What a list of requests for a shard does, as the decision prescribes.\<close>

definition deletes :: "scheduler \<Rightarrow> u64 \<Rightarrow> shard \<Rightarrow> NodeHostRequest list \<Rightarrow> bool" where
  "deletes s t c reqs \<longleftrightarrow> (\<exists>dead \<in> set (getFailedReplicas c t). \<exists>peer \<in> set (getOkReplicas c t).
     reqs = [zero_NodeHostRequest\<lparr>nr_Change := Some \<lparr>rq_Type = Request_DELETE, rq_ShardId = sh_ShardID c,
        rq_Members = [rp_ReplicaID dead], rq_AppName = [], rq_ConfChangeId = sh_ConfigChangeIndex c\<rparr>,
        nr_RaftAddress := rp_Address peer\<rparr>])"

definition creates :: "scheduler \<Rightarrow> u64 \<Rightarrow> shard \<Rightarrow> NodeHostRequest list \<Rightarrow> bool" where
  "creates s t c reqs \<longleftrightarrow> (\<exists>new \<in> set (getReplicasToStart c t). \<exists>app.
     getAppName s (sh_ShardID c) = Inr app \<and> reqs = getCreateRequest s new c app True False)"

definition replaces :: "scheduler \<Rightarrow> u64 \<Rightarrow> shard \<Rightarrow> NodeHostRequest list \<Rightarrow> bool" where
  "replaces s t c reqs \<longleftrightarrow> (\<exists>dead \<in> set (getFailedReplicas c t). \<exists>peer \<in> set (getOkReplicas c t).
     \<exists>host \<in> set (sch_nodeHostList s). \<exists>newID.
       sch_tick s - nh_Tick host < nodeHostTTL \<and> \<not> mhas (nh_Shards host) (rp_ShardID dead) \<and>
       reqs = [zero_NodeHostRequest\<lparr>nr_Change := Some \<lparr>rq_Type = Request_ADD, rq_ShardId = sh_ShardID c,
        rq_Members = [newID], rq_AppName = [], rq_ConfChangeId = sh_ConfigChangeIndex c\<rparr>,
        nr_AddressList := [nh_Address host], nr_RaftAddress := rp_Address peer\<rparr>])"

definition carriesOut :: "repairAction \<Rightarrow> scheduler \<Rightarrow> u64 \<Rightarrow> shard \<Rightarrow> NodeHostRequest list \<Rightarrow> bool" where
  "carriesOut a s t c reqs =
     (case a of NoAction \<Rightarrow> reqs = [] | DeleteFailed \<Rightarrow> deletes s t c reqs
      | CreateWaiting \<Rightarrow> creates s t c reqs | ReplaceFailed \<Rightarrow> replaces s t c reqs)"

lemma required_decide:
  "deleteRequired (toShardRepair t c) expected = (decide c t expected = DeleteFailed)"
  "decide c t expected \<noteq> DeleteFailed \<Longrightarrow> createRequired (toShardRepair t c) = (decide c t expected = CreateWaiting)"
  "decide c t expected \<noteq> DeleteFailed \<Longrightarrow> decide c t expected \<noteq> CreateWaiting \<Longrightarrow>
     addRequired (toShardRepair t c) = (decide c t expected = ReplaceFailed)"
  by (auto simp: decide_def deleteRequired_def createRequired_def addRequired_def Let_def)

lemma required_none:
  assumes "decide c t expected = NoAction"
  shows "\<not> deleteRequired (toShardRepair t c) expected" "\<not> createRequired (toShardRepair t c)"
    "\<not> addRequired (toShardRepair t c)"
  using assms required_decide [where c = c and t = t and expected = expected] by simp_all

lemma getReplacementNode_found:
  assumes "getReplacementNode s dead pos = (Inr sel, pos')" and "sch_randomSrc s = Some r" and "rand_ok r"
  shows "set sel \<subseteq> {h \<in> set (sch_nodeHostList s).
    sch_tick s - nh_Tick h < nodeHostTTL \<and> \<not> mhas (nh_Shards h) (rp_ShardID dead)}"
proof -
  let ?region = "case mget (mn_Nodehosts (sch_multiNodeHost s)) (rp_Address dead) of
      None \<Rightarrow> unknownRegion | Some spec \<Rightarrow> nh_Region spec"
  let ?rs = "\<lparr>rs_filter = newDrummerRegionFilter ?region (rp_ShardID dead) (sch_tick s) nodeHostTTL,
      rs_randomSource = r\<rparr>"
  let ?rs' = "\<lparr>rs_filter = newDrummerFilter (rp_ShardID dead) (sch_tick s) nodeHostTTL,
      rs_randomSource = r\<rparr>"
  obtain x p where first: "findSuitableNodeHost ?rs (sch_nodeHostList s) 1 pos = (x, p)" by fastforce
  have "(x = Inr sel) \<or> findSuitableNodeHost ?rs' (sch_nodeHostList s) 1 p = (Inr sel, pos')"
    using assms(1) first
    by (auto simp: getReplacementNode_def newRandomRegionSelector_def newRandomSelector_def assms(2)
        Let_def split: sum.splits if_splits)
  then show ?thesis
    using drummer_selector.found_accepted [of ?rs "sch_nodeHostList s" 1 pos sel p] first
      drummer_selector.found_accepted [of ?rs' "sch_nodeHostList s" 1 p sel pos'] assms(3)
    by fastforce
qed

lemma getReplacementNode_fails:
  assumes f: "getReplacementNode s dead pos = (Inl e, pos')" and r: "sch_randomSrc s = Some r" "rand_ok r"
  shows "e = Diverges"
proof -
  let ?region = "case mget (mn_Nodehosts (sch_multiNodeHost s)) (rp_Address dead) of
      None \<Rightarrow> unknownRegion | Some spec \<Rightarrow> nh_Region spec"
  let ?rs = "\<lparr>rs_filter = newDrummerRegionFilter ?region (rp_ShardID dead) (sch_tick s) nodeHostTTL,
      rs_randomSource = r\<rparr>"
  let ?rs' = "\<lparr>rs_filter = newDrummerFilter (rp_ShardID dead) (sch_tick s) nodeHostTTL,
      rs_randomSource = r\<rparr>"
  obtain x p where first: "findSuitableNodeHost ?rs (sch_nodeHostList s) 1 pos = (x, p)" by fastforce
  have "x = Inl e \<or> findSuitableNodeHost ?rs' (sch_nodeHostList s) 1 p = (Inl e, pos')"
    using f first
    by (auto simp: getReplacementNode_def newRandomRegionSelector_def newRandomSelector_def r(1)
        Let_def split: sum.splits if_splits)
  then show ?thesis
    using drummer_selector.fails [of ?rs 1 "sch_nodeHostList s" pos e p] first
      drummer_selector.fails [of ?rs' 1 "sch_nodeHostList s" p e pos'] r(2)
    by auto
qed

lemma repairShard_decides:
  assumes s: "repairShard s (toShardRepair t c) pos = (Inr reqs, pos')"
    and expected: "getShardSize s (sh_ShardID c) = Inr expected"
    and rnd: "sch_randomSrc s = Some r" "rand_ok r"
  shows "carriesOut (decide c t expected) s t c reqs"
proof (cases "decide c t expected")
  case NoAction
  with s expected show ?thesis
    by (simp add: repairShard_def required_none carriesOut_def)
next
  case DeleteFailed
  with s expected obtain dead where dead: "goIndex (sr_failedReplicas (toShardRepair t c)) 0 = Inr dead"
    "getRepairDeleteRequest s dead (toShardRepair t c) pos = (Inr reqs, pos')"
    by (auto simp: repairShard_def required_decide split: sum.splits)
  then obtain peer where peer: "randomReplica s (sr_okReplicas (toShardRepair t c)) pos = (Inr peer, pos')"
    "reqs = [zero_NodeHostRequest\<lparr>nr_Change := Some (zero_Request\<lparr>rq_Type := Request_DELETE,
       rq_ShardId := sh_ShardID c, rq_Members := [rp_ReplicaID dead],
       rq_ConfChangeId := sh_ConfigChangeIndex c\<rparr>), nr_RaftAddress := rp_Address peer\<rparr>]"
    by (auto simp: getRepairDeleteRequest_def split: sum.splits prod.splits)
  have "dead \<in> set (getFailedReplicas c t)" "peer \<in> set (getOkReplicas c t)"
    using goIndex_in [OF dead(1)] randomReplica_in [OF peer(1)] by simp_all
  then show ?thesis
    unfolding DeleteFailed carriesOut_def deletes_def peer(2) repairAction.case
    by (intro bexI [of _ dead] bexI [of _ peer]) (simp_all add: zero_Request_def)
next
  case CreateWaiting
  then have "\<not> deleteRequired (toShardRepair t c) expected" "createRequired (toShardRepair t c)"
    using required_decide [where c = c and t = t and expected = expected] by simp_all
  with s expected show ?thesis
    by (auto simp: CreateWaiting repairShard_def carriesOut_def creates_def getRepairCreateRequest_def
        dest!: goIndex_in split: sum.splits)
next
  case ReplaceFailed
  then have "\<not> deleteRequired (toShardRepair t c) expected" "\<not> createRequired (toShardRepair t c)"
    "addRequired (toShardRepair t c)"
    using required_decide [where c = c and t = t and expected = expected] by simp_all
  with s expected obtain dead where dead: "goIndex (sr_failedReplicas (toShardRepair t c)) 0 = Inr dead"
    "getRepairAddRequest s dead (toShardRepair t c) pos = (Inr reqs, pos')"
    by (auto simp: repairShard_def split: sum.splits)
  then obtain host p peer p' newID where add: "getReplacementNode s dead pos = (Inr [host], p)"
    "randomReplica s (sr_okReplicas (toShardRepair t c)) p = (Inr peer, p')"
    "reqs = [zero_NodeHostRequest\<lparr>nr_Change := Some (zero_Request\<lparr>rq_Type := Request_ADD,
       rq_ShardId := sh_ShardID c, rq_Members := [newID], rq_ConfChangeId := sh_ConfigChangeIndex c\<rparr>),
       nr_RaftAddress := rp_Address peer, nr_AddressList := [nh_Address host]\<rparr>]"
    by (auto simp: getRepairAddRequest_def panic_def
        split: sum.splits prod.splits list.splits option.splits)
  have "dead \<in> set (getFailedReplicas c t)" "peer \<in> set (getOkReplicas c t)"
    using goIndex_in [OF dead(1)] randomReplica_in [OF add(2)] by simp_all
  moreover have "host \<in> set (sch_nodeHostList s)" "sch_tick s - nh_Tick host < nodeHostTTL"
    "\<not> mhas (nh_Shards host) (rp_ShardID dead)"
    using getReplacementNode_found [OF add(1) rnd] by simp_all
  ultimately show ?thesis
    unfolding ReplaceFailed carriesOut_def replaces_def add(3) repairAction.case
    by (intro bexI [of _ dead] bexI [of _ peer] bexI [of _ host] exI [of _ newID])
      (simp_all add: zero_Request_def)
qed

text \<open>
  C25. The request the repair loop makes for a shard is the one its decision calls for: nothing, a
  membership removal of a failed replica proposed through a running one, the creation of a
  replica that waits to be started, or the addition of a replica on a live NodeHost that does not
  hold the shard; removals only when the shard has a quorum and is larger than its definition.
\<close>

theorem repair_carries_out_decision:
  assumes "repairShard s (toShardRepair t c) pos = (Inr reqs, pos')"
    and "getShardSize s (sh_ShardID c) = Inr expected"
    and "sch_randomSrc s = Some r" and "rand_ok r"
  shows "carriesOut (decide c t expected) s t c reqs"
  by (rule repairShard_decides [OF assms])

definition addOn4 :: NodeHostRequest where
  "addOn4 = zero_NodeHostRequest\<lparr>nr_Change := Some \<lparr>rq_Type = Request_ADD, rq_ShardId = 1,
     rq_Members = [102], rq_AppName = [], rq_ConfChangeId = 4\<rparr>,
     nr_AddressList := [''a4''], nr_RaftAddress := ''a2''\<rparr>"

lemma repair_run: "repairShard repairScheduler (toShardRepair 70 repairShard3) 0 = (Inr [addOn4], 3)"
  by code_simp

lemma repair_size: "getShardSize repairScheduler (sh_ShardID repairShard3) = Inr 3"
  by (simp add: getShardSize_def repairShard3_def)

lemma repair_decision: "decide repairShard3 70 3 = ReplaceFailed"
  by code_simp

lemma repair_carries_out_decision_witness: "replaces repairScheduler 70 repairShard3 [addOn4]"
  using repair_carries_out_decision [OF repair_run repair_size _ countingRand_ok]
  by (simp add: repair_decision carriesOut_def)

section \<open>No panic\<close>

text \<open>
  C26. The repair loop does not panic on a shard with a definition: with a random source present,
  the modulo by the number of running replicas never divides by zero and no list is indexed out
  of range. It can return the error for a missing NodeHost, or wait for the random source.
\<close>

theorem repair_never_panics:
  assumes "sch_randomSrc s = Some r" and "rand_ok r" and "sh_ShardID c \<in> sd_ShardId ` set (sch_shards s)"
  shows "fst (repairShard s (toShardRepair t c) pos) \<noteq> panic p"
proof -
  obtain dfn where dfn: "findShard (sch_shards s) (sh_ShardID c) = Inr dfn"
    using findShard_ok [OF assms(3)] by blast
  let ?cc = "toShardRepair t c"
  have first: "\<exists>x. goIndex xs 0 = Inr x" if "length xs > 0" for xs :: "replica list"
    using that by (cases xs) simp_all
  have ok: "sr_okReplicas ?cc \<noteq> []" if "sr_available ?cc" using ok_nonempty_if_available [OF that] .
  show ?thesis
  proof (cases "decide c t (length (sd_Members dfn))")
    case NoAction
    then show ?thesis
      by (simp add: repairShard_def getShardSize_def dfn required_none panic_def)
  next
    case DeleteFailed
    then have del: "deleteRequired ?cc (length (sd_Members dfn))" by (simp add: required_decide)
    then obtain dead where "goIndex (sr_failedReplicas ?cc) 0 = Inr dead"
      using first unfolding deleteRequired_def by blast
    moreover obtain peer where "randomReplica s (sr_okReplicas ?cc) pos = (Inr peer, Suc pos)"
      using randomReplica_ok [OF assms(1,2) ok] del unfolding deleteRequired_def by blast
    ultimately show ?thesis using del
      by (simp add: repairShard_def getShardSize_def dfn getRepairDeleteRequest_def panic_def)
  next
    case CreateWaiting
    then have cre: "\<not> deleteRequired ?cc (length (sd_Members dfn))" "createRequired ?cc"
      using required_decide [where c = c and t = t and expected = "length (sd_Members dfn)"] by simp_all
    then obtain new where "goIndex (sr_replicasToStart ?cc) 0 = Inr new"
      using first unfolding createRequired_def by blast
    with cre show ?thesis
      by (simp add: repairShard_def getShardSize_def dfn getAppName_def panic_def)
  next
    case ReplaceFailed
    then have add: "\<not> deleteRequired ?cc (length (sd_Members dfn))" "\<not> createRequired ?cc" "addRequired ?cc"
      using required_decide [where c = c and t = t and expected = "length (sd_Members dfn)"] by simp_all
    then obtain dead where dead: "goIndex (sr_failedReplicas ?cc) 0 = Inr dead"
      using first unfolding addRequired_def by blast
    have rep: "fst (getReplacementNode s dead pos) \<noteq> panic q" for q
      using getReplacementNode_fails [OF _ assms(1,2), of dead pos]
      by (cases "getReplacementNode s dead pos") (auto simp: panic_def)
    obtain sel p1 where sel: "getReplacementNode s dead pos = (sel, p1)" by fastforce
    obtain peer where "randomReplica s (sr_okReplicas ?cc) p1 = (Inr peer, Suc p1)"
      using randomReplica_ok [OF assms(1,2) ok] add(3) unfolding addRequired_def by blast
    then have "fst (getRepairAddRequest s dead ?cc pos) \<noteq> panic p"
      using rep [of p] by (auto simp: getRepairAddRequest_def sel assms(1) panic_def split: sum.splits list.splits)
    with add dead show ?thesis
      by (simp add: repairShard_def getShardSize_def dfn)
  qed
qed

lemma repair_never_panics_witness:
  "fst (repairShard repairScheduler (toShardRepair 70 repairShard3) 0) \<noteq> panic DivideByZero"
  by (rule repair_never_panics [of _ countingRand]) (simp_all add: countingRand_ok repairShard3_def)

section \<open>Where a replacement goes\<close>

lemma repairShard_sized:
  "repairShard s (toShardRepair t c) pos = (Inr reqs, pos') \<Longrightarrow> \<exists>n. getShardSize s (sh_ShardID c) = Inr n"
  by (auto simp: repairShard_def split: sum.splits)

lemma schedulerContextOf_fields:
  assumes "schedulerContextOf cdc d = Inr ctx"
  shows "ctx_Tick ctx = db_Tick d" "ctx_NodeHostImage ctx = db_NodeHostImage d"
    "ctx_ShardImage ctx = db_ShardImage d" "ctx_Shards ctx = db_Shards d"
  using assms by (auto simp: schedulerContextOf_def panic_def Let_def split: option.splits)

lemma updateSchedulerContext_simps [simp]:
  "sch_tick (updateSchedulerContext s ctx) = ctx_Tick ctx"
  "sch_nodeHostList (updateSchedulerContext s ctx) = toArray (ctx_NodeHostImage ctx)"
  "sch_multiNodeHost (updateSchedulerContext s ctx) = ctx_NodeHostImage ctx"
  "sch_shards (updateSchedulerContext s ctx) = mvals (ctx_Shards ctx)"
  "sch_randomSrc (updateSchedulerContext s ctx) = sch_randomSrc s"
  "sch_config (updateSchedulerContext s ctx) = sch_config s"
  "sch_shardsToRepair (updateSchedulerContext s ctx) = getShardForRepair (ctx_ShardImage ctx) (ctx_Tick ctx)"
  by (simp_all add: updateSchedulerContext_def getToKillReplicas_def)

lemma getCreateRequest_type:
  "r \<in> set (getCreateRequest s n c app j rs) \<Longrightarrow> nr_Change r = Some ch \<Longrightarrow> rq_Type ch = Request_CREATE"
  by (auto simp: getCreateRequest_def Let_def)

text \<open>
  C27. A replica that replaces a failed one is placed on a NodeHost that reported within the last
  60 seconds and hosts no replica of the shard, in the image the database had.
\<close>

theorem replacement_on_a_new_live_host:
  assumes d: "reachableDB cdc n d" "5 * n < 2 ^ 64" and ctx: "schedulerContextOf cdc d = Inr ctx"
    and s: "s = updateSchedulerContext s0 ctx" and rnd: "sch_randomSrc s0 = Some r" "rand_ok r"
    and c: "mget (ms_Shards (db_ShardImage d)) k = Some c"
    and run: "repairShard s (toShardRepair (db_Tick d) c) pos = (Inr reqs, pos')"
    and req: "req \<in> set reqs" "nr_Change req = Some ch" "rq_Type ch = Request_ADD"
  shows "\<exists>addr spec. nr_AddressList req = [addr] \<and>
    mget (mn_Nodehosts (db_NodeHostImage d)) addr = Some spec \<and>
    unat (db_Tick d) < unat (nh_Tick spec) + 60 \<and>
    (\<forall>rid m. mget (sh_Replicas c) rid = Some m \<longrightarrow> rp_Address m \<noteq> addr)"
proof -
  have i: "db_inv 0 d" by (rule reachableDB_inv [OF d(1)]) (use d(2) in simp)
  note f = schedulerContextOf_fields [OF ctx]
  obtain size' where sz: "getShardSize s (sh_ShardID c) = Inr size'" using repairShard_sized [OF run] by blast
  have "carriesOut (decide c (db_Tick d) size') s (db_Tick d) c reqs"
    by (rule repairShard_decides [OF run sz]) (use rnd s in simp_all)
  then have "replaces s (db_Tick d) c reqs"
    using req by (cases "decide c (db_Tick d) size'")
      (auto simp: carriesOut_def deletes_def creates_def dest: getCreateRequest_type)
  then obtain dead host where
    dead: "dead \<in> set (getFailedReplicas c (db_Tick d))" and host: "host \<in> set (sch_nodeHostList s)"
    "sch_tick s - nh_Tick host < nodeHostTTL" "\<not> mhas (nh_Shards host) (rp_ShardID dead)"
    and addr: "nr_AddressList req = [nh_Address host]" using req(1) by (auto simp: replaces_def)
  have hosts: "hosts_inv (db_Tick d) (mn_Nodehosts (db_NodeHostImage d))" by (rule db_invD(4) [OF i])
  then have ok: "gm_ok (mn_Nodehosts (db_NodeHostImage d))" by (simp add: hosts_inv_def hosts_ok_def)
  obtain a where a: "mget (mn_Nodehosts (db_NodeHostImage d)) a = Some host"
    using host(1) by (auto simp: s f toArray_def mvals_mget [OF ok])
  with hosts have ha: "nh_Address host = a" "nh_Tick host \<le> db_Tick d" by (auto simp: hosts_inv_def)
  have shard: "shard_ok (db_Tick d) k c" by (rule image_ok_get [OF db_invD(3) [OF i] c])
  have "dead \<in> set (mvals (sh_Replicas c))" using dead by (simp add: getFailedReplicas_def)
  then have dk: "rp_ShardID dead = k"
    using shard_okD(2,4) [OF shard] by (auto simp: mvals_mget replica_ok_def)
  have "unat (db_Tick d - nh_Tick host) = unat (db_Tick d) - unat (nh_Tick host)"
    using ha(2) by (simp add: unat_sub word_le_nat_alt)
  then have live: "unat (db_Tick d) < unat (nh_Tick host) + 60"
    using host(2) by (auto simp: s f nodeHostTTL_def word_less_nat_alt)
  have "rp_Address m \<noteq> a" if m: "mget (sh_Replicas c) rid = Some m" for rid m
  proof
    assume "rp_Address m = a"
    then have "k \<in> shardsOn (ms_Shards (db_ShardImage d)) a"
      using map_of_SomeD [OF c] mget_mvals [OF m] by (auto simp: shardsOn_def)
    with db_invD(5) [OF i] a host(3) dk show False by (auto simp: hosts_marked_def)
  qed
  with a ha(1) live addr show ?thesis by auto
qed

lemma repairContext_of: "schedulerContextOf repairCodec repairDB = Inr repairContext"
proof -
  have "mget (db_KVMap repairDB) regionsKey = None" by code_simp
  then show ?thesis by (simp add: schedulerContextOf_def repairContext_def)
qed

lemma replacement_on_a_new_live_host_witness:
  "\<exists>addr spec. nr_AddressList addOn4 = [addr] \<and>
     mget (mn_Nodehosts (db_NodeHostImage repairDB)) addr = Some spec \<and> 70 < unat (nh_Tick spec) + 60"
proof -
  have c: "mget (ms_Shards (db_ShardImage repairDB)) 1 = Some repairShard3" by (simp add: repairDB_image)
  have run: "repairShard repairScheduler (toShardRepair (db_Tick repairDB) repairShard3) 0 = (Inr [addOn4], 3)"
    by (simp add: repairDB_Tick repair_run)
  have src: "sch_randomSrc (newScheduler (Some countingRand) zero_Config) = Some countingRand"
    by (simp add: newScheduler_def)
  from replacement_on_a_new_live_host [OF repair_reachable _ repairContext_of repairScheduler_def src
      countingRand_ok c run, of addOn4]
  show ?thesis by (auto simp: addOn4_def repairDB_Tick)
qed

section \<open>Restoring unavailable shards\<close>

text \<open>A request that restarts a replica of the shard from its log, and one for a failed replica that can be.\<close>

definition restarts :: "shardRepair \<Rightarrow> replica \<Rightarrow> NodeHostRequest \<Rightarrow> bool" where
  "restarts cc n req \<longleftrightarrow> (\<exists>change. nr_Change req = Some change \<and> rq_Type change = Request_CREATE \<and>
       rq_ShardId change = sh_ShardID (sr_shard cc)) \<and>
     nr_RaftAddress req = rp_Address n \<and> nr_InstantiateReplicaId req = rp_ReplicaID n \<and> nr_Restore req \<and> \<not> nr_Join req"

definition restores :: "scheduler \<Rightarrow> shardRepair \<Rightarrow> NodeHostRequest \<Rightarrow> bool" where
  "restores s cc req \<longleftrightarrow>
     (\<exists>n \<in> set (sr_failedReplicas cc). restorable (sch_multiNodeHost s) (sch_tick s) n \<and> restarts cc n req)"

lemma restoreReplicas_in:
  "restoreReplicas s cc ns = Inr reqs \<Longrightarrow>
     (\<forall>req \<in> set reqs. \<exists>n \<in> set ns. restarts cc n req) \<and> (\<forall>n \<in> set ns. \<exists>req \<in> set reqs. restarts cc n req)"
proof (induction ns arbitrary: reqs)
  case (Cons n ns)
  then obtain app rest where rest: "restoreReplicas s cc ns = Inr rest"
    and reqs: "reqs = getRestoreCreateRequest s n (sr_shard cc) app @ rest"
    by (auto split: sum.splits)
  obtain req where req: "getRestoreCreateRequest s n (sr_shard cc) app = [req]" "restarts cc n req"
    by (simp add: getRestoreCreateRequest_def getCreateRequest_def restarts_def Let_def)
  from Cons.IH [OF rest] req show ?case by (auto simp: reqs)
qed simp

lemma length_filter_mono: "(\<And>x. x \<in> set xs \<Longrightarrow> P x \<Longrightarrow> Q x) \<Longrightarrow> length (filter P xs) \<le> length (filter Q xs)"
  by (induction xs) (auto intro: le_SucI)

text \<open>
  C28. An unavailable shard is restored only when that brings it back: each request of the first
  restore pass restarts a failed replica, on a live NodeHost that has its log, of a shard that has
  no quorum and no replica waiting, and the replicas of that shard that run, together with those
  that requests of the pass restart, are a quorum.
\<close>

theorem restore_reaches_quorum:
  assumes "restoreUnavailable s ccs idMap = Inr (reqs, idMap')" and "req \<in> set reqs"
  shows "\<exists>cc \<in> set ccs. restores s cc req \<and> \<not> sr_available cc \<and> sr_replicasToStart cc = [] \<and>
    sr_quorum cc \<le> length (sr_okReplicas cc) +
      length (filter (\<lambda>n. \<exists>q \<in> set reqs. restarts cc n q) (sr_failedReplicas cc))"
  using assms
proof (induction ccs arbitrary: idMap reqs)
  case (Cons cc ccs)
  let ?nl = "filter (restorable (sch_multiNodeHost s) (sch_tick s)) (sr_failedReplicas cc)"
  show ?case
  proof (cases "needToBeRestored cc \<and> sr_quorum cc \<le> length (sr_okReplicas cc) + length ?nl")
    case False
    then have "restoreUnavailable s ccs idMap = Inr (reqs, idMap')"
      using Cons.prems(1) by (auto simp: readyToBeRestored_def Let_def split: if_splits)
    from Cons.IH [OF this Cons.prems(2)] show ?thesis by auto
  next
    case True
    then have ready: "readyToBeRestored cc (sch_multiNodeHost s) (sch_tick s) = (?nl, True)"
      by (simp add: readyToBeRestored_def)
    define m where "m = (if ?nl = [] then idMap else mput (sr_shardID cc) () idMap)"
    obtain rs rest where rs: "restoreReplicas s cc ?nl = Inr rs" "reqs = rs @ rest"
      and rest: "restoreUnavailable s ccs m = Inr (rest, idMap')"
      using True Cons.prems(1) by (auto simp: ready m_def split: sum.splits)
    note in_rs = restoreReplicas_in [OF rs(1)]
    show ?thesis
    proof (cases "req \<in> set rs")
      case True
      with in_rs have "restores s cc req" by (auto simp: restores_def)
      moreover have "length ?nl \<le> length (filter (\<lambda>n. \<exists>q \<in> set reqs. restarts cc n q) (sr_failedReplicas cc))"
        by (rule length_filter_mono) (use in_rs in \<open>auto simp: rs(2)\<close>)
      ultimately show ?thesis
        using \<open>needToBeRestored cc \<and> _\<close> by (auto simp: needToBeRestored_def split: if_splits)
    next
      case False
      with Cons.prems(2) rs(2) have "req \<in> set rest" by simp
      from Cons.IH [OF rest this] obtain cc' where cc': "cc' \<in> set ccs" "restores s cc' req" "\<not> sr_available cc'"
        "sr_replicasToStart cc' = []" and q: "sr_quorum cc' \<le> length (sr_okReplicas cc') +
          length (filter (\<lambda>n. \<exists>q \<in> set rest. restarts cc' n q) (sr_failedReplicas cc'))" by blast
      have "length (filter (\<lambda>n. \<exists>q \<in> set rest. restarts cc' n q) (sr_failedReplicas cc')) \<le>
          length (filter (\<lambda>n. \<exists>q \<in> set reqs. restarts cc' n q) (sr_failedReplicas cc'))"
        by (rule length_filter_mono) (auto simp: rs(2))
      with q cc' show ?thesis by (intro bexI [of _ cc'] conjI) auto
    qed
  qed
qed simp

end
