(* ===== verification/LaunchFacts.thy ===== *)
theory LaunchFacts
  imports SchedulerFacts
begin

text \<open>
  How the scheduler launches the defined shards, the last witnesses of its repair and restore
  steps, and the parts of the repair view that are as they are whatever the shard.
\<close>

section \<open>Selecting NodeHosts by region\<close>

definition placeable :: "scheduler \<Rightarrow> u64 \<Rightarrow> nodeHostSpec \<Rightarrow> bool" where
  "placeable s k h \<longleftrightarrow> h \<in> set (sch_nodeHostList s) \<and> sch_tick s - nh_Tick h < nodeHostTTL \<and>
     \<not> mhas (nh_Shards h) k"

lemma selectRegions_spec:
  assumes "selectRegions s k regs cs selected pos = (Inr res, pos')"
    and "sch_randomSrc s = Some r" and "rand_ok r" and "distinct (sch_nodeHostList s)" and "distinct regs"
  shows "\<exists>new. res = selected @ new \<and> distinct new \<and>
    (\<forall>h \<in> set new. placeable s k h \<and> nh_Region h \<in> set regs) \<and>
    (\<forall>(reg, c) \<in> set (zip regs cs). length (filter (\<lambda>h. nh_Region h = reg) new) \<in> {0, nat (sint c)})"
  using assms(1,5)
proof (induction regs arbitrary: cs selected pos)
  case (Cons reg regs)
  obtain c cs' where cs: "cs = c # cs'" using Cons.prems(1) by (cases cs) (auto simp: panic_def)
  let ?rs = "\<lparr>rs_filter = newDrummerRegionFilter reg k (sch_tick s) nodeHostTTL, rs_randomSource = r\<rparr>"
  obtain found p where f: "findSuitableNodeHost ?rs (sch_nodeHostList s) (sint c) pos = (Inr found, p)"
    and rest: "selectRegions s k regs cs' (selected @ found) p = (Inr res, pos')"
    using Cons.prems(1)
    by (auto simp: cs newRandomRegionSelector_def assms(2) split: sum.splits prod.splits)
  have u: "rand_ok (rs_randomSource ?rs)" using assms(3) by simp
  have in_reg: "placeable s k h \<and> nh_Region h = reg" if "h \<in> set found" for h
    using drummer_selector.found_accepted [OF u f] that by (auto simp: placeable_def)
  have dist: "distinct found"
    using drummer_selector.found_distinct [OF u f, of "\<lambda>h. h"] assms(4) by simp
  have cnt: "length found \<in> {0, nat (sint c)}"
    using drummer_selector.found_count [OF u f] by auto
  obtain new where new: "res = (selected @ found) @ new" "distinct new"
    "\<And>h. h \<in> set new \<Longrightarrow> placeable s k h \<and> nh_Region h \<in> set regs"
    "\<And>reg c. (reg, c) \<in> set (zip regs cs') \<Longrightarrow> length (filter (\<lambda>h. nh_Region h = reg) new) \<in> {0, nat (sint c)}"
    using Cons.IH [OF rest] Cons.prems(2) by (fastforce simp del: insert_iff)
  have notin: "reg \<notin> set regs" using Cons.prems(2) by simp
  have "distinct (found @ new)"
    using dist new(2) in_reg new(3) notin by auto
  moreover have "length (filter (\<lambda>h. nh_Region h = reg') (found @ new)) \<in> {0, nat (sint c')}"
    if "(reg', c') \<in> set (zip (reg # regs) cs)" for reg' c'
  proof (cases "reg' = reg")
    case True
    have c': "c' = c" using that True notin by (auto simp: cs dest: set_zip_leftD)
    have "filter (\<lambda>h. nh_Region h = reg) found = found" using in_reg by (simp add: filter_True)
    moreover have "filter (\<lambda>h. nh_Region h = reg) new = []" using new(3) notin by (auto simp: filter_empty_conv)
    ultimately show ?thesis using cnt True c' by simp
  next
    case False
    then have "filter (\<lambda>h. nh_Region h = reg') found = []" using in_reg by (auto simp: filter_empty_conv)
    then show ?thesis using new(4) [of reg' c'] that False by (auto simp: cs)
  qed
  ultimately show ?case using new(1,3) in_reg by (intro exI [of _ "found @ new"]) auto
qed simp

lemma launchRequests_spec:
  "launchRequests s shard addrs members targets = Inr reqs \<Longrightarrow> length targets \<le> length members \<and>
     map nr_InstantiateReplicaId reqs = take (length targets) members \<and>
     map nr_RaftAddress reqs = map nh_Address targets \<and>
     (\<forall>q \<in> set reqs. nr_ReplicaIdList q = sd_Members shard \<and> nr_AddressList q = addrs \<and>
        nr_AppName q = sd_AppName shard \<and> nr_Config q = Some (sch_config s) \<and>
        \<not> nr_Join q \<and> \<not> nr_Restore q \<and> nr_Change q = Some (zero_Request\<lparr>rq_Type := Request_CREATE,
          rq_ShardId := sd_ShardId shard, rq_Members := sd_Members shard\<rparr>))"
  by (induction s shard addrs members targets arbitrary: reqs rule: launchRequests.induct)
    (auto simp: panic_def split: sum.splits)

text \<open>
  C31. When the launch of a shard yields requests, with different regions configured and different
  addresses of the NodeHosts, there is one per member of its definition, in order; they go to
  different NodeHosts of the configured regions, each live and without the shard, and each carries
  the full list of members and their addresses. The NodeHosts of a region among them are as many
  as are configured for it, or none.
\<close>

theorem launch_places_every_member:
  assumes run: "launchShard s (Some rg) shard pos = (Inr reqs, pos')"
    and rnd: "sch_randomSrc s = Some r" "rand_ok r"
    and hosts: "distinct (map nh_Address (sch_nodeHostList s))" and regs: "distinct (rg_Region rg)"
  shows "map nr_InstantiateReplicaId reqs = sd_Members shard \<and> distinct (map nr_RaftAddress reqs) \<and>
    (\<forall>q \<in> set reqs. nr_ReplicaIdList q = sd_Members shard \<and> nr_AddressList q = map nr_RaftAddress reqs \<and>
       (\<exists>h \<in> set (sch_nodeHostList s). nr_RaftAddress q = nh_Address h \<and> nh_Region h \<in> set (rg_Region rg) \<and>
          sch_tick s - nh_Tick h < nodeHostTTL \<and> \<not> mhas (nh_Shards h) (sd_ShardId shard))) \<and>
    (\<forall>(reg, c) \<in> set (zip (rg_Region rg) (rg_Count rg)).
       length (filter (\<lambda>q. \<exists>h \<in> set (sch_nodeHostList s). nr_RaftAddress q = nh_Address h \<and> nh_Region h = reg) reqs)
         \<in> {0, nat (sint c)})"
proof -
  obtain sel p where sel: "selectRegions s (sd_ShardId shard) (rg_Region rg) (rg_Count rg) [] pos = (Inr sel, p)"
    and enough: "\<not> length sel < length (sd_Members shard)"
    and reqs: "launchRequests s shard (map nh_Address (take (length (sd_Members shard)) sel))
      (sd_Members shard) sel = Inr reqs"
    using run by (auto simp: launchShard_def split: sum.splits prod.splits if_splits)
  have dist: "distinct (sch_nodeHostList s)" using hosts by (simp add: distinct_map)
  obtain new where new: "sel = new" "distinct new"
    "\<And>h. h \<in> set new \<Longrightarrow> placeable s (sd_ShardId shard) h \<and> nh_Region h \<in> set (rg_Region rg)"
    and counts: "\<And>reg c. (reg, c) \<in> set (zip (rg_Region rg) (rg_Count rg)) \<Longrightarrow>
      length (filter (\<lambda>h. nh_Region h = reg) new) \<in> {0, nat (sint c)}"
    using selectRegions_spec [OF sel rnd dist regs] by (fastforce simp del: insert_iff)
  note q = launchRequests_spec [OF reqs]
  have len: "length sel = length (sd_Members shard)" using q enough by simp
  have addrs: "map nr_RaftAddress reqs = map nh_Address sel" using q by simp
  have "inj_on nh_Address (set sel)"
    using hosts new(1,3) by (auto simp: distinct_map placeable_def intro: inj_on_subset)
  then have d: "distinct (map nr_RaftAddress reqs)"
    unfolding addrs using new(1,2) by (simp add: distinct_map)
  have "\<exists>h \<in> set sel. nr_RaftAddress a = nh_Address h" if "a \<in> set reqs" for a
  proof -
    have "nr_RaftAddress a \<in> set (map nr_RaftAddress reqs)" using that by simp
    then show ?thesis unfolding addrs by auto
  qed
  moreover have "length (filter (\<lambda>q. \<exists>h \<in> set (sch_nodeHostList s). nr_RaftAddress q = nh_Address h \<and> nh_Region h = reg) reqs)
      \<in> {0, nat (sint c)}" if "(reg, c) \<in> set (zip (rg_Region rg) (rg_Count rg))" for reg c
  proof -
    let ?in = "\<lambda>a. \<exists>h \<in> set (sch_nodeHostList s). a = nh_Address h \<and> nh_Region h = reg"
    have "length (filter (\<lambda>q. ?in (nr_RaftAddress q)) reqs) = length (filter ?in (map nr_RaftAddress reqs))"
      by (simp add: filter_map comp_def)
    also have "\<dots> = length (filter (\<lambda>h. ?in (nh_Address h)) sel)" unfolding addrs by (simp add: filter_map comp_def)
    also have "filter (\<lambda>h. ?in (nh_Address h)) sel = filter (\<lambda>h. nh_Region h = reg) sel"
    proof (rule filter_cong [OF refl])
      fix h assume "h \<in> set sel"
      then have "h \<in> set (sch_nodeHostList s)" using new(1,3) by (simp add: placeable_def)
      then show "?in (nh_Address h) = (nh_Region h = reg)"
        using hosts by (auto simp: distinct_map dest: inj_onD)
    qed
    finally show ?thesis using counts [OF that] new(1) by simp
  qed
  ultimately show ?thesis using d q len new addrs by (fastforce simp: placeable_def simp del: insert_iff)
qed

text \<open>A system to launch: three NodeHosts in one region, none with a shard yet.\<close>

definition launchScheduler :: scheduler where
  "launchScheduler = repairScheduler\<lparr>sch_nodeHostList := [repairHost ''a1'' 0 70, repairHost ''a2'' 0 70,
     repairHost ''a3'' 0 70], sch_regions := Some \<lparr>rg_Region = [''r1''], rg_Count = [3]\<rparr>\<rparr>"

definition launchShard1 :: Shard where
  "launchShard1 = \<lparr>sd_Members = [1, 2, 3], sd_ShardId = 1, sd_AppName = ''kv''\<rparr>"

lemma launch_places_every_member_witness:
  "\<exists>reqs. launchShard launchScheduler (Some \<lparr>rg_Region = [''r1''], rg_Count = [3]\<rparr>) launchShard1 0 = (Inr reqs, 3) \<and>
     map nr_InstantiateReplicaId reqs = [1, 2, 3] \<and> distinct (map nr_RaftAddress reqs)"
proof -
  have "map_sum id length (fst (launchShard launchScheduler (Some \<lparr>rg_Region = [''r1''], rg_Count = [3]\<rparr>) launchShard1 0)) = Inr 3 \<and>
      snd (launchShard launchScheduler (Some \<lparr>rg_Region = [''r1''], rg_Count = [3]\<rparr>) launchShard1 0) = 3"
    by code_simp
  then obtain reqs where run: "launchShard launchScheduler (Some \<lparr>rg_Region = [''r1''], rg_Count = [3]\<rparr>) launchShard1 0 = (Inr reqs, 3)"
    by (cases "launchShard launchScheduler (Some \<lparr>rg_Region = [''r1''], rg_Count = [3]\<rparr>) launchShard1 0";
        cases "fst (launchShard launchScheduler (Some \<lparr>rg_Region = [''r1''], rg_Count = [3]\<rparr>) launchShard1 0)") auto
  have "distinct (map nh_Address (sch_nodeHostList launchScheduler))"
    by (simp add: launchScheduler_def repairHost_def)
  with launch_places_every_member [OF run _ countingRand_ok] run show ?thesis
    by (simp add: launchScheduler_def launchShard1_def)
qed

section \<open>What the database makes of the requests\<close>

definition is_launch :: "NodeHostRequest \<Rightarrow> bool" where
  "is_launch q \<longleftrightarrow> (\<exists>ch. nr_Change q = Some ch \<and> rq_Type ch = Request_CREATE) \<and> \<not> nr_Join q \<and> \<not> nr_Restore q"

lemma countLaunch_count:
  "(\<forall>q \<in> set qs. nr_Change q \<noteq> None) \<Longrightarrow> countLaunch qs = Inr (length (filter is_launch qs))"
  by (induction qs) (auto simp: is_launch_def)

lemma isLaunchRequests_all:
  "qs \<noteq> [] \<Longrightarrow> (\<forall>q \<in> set qs. is_launch q) \<Longrightarrow> isLaunchRequests \<lparr>nrc_Requests = qs\<rparr> = Inr True"
proof -
  assume "qs \<noteq> []" and all: "\<forall>q \<in> set qs. is_launch q"
  moreover have "\<forall>q \<in> set qs. nr_Change q \<noteq> None" using all by (auto simp: is_launch_def)
  moreover have "filter is_launch qs = qs" using all by simp
  ultimately show ?thesis by (simp add: isLaunchRequests_def countLaunch_count)
qed

lemma isLaunchRequests_none:
  "(\<forall>q \<in> set qs. nr_Change q \<noteq> None \<and> \<not> is_launch q) \<Longrightarrow> isLaunchRequests \<lparr>nrc_Requests = qs\<rparr> = Inr False"
  by (simp add: isLaunchRequests_def countLaunch_count filter_False)

lemma getLaunchRequests_launch:
  "getLaunchRequests s shards regions pos = (Inr reqs, pos') \<Longrightarrow> \<forall>q \<in> set reqs. is_launch q"
proof (induction s shards regions pos arbitrary: reqs pos' rule: getLaunchRequests.induct)
  case (2 s shard shards regions pos)
  obtain rs p rest where rs: "launchShard s regions shard pos = (Inr rs, p)"
    "getLaunchRequests s shards regions p = (Inr rest, pos')" "reqs = rs @ rest"
    using "2.prems" by (auto split: sum.splits prod.splits)
  obtain addrs sel where "launchRequests s shard addrs (sd_Members shard) sel = Inr rs"
    using rs(1) by (auto simp: launchShard_def panic_def split: sum.splits prod.splits if_splits option.splits)
  then have "\<forall>q \<in> set rs. is_launch q" using launchRequests_spec by (fastforce simp: is_launch_def zero_Request_def)
  with "2.IH" [OF rs(1) [symmetric] refl rs(2)] rs(3) show ?case by auto
qed simp

text \<open>
  What \<open>launch\<close> produces is a launch batch for the database, never the mixture it panics on;
  so a first launch is accepted, and a repeated one ignored.
\<close>

theorem launch_batch_recognised:
  assumes "launch s pos = (Inr reqs, pos')" and "reqs \<noteq> []"
  shows "isLaunchRequests \<lparr>nrc_Requests = reqs\<rparr> = Inr True"
  by (rule isLaunchRequests_all [OF assms(2)]) (rule getLaunchRequests_launch, use assms(1) in \<open>simp add: launch_def\<close>)

lemma launch_batch_recognised_witness:
  "\<exists>reqs pos'. launch launchScheduler 0 = (Inr reqs, pos') \<and> isLaunchRequests \<lparr>nrc_Requests = reqs\<rparr> = Inr True"
proof -
  have "map_sum id length (fst (launch launchScheduler 0)) = Inr 3" by code_simp
  then obtain reqs pos' where run: "launch launchScheduler 0 = (Inr reqs, pos')" "length reqs = 3"
    by (cases "launch launchScheduler 0"; cases "fst (launch launchScheduler 0)") auto
  then have "reqs \<noteq> []" by auto
  from launch_batch_recognised [OF run(1) this] run(1) show ?thesis by blast
qed

section \<open>The repair view\<close>

text \<open>
  The view of a shard for repair splits its replicas into three groups without loss, and
  counts quorum and availability as the shard itself does.
\<close>

theorem repair_view_faithful:
  "mset (sr_failedReplicas (toShardRepair t c)) + mset (sr_okReplicas (toShardRepair t c)) +
     mset (sr_replicasToStart (toShardRepair t c)) = mset (mvals (sh_Replicas c)) \<and>
   sr_quorum (toShardRepair t c) = sh_quorum c \<and> sr_available (toShardRepair t c) = sh_available c t"
  using groups_mset [of c t] by (intro conjI) (simp add: toShardRepair_def, simp_all)

text \<open>
  On a reachable database the sorting of the three groups changes nothing: it compares shard
  IDs, which all replicas of a shard share. The order the scheduler picks replicas in is the
  iteration order of the map.
\<close>

theorem repair_sorting_is_idle:
  assumes "reachableDB cdc n d" and "mget (ms_Shards (db_ShardImage d)) k = Some c"
  shows "toShardRepair t c = \<lparr>sr_shardID = sh_ShardID c, sr_shard = c,
    sr_failedReplicas = getFailedReplicas c t, sr_okReplicas = getOkReplicas c t,
    sr_replicasToStart = getReplicasToStart c t\<rparr>"
proof -
  have ok: "shard_ok (- 1) k c"
    using reachable_images [OF assms(1)] assms(2) unfolding images_wf_def by (rule image_ok_get)
  have id: "rp_ShardID m = k" if "m \<in> set (mvals (sh_Replicas c))" for m
    using that shard_okD(2,4) [OF ok] by (auto simp: mvals_mget replica_ok_def)
  have "sort_key rp_ShardID (getFailedReplicas c t) = getFailedReplicas c t"
    "sort_key rp_ShardID (getOkReplicas c t) = getOkReplicas c t"
    "sort_key rp_ShardID (getReplicasToStart c t) = getReplicasToStart c t"
    by (rule sort_key_const [where c = k];
        use id in \<open>simp add: getFailedReplicas_def getOkReplicas_def getReplicasToStart_def\<close>)+
  then show ?thesis by (simp add: toShardRepair_def)
qed

lemma repair_sorting_is_idle_witness:
  "sr_failedReplicas (toShardRepair 70 repairShard3) = getFailedReplicas repairShard3 70"
  using repair_sorting_is_idle [OF repair_reachable, of 1 repairShard3 70] by (simp add: repairDB_image)

section \<open>Witness of the restore step\<close>

definition restoreShard :: shard where
  "restoreShard = \<lparr>sh_ShardID = 1, sh_ConfigChangeIndex = 4, sh_Replicas =
     [(1, repairReplica 1 ''a1'' 5), (2, repairReplica 2 ''a2'' 5), (3, repairReplica 3 ''a3'' 5)]\<rparr>"

lemma restore_reaches_quorum_witness:
  "\<exists>reqs m. restoreUnavailable repairScheduler [toShardRepair 70 restoreShard] [] = Inr (reqs, m) \<and>
     2 \<le> length (filter (\<lambda>n. \<exists>q \<in> set reqs. restarts (toShardRepair 70 restoreShard) n q)
       (sr_failedReplicas (toShardRepair 70 restoreShard)))"
proof -
  let ?cc = "toShardRepair 70 restoreShard"
  have "map_sum id (length \<circ> fst) (restoreUnavailable repairScheduler [?cc] []) = Inr 2"
    by code_simp
  then obtain reqs m where run: "restoreUnavailable repairScheduler [?cc] [] = Inr (reqs, m)"
    "length reqs = 2"
    by (cases "restoreUnavailable repairScheduler [?cc] []") auto
  then have first: "hd reqs \<in> set reqs" by (intro hd_in_set) auto
  have cc: "sr_quorum ?cc = 2" "sr_okReplicas ?cc = []" by code_simp+
  from restore_reaches_quorum [OF run(1) first] have "sr_quorum ?cc \<le> length (sr_okReplicas ?cc) +
      length (filter (\<lambda>n. \<exists>q \<in> set reqs. restarts ?cc n q) (sr_failedReplicas ?cc))" by auto
  with run(1) show ?thesis unfolding cc list.size add_0 by blast
qed

end
