(* ===== verification/Decimal.thy ===== *)
theory Decimal
  imports GoPrelude
begin

text \<open>
  The decimal conversions of Go's \<^verbatim>\<open>strconv\<close> and \<^verbatim>\<open>fmt\<close> that the code uses. Numbers read back as
  they were written.
\<close>

text \<open>\<^verbatim>\<open>strconv.FormatUint(x, 10)\<close> and \<^verbatim>\<open>strconv.ParseUint(s, 10, 64)\<close>.\<close>

definition digitChar :: "nat \<Rightarrow> char" where
  "digitChar d = char_of (48 + d)"

fun formatNat :: "nat \<Rightarrow> string" where
  "formatNat n = (if n < 10 then [digitChar n] else formatNat (n div 10) @ [digitChar (n mod 10)])"

declare formatNat.simps [simp del]

definition FormatUint :: "u64 \<Rightarrow> string" where
  "FormatUint x = formatNat (unat x)"

definition digitOf :: "char \<Rightarrow> nat option" where
  "digitOf c = (if (48 :: nat) \<le> of_char c \<and> (of_char c :: nat) \<le> 57 then Some (of_char c - 48) else None)"

fun parseDigits :: "nat \<Rightarrow> string \<Rightarrow> nat option" where
  "parseDigits acc [] = Some acc"
| "parseDigits acc (c # cs) =
     (case digitOf c of None \<Rightarrow> None | Some d \<Rightarrow> parseDigits (10 * acc + d) cs)"

definition ParseUint :: "string \<Rightarrow> u64 go" where
  "ParseUint s =
     (if s = [] then Inl (Err ErrParseUint)
      else case parseDigits 0 s of
        None \<Rightarrow> Inl (Err ErrParseUint)
      | Some n \<Rightarrow> (if int n < 2 ^ 64 then Inr (of_nat n) else Inl (Err ErrParseUint)))"

text \<open>\<^verbatim>\<open>strconv.Atoi\<close> on digits: beyond the range it answers the largest \<^verbatim>\<open>int\<close>, with an error.\<close>

definition atoiDigits :: "string \<Rightarrow> int" where
  "atoiDigits s = (case parseDigits 0 s of None \<Rightarrow> 0 | Some n \<Rightarrow> min (int n) (2 ^ 63 - 1))"

text \<open>The verb \<^verbatim>\<open>%-4d\<close> and its like: blanks on the right up to the width.\<close>

definition padRight :: "nat \<Rightarrow> string \<Rightarrow> string" where
  "padRight w s = s @ replicate (w - length s) CHR '' ''"

section \<open>Reading back\<close>

lemma digitOf_digitChar: "d < 10 \<Longrightarrow> digitOf (digitChar d) = Some d"
  by (simp add: digitOf_def digitChar_def)

lemma parseDigits_append: "parseDigits acc (xs @ ys) = Option.bind (parseDigits acc xs) (\<lambda>a. parseDigits a ys)"
  by (induction xs arbitrary: acc) (auto split: option.splits)

lemma parse_formatNat: "parseDigits 0 (formatNat n) = Some n"
proof (induction n rule: formatNat.induct)
  case (1 n)
  show ?case
  proof (cases "n < 10")
    case True
    then show ?thesis by (simp add: formatNat.simps [of n] digitOf_digitChar)
  next
    case False
    with 1 show ?thesis
      by (simp add: formatNat.simps [of n] parseDigits_append digitOf_digitChar)
  qed
qed

lemma formatNat_nonempty: "formatNat n \<noteq> []"
  by (simp add: formatNat.simps [of n])

lemma parse_format: "ParseUint (FormatUint x) = Inr x"
proof -
  have "uint x < 2 ^ 64" using uint_bounded [of x] by simp
  then have "int (unat x) < 2 ^ 64" by simp
  then show ?thesis
    by (simp add: ParseUint_def FormatUint_def parse_formatNat formatNat_nonempty)
qed

lemma digitOf_isDigit: "digitOf c \<noteq> None \<longleftrightarrow> 48 \<le> (of_char c :: nat) \<and> (of_char c :: nat) \<le> 57"
  by (simp add: digitOf_def)

lemma formatNat_digits: "c \<in> set (formatNat n) \<Longrightarrow> digitOf c \<noteq> None"
proof (induction n rule: formatNat.induct)
  case (1 n)
  then show ?case
    by (cases "n < 10") (auto simp: formatNat.simps [of n] digitOf_digitChar)
qed

lemma formatNat_length: "n < 10 ^ k \<Longrightarrow> 0 < k \<Longrightarrow> length (formatNat n) \<le> k"
proof (induction n arbitrary: k rule: formatNat.induct)
  case (1 n)
  show ?case
  proof (cases "n < 10")
    case False
    obtain j where j: "k = Suc j" using 1(3) by (cases k) auto
    have "0 < j" using 1(2) False unfolding j by (cases j) auto
    with j have k: "k = Suc j" "0 < j" by simp_all
    then have "n div 10 < 10 ^ j" using 1(2) by (simp add: less_mult_imp_div_less)
    from 1(1) [OF False this k(2)] False k show ?thesis by (simp add: formatNat.simps [of n])
  qed (use 1 in \<open>simp add: formatNat.simps [of n]\<close>)
qed

end
