(* ===== verification/Server.thy ===== *)
theory Server
  imports DrummerDB Decimal
begin

text \<open>
  The Drummer API server (\<^verbatim>\<open>server.go\<close>): every call encodes a command or a query, hands it to the
  Raft layer and decodes the answer. The Raft layer (\<^verbatim>\<open>dragonboat.NodeHost\<close>) is third-party code:
  the record \<open>raft\<close> of its methods over a world \<open>'w\<close>, an argument of every operation. A time-out
  or a cancelled context is one of the errors its methods return.
\<close>

section \<open>The Raft layer\<close>

record session =
  cs_ShardID :: u64
  cs_ClientID :: u64
  cs_SeriesID :: u64
  cs_RespondedTo :: u64

datatype raftResult =
    ResultCompleted | ResultTimeout | ResultTerminated | ResultDropped | ResultRejected | ResultOther

datatype waitOutcome = Applied raftResult | CtxDone "goerror option"

record 'w raft =
  SyncGetSession :: "'w \<Rightarrow> u64 \<Rightarrow> session go \<times> 'w"
  SyncCloseSession :: "'w \<Rightarrow> session \<Rightarrow> unit go \<times> 'w"
  SyncPropose :: "'w \<Rightarrow> session \<Rightarrow> string \<Rightarrow> u64 go \<times> 'w"
  SyncRead :: "'w \<Rightarrow> u64 \<Rightarrow> string \<Rightarrow> string go \<times> 'w"
  ShardIDMatches :: "session \<Rightarrow> u64 \<Rightarrow> bool"
  ProposalCompleted :: "session \<Rightarrow> session"
  RequestAddReplica :: "'w \<Rightarrow> u64 \<Rightarrow> u64 \<Rightarrow> string \<Rightarrow> u64 \<Rightarrow> waitOutcome go \<times> 'w"
  RequestDeleteReplica :: "'w \<Rightarrow> u64 \<Rightarrow> u64 \<Rightarrow> u64 \<Rightarrow> waitOutcome go \<times> 'w"

text \<open>The configuration request of \<^verbatim>\<open>drummerpb\<close> and the two answers only this file builds.\<close>

record DrummerConfigRequest =
  dcr_ReplicaId :: u64
  dcr_Address :: string

record ConfigChangeIndexList =
  ccl_Indexes :: "(u64, u64) gomap"

record DeploymentInfo =
  di_DeploymentId :: u64

definition defaultShardID :: u64 where "defaultShardID = 0"

section \<open>Contexts\<close>

text \<open>The deadline of a context, if it has one, and the present time.\<close>

record goContext =
  ctxt_Deadline :: "int option"
  ctxt_Now :: int

definition getTimeoutFromContext :: "goContext \<Rightarrow> int go" where
  "getTimeoutFromContext ctx =
     (case ctxt_Deadline ctx of
        None \<Rightarrow> Inl (Err ErrDeadlineNotSet)
      | Some d \<Rightarrow> (if ctxt_Now ctx > d then Inl (Err ErrInvalidDeadline) else Inr (d - ctxt_Now ctx)))"

definition waitDrummerRequestResult :: "waitOutcome \<Rightarrow> unit go" where
  "waitDrummerRequestResult rs =
     (case rs of
        Applied ResultCompleted \<Rightarrow> Inr ()
      | Applied ResultTimeout \<Rightarrow> Inl (Err ErrTimeout)
      | Applied ResultTerminated \<Rightarrow> Inl (Err ErrShardClosed)
      | Applied ResultDropped \<Rightarrow> Inl (Err ErrShardNotReady)
      | Applied _ \<Rightarrow> panic UnknownResultCode
      | CtxDone (Some ErrContextCanceled) \<Rightarrow> Inl (Err ErrCanceled)
      | CtxDone (Some ErrDeadlineExceeded) \<Rightarrow> Inl (Err ErrTimeout)
      | CtxDone _ \<Rightarrow> panic NeverReached)"

section \<open>Sessions, proposals and lookups\<close>

fun getSessionLoop :: "'w raft \<Rightarrow> u64 \<Rightarrow> nat \<Rightarrow> goerror \<Rightarrow> 'w \<Rightarrow> session go \<times> 'w" where
  "getSessionLoop nh clusterID 0 lastError w = (Inl (Err lastError), w)"
| "getSessionLoop nh clusterID (Suc i) lastError w =
     onError (SyncGetSession nh w clusterID)
       (\<lambda>err. getSessionLoop nh clusterID i err)
       (\<lambda>cs w1. (Inr cs, w1))"

text \<open>Three attempts; the first error value is overwritten before it can be returned.\<close>

definition server_getSession :: "'w raft \<Rightarrow> u64 \<Rightarrow> 'w \<Rightarrow> session go \<times> 'w" where
  "server_getSession nh clusterID w = getSessionLoop nh clusterID 3 ErrNoSession w"

text \<open>
  The shape of \<open>SubmitChange\<close>, \<open>setFinalizedKV\<close> and \<open>updateNodeHostInfo\<close>: get a session, defer
  closing it, run the body. The deferred close runs after a panic too and its error is logged.
\<close>

definition withSession :: "'w raft \<Rightarrow> (session \<Rightarrow> 'w \<Rightarrow> 'a go \<times> 'w) \<Rightarrow> 'w \<Rightarrow> 'a go \<times> 'w" where
  "withSession nh body w =
     thenDo (server_getSession nh defaultShardID w) (\<lambda>cs w1.
       (case body cs w1 of (r, w2) \<Rightarrow> (r, snd (SyncCloseSession nh w2 cs))))"

definition proposeDrummerUpdate :: "'w raft \<Rightarrow> codec \<Rightarrow> session \<Rightarrow> Update \<Rightarrow> 'w \<Rightarrow> u64 go \<times> 'w" where
  "proposeDrummerUpdate nh cdc cs u w =
     (if \<not> ShardIDMatches nh cs defaultShardID then (panic ShardIDMismatch, w)
      else SyncPropose nh w cs (mUpdate cdc u))"

definition lookupDB :: "'w raft \<Rightarrow> codec \<Rightarrow> LookupRequest \<Rightarrow> 'w \<Rightarrow> LookupResponse go \<times> 'w" where
  "lookupDB nh cdc req w =
     thenDo (SyncRead nh w defaultShardID (mLookup cdc req)) (\<lambda>result w1.
       (case uResponse cdc result of None \<Rightarrow> (panic UnmarshalFailed, w1) | Some v \<Rightarrow> (Inr v, w1)))"

definition lookupKV :: "'w raft \<Rightarrow> codec \<Rightarrow> string \<Rightarrow> 'w \<Rightarrow> LookupResponse go \<times> 'w" where
  "lookupKV nh cdc key w =
     (let req = zero_LookupRequest\<lparr>lr_Type := LookupRequest_KV, lr_KvLookup := Some (zero_KV\<lparr>kv_Key := key\<rparr>)\<rparr>
      in thenDo (SyncRead nh w defaultShardID (mLookup cdc req)) (\<lambda>resp w1.
           (case uResponse cdc resp of None \<Rightarrow> (panic UnmarshalFailed, w1) | Some v \<Rightarrow> (Inr v, w1))))"

text \<open>\<^verbatim>\<open>resp.KvResult.Value\<close>, which panics when the pointer is nil.\<close>

definition kvValue :: "LookupResponse \<Rightarrow> string go" where
  "kvValue resp = (case lp_KvResult resp of None \<Rightarrow> panic NilDereference | Some kv \<Rightarrow> Inr (kv_Value kv))"

definition getSchedulerContext :: "'w raft \<Rightarrow> codec \<Rightarrow> 'w \<Rightarrow> schedulerContext go \<times> 'w" where
  "getSchedulerContext nh cdc w =
     (let req = zero_LookupRequest\<lparr>lr_Type := LookupRequest_SCHEDULER_CONTEXT\<rparr>
      in thenDo (SyncRead nh w defaultShardID (mLookup cdc req)) (\<lambda>respData w1.
           (case ujContext cdc respData of
              None \<Rightarrow> (panic UnmarshalFailed, w1) | Some sc \<Rightarrow> (Inr sc, w1))))"

definition getElectionInfo :: "'w raft \<Rightarrow> codec \<Rightarrow> 'w \<Rightarrow> KV option go \<times> 'w" where
  "getElectionInfo nh cdc w =
     (let req = zero_LookupRequest\<lparr>lr_Type := LookupRequest_KV,
            lr_KvLookup := Some (zero_KV\<lparr>kv_Key := electionKey\<rparr>)\<rparr>
      in thenDo (lookupDB nh cdc req w) (\<lambda>resp w1. (Inr (lp_KvResult resp), w1)))"

definition makeDrummerVote :: "'w raft \<Rightarrow> codec \<Rightarrow> session \<Rightarrow> KV \<Rightarrow> 'w \<Rightarrow> u64 go \<times> 'w" where
  "makeDrummerVote nh cdc cs kv w =
     proposeDrummerUpdate nh cdc cs (zero_Update\<lparr>up_Type := Update_KV, up_KvUpdate := Some kv\<rparr>) w"

definition proposeFinalizedKV :: "'w raft \<Rightarrow> codec \<Rightarrow> session \<Rightarrow> string \<Rightarrow> string \<Rightarrow> u64 \<Rightarrow> 'w \<Rightarrow> u64 go \<times> 'w" where
  "proposeFinalizedKV nh cdc cs key value instanceID w =
     (if \<not> ShardIDMatches nh cs defaultShardID then (panic ShardIDMismatch, w)
      else
        (let kv = zero_KV\<lparr>kv_Key := key, kv_Value := value, kv_Finalized := True, kv_InstanceId := instanceID\<rparr>
         in proposeDrummerUpdate nh cdc cs (zero_Update\<lparr>up_Type := Update_KV, up_KvUpdate := Some kv\<rparr>) w))"

section \<open>gRPC error codes\<close>

text \<open>\<^verbatim>\<open>grpcError\<close> of \<^verbatim>\<open>nodehostapi.go\<close>; a call without error has none to convert.\<close>

definition grpcCodeOf :: "goerror \<Rightarrow> grpcCode" where
  "grpcCodeOf err =
     (if err = ErrInvalidSession then code_InvalidArgument
      else if err = ErrPayloadTooBig \<or> err = ErrTimeoutTooSmall then code_InvalidArgument
      else if err = ErrSystemBusy \<or> err = ErrClosed \<or> err = ErrShardClosed then code_Unavailable
      else if err = ErrShardNotFound then code_NotFound
      else if err = ErrContextCanceled \<or> err = ErrCanceled then code_Canceled
      else if err = ErrDeadlineExceeded \<or> err = ErrTimeout then code_DeadlineExceeded
      else code_Unknown)"

definition asGRPC :: "'a go \<times> 'w \<Rightarrow> 'a go \<times> 'w" where
  "asGRPC m = onError m (\<lambda>err w. (Inl (Err (ErrGRPC (grpcCodeOf err))), w)) (\<lambda>a w. (Inr a, w))"

section \<open>Flags and the deployment ID\<close>

definition getBooleanKV :: "'w raft \<Rightarrow> codec \<Rightarrow> string \<Rightarrow> 'w \<Rightarrow> bool go \<times> 'w" where
  "getBooleanKV nh cdc key w =
     thenDo (lookupKV nh cdc key w) (\<lambda>resp w1.
       (case kvValue resp of
          Inl e \<Rightarrow> (Inl e, w1)
        | Inr v \<Rightarrow>
            (if v = ''false'' \<or> v = '''' then (Inr False, w1)
             else if v = ''true'' then (Inr True, w1)
             else (panic UnknownBooleanValue, w1))))"

definition getBootstrapped :: "'w raft \<Rightarrow> codec \<Rightarrow> 'w \<Rightarrow> bool go \<times> 'w" where
  "getBootstrapped nh cdc w = getBooleanKV nh cdc bootstrappedKey w"

definition getLaunched :: "'w raft \<Rightarrow> codec \<Rightarrow> 'w \<Rightarrow> bool go \<times> 'w" where
  "getLaunched nh cdc w = getBooleanKV nh cdc launchedKey w"

definition setFinalizedKV :: "'w raft \<Rightarrow> codec \<Rightarrow> string \<Rightarrow> string \<Rightarrow> 'w \<Rightarrow> ChangeResponse_Code go \<times> 'w" where
  "setFinalizedKV nh cdc key value w =
     withSession nh (\<lambda>cs w1.
       thenDo (asGRPC (proposeFinalizedKV nh cdc cs key value 0 w1)) (\<lambda>code w2.
         (if code = DBKVUpdated \<or> code = DBKVFinalized then (Inr ChangeResponse_OK, w2)
          else (panic UnknownCode, w2)))) w"

definition SetBootstrapped :: "'w raft \<Rightarrow> codec \<Rightarrow> 'w \<Rightarrow> ChangeResponse_Code go \<times> 'w" where
  "SetBootstrapped nh cdc w = setFinalizedKV nh cdc bootstrappedKey ''true'' w"

definition SetRegions :: "'w raft \<Rightarrow> codec \<Rightarrow> Regions \<Rightarrow> 'w \<Rightarrow> ChangeResponse_Code go \<times> 'w" where
  "SetRegions nh cdc r w = setFinalizedKV nh cdc regionsKey (mRegions cdc r) w"

definition lookupDeploymentID :: "'w raft \<Rightarrow> codec \<Rightarrow> 'w \<Rightarrow> u64 go \<times> 'w" where
  "lookupDeploymentID nh cdc w =
     thenDo (lookupKV nh cdc deploymentIDKey w) (\<lambda>resp w1.
       (case kvValue resp of Inl e \<Rightarrow> (Inl e, w1) | Inr v \<Rightarrow> (ParseUint v, w1)))"

definition setDeploymentID :: "'w raft \<Rightarrow> codec \<Rightarrow> u64 \<Rightarrow> session \<Rightarrow> 'w \<Rightarrow> u64 go \<times> 'w" where
  "setDeploymentID nh cdc uintDid cs w =
     thenDo (proposeFinalizedKV nh cdc cs deploymentIDKey (FormatUint uintDid) 0 w) (\<lambda>code w1.
       (if code = DBKVUpdated then (Inr uintDid, w1) else lookupDeploymentID nh cdc w1))"

definition getDeploymentID :: "'w raft \<Rightarrow> codec \<Rightarrow> 'w \<Rightarrow> u64 go \<times> 'w" where
  "getDeploymentID nh cdc w = lookupDeploymentID nh cdc w"

section \<open>The API\<close>

definition AddDrummerServer :: "'w raft \<Rightarrow> goContext \<Rightarrow> DrummerConfigRequest \<Rightarrow> 'w \<Rightarrow> unit go \<times> 'w" where
  "AddDrummerServer nh ctx req w =
     (case getTimeoutFromContext ctx of
        Inl e \<Rightarrow> (Inl e, w)
      | Inr timeout \<Rightarrow>
          thenDo (RequestAddReplica nh w defaultShardID (dcr_ReplicaId req) (dcr_Address req) 0)
            (\<lambda>rs w1. (waitDrummerRequestResult rs, w1)))"

definition RemoveDrummerServer :: "'w raft \<Rightarrow> goContext \<Rightarrow> DrummerConfigRequest \<Rightarrow> 'w \<Rightarrow> unit go \<times> 'w" where
  "RemoveDrummerServer nh ctx req w =
     (case getTimeoutFromContext ctx of
        Inl e \<Rightarrow> (Inl e, w)
      | Inr timeout \<Rightarrow>
          thenDo (RequestDeleteReplica nh w defaultShardID (dcr_ReplicaId req) 0)
            (\<lambda>rs w1. (waitDrummerRequestResult rs, w1)))"

definition GetDeploymentInfo :: "'w raft \<Rightarrow> codec \<Rightarrow> 'w \<Rightarrow> DeploymentInfo go \<times> 'w" where
  "GetDeploymentInfo nh cdc w =
     thenDo (asGRPC (getDeploymentID nh cdc w)) (\<lambda>did w1. (Inr \<lparr>di_DeploymentId = did\<rparr>, w1))"

definition GetShardConfigChangeIndexList :: "'w raft \<Rightarrow> codec \<Rightarrow> 'w \<Rightarrow> ConfigChangeIndexList go \<times> 'w" where
  "GetShardConfigChangeIndexList nh cdc w =
     thenDo (getSchedulerContext nh cdc w) (\<lambda>sc w1.
       (Inr \<lparr>ccl_Indexes = fold (\<lambda>(clusterID, c). mput clusterID (sh_ConfigChangeIndex c))
          (ms_Shards (ctx_ShardImage sc)) []\<rparr>, w1))"

definition GetNodeHostCollection :: "'w raft \<Rightarrow> codec \<Rightarrow> 'w \<Rightarrow> NodeHostCollection go \<times> 'w" where
  "GetNodeHostCollection nh cdc w =
     thenDo (getSchedulerContext nh cdc w) (\<lambda>sc w1.
       (Inr \<lparr>nhc_Collection = mvals (ctx_NodeHostInfo sc), nhc_Tick = ctx_Tick sc\<rparr>, w1))"

definition GetShards :: "'w raft \<Rightarrow> codec \<Rightarrow> 'w \<Rightarrow> Shard list go \<times> 'w" where
  "GetShards nh cdc w =
     thenDo (asGRPC (lookupDB nh cdc (zero_LookupRequest\<lparr>lr_Type := LookupRequest_SHARD\<rparr>) w))
       (\<lambda>resp w1. (Inr (lp_Shards resp), w1))"

definition GetShardStates :: "'w raft \<Rightarrow> codec \<Rightarrow> ShardStateRequest \<Rightarrow> 'w \<Rightarrow> ShardStates go \<times> 'w" where
  "GetShardStates nh cdc req w =
     (let r = zero_LookupRequest\<lparr>lr_Type := LookupRequest_SHARD_STATES, lr_Stats := Some req\<rparr>
      in thenDo (SyncRead nh w defaultShardID (mLookup cdc r)) (\<lambda>respData w1.
           (if length respData = 0 then (Inl (Err ErrShardNotFound), w1)
            else case uShardStates cdc respData of
              None \<Rightarrow> (panic UnmarshalFailed, w1) | Some c \<Rightarrow> (Inr c, w1))))"

definition SubmitChange :: "'w raft \<Rightarrow> codec \<Rightarrow> Change \<Rightarrow> 'w \<Rightarrow> ChangeResponse_Code go \<times> 'w" where
  "SubmitChange nh cdc c w =
     withSession nh (\<lambda>cs w1.
       thenDo (asGRPC (proposeDrummerUpdate nh cdc cs
           (zero_Update\<lparr>up_Type := Update_SHARD, up_Change := Some c\<rparr>) w1)) (\<lambda>code w2.
         (if code = DBUpdated then (Inr ChangeResponse_OK, w2)
          else if code = ShardExists then (Inr ChangeResponse_SHARD_EXIST, w2)
          else if code = DBBootstrapped then (Inr ChangeResponse_BOOTSTRAPPED, w2)
          else (panic UnknownUpdateResponse, w2)))) w"

definition updateNodeHostInfo :: "'w raft \<Rightarrow> codec \<Rightarrow> NodeHostInfo \<Rightarrow> 'w \<Rightarrow> unit go \<times> 'w" where
  "updateNodeHostInfo nh cdc nhi w =
     withSession nh (\<lambda>cs w1.
       thenDo (proposeDrummerUpdate nh cdc cs
           (zero_Update\<lparr>up_Type := Update_NODEHOST_INFO, up_NodehostInfo := Some nhi\<rparr>) w1)
         (\<lambda>_ w2. (Inr (), w2))) w"

definition server_getRequests :: "'w raft \<Rightarrow> codec \<Rightarrow> string \<Rightarrow> 'w \<Rightarrow> NodeHostRequest list go \<times> 'w" where
  "server_getRequests nh cdc addr w =
     (let req = zero_LookupRequest\<lparr>lr_Type := LookupRequest_REQUESTS, lr_Address := addr\<rparr>
      in thenDo (SyncRead nh w defaultShardID (mLookup cdc req)) (\<lambda>result w1.
           (case uResponse cdc result of
              None \<Rightarrow> (panic UnmarshalFailed, w1)
            | Some v \<Rightarrow> (case lp_Requests v of
                None \<Rightarrow> (panic NilDereference, w1)
              | Some reqs \<Rightarrow> (Inr (nrc_Requests reqs), w1)))))"

definition ReportAvailableNodeHost :: "'w raft \<Rightarrow> codec \<Rightarrow> NodeHostInfo \<Rightarrow> 'w
    \<Rightarrow> NodeHostRequestCollection go \<times> 'w" where
  "ReportAvailableNodeHost nh cdc nhi w =
     thenDo (updateNodeHostInfo nh cdc nhi w) (\<lambda>_ w1.
       thenDo (server_getRequests nh cdc (nhi_RaftAddress nhi) w1) (\<lambda>reqs w2.
         (Inr \<lparr>nrc_Requests = reqs\<rparr>, w2)))"

end
