(* ===== verification/Validation.thy ===== *)
theory Validation
  imports Drummerpb
begin

text \<open>
  The self test of generated requests (\<^verbatim>\<open>validation.go\<close>): every check is a panic with the message
  of the source. The last branch of the source tests \<^verbatim>\<open>ADD\<close> again, which the first branch
  already took; it is kept here as it stands.
\<close>

definition invalid :: "string \<Rightarrow> unit go" where
  "invalid msg = panic (InvalidRequest msg)"

text \<open>Statements in sequence: the first panic wins.\<close>

fun checks :: "unit go list \<Rightarrow> unit go" where
  "checks [] = Inr ()"
| "checks (x # xs) = (case x of Inl e \<Rightarrow> Inl e | Inr _ \<Rightarrow> checks xs)"

definition require :: "bool \<Rightarrow> string \<Rightarrow> unit go" where
  "require b msg = (if b then Inr () else invalid msg)"

definition validateMembers :: "Request \<Rightarrow> unit go" where
  "validateMembers change =
     (case rq_Members change of
        [] \<Rightarrow> invalid ''len(req.Change.Members) == 0''
      | m # _ \<Rightarrow>
          (if m = 0 then invalid ''req.Change.Members[0] == 0''
           else if rq_ShardId change = 0 then invalid ''req.Change.ShardId == 0''
           else Inr ()))"

definition validateNodeHostRequest :: "NodeHostRequest \<Rightarrow> unit go" where
  "validateNodeHostRequest req =
     (case nr_Change req of
        None \<Rightarrow> panic NilDereference
      | Some change \<Rightarrow> checks [
          (if rq_Type change = Request_ADD
           then require (length (nr_AddressList req) = 1) ''len(req.AddressList) != 1''
           else require (length (nr_ReplicaIdList req) = length (nr_AddressList req))
                  ''len(req.ReplicaIdList) != len(req.AddressList)''),
          require (list_all (\<lambda>nid. nid \<noteq> 0) (nr_ReplicaIdList req)) ''nid == 0'',
          require (list_all (\<lambda>addr. length addr \<noteq> 0) (nr_AddressList req)) ''len(addr) == 0 '',
          require (length (nr_RaftAddress req) \<noteq> 0) ''len(req.RaftAddress) == 0'',
          (if rq_Type change = Request_ADD \<or> rq_Type change = Request_DELETE \<or>
              rq_Type change = Request_KILL
           then validateMembers change
           else if rq_Type change = Request_CREATE then
             (if nr_InstantiateReplicaId req = 0 then invalid ''req.InstantiateReplicaId == 0''
              else if length (nr_AppName req) = 0 then invalid ''len(req.AppName) == 0''
              else require (length (nr_ReplicaIdList req) \<noteq> 0) ''len(req.ReplicaIdList) == 0'')
           else if rq_Type change = Request_ADD then
             (case nr_AddressList req of
                [] \<Rightarrow> invalid ''len(req.AddressList) == 0''
              | a # _ \<Rightarrow> require (length a \<noteq> 0) ''len(req.AddressList[0]) == 0'')
           else Inr ())])"

section \<open>What a valid request is\<close>

lemma require_Inr [simp]: "require b msg = Inr () \<longleftrightarrow> b"
  by (simp add: require_def invalid_def panic_def)

lemma invalid_neq [simp]: "invalid msg \<noteq> Inr ()"
  by (simp add: invalid_def panic_def)

lemma checks_Inr [simp]: "checks xs = Inr () \<longleftrightarrow> (\<forall>x \<in> set xs. x = Inr ())"
  by (induction xs) (auto split: sum.splits)

lemma validateMembers_Inr [simp]:
  "validateMembers change = Inr () \<longleftrightarrow>
     (\<exists>m ms. rq_Members change = m # ms \<and> m \<noteq> 0) \<and> rq_ShardId change \<noteq> 0"
  by (auto simp: validateMembers_def split: list.splits)

text \<open>The predicate the check decides, per type of request.\<close>

definition valid_request :: "NodeHostRequest \<Rightarrow> bool" where
  "valid_request req \<longleftrightarrow> (\<exists>change. nr_Change req = Some change \<and>
     (\<forall>nid \<in> set (nr_ReplicaIdList req). nid \<noteq> 0) \<and> (\<forall>a \<in> set (nr_AddressList req). a \<noteq> []) \<and>
     nr_RaftAddress req \<noteq> [] \<and>
     (if rq_Type change = Request_ADD then length (nr_AddressList req) = 1
      else length (nr_ReplicaIdList req) = length (nr_AddressList req)) \<and>
     (rq_Type change \<in> {Request_ADD, Request_DELETE, Request_KILL} \<longrightarrow>
        (\<exists>m ms. rq_Members change = m # ms \<and> m \<noteq> 0) \<and> rq_ShardId change \<noteq> 0) \<and>
     (rq_Type change = Request_CREATE \<longrightarrow>
        nr_InstantiateReplicaId req \<noteq> 0 \<and> nr_AppName req \<noteq> [] \<and> nr_ReplicaIdList req \<noteq> []))"

lemma validate_iff: "validateNodeHostRequest req = Inr () \<longleftrightarrow> valid_request req"
proof (cases "nr_Change req")
  case None
  then show ?thesis by (simp add: validateNodeHostRequest_def valid_request_def panic_def)
next
  case (Some change)
  then show ?thesis
    by (cases "rq_Type change")
      (auto simp: validateNodeHostRequest_def valid_request_def list_all_iff simp del: checks.simps)
qed

end
