(* ===== verification/Drummer.thy ===== *)
theory Drummer
  imports Server Scheduler Validation
begin

text \<open>
  The Drummer server (\<^verbatim>\<open>drummer.go\<close>): the session a server proposes with, the periodic tick, the
  scheduling round of the leader and the loop that drives them. The rounds of a ticker are a list
  of the events its channels deliver; whether the server is the leader is the election manager's
  answer at that round.
\<close>

section \<open>Sessions\<close>

text \<open>The state of \<^verbatim>\<open>sessionUser\<close> beside the world of the Raft layer.\<close>

type_synonym 'w su = "session option \<times> 'w"

definition onWorld :: "('w \<Rightarrow> 'a go \<times> 'w) \<Rightarrow> 'w su \<Rightarrow> 'a go \<times> 'w su" where
  "onWorld f st = (case f (snd st) of (r, w) \<Rightarrow> (r, (fst st, w)))"

definition getSession :: "'w raft \<Rightarrow> 'w su \<Rightarrow> session option go \<times> 'w su" where
  "getSession nh st =
     (case fst st of
        Some cs \<Rightarrow> (Inr (Some cs), st)
      | None \<Rightarrow>
          onError (onWorld (\<lambda>w. SyncGetSession nh w defaultShardID) st)
            (\<lambda>err st1. (Inr None, st1))
            (\<lambda>cs st1. (Inr (Some cs), (Some cs, snd st1))))"

definition resetSession :: "'w raft \<Rightarrow> 'w su \<Rightarrow> unit go \<times> 'w su" where
  "resetSession nh st =
     (case fst st of
        None \<Rightarrow> (Inr (), st)
      | Some cs \<Rightarrow>
          onError (onWorld (\<lambda>w. SyncCloseSession nh w cs) (None, snd st))
            (\<lambda>err st1. (Inr (), st1)) (\<lambda>_ st1. (Inr (), st1)))"

definition clientProposalCompleted :: "'w raft \<Rightarrow> 'w su \<Rightarrow> unit go \<times> 'w su" where
  "clientProposalCompleted nh st =
     (case fst st of
        None \<Rightarrow> (panic NoClientSession, st)
      | Some cs \<Rightarrow> (Inr (), (Some (ProposalCompleted nh cs), snd st)))"

section \<open>Proposals of the leader\<close>

text \<open>
  The common part of \<open>tick\<close> and \<open>updateRequests\<close>: propose with the session, drop it on an error,
  advance it otherwise.
\<close>

definition proposeWithSession :: "'w raft \<Rightarrow> codec \<Rightarrow> Update \<Rightarrow> 'w su \<Rightarrow> u64 go \<times> 'w su" where
  "proposeWithSession nh cdc u st =
     thenDo (getSession nh st) (\<lambda>cs st1.
       (case cs of
          None \<Rightarrow> (Inl (Err ErrSessionNotReady), st1)
        | Some cs \<Rightarrow>
            onError (onWorld (proposeDrummerUpdate nh cdc cs u) st1)
              (\<lambda>err st2. thenDo (resetSession nh st2) (\<lambda>_ st3. (Inl (Err err), st3)))
              (\<lambda>v st2. thenDo (clientProposalCompleted nh st2) (\<lambda>_ st3. (Inr v, st3)))))"

definition drummer_tick :: "'w raft \<Rightarrow> codec \<Rightarrow> 'w su \<Rightarrow> u64 go \<times> 'w su" where
  "drummer_tick nh cdc st =
     thenDo (proposeWithSession nh cdc (zero_Update\<lparr>up_Type := Update_TICK\<rparr>) st) (\<lambda>v st1.
       (if v = 0 then (panic InvalidZeroTick, st1) else (Inr v, st1)))"

definition updateRequests :: "'w raft \<Rightarrow> codec \<Rightarrow> NodeHostRequest list \<Rightarrow> 'w su \<Rightarrow> u64 go \<times> 'w su" where
  "updateRequests nh cdc reqs st =
     (if length reqs = 0 then (Inr 0, st)
      else proposeWithSession nh cdc (zero_Update\<lparr>up_Type := Update_REQUESTS,
             up_Requests := Some \<lparr>nrc_Requests = reqs\<rparr>\<rparr>) st)"

section \<open>Scheduling\<close>

text \<open>\<^verbatim>\<open>restoredShards[req.Change.ShardId] = struct{}{}\<close> for every request.\<close>

fun restoredShards :: "NodeHostRequest list \<Rightarrow> (u64, unit) gomap \<Rightarrow> (u64, unit) gomap go" where
  "restoredShards [] m = Inr m"
| "restoredShards (req # reqs) m =
     (case nr_Change req of
        None \<Rightarrow> panic NilDereference
      | Some change \<Rightarrow> restoredShards reqs (mput (rq_ShardId change) () m))"

fun validateAll :: "NodeHostRequest list \<Rightarrow> unit go" where
  "validateAll [] = Inr ()"
| "validateAll (req # reqs) =
     (case validateNodeHostRequest req of Inl e \<Rightarrow> Inl e | Inr _ \<Rightarrow> validateAll reqs)"

definition maintainShards :: "scheduler \<Rightarrow> nat \<Rightarrow> NodeHostRequest list go \<times> nat" where
  "maintainShards s pos =
     (case restore s of
        Inl e \<Rightarrow> (Inl e, pos)
      | Inr restoreReqs \<Rightarrow>
          (case restoredShards restoreReqs [] of
             Inl e \<Rightarrow> (Inl e, pos)
           | Inr restored \<Rightarrow>
               (case repair s restored pos of
                  (Inl e, pos1) \<Rightarrow> (Inl e, pos1)
                | (Inr repairReqs, pos1) \<Rightarrow>
                    (let requests = restoreReqs @ repairReqs @ killZombieReplicas s
                     in case validateAll requests of
                          Inl e \<Rightarrow> (Inl e, pos1)
                        | Inr _ \<Rightarrow> (Inr requests, pos1)))))"

text \<open>The Drummer server: its scheduler, the position of its random source, its loop counter.\<close>

record 'w drummer =
  dr_session :: "session option"
  dr_world :: 'w
  dr_scheduler :: scheduler
  dr_randPos :: nat
  dr_count :: u64
  dr_deploymentID :: u64

definition withSu :: "('w su \<Rightarrow> 'a go \<times> 'w su) \<Rightarrow> 'w drummer \<Rightarrow> 'a go \<times> 'w drummer" where
  "withSu f d = (case f (dr_session d, dr_world d) of
     (r, (su, w)) \<Rightarrow> (r, d\<lparr>dr_session := su, dr_world := w\<rparr>))"

definition withWorld :: "('w \<Rightarrow> 'a go \<times> 'w) \<Rightarrow> 'w drummer \<Rightarrow> 'a go \<times> 'w drummer" where
  "withWorld f d = (case f (dr_world d) of (r, w) \<Rightarrow> (r, d\<lparr>dr_world := w\<rparr>))"

text \<open>
  \<open>schedule\<close>: an error of the scheduler is logged and gives no requests. Of the errors of
  \<open>getLaunched\<close> only the cancelled context ends the round; after any other the flag is false.
\<close>

definition runScheduler :: "(scheduler \<Rightarrow> nat \<Rightarrow> NodeHostRequest list go \<times> nat) \<Rightarrow> 'w drummer
    \<Rightarrow> NodeHostRequest list go \<times> 'w drummer" where
  "runScheduler f d =
     (case f (dr_scheduler d) (dr_randPos d) of
        (r, pos) \<Rightarrow> onError (r, d\<lparr>dr_randPos := pos\<rparr>) (\<lambda>err d1. (Inr [], d1)) (\<lambda>reqs d1. (Inr reqs, d1)))"

definition scheduleWith :: "'w raft \<Rightarrow> codec \<Rightarrow> bool \<Rightarrow> 'w drummer \<Rightarrow> NodeHostRequest list go \<times> 'w drummer" where
  "scheduleWith nh cdc isLaunched d =
     onError (withWorld (getSchedulerContext nh cdc) d)
       (\<lambda>err d1. (Inr [], d1))
       (\<lambda>sc d1.
          (let s = updateSchedulerContext (dr_scheduler d1) sc; d2 = d1\<lparr>dr_scheduler := s\<rparr>
           in if \<not> isLaunched \<and> \<not> hasRunningShard s then runScheduler launch d2
              else runScheduler maintainShards d2))"

definition schedule :: "'w raft \<Rightarrow> codec \<Rightarrow> 'w drummer \<Rightarrow> NodeHostRequest list go \<times> 'w drummer" where
  "schedule nh cdc d =
     onError (withWorld (getLaunched nh cdc) d)
       (\<lambda>err d1. if err = ErrContextCanceled then (Inr [], d1) else scheduleWith nh cdc False d1)
       (\<lambda>isLaunched d1. scheduleWith nh cdc isLaunched d1)"

section \<open>The main loop\<close>

definition hasEnoughNodeHostConnected :: "'w raft \<Rightarrow> codec \<Rightarrow> 'w drummer \<Rightarrow> bool go \<times> 'w drummer" where
  "hasEnoughNodeHostConnected nh cdc d =
     onError (withWorld (GetNodeHostCollection nh cdc) d)
       (\<lambda>err d1. (Inr False, d1)) (\<lambda>c d1. (Inr (length (nhc_Collection c) \<ge> 3), d1))"

definition drummer_bootstrapped :: "'w raft \<Rightarrow> codec \<Rightarrow> 'w drummer \<Rightarrow> bool go \<times> 'w drummer" where
  "drummer_bootstrapped nh cdc d =
     onError (withWorld (getBootstrapped nh cdc) d)
       (\<lambda>err d1. (Inr False, d1)) (\<lambda>b d1. (Inr b, d1))"

text \<open>The closure \<^verbatim>\<open>tf\<close> of \<open>drummerMain\<close>; it never asks the ticker to stop.\<close>

definition drummerRound :: "'w raft \<Rightarrow> codec \<Rightarrow> 'w drummer \<Rightarrow> bool go \<times> 'w drummer" where
  "drummerRound nh cdc d =
     thenDo (hasEnoughNodeHostConnected nh cdc d) (\<lambda>enough d1.
       if \<not> enough then (Inr False, d1)
       else thenDo (drummer_bootstrapped nh cdc d1) (\<lambda>boot d2.
         if \<not> boot then (Inr False, d2)
         else thenDo (schedule nh cdc d2) (\<lambda>reqs d3.
           onError (withSu (updateRequests nh cdc reqs) d3)
             (\<lambda>err d4. (Inr False, d4)) (\<lambda>_ d4. (Inr False, d4)))))"

definition drummerMainStep :: "'w raft \<Rightarrow> codec \<Rightarrow> bool \<Rightarrow> 'w drummer \<Rightarrow> bool go \<times> 'w drummer" where
  "drummerMainStep nh cdc leader d =
     (let d1 = d\<lparr>dr_count := dr_count d + tickIntervalSecond\<rparr> in
      if leader then
        onError (withSu (drummer_tick nh cdc) d1)
          (\<lambda>err d2. if dr_count d2 < loopIntervalSecond then (Inr False, d2)
                    else drummerRound nh cdc (d2\<lparr>dr_count := 0\<rparr>))
          (\<lambda>_ d2. if dr_count d2 < loopIntervalSecond then (Inr False, d2)
                  else drummerRound nh cdc (d2\<lparr>dr_count := 0\<rparr>))
      else (Inr False, d1))"

section \<open>Tickers\<close>

text \<open>What a ticker's \<^verbatim>\<open>select\<close> receives next.\<close>

datatype tickerEvent = TickEvent | StopEvent

text \<open>The loop ends with a stop event, when the function asks to, or with its panic.\<close>

fun runLFTicker :: "('s \<Rightarrow> bool go \<times> 's) \<Rightarrow> tickerEvent list \<Rightarrow> 's \<Rightarrow> unit go \<times> 's" where
  "runLFTicker tf [] s = (Inr (), s)"
| "runLFTicker tf (StopEvent # evs) s = (Inr (), s)"
| "runLFTicker tf (TickEvent # evs) s =
     thenDo (tf s) (\<lambda>stop s1. if stop then (Inr (), s1) else runLFTicker tf evs s1)"

text \<open>
  The millisecond ticker looks at the stop channels at every tenth tick only; \<open>stopped\<close> is the
  answer of that look, one per tick.
\<close>

fun run1MSTicker :: "('s \<Rightarrow> bool go \<times> 's) \<Rightarrow> nat \<Rightarrow> bool list \<Rightarrow> 's \<Rightarrow> unit go \<times> 's" where
  "run1MSTicker tf n [] s = (Inr (), s)"
| "run1MSTicker tf n (stopped # evs) s =
     (if Suc n mod 10 = 0 \<and> stopped then (Inr (), s)
      else thenDo (tf s) (\<lambda>stop s1. if stop then (Inr (), s1) else run1MSTicker tf (Suc n) evs s1))"

definition RunTicker :: "nat \<Rightarrow> ('s \<Rightarrow> bool go \<times> 's) \<Rightarrow> tickerEvent list \<Rightarrow> 's \<Rightarrow> unit go \<times> 's" where
  "RunTicker nanoseconds tf evs s =
     (let tms = nanoseconds div 1000000 in
      if tms = 0 then (panic InvalidDuration, s)
      else if tms = 1 then run1MSTicker tf 0 (map (\<lambda>e. e = StopEvent) evs) s
      else runLFTicker tf evs s)"

text \<open>\<open>drummerMain\<close>: the leader flag of each round is read from the election manager.\<close>

fun drummerMain :: "'w raft \<Rightarrow> codec \<Rightarrow> (bool \<times> tickerEvent) list \<Rightarrow> 'w drummer \<Rightarrow> unit go \<times> 'w drummer" where
  "drummerMain nh cdc [] d = (Inr (), d)"
| "drummerMain nh cdc ((leader, StopEvent) # evs) d = (Inr (), d)"
| "drummerMain nh cdc ((leader, TickEvent) # evs) d =
     thenDo (drummerMainStep nh cdc leader d) (\<lambda>stop d1.
       if stop then (Inr (), d1) else drummerMain nh cdc evs d1)"

section \<open>The deployment ID\<close>

text \<open>
  One pass of the loop in \<open>setDeploymentID\<close> with the number its random source returns, and
  whether the context is cancelled when an error is handled and during the wait that follows; the
  result says whether the worker returns. The variable \<^verbatim>\<open>did\<close> of the closure shadows the outer
  one, so what the server answers is not kept.
\<close>

definition deploymentAttempt :: "'w raft \<Rightarrow> codec \<Rightarrow> u64 \<Rightarrow> bool \<Rightarrow> bool \<Rightarrow> 'w su \<Rightarrow> bool go \<times> 'w su" where
  "deploymentAttempt nh cdc uintDid canceled canceledLater st =
     thenDo (getSession nh st) (\<lambda>session st1.
       (case session of
          None \<Rightarrow> (Inr canceledLater, st1)
        | Some cs \<Rightarrow>
            onError (onWorld (setDeploymentID nh cdc uintDid cs) st1)
              (\<lambda>err st2. if canceled then (Inr True, st2)
                 else thenDo (resetSession nh st2) (\<lambda>_ st3. (Inr canceledLater, st3)))
              (\<lambda>did st2. thenDo (clientProposalCompleted nh st2) (\<lambda>_ st3.
                 if did = 0 then (Inr canceledLater, st3) else (Inr True, st3)))))"

text \<open>The result says whether the worker has returned; it still runs when the attempts given are over.\<close>

fun deploymentLoop :: "'w raft \<Rightarrow> codec \<Rightarrow> (u64 \<times> bool \<times> bool) list \<Rightarrow> 'w su \<Rightarrow> bool go \<times> 'w su" where
  "deploymentLoop nh cdc [] st = (Inr False, st)"
| "deploymentLoop nh cdc ((uintDid, canceled, canceledLater) # rest) st =
     thenDo (deploymentAttempt nh cdc uintDid canceled canceledLater st) (\<lambda>returns st1.
       if returns then (Inr True, st1) else deploymentLoop nh cdc rest st1)"

text \<open>
  The \<^verbatim>\<open>select\<close> at the end takes the case of the worker that is done, or, while it runs, the one of the
  stopper; which of them is the result.
\<close>

definition drummer_setDeploymentID :: "'w raft \<Rightarrow> codec \<Rightarrow> (u64 \<times> bool \<times> bool) list \<Rightarrow> 'w drummer
    \<Rightarrow> bool go \<times> 'w drummer" where
  "drummer_setDeploymentID nh cdc attempts d =
     (let did = (0 :: u64) in
      thenDo (withSu (deploymentLoop nh cdc attempts) d) (\<lambda>returned d1.
        (if returned then (Inr True, if did \<noteq> 0 then d1\<lparr>dr_deploymentID := did\<rparr> else d1)
         else (Inr False, d1))))"

section \<open>Configuration\<close>

definition getDefaultShardConfig :: Config where
  "getDefaultShardConfig = zero_Config\<lparr>cf_ElectionRTT := 50, cf_HeartbeatRTT := 5, cf_CheckQuorum := True,
     cf_CompactionOverhead := 10000, cf_SnapshotEntries := 10000\<rparr>"

definition configFilename :: string where
  "configFilename = ''dragonboat-drummer.json''"

text \<open>
  \<open>openFile\<close> is the file system: no file, a file that cannot be read, or its bytes; \<open>parse\<close> is
  \<^verbatim>\<open>json.Unmarshal\<close>; \<open>dirs\<close> is \<^verbatim>\<open>envutil.GetConfigDirs\<close>.
\<close>

fun configIn :: "(string \<Rightarrow> string option option) \<Rightarrow> (string \<Rightarrow> Config option) \<Rightarrow> string list \<Rightarrow> Config go" where
  "configIn openFile parse [] = Inr getDefaultShardConfig"
| "configIn openFile parse (dir # dirs) =
     (case openFile (dir @ ''/'' @ configFilename) of
        None \<Rightarrow> configIn openFile parse dirs
      | Some None \<Rightarrow> panic InvalidConfigFile
      | Some (Some data) \<Rightarrow>
          (case parse data of None \<Rightarrow> panic InvalidConfigFile | Some cc \<Rightarrow> Inr cc))"

definition getShardConfig :: "(string \<Rightarrow> string option option) \<Rightarrow> (string \<Rightarrow> Config option) \<Rightarrow> string list
    \<Rightarrow> string list \<Rightarrow> Config go" where
  "getShardConfig openFile parse dirs fpList = configIn openFile parse dirs"

definition GetShardConfig :: "(string \<Rightarrow> string option option) \<Rightarrow> (string \<Rightarrow> Config option) \<Rightarrow> string list
    \<Rightarrow> Config go" where
  "GetShardConfig openFile parse dirs =
     getShardConfig openFile parse dirs (map (\<lambda>dir. dir @ ''/'' @ configFilename) dirs)"

definition GetShardConfigFromFile :: "(string \<Rightarrow> string option option) \<Rightarrow> (string \<Rightarrow> Config option)
    \<Rightarrow> string list \<Rightarrow> string \<Rightarrow> Config go" where
  "GetShardConfigFromFile openFile parse dirs fp = getShardConfig openFile parse dirs [fp]"

end
