(* ===== verification/Election.thy ===== *)
theory Election
  imports Drummer DBOperations
begin

text \<open>
  The election of the leading Drummer server (\<^verbatim>\<open>election.go\<close>): the leader renews a record in the
  database, the followers watch it and compete for it when it stands still. One call of
  \<open>workerTick\<close> is one round of a server; the world of the Raft layer is what the servers share.
\<close>

section \<open>State\<close>

definition deadLeaderMinRound :: u64 where "deadLeaderMinRound = 3"
definition leadershipRenewalSecond :: nat where "leadershipRenewalSecond = 10"

datatype nodeState = stateFollower | stateLeader

record leaderInfo =
  ld_instanceID :: u64
  ld_tick :: u64
  ld_staticRound :: u64

record 'w electionManager =
  em_instanceID :: u64
  em_currentLeader :: "leaderInfo option"
  em_state :: nodeState
  em_session :: "session option"
  em_world :: 'w

definition newElectionManager :: "u64 \<Rightarrow> 'w \<Rightarrow> 'w electionManager" where
  "newElectionManager rnd w = \<lparr>em_instanceID = rnd, em_currentLeader = None, em_state = stateFollower,
     em_session = None, em_world = w\<rparr>"

definition em_isLeader :: "'w electionManager \<Rightarrow> bool" where
  "em_isLeader d \<longleftrightarrow> em_state d = stateLeader"

section \<open>What a follower knows of the leader\<close>

definition setLeaderInfo :: "leaderInfo \<Rightarrow> 'w electionManager \<Rightarrow> unit go \<times> 'w electionManager" where
  "setLeaderInfo l d =
     (case em_currentLeader d of
        None \<Rightarrow> (Inr (), d\<lparr>em_currentLeader := Some (l\<lparr>ld_staticRound := 0\<rparr>)\<rparr>)
      | Some c \<Rightarrow>
          (if ld_instanceID c = ld_instanceID l \<and> ld_tick c < ld_tick l then
             (Inr (), d\<lparr>em_currentLeader := Some (c\<lparr>ld_tick := ld_tick l, ld_staticRound := 0\<rparr>)\<rparr>)
           else if ld_instanceID c = ld_instanceID l \<and> ld_tick c = ld_tick l then
             (Inr (), d\<lparr>em_currentLeader := Some (c\<lparr>ld_staticRound := ld_staticRound c + 1\<rparr>)\<rparr>)
           else if ld_instanceID c \<noteq> ld_instanceID l then
             (Inr (), d\<lparr>em_currentLeader := Some (l\<lparr>ld_staticRound := 0\<rparr>)\<rparr>)
           else (panic UnknownElectionState, d)))"

definition leaderDead :: "'w electionManager \<Rightarrow> bool" where
  "leaderDead d =
     (case em_currentLeader d of None \<Rightarrow> False | Some c \<Rightarrow> ld_staticRound c > deadLeaderMinRound)"

definition becomeFollower :: "leaderInfo option \<Rightarrow> 'w electionManager \<Rightarrow> 'w electionManager" where
  "becomeFollower l d = d\<lparr>em_currentLeader := map_option (\<lambda>x. x\<lparr>ld_staticRound := 0\<rparr>) l,
     em_state := stateFollower\<rparr>"

definition resetFollower :: "'w electionManager \<Rightarrow> 'w electionManager" where
  "resetFollower d = d\<lparr>em_currentLeader := map_option (\<lambda>x. x\<lparr>ld_staticRound := 0\<rparr>) (em_currentLeader d),
     em_state := stateFollower\<rparr>"

definition becomeLeader :: "'w electionManager \<Rightarrow> 'w electionManager" where
  "becomeLeader d = d\<lparr>em_currentLeader := None, em_state := stateLeader\<rparr>"

section \<open>Rounds\<close>

definition emSu :: "('w su \<Rightarrow> 'a go \<times> 'w su) \<Rightarrow> 'w electionManager \<Rightarrow> 'a go \<times> 'w electionManager" where
  "emSu f d = (case f (em_session d, em_world d) of
     (r, (su, w)) \<Rightarrow> (r, d\<lparr>em_session := su, em_world := w\<rparr>))"

definition emWorld :: "('w \<Rightarrow> 'a go \<times> 'w) \<Rightarrow> 'w electionManager \<Rightarrow> 'a go \<times> 'w electionManager" where
  "emWorld f d = (case f (em_world d) of (r, w) \<Rightarrow> (r, d\<lparr>em_world := w\<rparr>))"

definition voteKV :: "u64 \<Rightarrow> u64 \<Rightarrow> u64 \<Rightarrow> KV" where
  "voteKV instanceID oldInstanceID tick = zero_KV\<lparr>kv_Key := electionKey, kv_Value := electionKey,
     kv_InstanceId := instanceID, kv_OldInstanceId := oldInstanceID, kv_Tick := tick, kv_Finalized := False\<rparr>"

definition renewLeadership :: "'w raft \<Rightarrow> codec \<Rightarrow> u64 \<Rightarrow> 'w electionManager \<Rightarrow> unit go \<times> 'w electionManager" where
  "renewLeadership nh cdc tick d =
     thenDo (emSu (getSession nh) d) (\<lambda>session d1.
       (case session of
          None \<Rightarrow> (Inl (Err ErrNoSession), d1)
        | Some cs \<Rightarrow>
            onError (emWorld (makeDrummerVote nh cdc cs (voteKV (em_instanceID d1) 0 tick)) d1)
              (\<lambda>err d2. thenDo (emSu (resetSession nh) d2) (\<lambda>_ d3. (Inl (Err err), becomeFollower None d3)))
              (\<lambda>code d2. thenDo (emSu (clientProposalCompleted nh) d2) (\<lambda>_ d3.
                 (Inr (), if code \<noteq> DBKVUpdated then becomeFollower None d3 else d3)))))"

definition leaderMain :: "'w raft \<Rightarrow> codec \<Rightarrow> u64 \<Rightarrow> 'w electionManager \<Rightarrow> unit go \<times> 'w electionManager" where
  "leaderMain nh cdc tick d =
     onError (emWorld (getElectionInfo nh cdc) d)
       (\<lambda>err d1. (Inr (), becomeFollower None d1))
       (\<lambda>info d1.
          (case info of
             None \<Rightarrow> (panic NilDereference, d1)
           | Some kv \<Rightarrow>
               (if kv_InstanceId kv \<noteq> em_instanceID d1 then
                  (Inr (), becomeFollower (Some \<lparr>ld_instanceID = kv_InstanceId kv, ld_tick = kv_Tick kv,
                     ld_staticRound = 0\<rparr>) d1)
                else onError (renewLeadership nh cdc tick d1) (\<lambda>err d2. (Inr (), d2)) (\<lambda>_ d2. (Inr (), d2)))))"

definition campaign :: "'w raft \<Rightarrow> codec \<Rightarrow> u64 \<Rightarrow> 'w electionManager \<Rightarrow> unit go \<times> 'w electionManager" where
  "campaign nh cdc tick d =
     (if em_state d \<noteq> stateFollower then (panic CampaignByLeader, d)
      else
        (let oldInstanceID = (case em_currentLeader d of None \<Rightarrow> 0 | Some c \<Rightarrow> ld_instanceID c) in
         thenDo (emSu (getSession nh) d) (\<lambda>session d1.
           (case session of
              None \<Rightarrow> (Inr (), d1)
            | Some cs \<Rightarrow>
                onError (emWorld (makeDrummerVote nh cdc cs (voteKV (em_instanceID d1) oldInstanceID tick)) d1)
                  (\<lambda>err d2. thenDo (emSu (resetSession nh) d2) (\<lambda>_ d3. (Inr (), resetFollower d3)))
                  (\<lambda>code d2.
                     if code \<noteq> DBKVUpdated then
                       thenDo (emSu (resetSession nh) d2) (\<lambda>_ d3. (Inr (), resetFollower d3))
                     else thenDo (emSu (clientProposalCompleted nh) d2) (\<lambda>_ d3.
                       onError (emWorld (getElectionInfo nh cdc) d3)
                         (\<lambda>err d4. (Inr (), resetFollower d4))
                         (\<lambda>info d4.
                            (case info of
                               None \<Rightarrow> (panic NilDereference, d4)
                             | Some kv \<Rightarrow>
                                 (if kv_InstanceId kv = em_instanceID d4 then (Inr (), becomeLeader d4)
                                  else (Inr (), d4))))))))))"

definition followerMain :: "'w raft \<Rightarrow> codec \<Rightarrow> u64 \<Rightarrow> 'w electionManager \<Rightarrow> unit go \<times> 'w electionManager" where
  "followerMain nh cdc tick d =
     onError (emWorld (getElectionInfo nh cdc) d)
       (\<lambda>err d1. (Inr (), resetFollower d1))
       (\<lambda>info d1.
          (case info of
             None \<Rightarrow> (panic NilDereference, d1)
           | Some kv \<Rightarrow>
               (if kv_InstanceId kv = 0 then campaign nh cdc tick d1
                else if kv_InstanceId kv = em_instanceID d1 then
                  onError (renewLeadership nh cdc tick d1)
                    (\<lambda>err d2. (Inr (), resetFollower d2)) (\<lambda>_ d2. (Inr (), becomeLeader d2))
                else
                  thenDo (setLeaderInfo \<lparr>ld_instanceID = kv_InstanceId kv, ld_tick = kv_Tick kv,
                      ld_staticRound = 0\<rparr> d1) (\<lambda>_ d2.
                    if leaderDead d2 then campaign nh cdc tick d2 else (Inr (), d2)))))"

text \<open>The closure of \<open>workerMain\<close>; the tick it counts is the caller's.\<close>

definition workerTick :: "'w raft \<Rightarrow> codec \<Rightarrow> u64 \<Rightarrow> 'w electionManager \<Rightarrow> bool go \<times> 'w electionManager" where
  "workerTick nh cdc tick d =
     thenDo (if em_isLeader d then leaderMain nh cdc tick d else followerMain nh cdc tick d)
       (\<lambda>_ d1. (Inr False, d1))"

fun workerMain :: "'w raft \<Rightarrow> codec \<Rightarrow> u64 \<Rightarrow> tickerEvent list \<Rightarrow> 'w electionManager
    \<Rightarrow> unit go \<times> 'w electionManager" where
  "workerMain nh cdc tick [] d = (Inr (), d)"
| "workerMain nh cdc tick (StopEvent # evs) d = (Inr (), d)"
| "workerMain nh cdc tick (TickEvent # evs) d =
     thenDo (workerTick nh cdc (tick + 1) d) (\<lambda>stop d1.
       if stop then (Inr (), d1) else workerMain nh cdc (tick + 1) evs d1)"

end
