(* ===== verification/RaftService.thy ===== *)
theory RaftService
  imports Drummer Samples
begin

text \<open>
  The contract between the servers and the Raft layer (\<open>raft_service\<close>): a proposal that returns
  was applied to the database at one point of the log, a read that returns was answered by the
  database at one point of the log, and every call leaves the database further along its log, by
  commands the locale's parameter \<open>ok\<close> admits. \<open>localRaft\<close> is a Raft layer of one copy with other
  servers committing commands between its calls, on which the contract is interpreted.
\<close>

section \<open>The log moves on\<close>

definition dbMoves :: "codec \<Rightarrow> (string \<Rightarrow> bool) \<Rightarrow> db \<Rightarrow> db \<Rightarrow> bool" where
  "dbMoves cdc ok d e \<longleftrightarrow>
     (\<exists>cmds rs. runs (\<lambda>cmd d. Update_cmd cdc d cmd) d cmds rs e \<and> list_all ok cmds)"

lemma dbMoves_refl [simp]: "dbMoves cdc ok d d"
  unfolding dbMoves_def by (rule exI [of _ "[]"]) simp

lemma dbMoves_trans [trans]: "dbMoves cdc ok a b \<Longrightarrow> dbMoves cdc ok b c \<Longrightarrow> dbMoves cdc ok a c"
  unfolding dbMoves_def by (metis list_all_append runs_append)

lemma dbMoves_step: "Update_cmd cdc d cmd = (Inr r, e) \<Longrightarrow> ok cmd \<Longrightarrow> dbMoves cdc ok d e"
  unfolding dbMoves_def by (rule exI [of _ "[cmd]"]) (auto simp: runs_Cons_iff)

text \<open>Completing a proposal only counts in the session.\<close>

lemma completed_world [simp]: "snd (snd (clientProposalCompleted nh st)) = snd st"
  by (simp add: clientProposalCompleted_def split: option.split)

section \<open>The messages on key-value records\<close>

definition kvUpdate :: "KV \<Rightarrow> Update" where
  "kvUpdate kv = zero_Update\<lparr>up_Type := Update_KV, up_KvUpdate := Some kv\<rparr>"

definition kvQuery :: "string \<Rightarrow> LookupRequest" where
  "kvQuery key = zero_LookupRequest\<lparr>lr_Type := LookupRequest_KV,
     lr_KvLookup := Some (zero_KV\<lparr>kv_Key := key\<rparr>)\<rparr>"

definition kvAnswer :: "KV \<Rightarrow> LookupResponse" where
  "kvAnswer kv = zero_LookupResponse\<lparr>lp_Code := LookupResponse_OK, lp_KvResult := Some kv\<rparr>"

text \<open>The documented law of the encoders: decoding gives the message back.\<close>

definition kv_messages :: "codec \<Rightarrow> bool" where
  "kv_messages cdc \<longleftrightarrow> kv_codec cdc \<and> (\<forall>kv. uUpdate cdc (mUpdate cdc (kvUpdate kv)) = Some (kvUpdate kv)) \<and>
     (\<forall>key. uLookup cdc (mLookup cdc (kvQuery key)) = Some (kvQuery key)) \<and>
     (\<forall>kv. uResponse cdc (mResponse cdc (kvAnswer kv)) = Some (kvAnswer kv))"

definition recordAt :: "codec \<Rightarrow> db \<Rightarrow> string \<Rightarrow> KV" where
  "recordAt cdc d key = (case storedKV cdc d key of None \<Rightarrow> zero_KV | Some kv \<Rightarrow> kv)"

lemma kv_command_applied:
  assumes "kv_messages cdc" and "Update_cmd cdc d (mUpdate cdc (kvUpdate kv)) = (Inr r, e)"
  shows "r = kvDecision (storedKV cdc d (kv_Key kv)) kv"
    "storedKV cdc e k = (if k = kv_Key kv \<and> r = DBKVUpdated then Some kv else storedKV cdc d k)"
proof -
  have "applyKVUpdate cdc d kv = (Inr r, e)"
    using assms
    by (auto simp: Update_cmd_def kv_messages_def applyUpdate_def kvUpdate_def zero_Update_def
        assertNotFailed_def panic_def split: if_splits)
  note eff = applyKV_effect [OF this]
  show "r = kvDecision (storedKV cdc d (kv_Key kv)) kv" by (rule eff(3))
  show "storedKV cdc e k = (if k = kv_Key kv \<and> r = DBKVUpdated then Some kv else storedKV cdc d k)"
    using eff(4) assms(1) by (auto simp: storedKV_def kv_messages_def kv_codec_def mget_mput)
qed

lemma kv_query_answered:
  assumes "kv_messages cdc" and "Lookup_query cdc d (mLookup cdc (kvQuery key)) = Inr ans"
  shows "uResponse cdc ans = Some (kvAnswer (recordAt cdc d key))"
proof -
  have u: "uLookup cdc (mLookup cdc (kvQuery key)) = Some (kvQuery key)"
    using assms(1) by (simp add: kv_messages_def)
  have "ans = mResponse cdc (kvAnswer (recordAt cdc d key))"
    using assms(2) unfolding Lookup_query_def u
    by (auto simp: kvQuery_def assertNotFailed_def handleKVLookup_def zero_LookupRequest_def recordAt_def
        storedKV_def kvAnswer_def zero_LookupResponse_def Let_def panic_def split: if_splits option.splits)
  then show ?thesis using assms(1) by (simp add: kv_messages_def)
qed

section \<open>The contract\<close>

locale raft_service =
  fixes nh :: "'w raft" and cdc :: codec and ok :: "string \<Rightarrow> bool" and dbOf :: "'w \<Rightarrow> db"
  assumes opened: "SyncGetSession nh w i = (s, w') \<Longrightarrow> dbMoves cdc ok (dbOf w) (dbOf w')"
    and closed: "SyncCloseSession nh w cs = (u, w') \<Longrightarrow> dbMoves cdc ok (dbOf w) (dbOf w')"
    and asked: "SyncRead nh w i q = (a, w') \<Longrightarrow> dbMoves cdc ok (dbOf w) (dbOf w')"
    and answered: "SyncRead nh w i q = (Inr ans, w') \<Longrightarrow>
      \<exists>d. dbMoves cdc ok (dbOf w) d \<and> Lookup_query cdc d q = Inr ans \<and> dbMoves cdc ok d (dbOf w')"
    and sent: "ok cmd \<Longrightarrow> SyncPropose nh w cs cmd = (p, w') \<Longrightarrow> dbMoves cdc ok (dbOf w) (dbOf w')"
    and applied: "ok cmd \<Longrightarrow> SyncPropose nh w cs cmd = (Inr v, w') \<Longrightarrow>
      \<exists>d e. dbMoves cdc ok (dbOf w) d \<and> Update_cmd cdc d cmd = (Inr v, e) \<and> dbMoves cdc ok e (dbOf w')"
begin

lemma proposeUpdate_sent:
  assumes "ok (mUpdate cdc u)" and "proposeDrummerUpdate nh cdc cs u w = (p, w')"
  shows "dbMoves cdc ok (dbOf w) (dbOf w')"
  using assms sent by (auto simp: proposeDrummerUpdate_def split: if_splits)

lemma proposeUpdate_applied:
  assumes "ok (mUpdate cdc u)" and "proposeDrummerUpdate nh cdc cs u w = (Inr v, w')"
  shows "\<exists>d e. dbMoves cdc ok (dbOf w) d \<and> Update_cmd cdc d (mUpdate cdc u) = (Inr v, e) \<and>
    dbMoves cdc ok e (dbOf w')"
  using assms(2) applied [OF assms(1)] by (auto simp: proposeDrummerUpdate_def panic_def split: if_splits)

lemma query_moves:
  assumes "lookupDB nh cdc req w = (r, w')"
  shows "dbMoves cdc ok (dbOf w) (dbOf w')"
proof -
  obtain a w1 where "SyncRead nh w defaultShardID (mLookup cdc req) = (a, w1)" by fastforce
  with assms asked [OF this] show ?thesis
    by (cases a) (auto simp: lookupDB_def panic_def split: option.splits)
qed

lemma getSession_opened: "server_getSession nh i w = (r, w') \<Longrightarrow> dbMoves cdc ok (dbOf w) (dbOf w')"
proof -
  have "getSessionLoop nh i n err w = (r, w') \<Longrightarrow> dbMoves cdc ok (dbOf w) (dbOf w')" for n err w
  proof (induction n arbitrary: err w)
    case (Suc n)
    obtain s w1 where s: "SyncGetSession nh w i = (s, w1)" by fastforce
    from opened [OF s] have m: "dbMoves cdc ok (dbOf w) (dbOf w1)" .
    show ?case
    proof (cases s)
      case (Inl e)
      with Suc.prems s m Suc.IH [of _ w1] show ?thesis by (cases e) (auto intro: dbMoves_trans)
    qed (use Suc.prems s m in auto)
  qed simp
  then show "server_getSession nh i w = (r, w') \<Longrightarrow> dbMoves cdc ok (dbOf w) (dbOf w')"
    by (simp add: server_getSession_def)
qed

text \<open>The session a server keeps for its proposals.\<close>

lemma session_moves: "dbMoves cdc ok (dbOf (snd st)) (dbOf (snd (snd (getSession nh st))))"
proof -
  obtain s w' where s: "SyncGetSession nh (snd st) defaultShardID = (s, w')" by fastforce
  show ?thesis
    unfolding getSession_def
    by (cases "fst st") (auto simp: onWorld_def s intro!: onError_inv
        [where I = "\<lambda>t. dbMoves cdc ok (dbOf (snd st)) (dbOf (snd t))"] opened [OF s])
qed

lemma reset_moves: "dbMoves cdc ok (dbOf (snd st)) (dbOf (snd (snd (resetSession nh st))))"
proof (cases "fst st")
  case (Some cs)
  obtain s w' where s: "SyncCloseSession nh (snd st) cs = (s, w')" by fastforce
  show ?thesis unfolding resetSession_def
    by (auto simp: Some onWorld_def s intro!: onError_inv
        [where I = "\<lambda>t. dbMoves cdc ok (dbOf (snd st)) (dbOf (snd t))"] closed [OF s])
qed (simp add: resetSession_def)

text \<open>A lookup of a record that returns, returns the record of one point of the log.\<close>

lemma record_read:
  assumes "kv_messages cdc" and "lookupDB nh cdc (kvQuery key) w = (Inr resp, w')"
  shows "\<exists>d. dbMoves cdc ok (dbOf w) d \<and> resp = kvAnswer (recordAt cdc d key) \<and> dbMoves cdc ok d (dbOf w')"
proof -
  obtain a w1 where read: "SyncRead nh w defaultShardID (mLookup cdc (kvQuery key)) = (a, w1)"
    by fastforce
  then obtain ans where a: "a = Inr ans" "w1 = w'" "uResponse cdc ans = Some resp"
    using assms(2) by (cases a) (auto simp: lookupDB_def panic_def split: option.splits)
  obtain d where d: "dbMoves cdc ok (dbOf w) d" "Lookup_query cdc d (mLookup cdc (kvQuery key)) = Inr ans"
    "dbMoves cdc ok d (dbOf w')"
    using answered [OF read [unfolded a]] by blast
  from kv_query_answered [OF assms(1) d(2)] d a(3) show ?thesis by auto
qed

text \<open>A vote or a finalized record that was accepted was decided at one point of the log.\<close>

lemma record_written:
  assumes "kv_messages cdc" and "ok (mUpdate cdc (kvUpdate kv))"
    and "proposeDrummerUpdate nh cdc cs (kvUpdate kv) w = (Inr v, w')"
  shows "\<exists>d e. dbMoves cdc ok (dbOf w) d \<and> v = kvDecision (storedKV cdc d (kv_Key kv)) kv \<and>
    (\<forall>k. storedKV cdc e k = (if k = kv_Key kv \<and> v = DBKVUpdated then Some kv else storedKV cdc d k)) \<and>
    dbMoves cdc ok e (dbOf w')"
proof -
  obtain d e where "dbMoves cdc ok (dbOf w) d" "dbMoves cdc ok e (dbOf w')"
    "Update_cmd cdc d (mUpdate cdc (kvUpdate kv)) = (Inr v, e)"
    using proposeUpdate_applied [OF assms(2,3)] by blast
  with kv_command_applied [OF assms(1)] show ?thesis by blast
qed

end

section \<open>A Raft layer of one copy\<close>

text \<open>What the other servers commit before each of the next calls, and the database.\<close>

record localWorld =
  lw_others :: "string list list"
  lw_db :: db

fun commitAll :: "codec \<Rightarrow> (string \<Rightarrow> bool) \<Rightarrow> string list \<Rightarrow> db \<Rightarrow> db" where
  "commitAll cdc ok [] d = d"
| "commitAll cdc ok (cmd # cmds) d =
     (case Update_cmd cdc d cmd of
        (Inr r, e) \<Rightarrow> commitAll cdc ok cmds (if ok cmd then e else d)
      | (Inl _, _) \<Rightarrow> commitAll cdc ok cmds d)"

definition catchUp :: "codec \<Rightarrow> (string \<Rightarrow> bool) \<Rightarrow> localWorld \<Rightarrow> localWorld" where
  "catchUp cdc ok w = (case lw_others w of [] \<Rightarrow> w
     | cmds # rest \<Rightarrow> \<lparr>lw_others = rest, lw_db = commitAll cdc ok cmds (lw_db w)\<rparr>)"

definition sampleSession :: session where
  "sampleSession = \<lparr>cs_ShardID = 0, cs_ClientID = 1, cs_SeriesID = 1, cs_RespondedTo = 0\<rparr>"

definition localRaft :: "codec \<Rightarrow> (string \<Rightarrow> bool) \<Rightarrow> localWorld raft" where
  "localRaft cdc ok = \<lparr>SyncGetSession = (\<lambda>w _. (Inr sampleSession, w)),
     SyncCloseSession = (\<lambda>w _. (Inr (), w)),
     SyncPropose = (\<lambda>w _ cmd. let w1 = catchUp cdc ok w in
       (case Update_cmd cdc (lw_db w1) cmd of
          (Inl e, _) \<Rightarrow> (Inl e, w1) | (Inr v, e) \<Rightarrow> (Inr v, w1\<lparr>lw_db := e\<rparr>))),
     SyncRead = (\<lambda>w _ q. let w1 = catchUp cdc ok w in (Lookup_query cdc (lw_db w1) q, w1)),
     ShardIDMatches = (\<lambda>cs i. cs_ShardID cs = i),
     ProposalCompleted = (\<lambda>cs. cs\<lparr>cs_SeriesID := cs_SeriesID cs + 1\<rparr>),
     RequestAddReplica = (\<lambda>w _ _ _ _. (Inl (Err ErrTimeout), w)),
     RequestDeleteReplica = (\<lambda>w _ _ _. (Inl (Err ErrTimeout), w))\<rparr>"

lemma commitAll_moves: "dbMoves cdc ok d (commitAll cdc ok cmds d)"
proof (induction cdc ok cmds d rule: commitAll.induct)
  case (2 cdc ok cmd cmds d)
  then show ?case
    by (cases "Update_cmd cdc d cmd"; cases "fst (Update_cmd cdc d cmd)")
      (auto intro: dbMoves_trans [OF dbMoves_step])
qed simp

lemma catchUp_moves: "dbMoves cdc ok (lw_db w) (lw_db (catchUp cdc ok w))"
  by (auto simp: catchUp_def commitAll_moves split: list.split)

interpretation local_raft: raft_service "localRaft cdc ok" cdc ok lw_db for cdc ok
proof
  fix w i s w' cs u q a ans cmd p v
  show "SyncGetSession (localRaft cdc ok) w i = (s, w') \<Longrightarrow> dbMoves cdc ok (lw_db w) (lw_db w')"
    and "SyncCloseSession (localRaft cdc ok) w cs = (u, w') \<Longrightarrow> dbMoves cdc ok (lw_db w) (lw_db w')"
    by (simp_all add: localRaft_def)
  show "SyncRead (localRaft cdc ok) w i q = (a, w') \<Longrightarrow> dbMoves cdc ok (lw_db w) (lw_db w')"
    by (auto simp: localRaft_def Let_def catchUp_moves)
  show "SyncRead (localRaft cdc ok) w i q = (Inr ans, w') \<Longrightarrow>
      \<exists>d. dbMoves cdc ok (lw_db w) d \<and> Lookup_query cdc d q = Inr ans \<and> dbMoves cdc ok d (lw_db w')"
    by (rule exI [of _ "lw_db w'"]) (auto simp: localRaft_def Let_def catchUp_moves)
  show "ok cmd \<Longrightarrow> SyncPropose (localRaft cdc ok) w cs cmd = (p, w') \<Longrightarrow> dbMoves cdc ok (lw_db w) (lw_db w')"
    by (auto simp: localRaft_def Let_def catchUp_moves split: prod.splits sum.splits
        intro: dbMoves_trans [OF catchUp_moves [of cdc ok w] dbMoves_step])
  show "ok cmd \<Longrightarrow> SyncPropose (localRaft cdc ok) w cs cmd = (Inr v, w') \<Longrightarrow>
      \<exists>d e. dbMoves cdc ok (lw_db w) d \<and> Update_cmd cdc d cmd = (Inr v, e) \<and> dbMoves cdc ok e (lw_db w')"
    by (rule exI [of _ "lw_db (catchUp cdc ok w)"])
      (auto simp: localRaft_def Let_def catchUp_moves split: prod.splits sum.splits)
qed

text \<open>A codec with the law of the messages.\<close>

definition kvCodec :: codec where
  "kvCodec = sampleCodec\<lparr>mUpdate := (\<lambda>u. case up_KvUpdate u of None \<Rightarrow> [] | Some kv \<Rightarrow> sample_mKV kv),
     uUpdate := (\<lambda>s. map_option kvUpdate (sample_uKV s)),
     mLookup := (\<lambda>q. case lr_KvLookup q of None \<Rightarrow> [] | Some kv \<Rightarrow> kv_Key kv),
     uLookup := (\<lambda>s. Some (kvQuery s)),
     mResponse := (\<lambda>r. case lp_KvResult r of None \<Rightarrow> [] | Some kv \<Rightarrow> sample_mKV kv),
     uResponse := (\<lambda>s. map_option kvAnswer (sample_uKV s))\<rparr>"

lemma kvCodec_law: "kv_messages kvCodec"
  by (simp add: kv_messages_def kv_codec_def kvCodec_def kvUpdate_def kvQuery_def kvAnswer_def sample_kv
      sampleCodec_def)

end
