(* ===== verification/DrummerFacts.thy ===== *)
theory DrummerFacts
  imports Election LaunchFacts RaftService
begin

text \<open>
  The scheduling round of the leader and the loop around it: what a maintenance batch is made of,
  and when the loop acts.
\<close>

section \<open>Maintenance\<close>

definition shardOf :: "NodeHostRequest \<Rightarrow> u64 option" where
  "shardOf q = map_option rq_ShardId (nr_Change q)"

lemma restoredShards_has:
  "restoredShards reqs m = Inr m' \<Longrightarrow>
     (\<forall>k. mhas m' k \<longleftrightarrow> mhas m k \<or> (\<exists>q \<in> set reqs. shardOf q = Some k))"
proof (induction reqs m rule: restoredShards.induct)
  case (2 q reqs m)
  then show ?case by (cases "nr_Change q") (auto simp: panic_def shardOf_def mhas_def mget_mput)
qed simp

lemma validateAll_iff: "validateAll reqs = Inr () \<longleftrightarrow> (\<forall>q \<in> set reqs. valid_request q)"
  by (induction reqs) (auto simp: validate_iff [symmetric] split: sum.splits)

text \<open>A request of one repair is for its shard, and no launch.\<close>

lemma repairShard_shard:
  assumes "repairShard s (toShardRepair t c) pos = (Inr reqs, pos')" and "q \<in> set reqs"
  shows "shardOf q = Some (sh_ShardID c) \<and> \<not> is_launch q"
  using assms
  by (auto simp: repairShard_def getRepairDeleteRequest_def getRepairCreateRequest_def getCreateRequest_def
      getRepairAddRequest_def shardOf_def is_launch_def zero_Request_def panic_def Let_def
      split: sum.splits prod.splits if_splits list.splits option.splits)

lemma repairLoop_shards:
  assumes "repairLoop s restored ccs pos = (Inr reqs, pos')" and "q \<in> set reqs"
    and "\<forall>cc \<in> set ccs. \<exists>t c. cc = toShardRepair t c"
  shows "(\<exists>k. shardOf q = Some k \<and> \<not> mhas restored k) \<and> \<not> is_launch q"
  using assms
proof (induction ccs arbitrary: pos reqs)
  case (Cons cc ccs)
  obtain t c where cc: "cc = toShardRepair t c" using Cons.prems(3) by auto
  show ?case
  proof (cases "mhas restored (sr_shardID cc)")
    case True
    with Cons.prems(1) have "repairLoop s restored ccs pos = (Inr reqs, pos')" by simp
    from Cons.IH [OF this Cons.prems(2)] Cons.prems(3) show ?thesis by simp
  next
    case False
    then obtain rs p rest where rs: "repairShard s cc pos = (Inr rs, p)"
      "repairLoop s restored ccs p = (Inr rest, pos')" "reqs = rs @ rest"
      using Cons.prems(1) by (auto split: sum.splits prod.splits)
    show ?thesis
    proof (cases "q \<in> set rs")
      case True
      with repairShard_shard [of s t c pos rs p q] rs(1) False show ?thesis by (auto simp: cc)
    next
      case in_rest: False
      with Cons.prems(2) rs(3) have "q \<in> set rest" by simp
      from Cons.IH [OF rs(2) this] Cons.prems(3) show ?thesis by simp
    qed
  qed
qed simp

lemma restoreReplicas_launch:
  "restoreReplicas s cc ns = Inr reqs \<Longrightarrow> q \<in> set reqs \<Longrightarrow> nr_Change q \<noteq> None \<and> \<not> is_launch q"
proof (induction ns arbitrary: reqs)
  case (Cons n ns)
  then obtain app rest where rest: "restoreReplicas s cc ns = Inr rest"
    and reqs: "reqs = getRestoreCreateRequest s n (sr_shard cc) app @ rest"
    by (auto split: sum.splits)
  with Cons.IH [OF rest] Cons.prems(2) show ?case
    by (auto simp: getRestoreCreateRequest_def getCreateRequest_def is_launch_def Let_def)
qed simp

lemma restoreUnavailable_launch:
  "restoreUnavailable s ccs m = Inr (reqs, m') \<Longrightarrow> q \<in> set reqs \<Longrightarrow> nr_Change q \<noteq> None \<and> \<not> is_launch q"
proof (induction ccs arbitrary: m reqs)
  case (Cons cc ccs)
  note step = Cons.prems(1) [unfolded restoreUnavailable.simps Let_def]
  consider m2 where "restoreUnavailable s ccs m2 = Inr (reqs, m')"
    | ns rs rest m2 where "restoreReplicas s cc ns = Inr rs"
        "restoreUnavailable s ccs m2 = Inr (rest, m')" "reqs = rs @ rest"
    using step by (auto split: if_splits prod.splits sum.splits)
  then show ?case
  proof cases
    case 1
    then show ?thesis by (rule Cons.IH [OF _ Cons.prems(2)])
  next
    case 2
    from Cons.prems(2) 2(3) have "q \<in> set rs \<or> q \<in> set rest" by simp
    then show ?thesis
      using restoreReplicas_launch [OF 2(1)] Cons.IH [OF 2(2)] by blast
  qed
qed simp

lemma restoreFailedLoop_launch:
  "restoreFailedLoop s ccs m = Inr reqs \<Longrightarrow> q \<in> set reqs \<Longrightarrow> nr_Change q \<noteq> None \<and> \<not> is_launch q"
proof (induction ccs arbitrary: reqs)
  case (Cons cc ccs)
  then show ?case by (auto split: if_splits sum.splits dest: restoreReplicas_launch)
qed simp

lemma restore_launch:
  "restore s = Inr reqs \<Longrightarrow> q \<in> set reqs \<Longrightarrow> nr_Change q \<noteq> None \<and> \<not> is_launch q"
  by (auto simp: restore_def restoreUnavailableShards_def restoreFailed_def split: sum.splits prod.splits
      dest: restoreUnavailable_launch restoreFailedLoop_launch)

text \<open>
  C32. A maintenance batch is the requests of \<open>restore\<close>, then those of \<open>repair\<close> for the shards that
  \<open>restore\<close> asks nothing for, then the kills; no repair in the batch is for a shard being restored in
  it, every request of it passes the self test, and the database takes the batch for what it is, not
  for a launch.
\<close>

theorem maintenance_batch:
  assumes run: "maintainShards s pos = (Inr reqs, pos')"
    and view: "sch_shardsToRepair s = getShardForRepair mc t"
  shows "\<exists>restoring restored repairing. restore s = Inr restoring \<and> repair s restored pos = (Inr repairing, pos') \<and>
    (\<forall>k. mhas restored k \<longleftrightarrow> (\<exists>q \<in> set restoring. shardOf q = Some k)) \<and>
    reqs = restoring @ repairing @ killZombieReplicas s \<and>
    (\<forall>q \<in> set reqs. validateNodeHostRequest q = Inr ()) \<and>
    (\<forall>a \<in> set restoring. \<forall>b \<in> set repairing. shardOf a \<noteq> shardOf b) \<and>
    isLaunchRequests \<lparr>nrc_Requests = reqs\<rparr> = Inr False"
proof -
  obtain rs m ps where rs: "restore s = Inr rs" "restoredShards rs [] = Inr m"
    "repair s m pos = (Inr ps, pos')" "validateAll (rs @ ps @ killZombieReplicas s) = Inr ()"
    "reqs = rs @ ps @ killZombieReplicas s"
    using run by (auto simp: maintainShards_def Let_def split: sum.splits prod.splits)
  have views: "\<forall>cc \<in> set (sch_shardsToRepair s). \<exists>t c. cc = toShardRepair t c"
    unfolding view using in_getShardForRepair by metis
  note ps = repairLoop_shards [OF rs(3) [unfolded repair_def] _ views]
  have m: "mhas m k \<longleftrightarrow> (\<exists>q \<in> set rs. shardOf q = Some k)" for k
    using restoredShards_has [OF rs(2)] by (simp add: mhas_def)
  have restoring: "nr_Change q \<noteq> None \<and> \<not> is_launch q" if "q \<in> set rs" for q
    using restore_launch [OF rs(1) that] .
  have repairing: "nr_Change q \<noteq> None \<and> \<not> is_launch q" if "q \<in> set ps" for q
    using ps [OF that] by (auto simp: shardOf_def)
  have killing: "nr_Change q \<noteq> None \<and> \<not> is_launch q" if "q \<in> set (killZombieReplicas s)" for q
    using that by (auto simp: killZombieReplicas_def getKillRequest_def is_launch_def zero_Request_def)
  have "isLaunchRequests \<lparr>nrc_Requests = reqs\<rparr> = Inr False"
    by (rule isLaunchRequests_none) (use restoring repairing killing in \<open>auto simp: rs(5)\<close>)
  moreover have "shardOf a \<noteq> shardOf b" if "a \<in> set rs" "b \<in> set ps" for a b
    using ps [OF that(2)] m that(1) by auto
  moreover have "\<forall>q \<in> set reqs. validateNodeHostRequest q = Inr ()"
    using rs(4) unfolding rs(5) validateAll_iff validate_iff .
  ultimately show ?thesis using rs(1,3,5) m by blast
qed

text \<open>
  Shard 1 has lost its quorum and is restored; shard 2, of which a replica failed, is repaired in the
  same round. The kill list has a replica of shard 9.
\<close>

definition damagedImage :: multiShard where
  "damagedImage = \<lparr>ms_Shards = [(1, restoreShard), (2, repairShard3\<lparr>sh_ShardID := 2\<rparr>)],
     ms_ReplicasToKill = [\<lparr>tk_ShardID = 9, tk_ReplicaID = 5, tk_Address = ''a2''\<rparr>]\<rparr>"

definition damagedHosts :: "nodeHostSpec list" where
  "damagedHosts = [repairHost ''a1'' 1 70, repairHost ''a2'' 2 70, repairHost ''a3'' 3 5, repairHost ''a4'' 0 70]"

definition damagedScheduler :: scheduler where
  "damagedScheduler = (newScheduler (Some countingRand) zero_Config)\<lparr>sch_tick := 70,
     sch_nodeHostList := damagedHosts, sch_multiNodeHost := \<lparr>mn_Nodehosts = map (\<lambda>h. (nh_Address h, h)) damagedHosts\<rparr>,
     sch_shardsToRepair := getShardForRepair damagedImage 70,
     sch_shards := map (\<lambda>k. \<lparr>sd_Members = [1, 2, 3], sd_ShardId = k, sd_AppName = ''kv''\<rparr>) [1, 2],
     sch_replicasToKill := ms_ReplicasToKill damagedImage\<rparr>"

lemma maintenance_batch_witness:
  "\<exists>restoring restored repairing reqs. maintainShards damagedScheduler 0 = (Inr reqs, 3) \<and>
     restore damagedScheduler = Inr restoring \<and> repair damagedScheduler restored 0 = (Inr repairing, 3) \<and>
     map shardOf restoring = [Some 1, Some 1] \<and> map shardOf repairing = [Some 2] \<and>
     map shardOf reqs = [Some 1, Some 1, Some 2, Some 9]"
proof -
  have "map_sum id (map shardOf) (fst (maintainShards damagedScheduler 0)) = Inr [Some 1, Some 1, Some 2, Some 9] \<and>
      snd (maintainShards damagedScheduler 0) = 3" by code_simp
  then obtain reqs where run: "maintainShards damagedScheduler 0 = (Inr reqs, 3)" "map shardOf reqs = [Some 1, Some 1, Some 2, Some 9]"
    by (cases "maintainShards damagedScheduler 0"; cases "fst (maintainShards damagedScheduler 0)") auto
  have view: "sch_shardsToRepair damagedScheduler = getShardForRepair damagedImage 70"
    by (simp add: damagedScheduler_def)
  have kills: "map shardOf (killZombieReplicas damagedScheduler) = [Some 9]" by code_simp
  have restores: "map_sum id (map shardOf) (restore damagedScheduler) = Inr [Some 1, Some 1]" by code_simp
  from maintenance_batch [OF run(1) view] obtain restoring restored repairing where b:
    "restore damagedScheduler = Inr restoring" "repair damagedScheduler restored 0 = (Inr repairing, 3)"
    "reqs = restoring @ repairing @ killZombieReplicas damagedScheduler" by blast
  then have "map shardOf restoring = [Some 1, Some 1]" using restores by simp
  with b run kills show ?thesis by (intro exI conjI) auto
qed

section \<open>The loop\<close>

text \<open>
  A server that is not the leader does nothing in its rounds but count time, whatever the
  Raft layer.
\<close>

theorem follower_rounds_idle:
  "drummerMain nh cdc (map (Pair False) (replicate n TickEvent)) d =
     (Inr (), d\<lparr>dr_count := dr_count d + of_nat n * tickIntervalSecond\<rparr>)"
proof (induction n arbitrary: d)
  case (Suc n)
  then show ?case by (simp add: drummerMainStep_def Let_def algebra_simps)
qed simp

text \<open>
  A leader ticks in every round and schedules only when twenty seconds have passed since the
  last time: in the rounds before, with the tick succeeding or failing, nothing else happens.
\<close>

theorem leader_ticks_between_schedules:
  assumes "dr_count d + tickIntervalSecond < loopIntervalSecond"
    and "drummer_tick nh cdc (dr_session d, dr_world d) = (r, (su, w))"
    and "\<And>e. r = Inl e \<Longrightarrow> \<exists>err. e = Err err"
  shows "drummerMainStep nh cdc True d =
    (Inr False, d\<lparr>dr_count := dr_count d + tickIntervalSecond, dr_session := su, dr_world := w\<rparr>)"
proof (cases r)
  case (Inl e)
  with assms(3) obtain err where "r = Inl (Err err)" by blast
  with assms(1,2) show ?thesis by (simp add: drummerMainStep_def Let_def withSu_def)
next
  case (Inr v)
  with assms(1,2) show ?thesis by (simp add: drummerMainStep_def Let_def withSu_def)
qed

text \<open>A Raft layer that refuses every proposal, and counts the sessions it closes.\<close>

definition refusingRaft :: "nat raft" where
  "refusingRaft = \<lparr>SyncGetSession = (\<lambda>w _. (Inr sampleSession, w)),
     SyncCloseSession = (\<lambda>w _. (Inr (), Suc w)), SyncPropose = (\<lambda>w _ _. (Inl (Err ErrTimeout), w)),
     SyncRead = (\<lambda>w _ _. (Inl (Err ErrTimeout), w)), ShardIDMatches = (\<lambda>cs i. cs_ShardID cs = i),
     ProposalCompleted = (\<lambda>cs. cs\<lparr>cs_SeriesID := cs_SeriesID cs + 1\<rparr>),
     RequestAddReplica = (\<lambda>w _ _ _ _. (Inl (Err ErrTimeout), w)),
     RequestDeleteReplica = (\<lambda>w _ _ _. (Inl (Err ErrTimeout), w))\<rparr>"

definition idleDrummer :: "nat drummer" where
  "idleDrummer = \<lparr>dr_session = None, dr_world = 0, dr_scheduler = repairScheduler, dr_randPos = 0,
     dr_count = 0, dr_deploymentID = 0\<rparr>"

lemma leader_ticks_between_schedules_witness:
  "drummerMainStep refusingRaft sampleCodec True idleDrummer =
     (Inr False, idleDrummer\<lparr>dr_count := 5, dr_world := 1\<rparr>)"
proof -
  have run: "drummer_tick refusingRaft sampleCodec (dr_session idleDrummer, dr_world idleDrummer) =
      (Inl (Err ErrTimeout), (None, 1))"
    by (simp add: drummer_tick_def proposeWithSession_def getSession_def onWorld_def refusingRaft_def
        idleDrummer_def proposeDrummerUpdate_def sampleSession_def defaultShardID_def resetSession_def)
  show ?thesis
    using leader_ticks_between_schedules [OF _ run] by (simp add: idleDrummer_def)
qed

text \<open>
  The deployment ID the servers agree on is never recorded in the \<open>Drummer\<close> struct: whatever
  the attempts return, the field keeps its value.
\<close>

theorem deployment_id_not_recorded:
  "dr_deploymentID (snd (drummer_setDeploymentID nh cdc attempts d)) = dr_deploymentID d"
  by (cases "deploymentLoop nh cdc attempts (dr_session d, dr_world d)";
      cases "fst (deploymentLoop nh cdc attempts (dr_session d, dr_world d))")
    (auto simp: drummer_setDeploymentID_def withSu_def split: prod.splits)

text \<open>
  The configuration read for a given file does not depend on that file: the list of paths is
  ignored and the configuration directories are searched instead.
\<close>

theorem config_file_ignored:
  "GetShardConfigFromFile openFile parse dirs fp = GetShardConfig openFile parse dirs"
  by (simp add: GetShardConfigFromFile_def GetShardConfig_def getShardConfig_def)

end
