(* ===== verification/SessionFacts.thy ===== *)
theory SessionFacts
  imports RaftService
begin

text \<open>
  How the leader uses its client session: the calls of its proposals, whatever the Raft layer answers,
  are a run of the protocol of a session (\<open>session_discipline\<close>).
\<close>

section \<open>The protocol\<close>

text \<open>The calls a server makes for its session, recorded in a list beside the world of the Raft layer.\<close>

datatype sessionCall = Opened session | NotOpened | Proposed session bool | Closed session

definition recorded :: "('a go \<Rightarrow> sessionCall) \<Rightarrow> sessionCall list \<Rightarrow> 'a go \<times> 'w \<Rightarrow> 'a go \<times> ('w \<times> sessionCall list)" where
  "recorded call tr res = (case res of (r, w) \<Rightarrow> (r, (w, tr @ [call r])))"

definition traced :: "'w raft \<Rightarrow> ('w \<times> sessionCall list) raft" where
  "traced nh = \<lparr>
     SyncGetSession = (\<lambda>(w, tr) k. recorded (\<lambda>r. case r of Inr cs \<Rightarrow> Opened cs | Inl _ \<Rightarrow> NotOpened) tr (SyncGetSession nh w k)),
     SyncCloseSession = (\<lambda>(w, tr) cs. recorded (\<lambda>_. Closed cs) tr (SyncCloseSession nh w cs)),
     SyncPropose = (\<lambda>(w, tr) cs cmd. recorded (\<lambda>r. Proposed cs (\<exists>v. r = Inr v)) tr (SyncPropose nh w cs cmd)),
     SyncRead = (\<lambda>(w, tr) k q. (case SyncRead nh w k q of (r, w1) \<Rightarrow> (r, (w1, tr)))),
     ShardIDMatches = ShardIDMatches nh, ProposalCompleted = ProposalCompleted nh,
     RequestAddReplica = (\<lambda>(w, tr) i j a c. (case RequestAddReplica nh w i j a c of (r, w1) \<Rightarrow> (r, (w1, tr)))),
     RequestDeleteReplica = (\<lambda>(w, tr) i j c. (case RequestDeleteReplica nh w i j c of (r, w1) \<Rightarrow> (r, (w1, tr))))\<rparr>"

text \<open>
  The protocol of a client session: one is opened when none is held, proposed with and advanced as long
  as the proposals succeed, and after a failed proposal closed, before anything else is called.
\<close>

datatype holding = Idle | Held session | Spent session

fun protocolStep :: "'w raft \<Rightarrow> holding \<Rightarrow> sessionCall \<Rightarrow> holding option" where
  "protocolStep nh Idle NotOpened = Some Idle"
| "protocolStep nh Idle (Opened cs) = Some (Held cs)"
| "protocolStep nh (Held cs) (Proposed cs' ok) =
     (if cs' \<noteq> cs then None else if ok then Some (Held (ProposalCompleted nh cs)) else Some (Spent cs))"
| "protocolStep nh (Spent cs) (Closed cs') = (if cs' = cs then Some Idle else None)"
| "protocolStep nh _ _ = None"

fun protocol :: "'w raft \<Rightarrow> holding \<Rightarrow> sessionCall list \<Rightarrow> holding option" where
  "protocol nh h [] = Some h"
| "protocol nh h (c # tr) = Option.bind (protocolStep nh h c) (\<lambda>h1. protocol nh h1 tr)"

lemma protocol_append: "protocol nh h (xs @ ys) = Option.bind (protocol nh h xs) (\<lambda>h1. protocol nh h1 ys)"
  by (induction xs arbitrary: h) (auto split: bind_splits)

definition holdingOf :: "session option \<Rightarrow> holding" where
  "holdingOf su = (case su of None \<Rightarrow> Idle | Some cs \<Rightarrow> Held cs)"

definition succeeded :: "'a go \<Rightarrow> bool" where
  "succeeded r \<longleftrightarrow> (\<exists>v. r = Inr v)"

definition accepts :: "sessionCall \<Rightarrow> bool" where
  "accepts c \<longleftrightarrow> (\<exists>cs. c = Proposed cs True)"

definition ended :: "'a go \<Rightarrow> bool" where
  "ended r \<longleftrightarrow> (\<forall>p. r \<noteq> Inl (Panic p)) \<and> r \<noteq> Inl Diverges"

text \<open>Proposals in sequence, each with its result; a panic or a call that never returns ends it.\<close>

fun proposals :: "'w raft \<Rightarrow> codec \<Rightarrow> Update list \<Rightarrow> 'w su \<Rightarrow> u64 go list \<times> 'w su" where
  "proposals nh cdc [] st = ([], st)"
| "proposals nh cdc (u # us) st =
     (case proposeWithSession nh cdc u st of (r, st1) \<Rightarrow>
        (if ended r then (case proposals nh cdc us st1 of (rs, st2) \<Rightarrow> (r # rs, st2)) else ([r], st1)))"

section \<open>The calls of the proposals\<close>

lemma goCases:
  obtains (ok) v where "r = Inr v" | (err) e where "r = Inl (Err e)" | (broken) "\<not> ended r"
  by (cases r; (cases "projl r")?) (auto simp: ended_def)

lemma ended_simps [simp]:
  "ended (Inr v)" "ended (Inl (Err e))" "\<not> ended (Inl (Panic p))" "\<not> ended (Inl Diverges)" "\<not> ended (panic p)"
  by (simp_all add: ended_def panic_def)

lemma succeeded_simps [simp]: "succeeded (Inr v)" "\<not> succeeded (Inl e)"
  by (simp_all add: succeeded_def)

lemma accepts_simps [simp]:
  "accepts (Proposed cs ok) = ok" "\<not> accepts (Opened cs)" "\<not> accepts NotOpened" "\<not> accepts (Closed cs)"
  by (simp_all add: accepts_def)

lemma traced_simps [simp]:
  "SyncGetSession (traced nh) (w, tr) k =
     recorded (\<lambda>r. case r of Inr cs \<Rightarrow> Opened cs | Inl _ \<Rightarrow> NotOpened) tr (SyncGetSession nh w k)"
  "SyncCloseSession (traced nh) (w, tr) cs = recorded (\<lambda>_. Closed cs) tr (SyncCloseSession nh w cs)"
  "SyncPropose (traced nh) (w, tr) cs cmd = recorded (\<lambda>r. Proposed cs (\<exists>v. r = Inr v)) tr (SyncPropose nh w cs cmd)"
  "ShardIDMatches (traced nh) = ShardIDMatches nh" "ProposalCompleted (traced nh) = ProposalCompleted nh"
  by (simp_all add: traced_def)

text \<open>What a step with a held session calls, and one without.\<close>

definition follows :: "'w raft \<Rightarrow> session option \<Rightarrow> sessionCall list \<Rightarrow> u64 go \<Rightarrow> session option \<Rightarrow> bool" where
  "follows nh su new r su' \<longleftrightarrow> (\<exists>h. protocol nh (holdingOf su) new = Some h \<and> (ended r \<longrightarrow> h = holdingOf su')) \<and>
     length (filter accepts new) = (if succeeded r then 1 else 0)"

definition withSession :: "'w raft \<Rightarrow> codec \<Rightarrow> Update \<Rightarrow> session \<Rightarrow> 'w su \<Rightarrow> u64 go \<times> 'w su" where
  "withSession nh cdc u cs st1 = onError (onWorld (proposeDrummerUpdate nh cdc cs u) st1)
     (\<lambda>err st2. thenDo (resetSession nh st2) (\<lambda>_ st3. (Inl (Err err), st3)))
     (\<lambda>v st2. thenDo (clientProposalCompleted nh st2) (\<lambda>_ st3. (Inr v, st3)))"

lemma proposeWithSession_held: "proposeWithSession nh cdc u (Some cs, w) = withSession nh cdc u cs (Some cs, w)"
  by (simp add: proposeWithSession_def withSession_def getSession_def)

lemma held_follows:
  assumes "withSession (traced nh) cdc u cs (Some cs, (w, tr)) = (r, (su', (w', tr')))"
  shows "withSession nh cdc u cs (Some cs, w) = (r, (su', w')) \<and> (\<exists>new. tr' = tr @ new \<and> follows nh (Some cs) new r su')"
proof (cases "ShardIDMatches nh cs defaultShardID")
  case False
  with assms show ?thesis
    by (auto simp: withSession_def proposeDrummerUpdate_def onWorld_def panic_def follows_def holdingOf_def)
next
  case True
  obtain x w1 where p: "SyncPropose nh w cs (mUpdate cdc u) = (x, w1)" by fastforce
  obtain y w2 where c: "SyncCloseSession nh w1 cs = (y, w2)" by fastforce
  show ?thesis
  proof (cases x rule: goCases)
    case (ok v)
    with True p assms show ?thesis
      by (auto simp: withSession_def proposeDrummerUpdate_def onWorld_def recorded_def clientProposalCompleted_def
          follows_def holdingOf_def)
  next
    case (err e)
    show ?thesis
    proof (cases y rule: goCases)
      case broken
      then obtain f where "y = Inl f" "\<not> ended (Inl f :: unit go)" by (cases y) auto
      with True p c err assms show ?thesis
        by (cases f) (auto simp: withSession_def proposeDrummerUpdate_def onWorld_def recorded_def resetSession_def
            follows_def holdingOf_def)
    qed (use True p c err assms in \<open>auto simp: withSession_def proposeDrummerUpdate_def onWorld_def recorded_def
            resetSession_def follows_def holdingOf_def\<close>)
  next
    case broken
    then obtain f where "x = Inl f" "\<not> ended (Inl f :: u64 go)" by (cases x) auto
    with True p assms show ?thesis
      by (cases f) (auto simp: withSession_def proposeDrummerUpdate_def onWorld_def recorded_def follows_def holdingOf_def)
  qed
qed

lemma proposal_follows:
  assumes "proposeWithSession (traced nh) cdc u (su, (w, tr)) = (r, (su', (w', tr')))"
  shows "proposeWithSession nh cdc u (su, w) = (r, (su', w')) \<and> (\<exists>new. tr' = tr @ new \<and> follows nh su new r su')"
proof (cases su)
  case (Some cs)
  with assms held_follows show ?thesis by (simp add: proposeWithSession_held)
next
  case None
  obtain x w1 where g: "SyncGetSession nh w defaultShardID = (x, w1)" by fastforce
  show ?thesis
  proof (cases x rule: goCases)
    case (ok cs)
    have "withSession (traced nh) cdc u cs (Some cs, (w1, tr @ [Opened cs])) = (r, (su', (w', tr')))"
      using assms g ok None
      by (simp add: proposeWithSession_def withSession_def getSession_def onWorld_def recorded_def)
    from held_follows [OF this] obtain new where
      "withSession nh cdc u cs (Some cs, w1) = (r, (su', w'))" "tr' = tr @ (Opened cs # new)" "follows nh (Some cs) new r su'"
      by auto
    moreover have "proposeWithSession nh cdc u (None, w) = withSession nh cdc u cs (Some cs, w1)"
      using g ok by (simp add: proposeWithSession_def withSession_def getSession_def onWorld_def)
    ultimately show ?thesis using None by (auto simp: follows_def holdingOf_def)
  next
    case (err e)
    with assms g None show ?thesis
      by (auto simp: proposeWithSession_def getSession_def onWorld_def recorded_def follows_def holdingOf_def)
  next
    case broken
    then obtain f where "x = Inl f" "\<not> ended (Inl f :: session go)" by (cases x) auto
    with assms g None show ?thesis
      by (cases f) (auto simp: proposeWithSession_def getSession_def onWorld_def recorded_def follows_def holdingOf_def)
  qed
qed

lemma proposals_follow:
  "proposals (traced nh) cdc us (su, (w, tr)) = (rs, (su', (w', tr'))) \<Longrightarrow>
     proposals nh cdc us (su, w) = (rs, (su', w')) \<and>
     (\<exists>new h. tr' = tr @ new \<and> protocol nh (holdingOf su) new = Some h \<and> (list_all ended rs \<longrightarrow> h = holdingOf su') \<and>
        length (filter accepts new) = length (filter succeeded rs))"
proof (induction us arbitrary: su w tr rs)
  case (Cons u us)
  obtain r su1 w1 tr1 where one: "proposeWithSession (traced nh) cdc u (su, (w, tr)) = (r, (su1, (w1, tr1)))"
    by (metis surj_pair)
  from proposal_follows [OF this] obtain new h where step: "proposeWithSession nh cdc u (su, w) = (r, (su1, w1))"
    "tr1 = tr @ new" "protocol nh (holdingOf su) new = Some h" "ended r \<Longrightarrow> h = holdingOf su1"
    "length (filter accepts new) = (if succeeded r then 1 else 0)"
    by (auto simp: follows_def)
  show ?case
  proof (cases "ended r")
    case False
    with Cons.prems one step show ?thesis by auto
  next
    case True
    obtain rs1 where rest: "proposals (traced nh) cdc us (su1, (w1, tr1)) = (rs1, (su', (w', tr')))" "rs = r # rs1"
      using Cons.prems one True by (auto split: prod.splits)
    from Cons.IH [OF rest(1)] obtain more h' where "proposals nh cdc us (su1, w1) = (rs1, (su', w'))"
      "tr' = tr1 @ more" "protocol nh (holdingOf su1) more = Some h'" "list_all ended rs1 \<Longrightarrow> h' = holdingOf su'"
      "length (filter accepts more) = length (filter succeeded rs1)" by auto
    with True step rest(2) show ?thesis by (auto simp: protocol_append)
  qed
qed (auto simp: holdingOf_def split: option.split)

text \<open>
  C33. The proposals of a leader that starts without a session follow the protocol, whatever the Raft layer
  answers to each call: it opens a session when it holds none, proposes with the one it holds, advances it
  when the proposal succeeds, and closes it right after a failed proposal, so that a session is never used
  again after one and none is left open beside the one it holds. Each proposal with a result was accepted once.
  When all calls returned, the session it holds is the one that the calls leave open. Recording the calls
  changes nothing else.
\<close>

theorem session_discipline:
  assumes "proposals (traced nh) cdc us (None, (w, [])) = (rs, (su, (w', calls)))"
  shows "proposals nh cdc us (None, w) = (rs, (su, w')) \<and>
    (\<exists>h. protocol nh Idle calls = Some h \<and> (list_all ended rs \<longrightarrow> h = (case su of None \<Rightarrow> Idle | Some cs \<Rightarrow> Held cs))) \<and>
    length (filter accepts calls) = length (filter succeeded rs)"
  using proposals_follow [OF assms] by (auto simp: holdingOf_def)

text \<open>A Raft layer that accepts every other proposal.\<close>

definition moodyRaft :: "nat raft" where
  "moodyRaft = \<lparr>SyncGetSession = (\<lambda>w _. (Inr sampleSession, w)),
     SyncCloseSession = (\<lambda>w _. (Inr (), w)),
     SyncPropose = (\<lambda>w _ _. (if even w then Inr 1 else Inl (Err ErrTimeout), Suc w)),
     SyncRead = (\<lambda>w _ _. (Inl (Err ErrTimeout), w)), ShardIDMatches = (\<lambda>cs i. cs_ShardID cs = i),
     ProposalCompleted = (\<lambda>cs. cs\<lparr>cs_SeriesID := cs_SeriesID cs + 1\<rparr>),
     RequestAddReplica = (\<lambda>w _ _ _ _. (Inl (Err ErrTimeout), w)),
     RequestDeleteReplica = (\<lambda>w _ _ _. (Inl (Err ErrTimeout), w))\<rparr>"

lemma session_discipline_witness:
  "\<exists>rs su w calls. proposals (traced moodyRaft) sampleCodec (replicate 3 zero_Update) (None, (0, [])) = (rs, (su, (w, calls))) \<and>
     length calls = 6 \<and> protocol moodyRaft Idle calls \<noteq> None \<and> length (filter accepts calls) = 2"
proof -
  obtain rs su w calls where run: "proposals (traced moodyRaft) sampleCodec (replicate 3 zero_Update) (None, (0, [])) = (rs, (su, (w, calls)))"
    by (metis surj_pair)
  have "map succeeded (fst (proposals (traced moodyRaft) sampleCodec (replicate 3 zero_Update) (None, (0, [])))) = [True, False, True] \<and>
      length (snd (snd (snd (proposals (traced moodyRaft) sampleCodec (replicate 3 zero_Update) (None, (0, [])))))) = 6"
    by (simp add: numeral_3_eq_3 proposeWithSession_def getSession_def onWorld_def traced_def recorded_def moodyRaft_def
        proposeDrummerUpdate_def sampleSession_def defaultShardID_def clientProposalCompleted_def resetSession_def)
  then have "map succeeded rs = [True, False, True]" "length calls = 6" unfolding run by simp_all
  moreover have "length (filter succeeded rs) = length (filter id (map succeeded rs))" by (simp add: filter_map comp_def)
  ultimately show ?thesis using session_discipline [OF run] run by (intro exI [of _ rs] exI conjI) auto
qed

end
