(* ===== verification/ElectionFacts.thy ===== *)
theory ElectionFacts
  imports Election RaftService
begin

text \<open>
  The election: when a follower declares the leader dead, that whoever leads was recorded as the
  leader in the replicated database at some point of the round, and what a renewal that lost a
  race does.
\<close>

section \<open>Watching the leader\<close>

text \<open>The equal records at the end of what was observed.\<close>

definition staticSuffix :: "(u64 \<times> u64) list \<Rightarrow> nat" where
  "staticSuffix obs = (case rev obs of [] \<Rightarrow> 0 | o1 # os \<Rightarrow> length (takeWhile ((=) o1) os))"

definition observe :: "u64 \<times> u64 \<Rightarrow> 'w electionManager \<Rightarrow> unit go \<times> 'w electionManager" where
  "observe kt d = setLeaderInfo \<lparr>ld_instanceID = fst kt, ld_tick = snd kt, ld_staticRound = 0\<rparr> d"

definition watched :: "(u64 \<times> u64) list \<Rightarrow> 'w electionManager \<Rightarrow> bool" where
  "watched obs d \<longleftrightarrow> (if obs = [] then em_currentLeader d = None
     else em_currentLeader d = Some \<lparr>ld_instanceID = fst (last obs), ld_tick = snd (last obs),
       ld_staticRound = of_nat (staticSuffix obs)\<rparr>)"

lemma staticSuffix_snoc:
  "staticSuffix (obs @ [x]) = (if obs \<noteq> [] \<and> last obs = x then Suc (staticSuffix obs) else 0)"
  by (cases obs rule: rev_cases) (auto simp: staticSuffix_def)

lemma staticSuffix_le: "staticSuffix obs \<le> length obs"
  by (cases obs rule: rev_cases)
    (auto simp: staticSuffix_def intro: le_SucI order.trans [OF length_takeWhile_le])

lemma observe_watched:
  assumes "watched obs d" and "observe kt d = (Inr r, d')"
  shows "watched (obs @ [kt]) d'"
  using assms
  by (cases kt; cases "last obs")
    (auto simp: watched_def observe_def setLeaderInfo_def staticSuffix_snoc panic_def
      split: if_splits)

lemma foreach_watched:
  "watched obs d \<Longrightarrow> foreach observe later d = (Inr r, d') \<Longrightarrow> watched (obs @ later) d'"
proof (induction later arbitrary: obs d)
  case (Cons kt later)
  obtain a d1 where step: "observe kt d = (Inr a, d1)"
    using Cons.prems(2) by (cases "observe kt d"; cases "fst (observe kt d)") auto
  from Cons.IH [OF observe_watched [OF Cons.prems(1) step]] Cons.prems(2) step show ?case by simp
qed simp

text \<open>
  C38. A follower that has just forgotten its leader and then reads the records \<open>obs\<close> declares the
  leader dead exactly when the last record was read at least four times more without change.
\<close>

theorem dead_after_static_rounds:
  assumes "em_currentLeader d = None" and "foreach observe obs d = (Inr (), d')"
    and "length obs < 2 ^ 64"
  shows "leaderDead d' \<longleftrightarrow> 4 \<le> staticSuffix obs"
proof -
  have w: "watched obs d'"
    using foreach_watched [of "[]" d obs] assms(1,2) by (simp add: watched_def)
  have "staticSuffix obs < 2 ^ 64" using staticSuffix_le [of obs] assms(3) by linarith
  then have "unat (of_nat (staticSuffix obs) :: u64) = staticSuffix obs" by (simp add: unat_of_nat)
  with w show ?thesis
    by (cases "obs = []")
      (auto simp: watched_def leaderDead_def deadLeaderMinRound_def word_less_nat_alt staticSuffix_def [of "[]"])
qed

lemma dead_after_static_rounds_witness:
  "leaderDead (snd (foreach observe [(7, 1), (7, 2), (7, 2), (7, 2), (7, 2), (7, 2)]
     (newElectionManager 9 (0 :: nat))))"
proof -
  let ?obs = "[(7, 1), (7, 2), (7, 2), (7, 2), (7, 2), (7, 2)] :: (u64 \<times> u64) list"
  have run: "foreach observe ?obs (newElectionManager 9 (0 :: nat)) =
      (Inr (), snd (foreach observe ?obs (newElectionManager 9 (0 :: nat))))"
    by (simp add: observe_def setLeaderInfo_def newElectionManager_def)
  have "4 \<le> staticSuffix ?obs" by (simp add: staticSuffix_def)
  with dead_after_static_rounds [OF _ run] show ?thesis by (simp add: newElectionManager_def)
qed

section \<open>Invariants of a round\<close>

definition recordedLeader :: "codec \<Rightarrow> db \<Rightarrow> u64" where
  "recordedLeader cdc d = kv_InstanceId (recordAt cdc d electionKey)"

context raft_service
begin

text \<open>Where a server and its world stand after some calls.\<close>

definition onward :: "'w electionManager \<Rightarrow> 'w electionManager \<Rightarrow> bool" where
  "onward d d' \<longleftrightarrow> dbMoves cdc ok (dbOf (em_world d)) (dbOf (em_world d')) \<and>
     em_instanceID d' = em_instanceID d \<and> em_state d' = em_state d"

lemma onward_refl [simp]: "onward d d"
  by (simp add: onward_def)

lemma onward_trans: "onward a b \<Longrightarrow> onward b c \<Longrightarrow> onward a c"
  by (auto simp: onward_def intro: dbMoves_trans)

lemma su_moves:
  assumes "\<And>st. dbMoves cdc ok (dbOf (snd st)) (dbOf (snd (snd (f st))))"
  shows "onward d (snd (emSu f d))"
proof -
  obtain r su w where "f (em_session d, em_world d) = (r, (su, w))" by (metis surj_pair)
  with assms [of "(em_session d, em_world d)"] show ?thesis by (simp add: emSu_def onward_def)
qed

lemma getSession_moves: "onward d (snd (emSu (getSession nh) d))"
  by (rule su_moves) (rule session_moves)

lemma resetSession_moves: "onward d (snd (emSu (resetSession nh) d))"
  by (rule su_moves) (rule reset_moves)

lemma completed_moves: "onward d (snd (emSu (clientProposalCompleted nh) d))"
  by (rule su_moves) simp

lemma vote_moves:
  assumes "ok (mUpdate cdc (kvUpdate kv))"
  shows "onward d (snd (emWorld (makeDrummerVote nh cdc cs kv) d))"
proof -
  obtain p w' where "makeDrummerVote nh cdc cs kv (em_world d) = (p, w')" by fastforce
  with proposeUpdate_sent [OF assms, of cs "em_world d" p w'] show ?thesis
    by (simp add: emWorld_def onward_def makeDrummerVote_def kvUpdate_def)
qed

text \<open>A read of the election record.\<close>

lemma electionInfo_query: "getElectionInfo nh cdc w =
    thenDo (lookupDB nh cdc (kvQuery electionKey) w) (\<lambda>resp w1. (Inr (lp_KvResult resp), w1))"
  by (simp add: getElectionInfo_def kvQuery_def)

lemma electionInfo_moves: "onward d (snd (emWorld (getElectionInfo nh cdc) d))"
proof -
  obtain r w' where q: "lookupDB nh cdc (kvQuery electionKey) (em_world d) = (r, w')" by fastforce
  then show ?thesis
    using query_moves [OF q] by (cases r) (simp_all add: emWorld_def onward_def electionInfo_query q)
qed

lemma electionInfo_read:
  assumes "kv_messages cdc" and "emWorld (getElectionInfo nh cdc) d = (Inr (Some kv), d')"
  shows "\<exists>e. dbMoves cdc ok (dbOf (em_world d)) e \<and> recordedLeader cdc e = kv_InstanceId kv \<and>
    dbMoves cdc ok e (dbOf (em_world d'))"
proof -
  obtain r w' where q: "lookupDB nh cdc (kvQuery electionKey) (em_world d) = (r, w')" by fastforce
  then obtain resp where r: "r = Inr resp" "lp_KvResult resp = Some kv" "em_world d' = w'"
    using assms(2) by (cases r) (auto simp: emWorld_def electionInfo_query)
  from record_read [OF assms(1) q [unfolded r(1)]] r show ?thesis
    by (auto simp: kvAnswer_def recordedLeader_def)
qed

text \<open>
  What a round of the server \<open>d\<close> may have brought about: its world went on, and if the server
  leads, the election record was its own at some point on the way.
\<close>

definition further :: "'w electionManager \<Rightarrow> 'w electionManager \<Rightarrow> bool" where
  "further d t \<longleftrightarrow> dbMoves cdc ok (dbOf (em_world d)) (dbOf (em_world t)) \<and> em_instanceID t = em_instanceID d"

definition ruled :: "'w electionManager \<Rightarrow> 'w electionManager \<Rightarrow> bool" where
  "ruled d t \<longleftrightarrow> further d t \<and>
     (em_isLeader t \<longrightarrow> (\<exists>e. dbMoves cdc ok (dbOf (em_world d)) e \<and>
        recordedLeader cdc e = em_instanceID d \<and> dbMoves cdc ok e (dbOf (em_world t))))"

lemma further_refl: "further d d"
  by (simp add: further_def)

lemma further_onward: "further d t \<Longrightarrow> onward t u \<Longrightarrow> further d u"
  unfolding further_def onward_def by (metis dbMoves_trans)

lemma further_follower: "further d t \<Longrightarrow> further d (resetFollower t)" "further d t \<Longrightarrow> further d (becomeFollower l t)"
  by (auto simp: further_def resetFollower_def becomeFollower_def)

lemma ruled_refl: "\<not> em_isLeader d \<Longrightarrow> ruled d d"
  by (simp add: ruled_def further_refl)

lemma ruled_further: "ruled d t \<Longrightarrow> further d t"
  by (simp add: ruled_def)

lemma ruled_onward: "ruled d t \<Longrightarrow> onward t u \<Longrightarrow> ruled d u"
  unfolding ruled_def onward_def em_isLeader_def further_def by (metis dbMoves_trans)

lemma ruled_follower: "ruled d t \<Longrightarrow> ruled d (resetFollower t)" "ruled d t \<Longrightarrow> ruled d (becomeFollower l t)"
  by (auto simp: ruled_def further_def em_isLeader_def resetFollower_def becomeFollower_def)

lemma ruled_watch: "ruled d t \<Longrightarrow> ruled d (snd (setLeaderInfo l t))"
  by (auto simp: ruled_def further_def em_isLeader_def setLeaderInfo_def split: option.splits)

lemma ruled_reader:
  assumes "kv_messages cdc" and "emWorld (getElectionInfo nh cdc) t = (Inr info, u)" and "info = Some kv"
    and "further d t" and "kv_InstanceId kv = em_instanceID u" and "further u v"
  shows "ruled d v"
proof -
  obtain e where e: "dbMoves cdc ok (dbOf (em_world t)) e" "recordedLeader cdc e = kv_InstanceId kv"
    "dbMoves cdc ok e (dbOf (em_world u))"
    using electionInfo_read [OF assms(1) assms(2) [unfolded assms(3)]] by blast
  have "em_instanceID u = em_instanceID t"
    using electionInfo_moves [of t] assms(2) by (simp add: onward_def)
  with assms(4-6) e show ?thesis
    unfolding ruled_def further_def by simp (metis dbMoves_trans)
qed

lemma ruled_leader:
  assumes "kv_messages cdc" and "emWorld (getElectionInfo nh cdc) t = (Inr info, u)" and "info = Some kv"
    and "ruled d t" and "kv_InstanceId kv = em_instanceID u" and "further u v"
  shows "ruled d (becomeLeader v)"
  by (rule ruled_reader [OF assms(1-3) ruled_further [OF assms(4)] assms(5)])
    (use assms(6) in \<open>simp add: further_def becomeLeader_def\<close>)

lemmas ruled_calls = ruled_onward [OF _ getSession_moves] ruled_onward [OF _ resetSession_moves]
  ruled_onward [OF _ completed_moves] ruled_onward [OF _ electionInfo_moves] ruled_onward [OF _ vote_moves]
  ruled_follower

lemmas further_calls = further_onward [OF _ getSession_moves] further_onward [OF _ resetSession_moves]
  further_onward [OF _ completed_moves] further_onward [OF _ vote_moves] further_follower

text \<open>The rounds, given that every vote is a command the log admits.\<close>

lemma renewLeadership_ruled:
  assumes votes: "\<And>kv. ok (mUpdate cdc (kvUpdate kv))" and start: "ruled d t"
  shows "ruled d (snd (renewLeadership nh cdc tick t))"
  unfolding renewLeadership_def
  by (rule thenDo_inv [where I = "ruled d"] onError_inv [where I = "ruled d"] ruled_calls start votes
      | simp split: option.split | intro conjI impI allI)+

lemma renewLeadership_further:
  assumes votes: "\<And>kv. ok (mUpdate cdc (kvUpdate kv))" and start: "further d t"
  shows "further d (snd (renewLeadership nh cdc tick t))"
  unfolding renewLeadership_def
  by (rule thenDo_inv [where I = "further d"] onError_inv [where I = "further d"] further_calls votes start
      | simp split: option.split | intro conjI impI allI)+

lemma campaign_ruled:
  assumes votes: "\<And>kv. ok (mUpdate cdc (kvUpdate kv))" and law: "kv_messages cdc" and start: "ruled d t"
  shows "ruled d (snd (campaign nh cdc tick t))"
  unfolding campaign_def Let_def
  by (rule thenDo_inv [where I = "ruled d"] onError_inv [where I = "ruled d"] ruled_calls start votes
      ruled_leader [OF law _ _ _ _ further_refl]
      | assumption | simp split: option.split | intro conjI impI allI)+

lemma followerMain_ruled:
  assumes votes: "\<And>kv. ok (mUpdate cdc (kvUpdate kv))" and law: "kv_messages cdc" and start: "ruled d d"
  shows "ruled d (snd (followerMain nh cdc tick d))"
proof -
  have own: "ruled d (snd (onError (renewLeadership nh cdc tick u) (\<lambda>err d2. (Inr (), resetFollower d2))
      (\<lambda>_ d2. (Inr (), becomeLeader d2))))"
    if read: "emWorld (getElectionInfo nh cdc) d = (Inr (Some kv), u)" and "kv_InstanceId kv = em_instanceID u"
      and u: "ruled d u" for kv u
  proof (rule onError_inv [where I = "ruled d"])
    show "ruled d (snd (renewLeadership nh cdc tick u))" by (rule renewLeadership_ruled [OF votes u])
  next
    fix a v assume "renewLeadership nh cdc tick u = (Inr a, v)"
    then have "further u v" using renewLeadership_further [OF votes further_refl, of u tick] by simp
    then show "ruled d (snd (Inr (), becomeLeader v))"
      using ruled_leader [OF law read refl start that(2)] by simp
  qed (simp add: ruled_follower)
  show ?thesis
    unfolding followerMain_def
    apply (rule onError_inv [where I = "ruled d"], rule ruled_onward [OF start electionInfo_moves])
    by (rule own ruled_follower
        thenDo_inv [where I = "ruled d"] campaign_ruled [OF votes law] ruled_watch
        | assumption | simp split: option.split | intro conjI impI allI)+
qed

lemma leaderMain_ruled:
  assumes votes: "\<And>kv. ok (mUpdate cdc (kvUpdate kv))" and law: "kv_messages cdc"
    and run: "leaderMain nh cdc tick d = (Inr r, d')"
  shows "ruled d d'"
proof -
  obtain x u where read: "emWorld (getElectionInfo nh cdc) d = (x, u)" by fastforce
  have u: "further d u" using further_onward [OF further_refl electionInfo_moves, of d] read by simp
  have follows: "ruled d (becomeFollower l u)" for l
    using further_follower(2) [OF u] by (simp add: ruled_def em_isLeader_def becomeFollower_def)
  consider err where "x = Inl (Err err)" "d' = becomeFollower None u"
    | kv l where "x = Inr (Some kv)" "d' = becomeFollower l u"
    | kv where "x = Inr (Some kv)" "kv_InstanceId kv = em_instanceID u"
        "d' = snd (renewLeadership nh cdc tick u)"
  proof -
    obtain y v where renew: "renewLeadership nh cdc tick u = (y, v)" by fastforce
    show thesis
      using run that unfolding leaderMain_def read
      by (cases x; cases "projl x"; cases y; cases "projl y") (auto simp: panic_def renew split: option.splits if_splits)
  qed
  then show ?thesis
  proof cases
    case (3 kv)
    show ?thesis
      using ruled_reader [OF law read [unfolded 3(1)] refl further_refl 3(2)
          renewLeadership_further [OF votes further_refl]] 3(3) by simp
  qed (simp_all add: follows)
qed

lemma workerTick_ruled:
  assumes "\<And>kv. ok (mUpdate cdc (kvUpdate kv))" and "kv_messages cdc"
    and "workerTick nh cdc tick d = (Inr r, d')"
  shows "ruled d d'"
proof (cases "em_isLeader d")
  case True
  with assms(3) obtain a where "leaderMain nh cdc tick d = (Inr a, d')"
    by (cases "leaderMain nh cdc tick d"; cases "fst (leaderMain nh cdc tick d)") (auto simp: workerTick_def)
  then show ?thesis by (rule leaderMain_ruled [OF assms(1,2)])
next
  case False
  with assms(3) have "d' = snd (followerMain nh cdc tick d)"
    by (cases "followerMain nh cdc tick d"; cases "fst (followerMain nh cdc tick d)") (auto simp: workerTick_def)
  then show ?thesis using followerMain_ruled [OF assms(1,2) ruled_refl [OF False]] by simp
qed

end

section \<open>Who leads\<close>

text \<open>
  C3. Over any Raft layer that keeps its contract, a server that ends a round as the leader was the
  recorded leader of the replicated database at some point of the log the round went through,
  whatever the other servers committed meanwhile; so a server leads without the record for the
  rest of a round at most.
\<close>

theorem leaders_were_recorded:
  assumes "raft_service nh cdc ok dbOf" and "kv_messages cdc" and "\<And>kv. ok (mUpdate cdc (kvUpdate kv))"
    and "workerTick nh cdc tick d = (Inr r, d')" and "em_isLeader d'"
  shows "\<exists>e. dbMoves cdc ok (dbOf (em_world d)) e \<and> recordedLeader cdc e = em_instanceID d' \<and>
    dbMoves cdc ok e (dbOf (em_world d'))"
proof -
  note rules = raft_service.ruled_def [OF assms(1)] raft_service.further_def [OF assms(1)]
  show ?thesis
    using raft_service.workerTick_ruled [OF assms(1,3,2,4)] assms(5) by (simp add: rules)
qed

text \<open>A server alone with its database takes the vacant lead.\<close>

definition loneServer :: "localWorld electionManager" where
  "loneServer = newElectionManager 9 \<lparr>lw_others = [], lw_db = NewDB 0 1\<rparr>"

lemma leaders_were_recorded_witness:
  "\<exists>e. dbMoves kvCodec (\<lambda>_. True) (NewDB 0 1) e \<and> recordedLeader kvCodec e = 9"
proof -
  let ?round = "workerTick (localRaft kvCodec (\<lambda>_. True)) kvCodec 1 loneServer"
  have run: "fst ?round = Inr False \<and> em_isLeader (snd ?round) \<and> em_instanceID (snd ?round) = 9"
    by code_simp
  then have "?round = (Inr False, snd ?round)" by (metis prod.collapse)
  from leaders_were_recorded [OF local_raft.raft_service_axioms kvCodec_law _ this] run
  show ?thesis by (auto simp: loneServer_def newElectionManager_def)
qed

text \<open>A vote of server 8 that replaces the record of server 9 before its renewal arrives.\<close>

definition stolenVote :: string where
  "stolenVote = mUpdate kvCodec (kvUpdate (voteKV 8 9 5))"

definition racedServer :: "localWorld electionManager" where
  "racedServer = newElectionManager 9 \<lparr>lw_others = [[mUpdate kvCodec (kvUpdate (voteKV 9 0 4))], [stolenVote]],
     lw_db = NewDB 0 1\<rparr>"

text \<open>
  A renewal that loses a race still makes its server the leader: between the read that shows
  server 9 its own record and its renewal, server 8 commits a vote that replaces it; the renewal is
  rejected, \<open>renewLeadership\<close> returns no error all the same, and both the record names server 8
  and server 9 leads until its next round.
\<close>

theorem rejected_renewal_leads:
  "let (r, d') = workerTick (localRaft kvCodec (\<lambda>_. True)) kvCodec 1 racedServer in
     r = Inr False \<and> em_isLeader d' \<and> em_instanceID d' = 9 \<and>
     recordedLeader kvCodec (lw_db (em_world d')) = 8"
  by code_simp

end
