(* ===== verification/ServerFacts.thy ===== *)
theory ServerFacts
  imports RaftService
begin

text \<open>
  The servers over the replicated database: every server that sets or looks up the deployment ID gets the same one.
\<close>

section \<open>The record of the deployment ID\<close>

text \<open>Commands that write the key of the deployment ID write a finalized record.\<close>

definition deploymentCmd :: "codec \<Rightarrow> string \<Rightarrow> bool" where
  "deploymentCmd cdc cmd \<longleftrightarrow>
     (case uUpdate cdc cmd of None \<Rightarrow> True
      | Some u \<Rightarrow> (case up_KvUpdate u of None \<Rightarrow> True
          | Some kv \<Rightarrow> kv_Key kv = deploymentIDKey \<longrightarrow> kv_Finalized kv))"

text \<open>The stored record, if any, is finalized.\<close>

definition deploymentFinal :: "codec \<Rightarrow> db \<Rightarrow> bool" where
  "deploymentFinal cdc d \<longleftrightarrow>
     (\<forall>kv. storedKV cdc d deploymentIDKey = Some kv \<longrightarrow> kv_Finalized kv)"

lemma kv_steps:
  assumes "Update_cmd cdc d cmd = (Inr r, e)"
  obtains (same) "db_KVMap e = db_KVMap d"
  | (stored) u kv where "uUpdate cdc cmd = Some u" "up_KvUpdate u = Some kv"
      "kvDecision (storedKV cdc d (kv_Key kv)) kv = DBKVUpdated"
      "db_KVMap e = mput (kv_Key kv) (mKV cdc kv) (db_KVMap d)"
  | (flag) "db_KVMap e = mput launchedKey (mKV cdc launchKV) (db_KVMap d)"
proof -
  obtain u where u: "uUpdate cdc cmd = Some u" "applyUpdate cdc d u = (Inr r, e)"
    using assms by (rule Update_cmd_effect)
  from u(2) show thesis
  proof (cases rule: applyUpdate_effect)
    case (create c)
    from tryCreateShard_effect(4) [OF create(4)] show thesis by (auto intro: same split: if_splits)
  next
    case (kv kv)
    from applyKV_effect(3,4) [OF kv(3)] show thesis
      by (cases "r = DBKVUpdated") (auto intro: same stored [OF u(1) kv(2)])
  next
    case (report nhi)
    then show thesis by (auto elim!: applyReport_effect intro: same)
  next
    case (requests rs)
    from requests(3) show thesis by (cases rule: applyRequests_effect) (auto intro: same flag)
  next
    case tick
    from applyTick_effect(1) [OF tick(2)] show thesis by (auto intro: same)
  qed
qed

lemma launchedKey_other: "launchedKey \<noteq> deploymentIDKey"
  by (simp add: launchedKey_def deploymentIDKey_def)

lemma deploymentFinal_keep:
  assumes "kv_codec cdc" and "deploymentCmd cdc cmd" and "deploymentFinal cdc d"
    and "Update_cmd cdc d cmd = (Inr r, e)"
  shows "deploymentFinal cdc e"
  using assms(4)
proof (cases rule: kv_steps)
  case (stored u kv)
  with assms(1-3) show ?thesis
    by (auto simp: deploymentFinal_def deploymentCmd_def storedKV_def mget_mput kv_codec_def)
qed (use assms(3) launchedKey_other in \<open>auto simp: deploymentFinal_def storedKV_def mget_mput\<close>)

lemma finalized_keep:
  assumes "finalized cdc d deploymentIDKey kv" and "Update_cmd cdc d cmd = (Inr r, e)"
  shows "finalized cdc e deploymentIDKey kv"
  using assms(2)
proof (cases rule: kv_steps)
  case (stored u rec)
  have "kv_Key rec \<noteq> deploymentIDKey"
    using stored(3) assms(1) by (auto simp: finalized_def kvDecision_def db_codes)
  with assms(1) stored(4) show ?thesis by (simp add: finalized_def storedKV_def mget_mput)
qed (use assms(1) launchedKey_other in \<open>auto simp: finalized_def storedKV_def mget_mput\<close>)

interpretation deployment_kept: log_invariant "\<lambda>cmd d. Update_cmd cdc d cmd"
    "\<lambda>cmd. kv_codec cdc \<and> deploymentCmd cdc cmd" "deploymentFinal cdc" for cdc
  by unfold_locales (blast intro: deploymentFinal_keep)

interpretation deployment_fixed: log_invariant "\<lambda>cmd d. Update_cmd cdc d cmd" "\<lambda>_. True"
    "\<lambda>d. finalized cdc d deploymentIDKey kv" for cdc kv
  by unfold_locales (rule finalized_keep)

lemma moves_deploymentFinal:
  assumes "dbMoves cdc (deploymentCmd cdc) d e" and "kv_codec cdc" and "deploymentFinal cdc d"
  shows "deploymentFinal cdc e"
  using assms by (auto simp: dbMoves_def list_all_iff elim!: deployment_kept.run_keeps)

lemma moves_finalized:
  assumes "dbMoves cdc ok d e" and "finalized cdc d deploymentIDKey kv"
  shows "finalized cdc e deploymentIDKey kv"
  using assms by (auto simp: dbMoves_def list_all_iff elim!: deployment_fixed.run_keeps)

section \<open>Servers\<close>

lemma lookupKV_query: "lookupKV nh cdc key = lookupDB nh cdc (kvQuery key)"
  by (simp add: fun_eq_iff lookupKV_def lookupDB_def kvQuery_def Let_def)

context raft_service
begin

lemma deployment_read:
  assumes "kv_messages cdc" and "lookupDeploymentID nh cdc w = (Inr x, w')"
  shows "\<exists>d. dbMoves cdc ok (dbOf w) d \<and> ParseUint (kv_Value (recordAt cdc d deploymentIDKey)) = Inr x \<and>
    dbMoves cdc ok d (dbOf w')"
proof -
  obtain a w1 where q: "lookupDB nh cdc (kvQuery deploymentIDKey) w = (a, w1)" by fastforce
  then obtain resp where r: "a = Inr resp" "w1 = w'"
    using assms(2) by (cases a) (auto simp: lookupDeploymentID_def lookupKV_query split: sum.splits)
  from record_read [OF assms(1) q [unfolded r]] obtain d where
    "dbMoves cdc ok (dbOf w) d" "resp = kvAnswer (recordAt cdc d deploymentIDKey)" "dbMoves cdc ok d (dbOf w')"
    by blast
  then show ?thesis
    using assms(2) q r by (auto simp: lookupDeploymentID_def lookupKV_query kvValue_def kvAnswer_def)
qed

end

definition deploymentKV :: "u64 \<Rightarrow> KV" where
  "deploymentKV x = zero_KV\<lparr>kv_Key := deploymentIDKey, kv_Value := FormatUint x, kv_Finalized := True,
     kv_InstanceId := 0\<rparr>"

lemma proposeFinalized_update:
  assumes "proposeFinalizedKV nh cdc cs deploymentIDKey (FormatUint x) 0 w = (Inr v, w')"
  shows "proposeDrummerUpdate nh cdc cs (kvUpdate (deploymentKV x)) w = (Inr v, w')"
  using assms by (auto simp: proposeFinalizedKV_def deploymentKV_def kvUpdate_def Let_def panic_def split: if_splits)

lemma deployment_admitted:
  "kv_messages cdc \<Longrightarrow> deploymentCmd cdc (mUpdate cdc (kvUpdate (deploymentKV a)))"
  by (auto simp: deploymentCmd_def kv_messages_def) (simp add: kvUpdate_def deploymentKV_def)

lemma deployment_moves:
  assumes svc: "raft_service nh cdc (deploymentCmd cdc) dbOf" and law: "kv_messages cdc"
    and run: "setDeploymentID nh cdc a cs w = (Inr x, w')"
  shows "dbMoves cdc (deploymentCmd cdc) (dbOf w) (dbOf w')"
proof -
  obtain v w1 where p: "proposeFinalizedKV nh cdc cs deploymentIDKey (FormatUint a) 0 w = (Inr v, w1)"
    using run unfolding setDeploymentID_def
    by (cases "proposeFinalizedKV nh cdc cs deploymentIDKey (FormatUint a) 0 w";
        cases "fst (proposeFinalizedKV nh cdc cs deploymentIDKey (FormatUint a) 0 w)") auto
  have "dbMoves cdc (deploymentCmd cdc) (dbOf w) (dbOf w1)"
    by (rule raft_service.proposeUpdate_sent [OF svc deployment_admitted [OF law] proposeFinalized_update [OF p]])
  also have "dbMoves cdc (deploymentCmd cdc) (dbOf w1) (dbOf w')"
    using run p raft_service.deployment_read [OF svc law, of w1 x w']
    by (auto simp: setDeploymentID_def split: if_splits intro: dbMoves_trans)
  finally show ?thesis .
qed

text \<open>Whoever got an ID, the record is final and holds it.\<close>

lemma deployment_settled:
  assumes svc: "raft_service nh cdc (deploymentCmd cdc) dbOf" and law: "kv_messages cdc"
    and start: "deploymentFinal cdc (dbOf w)" and run: "setDeploymentID nh cdc a cs w = (Inr x, w')"
  shows "\<exists>kv. finalized cdc (dbOf w') deploymentIDKey kv \<and> ParseUint (kv_Value kv) = Inr x"
proof -
  have kc: "kv_codec cdc" using law by (simp add: kv_messages_def)
  obtain v w1 where p: "proposeFinalizedKV nh cdc cs deploymentIDKey (FormatUint a) 0 w = (Inr v, w1)"
    using run unfolding setDeploymentID_def
    by (cases "proposeFinalizedKV nh cdc cs deploymentIDKey (FormatUint a) 0 w";
        cases "fst (proposeFinalizedKV nh cdc cs deploymentIDKey (FormatUint a) 0 w)") auto
  obtain d e where d: "dbMoves cdc (deploymentCmd cdc) (dbOf w) d"
    "v = kvDecision (storedKV cdc d deploymentIDKey) (deploymentKV a)"
    "\<And>k. storedKV cdc e k = (if k = deploymentIDKey \<and> v = DBKVUpdated then Some (deploymentKV a) else storedKV cdc d k)"
    "dbMoves cdc (deploymentCmd cdc) e (dbOf w1)"
    using raft_service.record_written [OF svc law deployment_admitted [OF law] proposeFinalized_update [OF p]]
    by (auto simp: deploymentKV_def)
  show ?thesis
  proof (cases "v = DBKVUpdated")
    case True
    with run p have "x = a" "w' = w1" by (simp_all add: setDeploymentID_def)
    moreover have "finalized cdc e deploymentIDKey (deploymentKV a)"
      using d(3) True by (simp add: finalized_def) (simp add: deploymentKV_def)
    ultimately show ?thesis
      using moves_finalized [OF d(4)] parse_format [of a]
      by (intro exI [of _ "deploymentKV a"]) (simp add: deploymentKV_def)
  next
    case False
    have "deploymentFinal cdc d" by (rule moves_deploymentFinal [OF d(1) kc start])
    then obtain kv where "finalized cdc d deploymentIDKey kv"
      using d(2) False by (auto simp: deploymentFinal_def kvDecision_def finalized_def split: option.splits)
    then have "finalized cdc e deploymentIDKey kv"
      using d(3) [of deploymentIDKey] False by (simp add: finalized_def)
    then have w1: "finalized cdc (dbOf w1) deploymentIDKey kv" by (rule moves_finalized [OF d(4)])
    have "lookupDeploymentID nh cdc w1 = (Inr x, w')" using run p False by (simp add: setDeploymentID_def)
    from raft_service.deployment_read [OF svc law this] obtain f where f:
      "dbMoves cdc (deploymentCmd cdc) (dbOf w1) f" "ParseUint (kv_Value (recordAt cdc f deploymentIDKey)) = Inr x"
      "dbMoves cdc (deploymentCmd cdc) f (dbOf w')" by blast
    have "finalized cdc f deploymentIDKey kv" by (rule moves_finalized [OF f(1) w1])
    with f moves_finalized [OF f(3) this] show ?thesis by (auto simp: finalized_def recordAt_def)
  qed
qed

text \<open>
  C9. Over any Raft layer that keeps its contract, with every command on the deployment key a
  finalized one, all servers agree on the deployment ID: after one server has set it, or was told
  the one that is set, every later attempt to set it and every lookup returns the same ID.
\<close>

theorem deployment_id_agreed:
  assumes "raft_service nh cdc (deploymentCmd cdc) dbOf" and "kv_messages cdc"
    and "deploymentFinal cdc (dbOf w)" and "setDeploymentID nh cdc a cs w = (Inr x, w1)"
    and "dbMoves cdc (deploymentCmd cdc) (dbOf w1) (dbOf w2)"
    and "setDeploymentID nh cdc b cs' w2 = (Inr y, w3) \<or> getDeploymentID nh cdc w2 = (Inr y, w3)"
  shows "x = y"
proof -
  obtain kv where kv: "finalized cdc (dbOf w1) deploymentIDKey kv" "ParseUint (kv_Value kv) = Inr x"
    using deployment_settled [OF assms(1-4)] by blast
  have w2: "finalized cdc (dbOf w2) deploymentIDKey kv" by (rule moves_finalized [OF assms(5) kv(1)])
  then have start: "deploymentFinal cdc (dbOf w2)" by (simp add: finalized_def deploymentFinal_def)
  from assms(6) show ?thesis
  proof
    assume again: "setDeploymentID nh cdc b cs' w2 = (Inr y, w3)"
    obtain rec where rec: "finalized cdc (dbOf w3) deploymentIDKey rec" "ParseUint (kv_Value rec) = Inr y"
      using deployment_settled [OF assms(1,2) start again] by blast
    from moves_finalized [OF deployment_moves [OF assms(1,2) again] w2] rec kv(2) show ?thesis by (simp add: finalized_def)
  next
    assume "getDeploymentID nh cdc w2 = (Inr y, w3)"
    then obtain f where f: "dbMoves cdc (deploymentCmd cdc) (dbOf w2) f"
      "ParseUint (kv_Value (recordAt cdc f deploymentIDKey)) = Inr y"
      using raft_service.deployment_read [OF assms(1,2), of w2 y w3] by (auto simp: getDeploymentID_def)
    from moves_finalized [OF f(1) w2] f(2) kv(2) show ?thesis by (simp add: finalized_def recordAt_def)
  qed
qed

definition rivalServers :: localWorld where
  "rivalServers = \<lparr>lw_others = [[mUpdate kvCodec (kvUpdate (deploymentKV 42))]], lw_db = NewDB 0 1\<rparr>"

text \<open>The first server proposes 7 and is told 42, which a rival committed; the second proposes 8.\<close>

lemma deployment_id_agreed_witness:
  "let set = setDeploymentID (localRaft kvCodec (deploymentCmd kvCodec)) kvCodec; first = set 7 sampleSession rivalServers
   in fst first = Inr 42 \<and> fst (set 8 sampleSession (snd first)) = Inr 42"
proof -
  let ?set = "setDeploymentID (localRaft kvCodec (deploymentCmd kvCodec)) kvCodec"
  let ?first = "?set 7 sampleSession rivalServers"
  have first: "fst ?first = Inr 42" by code_simp
  then have run: "?first = (Inr 42, snd ?first)" by (metis prod.collapse)
  have start: "deploymentFinal kvCodec (lw_db rivalServers)"
    by (simp add: deploymentFinal_def storedKV_def rivalServers_def NewDB_def)
  have "\<not> isl (fst (?set 8 sampleSession (snd ?first)))" by code_simp
  then obtain y w3 where second: "?set 8 sampleSession (snd ?first) = (Inr y, w3)"
    by (cases "?set 8 sampleSession (snd ?first)"; cases "fst (?set 8 sampleSession (snd ?first))") auto
  have "42 = y"
    by (rule deployment_id_agreed [OF local_raft.raft_service_axioms kvCodec_law start run dbMoves_refl]) (rule disjI1 [OF second])
  with first second show ?thesis by (simp add: Let_def)
qed

end
