(* ===== verification/KVCodec.thy ===== *)
theory KVCodec
  imports GoPrelude
begin

text \<open>
  The Colfer encoding of a key-value pair (\<^verbatim>\<open>kv/kv.go\<close>): the buffer is a list of bytes with the
  index the code advances, sizes are \<^verbatim>\<open>int\<close>s that stay far from their bounds and are \<open>nat\<close> here,
  and a length is written as a \<^verbatim>\<open>uint\<close> of 64 bits, seven bits a byte. The errors are values; the
  label \<^verbatim>\<open>eof\<close> is \<open>eofAt\<close>.
\<close>

unbundle bit_operations_syntax

type_synonym u8 = "8 word"

record kvPair =
  kp_Key :: "u8 list"
  kp_Val :: "u8 list"

datatype colferError = ColferMax | ColferError nat | ColferTail nat | ColferEOF

definition ColferSizeMax :: nat where
  "ColferSizeMax = 16 * 1024 * 1024"

text \<open>A Go string is its bytes.\<close>

definition bytesOf :: "string \<Rightarrow> u8 list" where
  "bytesOf s = map of_char s"

definition stringOf :: "u8 list \<Rightarrow> string" where
  "stringOf bs = map (\<lambda>b. char_of (unat b)) bs"

lemma stringOf_bytesOf [simp]: "stringOf (bytesOf s) = s"
proof -
  have "unat (of_char c :: u8) = of_char c" for c
    by (cases c) (simp add: unsigned_of_nat flip: of_nat_of_char [where ?'a = "8 word"])
  then show ?thesis by (simp add: stringOf_def bytesOf_def comp_def)
qed

section \<open>Encoding\<close>

type_synonym cursor = "u8 list \<times> nat"

definition putByte :: "u8 \<Rightarrow> cursor \<Rightarrow> cursor go" where
  "putByte b c = (case c of (buf, i) \<Rightarrow>
     if i < length buf then Inr (buf[i := b], i + 1) else panic IndexOutOfRange)"

function putSize :: "u64 \<Rightarrow> cursor \<Rightarrow> cursor go" where
  "putSize x c =
     (if x \<ge> 0x80 then
        (case putByte (ucast (x OR 0x80)) c of Inl e \<Rightarrow> Inl e | Inr c1 \<Rightarrow> putSize (drop_bit 7 x) c1)
      else putByte (ucast x) c)"
  by auto

lemma drop_bit_smaller: "(0x80 :: u64) \<le> x \<Longrightarrow> unat (drop_bit 7 x) < unat x"
proof -
  assume "0x80 \<le> x"
  then have "128 \<le> unat x" by (simp add: word_le_nat_alt)
  then show ?thesis unfolding unat_drop_bit_eq by (simp add: drop_bit_eq_div)
qed

termination putSize
  by (relation "measure (\<lambda>(x, c). unat x)") (auto intro: drop_bit_smaller)

declare putSize.simps [simp del]

text \<open>\<^verbatim>\<open>i += copy(buf[i:], s)\<close>: what does not fit is dropped.\<close>

definition copyAt :: "u8 list \<Rightarrow> cursor \<Rightarrow> cursor go" where
  "copyAt s c = (case c of (buf, i) \<Rightarrow>
     if i > length buf then panic IndexOutOfRange
     else (let n = min (length s) (length buf - i)
           in Inr (take i buf @ take n s @ drop (i + n) buf, i + n)))"

definition putField :: "u8 \<Rightarrow> u8 list \<Rightarrow> cursor \<Rightarrow> cursor go" where
  "putField tag s c =
     (if length s \<noteq> 0 then
        (case putByte tag c of
           Inl e \<Rightarrow> Inl e
         | Inr c1 \<Rightarrow>
             (case putSize (of_nat (length s)) c1 of Inl e \<Rightarrow> Inl e | Inr c2 \<Rightarrow> copyAt s c2))
      else Inr c)"

definition MarshalTo :: "kvPair \<Rightarrow> u8 list \<Rightarrow> cursor go" where
  "MarshalTo kv buf =
     (case putField 0 (kp_Key kv) (buf, 0) of
        Inl e \<Rightarrow> Inl e
      | Inr c1 \<Rightarrow>
          (case putField 1 (kp_Val kv) c1 of Inl e \<Rightarrow> Inl e | Inr c2 \<Rightarrow> putByte 0x7f c2))"

text \<open>\<^verbatim>\<open>for l += x + 2; x >= 0x80; l++ { x >>= 7 }\<close>\<close>

fun addSize :: "nat \<Rightarrow> nat \<Rightarrow> nat" where
  "addSize l x = (if x \<ge> 0x80 then addSize (l + 1) (x div 128) else l)"

declare addSize.simps [simp del]

definition fieldLen :: "u8 list \<Rightarrow> nat \<Rightarrow> colferError + nat" where
  "fieldLen s l =
     (let x = length s in
      if x \<noteq> 0 then (if x > ColferSizeMax then Inl ColferMax else Inr (addSize (l + (x + 2)) x))
      else Inr l)"

text \<open>The number and the error, as the Go function returns both.\<close>

definition MarshalLen :: "kvPair \<Rightarrow> nat \<times> colferError option" where
  "MarshalLen kv =
     (case fieldLen (kp_Key kv) 1 of
        Inl e \<Rightarrow> (0, Some e)
      | Inr l1 \<Rightarrow>
          (case fieldLen (kp_Val kv) l1 of
             Inl e \<Rightarrow> (0, Some e)
           | Inr l \<Rightarrow> (if l > ColferSizeMax then (l, Some ColferMax) else (l, None))))"

definition MarshalBinary :: "kvPair \<Rightarrow> (colferError + u8 list) go" where
  "MarshalBinary kv =
     (case MarshalLen kv of
        (l, Some e) \<Rightarrow> Inr (Inl e)
      | (l, None) \<Rightarrow>
          (case MarshalTo kv (replicate l 0) of Inl e \<Rightarrow> Inl e | Inr c \<Rightarrow> Inr (Inr (fst c))))"

section \<open>Decoding\<close>

definition eofAt :: "nat \<Rightarrow> colferError" where
  "eofAt i = (if i \<ge> ColferSizeMax then ColferMax else ColferEOF)"

function getMore :: "u8 list \<Rightarrow> u64 \<Rightarrow> nat \<Rightarrow> nat \<Rightarrow> colferError + u64 \<times> nat" where
  "getMore data x shift i =
     (if i \<ge> length data then Inl (eofAt i)
      else
        (let b = ucast (data ! i) :: u64 in
         if b < 0x80 then Inr (x OR push_bit shift b, i + 1)
         else getMore data (x OR push_bit shift (b AND 0x7f)) (shift + 7) (i + 1)))"
  by auto

termination getMore
  by (relation "measure (\<lambda>(data, x, shift, i). length data - i)") auto

declare getMore.simps [simp del]

definition getSize :: "u8 list \<Rightarrow> nat \<Rightarrow> colferError + u64 \<times> nat" where
  "getSize data i =
     (if i \<ge> length data then Inl (eofAt i)
      else
        (let x = ucast (data ! i) :: u64 in
         if x \<ge> 0x80 then getMore data (x AND 0x7f) 7 (i + 1) else Inr (x, i + 1)))"

text \<open>A field, with the header that follows it.\<close>

definition getField :: "u8 list \<Rightarrow> nat \<Rightarrow> colferError + (u8 list \<times> u8 \<times> nat)" where
  "getField data i =
     (case getSize data i of
        Inl e \<Rightarrow> Inl e
      | Inr (x, i1) \<Rightarrow>
          (if x > of_nat ColferSizeMax then Inl ColferMax
           else
             (let i2 = i1 + unat x in
              if i2 \<ge> length data then Inl (eofAt i2)
              else Inr (take (i2 - i1) (drop i1 data), data ! i2, i2 + 1))))"

text \<open>The end of \<open>Unmarshal\<close>: the last header, then the number of bytes read.\<close>

definition finishAt :: "u8 \<Rightarrow> nat \<Rightarrow> nat \<times> colferError option" where
  "finishAt header i =
     (if header \<noteq> 0x7f then (0, Some (ColferError (i - 1)))
      else if i < ColferSizeMax then (i, None) else (0, Some (eofAt i)))"

definition getVal :: "u8 list \<Rightarrow> u8 \<Rightarrow> nat \<Rightarrow> kvPair \<Rightarrow> (nat \<times> colferError option) \<times> kvPair" where
  "getVal data header i kv =
     (if header = 1 then
        (case getField data i of
           Inl e \<Rightarrow> ((0, Some e), kv)
         | Inr (s, h, i1) \<Rightarrow> (finishAt h i1, kv\<lparr>kp_Val := s\<rparr>))
      else (finishAt header i, kv))"

definition Unmarshal :: "u8 list \<Rightarrow> kvPair \<Rightarrow> (nat \<times> colferError option) \<times> kvPair" where
  "Unmarshal data kv =
     (if length data = 0 then ((0, Some ColferEOF), kv)
      else if data ! 0 = 0 then
        (case getField data 1 of
           Inl e \<Rightarrow> ((0, Some e), kv)
         | Inr (s, h, i1) \<Rightarrow> getVal data h i1 (kv\<lparr>kp_Key := s\<rparr>))
      else getVal data (data ! 0) 1 kv)"

definition UnmarshalBinary :: "u8 list \<Rightarrow> kvPair \<Rightarrow> colferError option \<times> kvPair" where
  "UnmarshalBinary data kv =
     (case Unmarshal data kv of
        ((i, err), kv1) \<Rightarrow>
          (if i < length data \<and> err = None then (Some (ColferTail i), kv1) else (err, kv1)))"

section \<open>What the encoder writes\<close>

function sizeBytes :: "u64 \<Rightarrow> u8 list" where
  "sizeBytes x = (if x \<ge> 0x80 then ucast (x OR 0x80) # sizeBytes (drop_bit 7 x) else [ucast x])"

  by auto

termination sizeBytes
  by (relation "measure unat") (auto intro: drop_bit_smaller)

declare sizeBytes.simps [simp del]

definition fieldBytes :: "u8 \<Rightarrow> u8 list \<Rightarrow> u8 list" where
  "fieldBytes tag s = (if s = [] then [] else tag # sizeBytes (of_nat (length s)) @ s)"

definition kvBytes :: "kvPair \<Rightarrow> u8 list" where
  "kvBytes kv = fieldBytes 0 (kp_Key kv) @ fieldBytes 1 (kp_Val kv) @ [0x7f]"

text \<open>A step of the encoder that writes the bytes \<open>bs\<close> wherever it stands.\<close>

definition writes :: "(cursor \<Rightarrow> cursor go) \<Rightarrow> u8 list \<Rightarrow> bool" where
  "writes f bs \<longleftrightarrow> (\<forall>out rest. length bs \<le> length rest \<longrightarrow>
     f (out @ rest, length out) = Inr (out @ bs @ drop (length bs) rest, length out + length bs))"

lemma writesD:
  "writes f bs \<Longrightarrow> length bs \<le> length rest \<Longrightarrow>
     f (out @ rest, length out) = Inr (out @ bs @ drop (length bs) rest, length out + length bs)"
  by (simp add: writes_def)

lemma writes_then:
  assumes "writes f as" and "writes g bs"
  shows "writes (\<lambda>c. case f c of Inl e \<Rightarrow> Inl e | Inr c1 \<Rightarrow> g c1) (as @ bs)"
  unfolding writes_def
proof (intro allI impI)
  fix out rest :: "u8 list" assume len: "length (as @ bs) \<le> length rest"
  have "f (out @ rest, length out) = Inr ((out @ as) @ drop (length as) rest, length (out @ as))"
    using writesD [OF assms(1), of rest "out"] len by simp
  moreover have "g ((out @ as) @ drop (length as) rest, length (out @ as)) =
      Inr ((out @ as) @ bs @ drop (length bs) (drop (length as) rest), length (out @ as) + length bs)"
    by (rule writesD [OF assms(2)]) (use len in simp)
  ultimately show "(case f (out @ rest, length out) of Inl e \<Rightarrow> Inl e | Inr c1 \<Rightarrow> g c1) =
      Inr (out @ (as @ bs) @ drop (length (as @ bs)) rest, length out + length (as @ bs))"
    by (simp add: add.assoc add.commute)
qed

lemma writes_byte: "writes (putByte b) [b]"
  by (auto simp: writes_def putByte_def list_update_append Suc_le_length_iff split: nat.split)

lemma writes_size: "writes (putSize x) (sizeBytes x)"
proof (induction x rule: sizeBytes.induct)
  case (1 x)
  show ?case
  proof (cases "x \<ge> 0x80")
    case True
    from writes_then [OF writes_byte 1 [OF True], of "ucast (x OR 0x80)"] True show ?thesis
      by (simp add: sizeBytes.simps [of x] putSize.simps [of x] cong: sum.case_cong)
  next
    case False
    then show ?thesis
      using writes_byte by (simp add: sizeBytes.simps [of x] putSize.simps [of x] writes_def)
  qed
qed

lemma writes_copy: "writes (copyAt s) s"
  by (auto simp: writes_def copyAt_def Let_def min_def)

lemma writes_field: "writes (putField tag s) (fieldBytes tag s)"
proof (cases "s = []")
  case False
  have "writes (putField tag s) ([tag] @ sizeBytes (of_nat (length s)) @ s)"
    using writes_then [OF writes_byte [of tag] writes_then [OF writes_size writes_copy]] False
    by (simp add: putField_def [abs_def] cong: sum.case_cong)
  with False show ?thesis by (simp add: fieldBytes_def)
qed (simp add: writes_def putField_def fieldBytes_def)

lemma marshal_writes:
  assumes "length (kvBytes kv) \<le> length buf"
  shows "MarshalTo kv buf = Inr (kvBytes kv @ drop (length (kvBytes kv)) buf, length (kvBytes kv))"
  using writesD [OF writes_then [OF writes_then [OF writes_field writes_field] writes_byte], of
      0 "kp_Key kv" 1 "kp_Val kv" "0x7f" buf "[]"] assms
  by (cases "putField 0 (kp_Key kv) (buf, 0)") (simp_all add: MarshalTo_def kvBytes_def)

lemma addSize_bytes: "x < 2 ^ 64 \<Longrightarrow> addSize l x + 1 = l + length (sizeBytes (of_nat x))"
proof (induction l x rule: addSize.induct)
  case (1 l x)
  have u: "unat (of_nat x :: u64) = x" using 1(2) by (simp add: unat_of_nat)
  show ?case
  proof (cases "x \<ge> 0x80")
    case True
    have w: "(0x80 :: u64) \<le> of_nat x" using True u by (simp add: word_le_nat_alt)
    have "drop_bit 7 (of_nat x :: u64) = of_nat (x div 128)"
      by (rule word_unat_eq_iff [THEN iffD2])
        (use 1(2) in \<open>simp only: unat_drop_bit_eq u, simp add: drop_bit_eq_div unat_of_nat\<close>)
    with 1 True w show ?thesis
      by (simp add: addSize.simps [of l x] sizeBytes.simps [of "of_nat x"])
  next
    case False
    then have "\<not> (0x80 :: u64) \<le> of_nat x" using u by (simp add: word_le_nat_alt)
    with False show ?thesis by (simp add: addSize.simps [of l x] sizeBytes.simps [of "of_nat x"])
  qed
qed

lemma fieldLen_bytes:
  assumes "length s \<le> ColferSizeMax"
  shows "fieldLen s l = Inr (l + length (fieldBytes tag s))"
proof (cases "s = []")
  case False
  have "length s < 2 ^ 64" using assms by (simp add: ColferSizeMax_def)
  from addSize_bytes [OF this, of "l + (length s + 2)"] False assms show ?thesis
    by (simp add: fieldLen_def fieldBytes_def Let_def)
qed (simp add: fieldLen_def fieldBytes_def)

definition sizesOk :: "kvPair \<Rightarrow> bool" where
  "sizesOk kv \<longleftrightarrow> length (kp_Key kv) \<le> ColferSizeMax \<and> length (kp_Val kv) \<le> ColferSizeMax"

lemma MarshalLen_bytes:
  "MarshalLen kv = (if sizesOk kv then
     (length (kvBytes kv), if length (kvBytes kv) > ColferSizeMax then Some ColferMax else None)
   else (0, Some ColferMax))"
proof (cases "sizesOk kv")
  case True
  then show ?thesis
    using fieldLen_bytes [of "kp_Key kv" 1 0] fieldLen_bytes [of "kp_Val kv" _ 1]
    by (simp add: sizesOk_def MarshalLen_def kvBytes_def)
next
  case False
  have over: "fieldLen s l = Inl ColferMax" if "length s > ColferSizeMax" for s l
    using that by (auto simp: fieldLen_def Let_def)
  show ?thesis
  proof (cases "length (kp_Key kv) > ColferSizeMax")
    case True
    then show ?thesis using False by (simp add: MarshalLen_def over)
  next
    case key: False
    with False have "length (kp_Val kv) > ColferSizeMax" by (simp add: sizesOk_def)
    with False show ?thesis
      using key fieldLen_bytes [of "kp_Key kv" 1 0] by (simp add: MarshalLen_def over)
  qed
qed

lemma marshalled:
  "MarshalBinary kv = (if sizesOk kv \<and> length (kvBytes kv) \<le> ColferSizeMax then Inr (Inr (kvBytes kv))
     else Inr (Inl ColferMax))"
  using marshal_writes [of kv "replicate (length (kvBytes kv)) 0"]
  by (simp add: MarshalBinary_def MarshalLen_bytes)

section \<open>What the decoder reads\<close>

lemma bit_0x7f: "bit (0x7f :: u64) n \<longleftrightarrow> n < 7"
proof -
  have "(0x7f :: u64) = mask 7" by (simp add: mask_eq_exp_minus_1)
  then show ?thesis by (simp only: bit_mask_iff) auto
qed

lemma bit_0x80: "bit (0x80 :: u64) n \<longleftrightarrow> n = 7"
proof -
  have "(0x80 :: u64) = 2 ^ 7" by simp
  then show ?thesis by (simp only: bit_exp_iff) auto
qed

declare bit_numeral_word_iff [simp del] bit_0x7f [simp] bit_0x80 [simp]

lemma bit_0x7f_byte [simp]: "bit (0x7f :: u8) n \<longleftrightarrow> n < 7"
proof -
  have "(0x7f :: u8) = mask 7" by (simp add: mask_eq_exp_minus_1)
  then show ?thesis by (simp only: bit_mask_iff) auto
qed

lemma bit_0x80_byte [simp]: "bit (0x80 :: u8) n \<longleftrightarrow> n = 7"
proof -
  have "(0x80 :: u8) = 2 ^ 7" by simp
  then show ?thesis by (simp only: bit_exp_iff) auto
qed

lemma seven_bits: "ucast (ucast (x OR 0x80) :: u8) AND (0x7f :: u64) = x AND 0x7f" for x :: u64
  by (rule bit_word_eqI) (auto simp: bit_simps)

lemma more_marked: "(0x80 :: u64) \<le> ucast (ucast (x OR 0x80) :: u8)" for x :: u64
proof -
  let ?b = "ucast (ucast (x OR 0x80) :: u8) :: u64"
  have "?b AND 0x80 = 0x80" by (rule bit_word_eqI) (auto simp: bit_simps)
  then show ?thesis by (metis word_and_le1 word_and_le2)
qed

lemma last_kept:
  assumes "\<not> 0x80 \<le> x"
  shows "ucast (ucast x :: u8) = (x :: u64)"
proof -
  have "x < 0x80" using assms by simp
  then have "uint x < 128" by (simp add: word_less_def)
  then have "uint x mod 256 = uint x" by simp
  then have "take_bit 8 x = x"
    by (simp add: word_uint_eq_iff unsigned_take_bit_eq take_bit_eq_mod del: take_bit_eq_mod) (simp add: take_bit_eq_mod)
  then show ?thesis
    by (simp add: word_uint_eq_iff unsigned_ucast_eq unsigned_take_bit_eq)
qed

lemma shifted7: "push_bit s (x AND 0x7f) OR push_bit (s + 7) (drop_bit 7 x) = push_bit s (x :: u64)"
proof (rule bit_word_eqI)
  fix n :: nat assume "n < LENGTH(64)"
  moreover have "7 + (n - (s + 7)) = n - s" if "s + 7 \<le> n" using that by simp
  ultimately show "bit (push_bit s (x AND 0x7f) OR push_bit (s + 7) (drop_bit 7 x)) n = bit (push_bit s x) n"
    by (cases "s + 7 \<le> n") (auto simp: bit_simps not_le)
qed

text \<open>The loop over the bytes of a size adds the size, shifted, to what was read before it.\<close>

lemma getMore_size:
  "drop i data = sizeBytes y @ tail \<Longrightarrow>
     getMore data x s i = Inr (x OR push_bit s y, i + length (sizeBytes y))"
proof (induction y arbitrary: i x s rule: sizeBytes.induct)
  case (1 y)
  have i: "i < length data" using 1(2) by (cases "i < length data") (auto simp: sizeBytes.simps [of y] split: if_splits)
  show ?case
  proof (cases "0x80 \<le> y")
    case True
    with 1(2) i have d: "data ! i = ucast (y OR 0x80)" "drop (i + 1) data = sizeBytes (drop_bit 7 y) @ tail"
      by (simp_all add: sizeBytes.simps [of y] flip: Cons_nth_drop_Suc)
    show ?thesis
      using 1(1) [OF True d(2)] i True more_marked [of y]
      unfolding getMore.simps [of data x s i] d(1) Let_def seven_bits sizeBytes.simps [of y]
      by (auto simp: or.assoc shifted7 not_less simp del: push_bit_and)
  next
    case False
    with 1(2) i have "data ! i = ucast y"
      by (simp add: sizeBytes.simps [of y] flip: Cons_nth_drop_Suc)
    with False i show ?thesis
      by (auto simp: getMore.simps [of data x s i] Let_def last_kept sizeBytes.simps [of y])
  qed
qed

lemma getSize_size:
  assumes "drop i data = sizeBytes y @ tail"
  shows "getSize data i = Inr (y, i + length (sizeBytes y))"
proof -
  have i: "i < length data"
    using assms by (cases "i < length data") (auto simp: sizeBytes.simps [of y] split: if_splits)
  show ?thesis
  proof (cases "0x80 \<le> y")
    case True
    with assms i have d: "data ! i = ucast (y OR 0x80)" "drop (i + 1) data = sizeBytes (drop_bit 7 y) @ tail"
      by (simp_all add: sizeBytes.simps [of y] flip: Cons_nth_drop_Suc)
    have "(y AND 0x7f) OR push_bit 7 (drop_bit 7 y) = y" using shifted7 [of 0 y] by simp
    then show ?thesis
      using getMore_size [OF d(2)] more_marked [of y] i True
      unfolding getSize_def d(1) Let_def seven_bits sizeBytes.simps [of y] by simp
  next
    case False
    with assms i have "data ! i = ucast y"
      by (simp add: sizeBytes.simps [of y] flip: Cons_nth_drop_Suc)
    with False i show ?thesis
      by (auto simp: getSize_def Let_def last_kept sizeBytes.simps [of y])
  qed
qed

lemma getField_bytes:
  assumes d: "drop i data = sizeBytes (of_nat (length s)) @ s @ h # tail" and len: "length s \<le> ColferSizeMax"
  shows "getField data i = Inr (s, h, i + length (sizeBytes (of_nat (length s))) + length s + 1)"
proof -
  let ?i1 = "i + length (sizeBytes (of_nat (length s)))"
  have u: "unat (of_nat (length s) :: u64) = length s"
    using len by (simp add: unat_of_nat ColferSizeMax_def)
  have "unat (of_nat ColferSizeMax :: u64) = ColferSizeMax" by (simp add: unat_of_nat ColferSizeMax_def)
  with u len have ok: "\<not> (of_nat ColferSizeMax :: u64) < of_nat (length s)" by (simp add: word_less_nat_alt)
  have s: "drop ?i1 data = s @ h # tail"
    using arg_cong [OF d, of "drop (length (sizeBytes (of_nat (length s))))"] by (simp add: add.commute)
  then have h: "drop (?i1 + length s) data = h # tail"
    by (metis append_eq_conv_conj drop_drop add.commute)
  then have "?i1 + length s < length data" "data ! (?i1 + length s) = h"
    by (metis drop_eq_Nil leI list.distinct(1)) (metis h nth_via_drop)
  then show ?thesis
    using getSize_size [OF d] ok by (simp add: getField_def u s Let_def)
qed

lemma getVal_bytes:
  assumes d: "h # drop i data = fieldBytes 1 s @ [0x7f]" and len: "length s \<le> ColferSizeMax"
    and fits: "i \<le> length data"
  shows "getVal data h i kv = (finishAt 0x7f (length data), if s = [] then kv else kv\<lparr>kp_Val := s\<rparr>)"
proof (cases "s = []")
  case True
  with d have "h = 0x7f" "drop i data = []" by (simp_all add: fieldBytes_def)
  with True fits show ?thesis by (simp add: getVal_def)
next
  case False
  with d have h: "h = 1" and rest: "drop i data = sizeBytes (of_nat (length s)) @ s @ [0x7f]"
    by (simp_all add: fieldBytes_def)
  have "i + length (sizeBytes (of_nat (length s))) + length s + 1 = length data"
    using arg_cong [OF rest, of length] fits by simp
  then show ?thesis
    using getField_bytes [OF rest len] False h by (simp add: getVal_def)
qed

text \<open>A field that is empty is not written, so the one of the object read into stays.\<close>

definition readInto :: "kvPair \<Rightarrow> kvPair \<Rightarrow> kvPair" where
  "readInto kv w = \<lparr>kp_Key = (if kp_Key kv = [] then kp_Key w else kp_Key kv),
     kp_Val = (if kp_Val kv = [] then kp_Val w else kp_Val kv)\<rparr>"

lemma unmarshalled_into:
  assumes "sizesOk kv"
  shows "Unmarshal (kvBytes kv) w = (finishAt 0x7f (length (kvBytes kv)), readInto kv w)"
proof (cases "kp_Key kv = []")
  case True
  obtain h t where b: "kvBytes kv = h # t" "h # t = fieldBytes 1 (kp_Val kv) @ [0x7f]"
    using True by (cases "kvBytes kv") (auto simp: kvBytes_def fieldBytes_def)
  then have "h \<noteq> 0" by (cases "kp_Val kv") (auto simp: fieldBytes_def)
  moreover have "getVal (h # t) h 1 w = (finishAt 0x7f (length (h # t)),
      if kp_Val kv = [] then w else w\<lparr>kp_Val := kp_Val kv\<rparr>)"
    by (rule getVal_bytes) (use assms in \<open>simp_all add: sizesOk_def flip: b(2)\<close>)
  ultimately show ?thesis using True unfolding b(1) by (cases w) (simp add: Unmarshal_def readInto_def)
next
  case False
  let ?s = "kp_Key kv"
  obtain h t where val: "fieldBytes 1 (kp_Val kv) @ [0x7f] = h # t"
    by (cases "fieldBytes 1 (kp_Val kv) @ [0x7f]") auto
  have b: "kvBytes kv = 0 # sizeBytes (of_nat (length ?s)) @ ?s @ h # t"
    using False val by (simp add: kvBytes_def fieldBytes_def)
  let ?i = "1 + length (sizeBytes (of_nat (length ?s))) + length ?s + 1"
  have field: "getField (kvBytes kv) 1 = Inr (?s, h, ?i)"
    by (rule getField_bytes) (use assms in \<open>simp_all add: b sizesOk_def\<close>)
  have "h # drop ?i (kvBytes kv) = fieldBytes 1 (kp_Val kv) @ [0x7f]" by (simp add: b val)
  from getVal_bytes [OF this] assms have "getVal (kvBytes kv) h ?i w =
      (finishAt 0x7f (length (kvBytes kv)), if kp_Val kv = [] then w else w\<lparr>kp_Val := kp_Val kv\<rparr>)" for w
    by (simp add: sizesOk_def b)
  moreover have "length (kvBytes kv) \<noteq> 0" "kvBytes kv ! 0 = 0" by (simp_all add: b)
  ultimately show ?thesis using False field unfolding Unmarshal_def by (cases w) (simp add: readInto_def)
qed

lemma readInto_empty [simp]: "readInto kv \<lparr>kp_Key = [], kp_Val = []\<rparr> = kv"
  by (cases kv) (simp add: readInto_def)

text \<open>Commands that a machine reads back: a marshalled record below the limit.\<close>

definition encodes :: "kvPair \<Rightarrow> u8 list \<Rightarrow> bool" where
  "encodes kv cmd \<longleftrightarrow> MarshalBinary kv = Inr (Inr cmd) \<and> length cmd < ColferSizeMax"

lemma encodes_reads:
  assumes "encodes kv cmd"
  shows "UnmarshalBinary cmd w = (None, readInto kv w)"
proof -
  have "sizesOk kv" "cmd = kvBytes kv" "length (kvBytes kv) < ColferSizeMax"
    using assms by (auto simp: encodes_def marshalled split: if_splits)
  then show ?thesis by (simp add: UnmarshalBinary_def unmarshalled_into finishAt_def)
qed

section \<open>The properties of the codec\<close>

text \<open>
  \<open>MarshalBinary\<close> never panics: the buffer \<open>MarshalLen\<close> asks for is the one \<open>MarshalTo\<close> fills, with
  the reference encoding, and the only error is that a field or the whole exceeds the limit.
\<close>

theorem colfer_marshal:
  "MarshalBinary kv =
     (if length (kp_Key kv) \<le> ColferSizeMax \<and> length (kp_Val kv) \<le> ColferSizeMax \<and>
         length (kvBytes kv) \<le> ColferSizeMax
      then Inr (Inr (kvBytes kv)) else Inr (Inl ColferMax))"
  by (simp add: marshalled sizesOk_def)

text \<open>
  C39. What was marshalled is unmarshalled into the same pair, unless it takes exactly
  \<open>ColferSizeMax\<close> bytes: then the encoder accepts it and the decoder reports it as too large.
\<close>

theorem colfer_roundtrip:
  assumes "MarshalBinary kv = Inr (Inr data)"
  shows "UnmarshalBinary data \<lparr>kp_Key = [], kp_Val = []\<rparr> =
      (if length data < ColferSizeMax then None else Some ColferMax, kv) \<and>
    length data \<le> ColferSizeMax \<and> MarshalLen kv = (length data, None)"
proof -
  have ok: "sizesOk kv" "length (kvBytes kv) \<le> ColferSizeMax" "data = kvBytes kv"
    using assms by (auto simp: marshalled split: if_splits)
  then show ?thesis
    using unmarshalled_into [OF ok(1)] MarshalLen_bytes [of kv]
    by (auto simp: UnmarshalBinary_def finishAt_def eofAt_def kvBytes_def)
qed

text \<open>A pair that takes all of the limit: one byte of header, four of size, one at the end.\<close>

definition fullPair :: kvPair where
  "fullPair = \<lparr>kp_Key = replicate (ColferSizeMax - 6) 7, kp_Val = []\<rparr>"

lemma fullPair_key: "length (kp_Key fullPair) = ColferSizeMax - 6" "kp_Val fullPair = []"
  by (simp_all add: fullPair_def)

lemma fullPair_bytes: "length (kvBytes fullPair) = ColferSizeMax"
proof -
  have "length (sizeBytes 16777210) = 4" by code_simp
  moreover have "kp_Key fullPair \<noteq> []" using fullPair_key(1) by (auto simp: ColferSizeMax_def)
  ultimately show ?thesis by (simp add: kvBytes_def fieldBytes_def fullPair_key) (simp add: ColferSizeMax_def)
qed

lemma colfer_roundtrip_witness:
  "UnmarshalBinary (kvBytes fullPair) \<lparr>kp_Key = [], kp_Val = []\<rparr> = (Some ColferMax, fullPair)"
proof -
  have "MarshalBinary fullPair = Inr (Inr (kvBytes fullPair))"
    using fullPair_bytes by (simp add: marshalled sizesOk_def fullPair_key)
  from colfer_roundtrip [OF this] show ?thesis by (simp add: fullPair_bytes)
qed

end
