(* ===== verification/Client.thy ===== *)
theory Client
  imports RaftService
begin

text \<open>
  The client library of the Drummer servers (\<^verbatim>\<open>client.go\<close>). The gRPC stub is the record
  \<open>drummerClient\<close> of the service's methods over a world; \<open>serverClient\<close> is the stub that calls the
  model of the server directly, on which what a client sees is stated.
\<close>

section \<open>The stub\<close>

record 'w drummerClient =
  cl_AddDrummerServer :: "DrummerConfigRequest \<Rightarrow> 'w \<Rightarrow> unit go \<times> 'w"
  cl_RemoveDrummerServer :: "DrummerConfigRequest \<Rightarrow> 'w \<Rightarrow> unit go \<times> 'w"
  cl_SubmitChange :: "Change \<Rightarrow> 'w \<Rightarrow> ChangeResponse_Code go \<times> 'w"
  cl_GetShards :: "'w \<Rightarrow> Shard list go \<times> 'w"
  cl_GetShardStates :: "ShardStateRequest \<Rightarrow> 'w \<Rightarrow> ShardStates go \<times> 'w"
  cl_GetNodeHostCollection :: "'w \<Rightarrow> NodeHostCollection go \<times> 'w"
  cl_SetRegions :: "Regions \<Rightarrow> 'w \<Rightarrow> ChangeResponse_Code go \<times> 'w"
  cl_SetBootstrapped :: "'w \<Rightarrow> ChangeResponse_Code go \<times> 'w"
  cl_GetShardConfigChangeIndexList :: "'w \<Rightarrow> ConfigChangeIndexList go \<times> 'w"
  cl_ReportAvailableNodeHost :: "NodeHostInfo \<Rightarrow> 'w \<Rightarrow> NodeHostRequestCollection go \<times> 'w"

definition serverClient :: "'w raft \<Rightarrow> codec \<Rightarrow> goContext \<Rightarrow> 'w drummerClient" where
  "serverClient nh cdc ctx = \<lparr>cl_AddDrummerServer = AddDrummerServer nh ctx,
     cl_RemoveDrummerServer = RemoveDrummerServer nh ctx, cl_SubmitChange = SubmitChange nh cdc,
     cl_GetShards = GetShards nh cdc, cl_GetShardStates = GetShardStates nh cdc,
     cl_GetNodeHostCollection = GetNodeHostCollection nh cdc, cl_SetRegions = SetRegions nh cdc,
     cl_SetBootstrapped = SetBootstrapped nh cdc,
     cl_GetShardConfigChangeIndexList = GetShardConfigChangeIndexList nh cdc,
     cl_ReportAvailableNodeHost = ReportAvailableNodeHost nh cdc\<rparr>"

section \<open>The calls\<close>

definition client_AddDrummerServer :: "'w drummerClient \<Rightarrow> u64 \<Rightarrow> string \<Rightarrow> 'w \<Rightarrow> unit go \<times> 'w" where
  "client_AddDrummerServer client replicaID address =
     cl_AddDrummerServer client \<lparr>dcr_ReplicaId = replicaID, dcr_Address = address\<rparr>"

definition client_RemoveDrummerServer :: "'w drummerClient \<Rightarrow> u64 \<Rightarrow> 'w \<Rightarrow> unit go \<times> 'w" where
  "client_RemoveDrummerServer client replicaID =
     cl_RemoveDrummerServer client \<lparr>dcr_ReplicaId = replicaID, dcr_Address = []\<rparr>"

definition createChange :: "u64 \<Rightarrow> u64 list \<Rightarrow> string \<Rightarrow> Change" where
  "createChange shardID members appName = \<lparr>ch_Type = Change_CREATE, ch_ShardId = shardID,
     ch_Members = members, ch_AppName = appName\<rparr>"

definition SubmitCreateDrummerChange :: "'w drummerClient \<Rightarrow> u64 \<Rightarrow> u64 list \<Rightarrow> string \<Rightarrow> 'w \<Rightarrow> unit go \<times> 'w" where
  "SubmitCreateDrummerChange client shardID members appName w =
     (if shardID = 0 then (panic InvalidShardID, w)
      else if length appName = 0 then (panic EmptyAppName, w)
      else if length members = 0 then (panic EmptyMembers, w)
      else thenDo (cl_SubmitChange client (createChange shardID members appName) w) (\<lambda>code w1.
        (if code = ChangeResponse_BOOTSTRAPPED then (Inl (Err ErrInvalidRequest), w1) else (Inr (), w1))))"

definition GetShardCollection :: "'w drummerClient \<Rightarrow> 'w \<Rightarrow> Shard list go \<times> 'w" where
  "GetShardCollection client = cl_GetShards client"

definition client_GetShardStates :: "'w drummerClient \<Rightarrow> u64 list \<Rightarrow> 'w \<Rightarrow> ShardStates go \<times> 'w" where
  "client_GetShardStates client shards = cl_GetShardStates client \<lparr>ssr_ShardIdList = shards\<rparr>"

definition client_GetNodeHostCollection :: "'w drummerClient \<Rightarrow> 'w \<Rightarrow> NodeHostCollection go \<times> 'w" where
  "client_GetNodeHostCollection client = cl_GetNodeHostCollection client"

definition SubmitRegions :: "'w drummerClient \<Rightarrow> Regions \<Rightarrow> 'w \<Rightarrow> unit go \<times> 'w" where
  "SubmitRegions client region w = thenDo (cl_SetRegions client region w) (\<lambda>_ w1. (Inr (), w1))"

definition SubmitBootstrappped :: "'w drummerClient \<Rightarrow> 'w \<Rightarrow> unit go \<times> 'w" where
  "SubmitBootstrappped client w = thenDo (cl_SetBootstrapped client w) (\<lambda>_ w1. (Inr (), w1))"

section \<open>Definitions of shards\<close>

definition definedAs :: "u64 \<Rightarrow> Shard \<Rightarrow> db \<Rightarrow> bool" where
  "definedAs shardID s d \<longleftrightarrow> mget (db_Shards d) shardID = Some s"

lemma definedAs_keep:
  assumes "definedAs i s d" and "Update_cmd cdc d cmd = (Inr r, e)"
  shows "definedAs i s e"
proof -
  obtain u where "applyUpdate cdc d u = (Inr r, e)" using assms(2) by (rule Update_cmd_effect)
  then show ?thesis
  proof (cases rule: applyUpdate_effect)
    case (create c)
    from tryCreateShard_effect(3,4) [OF create(4)] assms(1) show ?thesis
      by (auto simp: definedAs_def mhas_def mget_mput db_codes split: if_splits)
  next
    case (kv kv)
    from applyKV_effect(4) [OF kv(3)] assms(1) show ?thesis by (auto simp: definedAs_def split: if_splits)
  next
    case (report nhi)
    then show ?thesis using assms(1) by (auto simp: definedAs_def elim!: applyReport_effect)
  next
    case (requests rs)
    from requests(3) assms(1) show ?thesis
      by (cases rule: applyRequests_effect) (auto simp: definedAs_def)
  next
    case tick
    from applyTick_effect(1) [OF tick(2)] assms(1) show ?thesis by (auto simp: definedAs_def)
  qed
qed

interpretation definition_kept: log_invariant "\<lambda>cmd d. Update_cmd cdc d cmd" "\<lambda>_. True" "definedAs i s"
  for cdc i s by unfold_locales (rule definedAs_keep)

lemma moves_definedAs: "dbMoves cdc ok d e \<Longrightarrow> definedAs i s d \<Longrightarrow> definedAs i s e"
  by (auto simp: dbMoves_def list_all_iff elim!: definition_kept.run_keeps)

definition changeUpdate :: "Change \<Rightarrow> Update" where
  "changeUpdate c = zero_Update\<lparr>up_Type := Update_SHARD, up_Change := Some c\<rparr>"

text \<open>The database's answer to a CREATE, at the point of the log where it was applied.\<close>

lemma create_applied:
  assumes "uUpdate cdc (mUpdate cdc (changeUpdate c)) = Some (changeUpdate c)"
    and "Update_cmd cdc d (mUpdate cdc (changeUpdate c)) = (Inr v, e)" and "v \<in> {DBUpdated, ShardExists}"
  shows "\<exists>s. definedAs (ch_ShardId c) s e \<and>
    (s = \<lparr>sd_Members = ch_Members c, sd_ShardId = ch_ShardId c, sd_AppName = ch_AppName c\<rparr> \<or>
     definedAs (ch_ShardId c) s d)"
proof -
  have "applyShardUpdate d c = (Inr v, e)"
    using assms(1,2) by (auto simp: Update_cmd_def applyUpdate_def changeUpdate_def zero_Update_def
        assertNotFailed_def panic_def split: if_splits)
  then have "tryCreateShard d c = (Inr v, e)" by (auto simp: applyShardUpdate_def panic_def split: if_splits)
  from tryCreateShard_effect(3,4) [OF this] assms(3) show ?thesis
    by (auto simp: definedAs_def mhas_def mget_mput db_codes split: if_splits)
qed

text \<open>The calls of a change that was accepted.\<close>

lemma asGRPC_Inr: "asGRPC m = (Inr a, w) \<longleftrightarrow> m = (Inr a, w)"
  by (cases m; cases "fst m"; cases "projl (fst m)") (auto simp: asGRPC_def)

lemma withSession_Inr:
  assumes "withSession nh body w = (Inr x, w')"
  shows "\<exists>cs w1 w2. server_getSession nh defaultShardID w = (Inr cs, w1) \<and> body cs w1 = (Inr x, w2) \<and>
    w' = snd (SyncCloseSession nh w2 cs)"
proof -
  obtain cs w1 where s: "server_getSession nh defaultShardID w = (Inr cs, w1)"
    "(case body cs w1 of (r, w2) \<Rightarrow> (r, snd (SyncCloseSession nh w2 cs))) = (Inr x, w')"
    using assms by (auto simp only: withSession_def thenDo_Inr)
  then show ?thesis by (cases "body cs w1") auto
qed

lemma submitChange_steps:
  assumes "SubmitChange nh cdc c w = (Inr code, w')" and "code \<noteq> ChangeResponse_BOOTSTRAPPED"
  obtains cs w1 v w2 where "server_getSession nh defaultShardID w = (Inr cs, w1)"
    "proposeDrummerUpdate nh cdc cs (changeUpdate c) w1 = (Inr v, w2)" "v \<in> {DBUpdated, ShardExists}"
    "w' = snd (SyncCloseSession nh w2 cs)"
proof -
  obtain cs w1 w2 where s: "server_getSession nh defaultShardID w = (Inr cs, w1)"
    "thenDo (asGRPC (proposeDrummerUpdate nh cdc cs (changeUpdate c) w1)) (\<lambda>code w2.
       (if code = DBUpdated then (Inr ChangeResponse_OK, w2)
        else if code = ShardExists then (Inr ChangeResponse_SHARD_EXIST, w2)
        else if code = DBBootstrapped then (Inr ChangeResponse_BOOTSTRAPPED, w2)
        else (panic UnknownUpdateResponse, w2))) = (Inr code, w2)"
    "w' = snd (SyncCloseSession nh w2 cs)"
    using withSession_Inr [OF assms(1) [unfolded SubmitChange_def]] unfolding changeUpdate_def by blast
  then obtain v where "proposeDrummerUpdate nh cdc cs (changeUpdate c) w1 = (Inr v, w2)" "v \<in> {DBUpdated, ShardExists}"
    using assms(2) by (auto simp: thenDo_Inr asGRPC_Inr panic_def split: if_splits)
  with s(1,3) that show thesis by blast
qed

text \<open>
  C36. Over any Raft layer that keeps its contract, a shard whose creation was submitted without an
  error is defined in the replicated database from then on; its definition is the submitted one or
  the one it already had, since a shard that exists is not an error for the client.
\<close>

theorem submitted_shard_is_defined:
  assumes "raft_service nh cdc ok dbOf" and "c = createChange shardID members appName"
    and "uUpdate cdc (mUpdate cdc (changeUpdate c)) = Some (changeUpdate c)"
    and "ok (mUpdate cdc (changeUpdate c))"
    and "SubmitCreateDrummerChange (serverClient nh cdc ctx) shardID members appName w = (Inr (), w')"
  shows "\<exists>s. definedAs shardID s (dbOf w') \<and>
    (s = \<lparr>sd_Members = members, sd_ShardId = shardID, sd_AppName = appName\<rparr> \<or>
     (\<exists>d. dbMoves cdc ok (dbOf w) d \<and> definedAs shardID s d))"
proof -
  obtain code where sub: "SubmitChange nh cdc c w = (Inr code, w')" "code \<noteq> ChangeResponse_BOOTSTRAPPED"
    using assms(2,5) unfolding SubmitCreateDrummerChange_def serverClient_def
    by (cases "SubmitChange nh cdc c w"; cases "fst (SubmitChange nh cdc c w)") (auto simp: panic_def split: if_splits)
  obtain cs w1 v w2 where steps: "server_getSession nh defaultShardID w = (Inr cs, w1)"
    "proposeDrummerUpdate nh cdc cs (changeUpdate c) w1 = (Inr v, w2)" "v \<in> {DBUpdated, ShardExists}"
    "w' = snd (SyncCloseSession nh w2 cs)"
    by (rule submitChange_steps [OF sub])
  obtain d e where de: "dbMoves cdc ok (dbOf w1) d" "Update_cmd cdc d (mUpdate cdc (changeUpdate c)) = (Inr v, e)"
    "dbMoves cdc ok e (dbOf w2)"
    using raft_service.proposeUpdate_applied [OF assms(1,4) steps(2)] by blast
  have "dbMoves cdc ok (dbOf w) (dbOf w1)" by (rule raft_service.getSession_opened [OF assms(1) steps(1)])
  then have before: "dbMoves cdc ok (dbOf w) d" using de(1) by (rule dbMoves_trans)
  have "dbMoves cdc ok (dbOf w2) (dbOf w')"
    unfolding steps(4) by (rule raft_service.closed [OF assms(1)]) (rule surjective_pairing)
  with de(3) have after: "dbMoves cdc ok e (dbOf w')" by (rule dbMoves_trans)
  obtain s where "definedAs shardID s e" "s = \<lparr>sd_Members = members, sd_ShardId = shardID, sd_AppName = appName\<rparr> \<or>
      definedAs shardID s d"
    using create_applied [OF assms(3) de(2) steps(3)] by (auto simp: assms(2) createChange_def)
  with before moves_definedAs [OF after] show ?thesis by blast
qed

text \<open>A codec for one change, and a server whose database has the shard with other members.\<close>

definition oneChangeCodec :: "Change \<Rightarrow> codec" where
  "oneChangeCodec c = kvCodec\<lparr>mUpdate := (\<lambda>_. ''C''), uUpdate := (\<lambda>_. Some (changeUpdate c))\<rparr>"

definition takenWorld :: localWorld where
  "takenWorld = \<lparr>lw_others = [], lw_db = (NewDB 0 1)\<lparr>db_Shards :=
     [(7, \<lparr>sd_Members = [9], sd_ShardId = 7, sd_AppName = ''other''\<rparr>)]\<rparr>\<rparr>"

lemma submitted_shard_is_defined_witness:
  "\<exists>w'. SubmitCreateDrummerChange (serverClient (localRaft (oneChangeCodec (createChange 7 [1, 2, 3] ''kv''))
        (\<lambda>_. True)) (oneChangeCodec (createChange 7 [1, 2, 3] ''kv'')) \<lparr>ctxt_Deadline = None, ctxt_Now = 0\<rparr>)
      7 [1, 2, 3] ''kv'' takenWorld = (Inr (), w') \<and>
    (\<exists>s. definedAs 7 s (lw_db w')) \<and> mget (db_Shards (lw_db w')) 7 =
      Some \<lparr>sd_Members = [9], sd_ShardId = 7, sd_AppName = ''other''\<rparr>"
proof -
  let ?c = "createChange 7 [1, 2, 3] ''kv''"
  let ?run = "SubmitCreateDrummerChange (serverClient (localRaft (oneChangeCodec ?c) (\<lambda>_. True))
    (oneChangeCodec ?c) \<lparr>ctxt_Deadline = None, ctxt_Now = 0\<rparr>) 7 [1, 2, 3] ''kv'' takenWorld"
  have ends: "fst ?run = Inr () \<and> mget (db_Shards (lw_db (snd ?run))) 7 =
      Some \<lparr>sd_Members = [9], sd_ShardId = 7, sd_AppName = ''other''\<rparr>" by code_simp
  then have run: "?run = (Inr (), snd ?run)" by (metis prod.collapse)
  have "uUpdate (oneChangeCodec ?c) (mUpdate (oneChangeCodec ?c) (changeUpdate ?c)) = Some (changeUpdate ?c)"
    by (simp add: oneChangeCodec_def)
  from submitted_shard_is_defined [OF local_raft.raft_service_axioms refl this _ run] ends run
  show ?thesis by blast
qed

end
