(* ===== verification/Dragonboat.thy ===== *)
theory Dragonboat
  imports Server
begin

text \<open>
  What the NodeHost side of Drummer uses of \<^verbatim>\<open>dragonboat.NodeHost\<close> beyond the calls of the API
  server: the information a NodeHost gives about its shards, and the calls that start, stop and
  remove replicas. They are third-party code, so they are the fields of a record over a world,
  an argument of every operation.
\<close>

datatype smType = RegularStateMachine | ConcurrentStateMachine | OnDiskStateMachine | OtherStateMachine

record hostShardInfo =
  hi_ShardID :: u64
  hi_ReplicaID :: u64
  hi_IsLeader :: bool
  hi_Replicas :: "(u64, string) gomap"
  hi_ConfigChangeIndex :: u64
  hi_Pending :: bool
  hi_StateMachineType :: smType

record hostInfo =
  hh_RaftAddress :: string
  hh_ShardInfoList :: "hostShardInfo list"
  hh_LogInfo :: "LogInfo list"

text \<open>The configuration given to a replica that is started.\<close>

record replicaConfig =
  rc_ReplicaID :: u64
  rc_ShardID :: u64
  rc_DisableAutoCompactions :: bool
  rc_ElectionRTT :: u64
  rc_HeartbeatRTT :: u64
  rc_CheckQuorum :: bool
  rc_SnapshotEntries :: u64
  rc_CompactionOverhead :: u64
  rc_MaxInMemLogSize :: u64
  rc_OrderedConfigChange :: bool

text \<open>
  The client's copy of a session is passed by reference to \<^verbatim>\<open>SyncPropose\<close>, so \<open>ProposeSession\<close>
  returns it with the result. The three \<^verbatim>\<open>Start*Replica\<close> calls differ in the type of the state
  machine they are given.
\<close>

record 'w nodehost =
  host_GetNodeHostInfo :: "'w \<Rightarrow> hostInfo option"
  host_GetNoOPSession :: "u64 \<Rightarrow> session"
  host_IsNoOPSession :: "session \<Rightarrow> bool"
  host_SyncGetSession :: "'w \<Rightarrow> u64 \<Rightarrow> session go \<times> 'w"
  host_SyncCloseSession :: "'w \<Rightarrow> session \<Rightarrow> unit go \<times> 'w"
  host_ProposeSession :: "'w \<Rightarrow> session \<Rightarrow> string \<Rightarrow> (u64 \<times> session) go \<times> 'w"
  host_SyncRead :: "'w \<Rightarrow> u64 \<Rightarrow> string \<Rightarrow> string go \<times> 'w"
  host_HasNodeInfo :: "'w \<Rightarrow> u64 \<Rightarrow> u64 \<Rightarrow> bool"
  host_StopReplica :: "'w \<Rightarrow> u64 \<Rightarrow> u64 \<Rightarrow> unit go \<times> 'w"
  host_RemoveData :: "'w \<Rightarrow> u64 \<Rightarrow> u64 \<Rightarrow> unit go \<times> 'w"
  host_RequestAddReplica :: "'w \<Rightarrow> u64 \<Rightarrow> u64 \<Rightarrow> string \<Rightarrow> u64 \<Rightarrow> waitOutcome go \<times> 'w"
  host_RequestDeleteReplica :: "'w \<Rightarrow> u64 \<Rightarrow> u64 \<Rightarrow> u64 \<Rightarrow> waitOutcome go \<times> 'w"
  host_StartReplica :: "'w \<Rightarrow> smType \<Rightarrow> (u64, string) gomap \<Rightarrow> bool \<Rightarrow> string \<Rightarrow> replicaConfig \<Rightarrow> unit go \<times> 'w"
  host_IsTempError :: "goerror \<Rightarrow> bool"

end
