(* ===== verification/Connections.thy ===== *)
theory Connections
  imports Settings
begin

text \<open>
  The pool of gRPC connections of \<^verbatim>\<open>client/client.go\<close>. A connection is a reference: its address is a
  position in the lists of what the connections were dialled with and of their \<^verbatim>\<open>closed\<close> flags,
  which only grow. Dialling is the gRPC library's, an argument; a TLS configuration is opaque.
\<close>

section \<open>Options\<close>

type_synonym tlsConfig = string

datatype dialOption =
    WithInsecure
  | WithTransportCredentials tlsConfig
  | WithBlock
  | WithDefaultCallOptions u64 u64

type_synonym 'w dialer = "string \<Rightarrow> dialOption list \<Rightarrow> 'w \<Rightarrow> unit go \<times> 'w"

section \<open>The pool\<close>

record pool =
  pl_addOptions :: "(dialOption list \<Rightarrow> dialOption list) option"
  pl_connections :: "(string, nat) gomap"
  pl_dialled :: "dialOption list list"
  pl_closed :: "bool list"

definition NewConnectionPool :: pool where
  "NewConnectionPool = \<lparr>pl_addOptions = None, pl_connections = [], pl_dialled = [], pl_closed = []\<rparr>"

definition SetAddDialOptionsFunc :: "(dialOption list \<Rightarrow> dialOption list) \<Rightarrow> pool \<Rightarrow> pool" where
  "SetAddDialOptionsFunc f p = p\<lparr>pl_addOptions := Some f\<rparr>"

definition drummerExtraDialOptions :: "dialOption list \<Rightarrow> dialOption list" where
  "drummerExtraDialOptions opts =
     (let co1 = MaxDrummerClientMsgSize Soft; co2 = MaxDrummerClientMsgSize Soft
      in opts @ [WithDefaultCallOptions co1 co2])"

definition NewDrummerConnectionPool :: pool where
  "NewDrummerConnectionPool = SetAddDialOptionsFunc drummerExtraDialOptions NewConnectionPool"

definition conn_IsClosed :: "nat \<Rightarrow> pool \<Rightarrow> bool" where
  "conn_IsClosed c p = pl_closed p ! c"

definition conn_Close :: "nat \<Rightarrow> pool \<Rightarrow> pool" where
  "conn_Close c p = p\<lparr>pl_closed := (pl_closed p)[c := True]\<rparr>"

definition pool_Close :: "pool \<Rightarrow> pool" where
  "pool_Close p = (fold conn_Close (mvals (pl_connections p)) p)\<lparr>pl_connections := []\<rparr>"

section \<open>Connecting\<close>

definition dialOptions :: "pool \<Rightarrow> tlsConfig option \<Rightarrow> dialOption list" where
  "dialOptions p tls =
     (let opts = (case tls of None \<Rightarrow> [WithInsecure] | Some cfg \<Rightarrow> [WithTransportCredentials cfg]) @ [WithBlock]
      in case pl_addOptions p of None \<Rightarrow> opts | Some addOptions \<Rightarrow> addOptions opts)"

definition newConnection :: "'w dialer \<Rightarrow> string \<Rightarrow> tlsConfig option \<Rightarrow> pool \<times> 'w
    \<Rightarrow> dialOption list go \<times> (pool \<times> 'w)" where
  "newConnection dial addr tls st = (case st of (p, w) \<Rightarrow>
     (let opts = dialOptions p tls in
      case dial addr opts w of
        (Inl e, w1) \<Rightarrow> (Inl e, (p, w1))
      | (Inr _, w1) \<Rightarrow> (Inr opts, (p, w1))))"

text \<open>The end of \<^verbatim>\<open>getConnection\<close>: the new connection is kept under its address.\<close>

definition dialAndKeep :: "'w dialer \<Rightarrow> string \<Rightarrow> tlsConfig option \<Rightarrow> pool \<times> 'w \<Rightarrow> nat go \<times> (pool \<times> 'w)" where
  "dialAndKeep dial addr tls st =
     thenDo (newConnection dial addr tls st) (\<lambda>opts (p, w).
       (let c = length (pl_closed p)
        in (Inr c, (p\<lparr>pl_connections := mput addr c (pl_connections p),
                       pl_dialled := pl_dialled p @ [opts], pl_closed := pl_closed p @ [False]\<rparr>, w))))"

text \<open>A connection is kept under its address only: the TLS configuration it was asked for is not looked at.\<close>

definition getConnection :: "'w dialer \<Rightarrow> string \<Rightarrow> tlsConfig option \<Rightarrow> pool \<times> 'w \<Rightarrow> nat go \<times> (pool \<times> 'w)" where
  "getConnection dial addr tls st =
     (case mget (pl_connections (fst st)) addr of
        Some c \<Rightarrow> if \<not> conn_IsClosed c (fst st) then (Inr c, st) else dialAndKeep dial addr tls st
      | None \<Rightarrow> dialAndKeep dial addr tls st)"

definition GetConnection :: "'w dialer \<Rightarrow> string \<Rightarrow> tlsConfig option \<Rightarrow> pool \<times> 'w \<Rightarrow> nat go \<times> (pool \<times> 'w)" where
  "GetConnection dial addr tls = getConnection dial addr tls"

definition GetInsecureConnection :: "'w dialer \<Rightarrow> string \<Rightarrow> pool \<times> 'w \<Rightarrow> nat go \<times> (pool \<times> 'w)" where
  "GetInsecureConnection dial addr = getConnection dial addr None"

text \<open>
  \<^verbatim>\<open>netutil.GetHost\<close> and \<^verbatim>\<open>netutil.GetClientTLSConfig\<close> are third-party: the host name of an address, and
  the configuration for a host and three files, which may be nil.
\<close>

definition GetTLSConnection :: "(string \<Rightarrow> string go) \<Rightarrow> (string \<Rightarrow> string \<Rightarrow> string \<Rightarrow> string \<Rightarrow> tlsConfig option go)
    \<Rightarrow> 'w dialer \<Rightarrow> string \<Rightarrow> string \<Rightarrow> string \<Rightarrow> string \<Rightarrow> pool \<times> 'w \<Rightarrow> nat go \<times> (pool \<times> 'w)" where
  "GetTLSConnection getHost getConfig dial addr caFile certFile keyFile st =
     (case getHost addr of
        Inl e \<Rightarrow> (Inl e, st)
      | Inr hostname \<Rightarrow>
          (case getConfig hostname caFile certFile keyFile of
             Inl e \<Rightarrow> (Inl e, st)
           | Inr None \<Rightarrow> (panic TLSConfigNil, st)
           | Inr (Some cfg) \<Rightarrow> getConnection dial addr (Some cfg) st))"

section \<open>What the pool keeps\<close>

text \<open>Every connection of the pool is an allocated reference.\<close>

definition pool_ok :: "pool \<Rightarrow> bool" where
  "pool_ok p \<longleftrightarrow> length (pl_dialled p) = length (pl_closed p) \<and>
     (\<forall>addr c. mget (pl_connections p) addr = Some c \<longrightarrow> c < length (pl_closed p))"

text \<open>The connection an address has, if it is open.\<close>

definition openAt :: "pool \<Rightarrow> string \<Rightarrow> nat option" where
  "openAt p addr = (case mget (pl_connections p) addr of None \<Rightarrow> None
     | Some c \<Rightarrow> if conn_IsClosed c p then None else Some c)"

lemma fold_conn_Close [simp]:
  "length (pl_closed (fold conn_Close cs p)) = length (pl_closed p)"
  "pl_connections (fold conn_Close cs p) = pl_connections p"
  "pl_dialled (fold conn_Close cs p) = pl_dialled p"
  "pl_addOptions (fold conn_Close cs p) = pl_addOptions p"
  by (induction cs arbitrary: p) (simp_all add: conn_Close_def)

lemma pool_ok_keep [simp]:
  "pool_ok NewConnectionPool" "pool_ok p \<Longrightarrow> pool_ok (SetAddDialOptionsFunc f p)" "pool_ok NewDrummerConnectionPool"
  "pool_ok p \<Longrightarrow> pool_ok (conn_Close c p)" "pool_ok p \<Longrightarrow> pool_ok (pool_Close p)"
  by (simp_all add: pool_ok_def NewConnectionPool_def NewDrummerConnectionPool_def SetAddDialOptionsFunc_def
      conn_Close_def pool_Close_def)

text \<open>A connection is handed out as it is when it is open, and dialled with the options of the pool otherwise.\<close>

lemma getConnection_cases:
  assumes "getConnection dial addr tls (p, w) = (r, (p', w'))"
  obtains (kept) c where "openAt p addr = Some c" "r = Inr c" "p' = p" "w' = w"
  | (failed) e where "openAt p addr = None" "dial addr (dialOptions p tls) w = (Inl e, w')" "r = Inl e" "p' = p"
  | (dialled) "openAt p addr = None" "dial addr (dialOptions p tls) w = (Inr (), w')" "r = Inr (length (pl_closed p))"
      "p' = p\<lparr>pl_connections := mput addr (length (pl_closed p)) (pl_connections p),
         pl_dialled := pl_dialled p @ [dialOptions p tls], pl_closed := pl_closed p @ [False]\<rparr>"
proof (cases "openAt p addr")
  case (Some c)
  with assms kept show thesis by (auto simp: getConnection_def openAt_def split: option.splits if_splits)
next
  case None
  then have "dialAndKeep dial addr tls (p, w) = (r, (p', w'))"
    using assms by (auto simp: getConnection_def openAt_def split: option.splits if_splits)
  with None failed dialled show thesis
    by (auto simp: dialAndKeep_def newConnection_def Let_def split: prod.splits sum.splits)
qed

end
