(* ===== verification/Agent.thy ===== *)
theory Agent
  imports Client Dragonboat Connections
begin

text \<open>
  The Drummer client that runs beside every NodeHost (\<^verbatim>\<open>client/\<close>): the plugin table (\<^verbatim>\<open>plugin.go\<close>),
  the reports to the Drummer servers (\<^verbatim>\<open>nodehost.go\<close>), and the worker that sends them (\<^verbatim>\<open>node.go\<close>).
  The execution of the requests they are answered with is in \<open>AgentRequests\<close>.
\<close>

section \<open>The plugins\<close>

text \<open>The state machine factories, by the name of the function; at most one is set.\<close>

record pluginDetails =
  createNativeStateMachine :: "string option"
  createConcurrentStateMachine :: "string option"
  createOnDiskStateMachine :: "string option"

definition isRegularStateMachine :: "pluginDetails \<Rightarrow> bool" where
  "isRegularStateMachine pd \<longleftrightarrow> createNativeStateMachine pd \<noteq> None"

definition isConcurrentStateMachine :: "pluginDetails \<Rightarrow> bool" where
  "isConcurrentStateMachine pd \<longleftrightarrow> createConcurrentStateMachine pd \<noteq> None"

definition isOnDiskStateMachine :: "pluginDetails \<Rightarrow> bool" where
  "isOnDiskStateMachine pd \<longleftrightarrow> createOnDiskStateMachine pd \<noteq> None"

definition noPlugin :: pluginDetails where
  "noPlugin = \<lparr>createNativeStateMachine = None, createConcurrentStateMachine = None,
     createOnDiskStateMachine = None\<rparr>"

definition getPluginMap :: "(string, pluginDetails) gomap" where
  "getPluginMap =
     mput ''diskkv'' (noPlugin\<lparr>createOnDiskStateMachine := Some ''NewDiskKVTest''\<rparr>)
       (mput ''concurrentkv'' (noPlugin\<lparr>createConcurrentStateMachine := Some ''NewConcurrentKVTest''\<rparr>)
         (mput ''kvtest'' (noPlugin\<lparr>createNativeStateMachine := Some ''NewKVTest''\<rparr>) []))"

section \<open>Reports\<close>

record 'w agent =
  ag_requests :: "NodeHostRequest list"
  ag_pool :: pool
  ag_world :: 'w

record clusterInfo =
  ci_info :: hostShardInfo
  ci_incomplete :: bool

text \<open>
  What the agent is given: the partition switch of the tests, the TLS configuration the NodeHost has
  for an address, how to dial, the stub at an address.
\<close>

record 'w network =
  net_IsPartitioned :: "'w \<Rightarrow> bool"
  net_TLSConfig :: "string \<Rightarrow> 'w \<Rightarrow> tlsConfig option go"
  net_Dial :: "'w dialer"
  net_Stub :: "string \<Rightarrow> 'w drummerClient"

definition DefaultRegion :: string where
  "DefaultRegion = ''default-region''"

definition onPool :: "(pool \<times> 'w \<Rightarrow> 'a go \<times> (pool \<times> 'w)) \<Rightarrow> 'w agent \<Rightarrow> 'a go \<times> 'w agent" where
  "onPool f a = (case f (ag_pool a, ag_world a) of
     (r, (p, w)) \<Rightarrow> (r, a\<lparr>ag_pool := p, ag_world := w\<rparr>))"

definition onNetwork :: "('w \<Rightarrow> 'a go \<times> 'w) \<Rightarrow> 'w agent \<Rightarrow> 'a go \<times> 'w agent" where
  "onNetwork f a = (case f (ag_world a) of (r, w) \<Rightarrow> (r, a\<lparr>ag_world := w\<rparr>))"

definition getDrummerConnection :: "'w network \<Rightarrow> string \<Rightarrow> pool \<times> 'w \<Rightarrow> nat go \<times> (pool \<times> 'w)" where
  "getDrummerConnection net drummerAPIAddress st =
     (case net_TLSConfig net drummerAPIAddress (snd st) of
        Inl e \<Rightarrow> (Inl e, st)
      | Inr tls \<Rightarrow> GetConnection (net_Dial net) drummerAPIAddress tls st)"

definition agent_addRequests :: "NodeHostRequest list \<Rightarrow> 'w agent \<Rightarrow> 'w agent" where
  "agent_addRequests reqs a = a\<lparr>ag_requests := ag_requests a @ reqs\<rparr>"

definition agent_getRequests :: "'w agent \<Rightarrow> NodeHostRequest list \<times> 'w agent" where
  "agent_getRequests a = (ag_requests a, a\<lparr>ag_requests := []\<rparr>)"

text \<open>One iteration of the loop over \<^verbatim>\<open>nhi.ShardInfoList\<close>.\<close>

definition toClusterInfo :: "(u64, u64) gomap \<Rightarrow> hostShardInfo \<Rightarrow> clusterInfo" where
  "toClusterInfo indexes v =
     (let incomplete = (case mget indexes (hi_ShardID v) of
            None \<Rightarrow> False
          | Some cci \<Rightarrow> cci \<ge> hi_ConfigChangeIndex v \<and> \<not> hi_Pending v)
      in if incomplete then \<lparr>ci_info = v\<lparr>hi_Replicas := []\<rparr>, ci_incomplete = True\<rparr>
         else \<lparr>ci_info = v, ci_incomplete = False\<rparr>)"

definition toDrummerPBShardInfo :: "clusterInfo list \<Rightarrow> ShardInfo list" where
  "toDrummerPBShardInfo cil = map (\<lambda>vv. let v = ci_info vv in
     \<lparr>si_ShardId = hi_ShardID v, si_ReplicaId = hi_ReplicaID v, si_IsLeader = hi_IsLeader v,
      si_Replicas = hi_Replicas v, si_ConfigChangeIndex = hi_ConfigChangeIndex v,
      si_Incomplete = ci_incomplete vv, si_Pending = hi_Pending v\<rparr>) cil"

definition toDrummerPBLogInfo :: "LogInfo list \<Rightarrow> LogInfo list" where
  "toDrummerPBLogInfo loginfo = map (\<lambda>v. \<lparr>li_ShardId = li_ShardId v, li_ReplicaId = li_ReplicaId v\<rparr>) loginfo"

definition reportFor :: "hostInfo \<Rightarrow> string \<Rightarrow> bool \<Rightarrow> (u64, u64) gomap \<Rightarrow> NodeHostInfo" where
  "reportFor nhi APIAddress logInfoIncluded indexes =
     \<lparr>nhi_RaftAddress = hh_RaftAddress nhi,
      nhi_ShardInfo = toDrummerPBShardInfo (map (toClusterInfo indexes) (hh_ShardInfoList nhi)),
      nhi_ShardIdList = map hi_ShardID (hh_ShardInfoList nhi), nhi_LastTick = 0,
      nhi_PlogInfoIncluded = logInfoIncluded, nhi_PlogInfo = toDrummerPBLogInfo (hh_LogInfo nhi),
      nhi_Region = DefaultRegion, nhi_RPCAddress = APIAddress\<rparr>"

text \<open>The connection is closed on an error, so that the next report dials again.\<close>

definition closing :: "nat \<Rightarrow> goerror \<Rightarrow> 'w agent \<Rightarrow> 'a go \<times> 'w agent" where
  "closing conn err a = (Inl (Err err), a\<lparr>ag_pool := conn_Close conn (ag_pool a)\<rparr>)"

definition SendNodeHostInfo :: "'w network \<Rightarrow> string \<Rightarrow> hostInfo \<Rightarrow> string \<Rightarrow> bool \<Rightarrow> 'w agent
    \<Rightarrow> unit go \<times> 'w agent" where
  "SendNodeHostInfo net drummerAPIAddress nhi APIAddress logInfoIncluded a =
     (if net_IsPartitioned net (ag_world a) then (Inr (), a)
      else thenDo (onPool (getDrummerConnection net drummerAPIAddress) a) (\<lambda>conn a1.
        (let client = net_Stub net drummerAPIAddress in
         onError (onNetwork (cl_GetShardConfigChangeIndexList client) a1) (closing conn) (\<lambda>il a2.
           (if \<not> logInfoIncluded \<and> length (hh_LogInfo nhi) \<noteq> 0 then (panic LogInfoUnexpected, a2)
            else
              (let info = reportFor nhi APIAddress logInfoIncluded (ccl_Indexes il) in
               onError (onNetwork (cl_ReportAvailableNodeHost client info) a2) (closing conn) (\<lambda>coll a3.
                 (if length (nrc_Requests coll) > 0
                  then (Inr (), agent_addRequests (nrc_Requests coll) a3) else (Inr (), a3)))))))))"

text \<open>The servers are tried in a random order, the argument of the caller, until one accepts.\<close>

fun sendLoop :: "(string \<Rightarrow> 'w agent \<Rightarrow> unit go \<times> 'w agent) \<Rightarrow> string list \<Rightarrow> 'w agent \<Rightarrow> unit go \<times> 'w agent" where
  "sendLoop send [] a = (Inr (), a)"
| "sendLoop send (url # urls) a =
     onError (send url a)
       (\<lambda>err a1. if err = ErrContextCanceled then (Inl (Err err), a1) else sendLoop send urls a1)
       (\<lambda>_ a1. (Inr (), a1))"

definition reportNodeHostInfo :: "'w nodehost \<Rightarrow> 'w network \<Rightarrow> string list \<Rightarrow> string \<Rightarrow> bool \<Rightarrow> 'w agent
    \<Rightarrow> unit go \<times> 'w agent" where
  "reportNodeHostInfo nh net servers apiAddress plogIncluded a =
     (case host_GetNodeHostInfo nh (ag_world a) of
        None \<Rightarrow> (panic NilDereference, a)
      | Some nhi0 \<Rightarrow>
          (let nhi = (if plogIncluded then nhi0 else nhi0\<lparr>hh_LogInfo := []\<rparr>)
           in sendLoop (\<lambda>url. SendNodeHostInfo net url nhi apiAddress plogIncluded) servers a))"

text \<open>The ticks of the report worker; each comes with the order in which the servers are tried.\<close>

fun reportWorker :: "'w nodehost \<Rightarrow> 'w network \<Rightarrow> string \<Rightarrow> u64 \<Rightarrow> string list list \<Rightarrow> 'w agent
    \<Rightarrow> unit go \<times> 'w agent" where
  "reportWorker nh net apiAddress cnt [] a = (Inr (), a)"
| "reportWorker nh net apiAddress cnt (servers # ticks) a =
     (let cnt1 = cnt + 1; incPlog = (cnt1 = 1 \<or> cnt1 mod PersisentLogReportCycle Soft = 0)
      in onError (reportNodeHostInfo nh net servers apiAddress incPlog a)
           (\<lambda>err a1. if err = ErrContextCanceled then (Inr (), a1)
              else reportWorker nh net apiAddress cnt1 ticks a1)
           (\<lambda>_ a1. reportWorker nh net apiAddress cnt1 ticks a1))"

end
