(* ===== verification/NodehostAPI.thy ===== *)
theory NodehostAPI
  imports Dragonboat
begin

text \<open>
  The gRPC service of a NodeHost (\<^verbatim>\<open>nodehostapi.go\<close>): sessions, proposals and reads of the managed
  shards on behalf of remote clients. Its one piece of state is the cache of which shards support
  client sessions; an operation takes and returns it with the world.
\<close>

section \<open>Sessions on the wire\<close>

record pbSession =
  pbs_ShardID :: u64
  pbs_ClientID :: u64
  pbs_SeriesID :: u64
  pbs_RespondedTo :: u64

definition ToNodeHostSession :: "pbSession \<Rightarrow> session" where
  "ToNodeHostSession s = \<lparr>cs_ShardID = pbs_ShardID s, cs_ClientID = pbs_ClientID s,
     cs_SeriesID = pbs_SeriesID s, cs_RespondedTo = pbs_RespondedTo s\<rparr>"

definition ToPBSession :: "session \<Rightarrow> pbSession" where
  "ToPBSession s = \<lparr>pbs_ShardID = cs_ShardID s, pbs_ClientID = cs_ClientID s,
     pbs_SeriesID = cs_SeriesID s, pbs_RespondedTo = cs_RespondedTo s\<rparr>"

definition updatePBSession :: "pbSession \<Rightarrow> session \<Rightarrow> pbSession" where
  "updatePBSession dst src = dst\<lparr>pbs_ShardID := cs_ShardID src, pbs_ClientID := cs_ClientID src,
     pbs_SeriesID := cs_SeriesID src, pbs_RespondedTo := cs_RespondedTo src\<rparr>"

lemma session_conversions [simp]:
  "ToNodeHostSession (ToPBSession s) = s" "ToPBSession (ToNodeHostSession p) = p"
  "updatePBSession dst s = ToPBSession s"
  by (simp_all add: ToNodeHostSession_def ToPBSession_def updatePBSession_def)

section \<open>Which shards support sessions\<close>

text \<open>The cache \<^verbatim>\<open>supportCS\<close>, and the loop that fills it.\<close>

type_synonym csCache = "(u64, bool) gomap"

definition recordTypes :: "u64 \<Rightarrow> hostShardInfo list \<Rightarrow> csCache \<Rightarrow> csCache" where
  "recordTypes shardID cis supportCS =
     fold (\<lambda>ci. mput shardID (hi_StateMachineType ci \<noteq> OnDiskStateMachine)) cis supportCS"

definition supportRegularSession :: "'w nodehost \<Rightarrow> u64 \<Rightarrow> csCache \<times> 'w \<Rightarrow> bool go \<times> (csCache \<times> 'w)" where
  "supportRegularSession nh shardID st = (case st of (supportCS, w) \<Rightarrow>
     (case mget supportCS shardID of
        Some v \<Rightarrow> (Inr v, st)
      | None \<Rightarrow>
          (case host_GetNodeHostInfo nh w of
             None \<Rightarrow> (Inl (Err ErrStopped), st)
           | Some nhi \<Rightarrow>
               (let supportCS1 = recordTypes shardID (hh_ShardInfoList nhi) supportCS
                in case mget supportCS1 shardID of
                     Some v \<Rightarrow> (Inr v, (supportCS1, w))
                   | None \<Rightarrow> (Inl (Err ErrUnknownStateMachine), (supportCS1, w))))))"

section \<open>The service\<close>

definition onHost :: "('w \<Rightarrow> 'a go \<times> 'w) \<Rightarrow> csCache \<times> 'w \<Rightarrow> 'a go \<times> (csCache \<times> 'w)" where
  "onHost f st = (case f (snd st) of (r, w) \<Rightarrow> (r, (fst st, w)))"

definition api_GetSession :: "'w nodehost \<Rightarrow> u64 \<Rightarrow> csCache \<times> 'w \<Rightarrow> pbSession go \<times> (csCache \<times> 'w)" where
  "api_GetSession nh shardID st =
     thenDo (supportRegularSession nh shardID st) (\<lambda>s st1.
       (if s then thenDo (asGRPC (onHost (\<lambda>w. host_SyncGetSession nh w shardID) st1))
            (\<lambda>cs st2. (Inr (ToPBSession cs), st2))
        else (Inr (ToPBSession (host_GetNoOPSession nh shardID)), st1)))"

text \<open>The response has the flag \<open>Completed\<close>; it is set whenever there is no error.\<close>

definition api_CloseSession :: "'w nodehost \<Rightarrow> pbSession \<Rightarrow> csCache \<times> 'w \<Rightarrow> bool go \<times> (csCache \<times> 'w)" where
  "api_CloseSession nh cs st =
     (let nhcs = ToNodeHostSession cs in
      if host_IsNoOPSession nh nhcs then (Inr True, st)
      else thenDo (asGRPC (onHost (\<lambda>w. host_SyncCloseSession nh w nhcs) st)) (\<lambda>_ st1. (Inr True, st1)))"

text \<open>The request's session is updated in place: it is returned with the result.\<close>

definition api_Propose :: "'w nodehost \<Rightarrow> pbSession \<Rightarrow> string \<Rightarrow> csCache \<times> 'w
    \<Rightarrow> (u64 \<times> pbSession) go \<times> (csCache \<times> 'w)" where
  "api_Propose nh session data st =
     (let cs = ToNodeHostSession session in
      thenDo (asGRPC (onHost (\<lambda>w. host_ProposeSession nh w cs data) st)) (\<lambda>(v, cs1) st1.
        (Inr (v, updatePBSession session cs1), st1)))"

definition api_Read :: "'w nodehost \<Rightarrow> u64 \<Rightarrow> string \<Rightarrow> csCache \<times> 'w \<Rightarrow> string go \<times> (csCache \<times> 'w)" where
  "api_Read nh shardID data st = asGRPC (onHost (\<lambda>w. host_SyncRead nh w shardID data) st)"

section \<open>What the cache holds\<close>

lemma recordTypes_get:
  "mget (recordTypes shardID cis supportCS) k =
     (if k = shardID \<and> cis \<noteq> [] then Some (hi_StateMachineType (last cis) \<noteq> OnDiskStateMachine)
      else mget supportCS k)"
  unfolding recordTypes_def
  by (induction cis rule: rev_induct) (auto simp: mget_mput)

text \<open>
  The answer cached for a shard is not read off that shard: it is the type of the last shard
  in the NodeHost's list, whichever that is, and the same answer for every shard first asked of
  with that list.
\<close>

theorem session_kind_of_last_shard:
  assumes "mget supportCS shardID = None" and "host_GetNodeHostInfo nh w = Some nhi"
    and "hh_ShardInfoList nhi \<noteq> []"
  shows "fst (supportRegularSession nh shardID (supportCS, w)) =
      Inr (hi_StateMachineType (last (hh_ShardInfoList nhi)) \<noteq> OnDiskStateMachine)"
  using assms by (simp add: supportRegularSession_def recordTypes_get Let_def)

text \<open>A NodeHost with a regular state machine in shard 1 and one on disk in shard 2.\<close>

definition mixedInfo :: hostInfo where
  "mixedInfo = \<lparr>hh_RaftAddress = ''a1'', hh_ShardInfoList =
     [\<lparr>hi_ShardID = 1, hi_ReplicaID = 1, hi_IsLeader = False, hi_Replicas = [], hi_ConfigChangeIndex = 1,
       hi_Pending = False, hi_StateMachineType = RegularStateMachine\<rparr>,
      \<lparr>hi_ShardID = 2, hi_ReplicaID = 1, hi_IsLeader = False, hi_Replicas = [], hi_ConfigChangeIndex = 1,
       hi_Pending = False, hi_StateMachineType = OnDiskStateMachine\<rparr>], hh_LogInfo = []\<rparr>"

definition quietHost :: "hostInfo option \<Rightarrow> 'w nodehost" where
  "quietHost info = \<lparr>host_GetNodeHostInfo = (\<lambda>_. info),
     host_GetNoOPSession = (\<lambda>i. \<lparr>cs_ShardID = i, cs_ClientID = 0, cs_SeriesID = 0, cs_RespondedTo = 0\<rparr>),
     host_IsNoOPSession = (\<lambda>cs. cs_SeriesID cs = 0),
     host_SyncGetSession = (\<lambda>w _. (Inl (Err ErrTimeout), w)),
     host_SyncCloseSession = (\<lambda>w _. (Inr (), w)),
     host_ProposeSession = (\<lambda>w _ _. (Inl (Err ErrTimeout), w)),
     host_SyncRead = (\<lambda>w _ _. (Inl (Err ErrTimeout), w)), host_HasNodeInfo = (\<lambda>_ _ _. False),
     host_StopReplica = (\<lambda>w _ _. (Inr (), w)), host_RemoveData = (\<lambda>w _ _. (Inr (), w)),
     host_RequestAddReplica = (\<lambda>w _ _ _ _. (Inl (Err ErrTimeout), w)),
     host_RequestDeleteReplica = (\<lambda>w _ _ _. (Inl (Err ErrTimeout), w)),
     host_StartReplica = (\<lambda>w _ _ _ _ _. (Inr (), w)), host_IsTempError = (\<lambda>e. e = ErrTimeout)\<rparr>"

text \<open>Shard 1 supports sessions and is told that it does not.\<close>

lemma session_kind_of_last_shard_witness:
  "fst (supportRegularSession (quietHost (Some mixedInfo)) 1 ([], (0 :: nat))) = Inr False"
proof -
  have "host_GetNodeHostInfo (quietHost (Some mixedInfo)) (0 :: nat) = Some mixedInfo"
    by (simp add: quietHost_def)
  from session_kind_of_last_shard [OF _ this, of "[]" 1] show ?thesis by (simp add: mixedInfo_def)
qed

end
