(* ===== verification/AgentRequests.thy ===== *)
theory AgentRequests
  imports Agent Drummer NodehostAPI Validation
begin

text \<open>
  The execution of the requests of the Drummer servers on a NodeHost (\<^verbatim>\<open>client/nodehost.go\<close>): one
  worker per shard handles the shard's requests in their order, the workers run concurrently.
  A request only touches the world, through the NodeHost. Its errors are logged, so the result of
  a handler is a panic or nothing.
\<close>

section \<open>Handlers\<close>

text \<open>\<^verbatim>\<open>for { err := RemoveData ... }\<close>: tried again for as long as the replica has not stopped.\<close>

partial_function (option) removeLoop :: "'w nodehost \<Rightarrow> u64 \<Rightarrow> u64 \<Rightarrow> 'w \<Rightarrow> (unit go \<times> 'w) option" where
  "removeLoop nh shardID replicaID w =
     (case host_RemoveData nh w shardID replicaID of
        (Inr _, w1) \<Rightarrow> Some (Inr (), w1)
      | (Inl e, w1) \<Rightarrow>
          (case e of
             Err err \<Rightarrow> (if err = ErrShardNotStopped then removeLoop nh shardID replicaID w1
                         else Some (panic RaftCallFailed, w1))
           | _ \<Rightarrow> Some (Inl e, w1)))"

declare removeLoop.simps [code]

definition removeData :: "'w nodehost \<Rightarrow> u64 \<Rightarrow> u64 \<Rightarrow> 'w \<Rightarrow> unit go \<times> 'w" where
  "removeData nh shardID replicaID w =
     (case removeLoop nh shardID replicaID w of None \<Rightarrow> (Inl Diverges, w) | Some res \<Rightarrow> res)"

definition handleKillRequest :: "'w nodehost \<Rightarrow> NodeHostRequest \<Rightarrow> Request \<Rightarrow> 'w \<Rightarrow> unit go \<times> 'w" where
  "handleKillRequest nh req change w =
     (case goIndex (rq_Members change) 0 of
        Inl e \<Rightarrow> (Inl e, w)
      | Inr replicaID \<Rightarrow>
          onError (host_StopReplica nh w (rq_ShardId change) replicaID)
            (\<lambda>err w1. (Inr (), w1)) (\<lambda>_ w1. removeData nh (rq_ShardId change) replicaID w1))"

definition isGRPCTempError :: "goerror \<Rightarrow> bool" where
  "isGRPCTempError err \<longleftrightarrow> err = ErrGRPC code_Unavailable"

definition membershipCall :: "'w nodehost \<Rightarrow> NodeHostRequest \<Rightarrow> Request \<Rightarrow> u64 \<Rightarrow> 'w \<Rightarrow> waitOutcome go \<times> 'w" where
  "membershipCall nh req change replicaID w =
     (if rq_Type change = Request_DELETE
      then host_RequestDeleteReplica nh w (rq_ShardId change) replicaID (rq_ConfChangeId change)
      else if rq_Type change = Request_ADD then
        (case goIndex (nr_AddressList req) 0 of
           Inl e \<Rightarrow> (Inl e, w)
         | Inr url \<Rightarrow> host_RequestAddReplica nh w (rq_ShardId change) replicaID url (rq_ConfChangeId change))
      else (panic UnknownRequestType, w))"

definition handleAddDeleteRequest :: "'w nodehost \<Rightarrow> NodeHostRequest \<Rightarrow> Request \<Rightarrow> 'w \<Rightarrow> unit go \<times> 'w" where
  "handleAddDeleteRequest nh req change w =
     (case goIndex (rq_Members change) 0 of
        Inl e \<Rightarrow> (Inl e, w)
      | Inr replicaID \<Rightarrow>
          onError (membershipCall nh req change replicaID w)
            (\<lambda>err w1. if err = ErrShardNotFound \<or> host_IsTempError nh err \<or> isGRPCTempError err
               then (Inr (), w1) else (panic RaftCallFailed, w1))
            (\<lambda>rs w1. (case rs of
                CtxDone _ \<Rightarrow> (Inr (), w1)
              | Applied v \<Rightarrow>
                  (if v = ResultOther then (panic UnknownResultCode, w1)
                   else if v = ResultCompleted \<and> rq_Type change = Request_DELETE
                   then removeData nh (rq_ShardId change) replicaID w1
                   else (Inr (), w1)))))"

definition getConfig :: "Config \<Rightarrow> u64 \<Rightarrow> u64 \<Rightarrow> replicaConfig" where
  "getConfig cfg replicaID shardID = \<lparr>rc_ReplicaID = replicaID, rc_ShardID = shardID,
     rc_DisableAutoCompactions = True, rc_ElectionRTT = cf_ElectionRTT cfg,
     rc_HeartbeatRTT = cf_HeartbeatRTT cfg, rc_CheckQuorum = cf_CheckQuorum cfg,
     rc_SnapshotEntries = cf_SnapshotEntries cfg, rc_CompactionOverhead = cf_CompactionOverhead cfg,
     rc_MaxInMemLogSize = cf_MaxInMemLogSize cfg, rc_OrderedConfigChange = True\<rparr>"

text \<open>\<^verbatim>\<open>for k, v := range req.AddressList { peers[req.ReplicaIdList[k]] = v }\<close>\<close>

fun peersFrom :: "string list \<Rightarrow> u64 list \<Rightarrow> (u64, string) gomap \<Rightarrow> (u64, string) gomap go" where
  "peersFrom [] ids peers = Inr peers"
| "peersFrom (v # vs) [] peers = panic IndexOutOfRange"
| "peersFrom (v # vs) (i # ids) peers = peersFrom vs ids (mput i v peers)"

text \<open>
  What the flags ask for, against what the NodeHost has on disk: the peers to start with, or
  \<open>None\<close> to do nothing. A join with data already on disk only logs that it ignores the request.
\<close>

definition instantiatePeers :: "NodeHostRequest \<Rightarrow> bool \<Rightarrow> (u64, string) gomap option go" where
  "instantiatePeers req hasNodeInfo =
     (if nr_Join req \<and> \<not> nr_Restore req then Inr (Some [])
      else if \<not> nr_Join req \<and> nr_Restore req then Inr (if \<not> hasNodeInfo then None else Some [])
      else if \<not> nr_Join req \<and> \<not> nr_Restore req then
        (if hasNodeInfo then panic LaunchOverNodeInfo
         else case peersFrom (nr_AddressList req) (nr_ReplicaIdList req) [] of
           Inl e \<Rightarrow> Inl e | Inr peers \<Rightarrow> Inr (Some peers))
      else panic UnknownJoinRestore)"

definition startReplica :: "'w nodehost \<Rightarrow> pluginDetails \<Rightarrow> (u64, string) gomap \<Rightarrow> bool \<Rightarrow> replicaConfig \<Rightarrow> 'w
    \<Rightarrow> unit go \<times> 'w" where
  "startReplica nh pd peers join config w =
     (if isRegularStateMachine pd then
        host_StartReplica nh w RegularStateMachine peers join (the (createNativeStateMachine pd)) config
      else if isConcurrentStateMachine pd then
        host_StartReplica nh w ConcurrentStateMachine peers join (the (createConcurrentStateMachine pd)) config
      else if isOnDiskStateMachine pd then
        host_StartReplica nh w OnDiskStateMachine peers join (the (createOnDiskStateMachine pd)) config
      else (panic UnknownStateMachineType, w))"

definition handleInstantiateRequest :: "'w nodehost \<Rightarrow> (string, pluginDetails) gomap \<Rightarrow> NodeHostRequest \<Rightarrow> Request \<Rightarrow> 'w
    \<Rightarrow> unit go \<times> 'w" where
  "handleInstantiateRequest nh smFactory req change w =
     (let replicaID = nr_InstantiateReplicaId req; shardID = rq_ShardId change
      in case instantiatePeers req (host_HasNodeInfo nh w shardID replicaID) of
           Inl e \<Rightarrow> (Inl e, w)
         | Inr None \<Rightarrow> (Inr (), w)
         | Inr (Some peers) \<Rightarrow>
             (case nr_Config req of
                None \<Rightarrow> (panic NilDereference, w)
              | Some cfg \<Rightarrow>
                  (case mget smFactory (nr_AppName req) of
                     None \<Rightarrow> (panic PluginNotReady, w)
                   | Some pd \<Rightarrow>
                       onError (startReplica nh pd peers (nr_Join req) (getConfig cfg replicaID shardID) w)
                         (\<lambda>err w1. (Inr (), w1)) (\<lambda>_ w1. (Inr (), w1)))))"

definition handleRequest :: "'w nodehost \<Rightarrow> (string, pluginDetails) gomap \<Rightarrow> NodeHostRequest \<Rightarrow> 'w \<Rightarrow> unit go \<times> 'w" where
  "handleRequest nh smFactory req w =
     (case nr_Change req of
        None \<Rightarrow> (panic NilDereference, w)
      | Some change \<Rightarrow>
          (if rq_Type change = Request_CREATE then handleInstantiateRequest nh smFactory req change w
           else if rq_Type change = Request_DELETE \<or> rq_Type change = Request_ADD
           then handleAddDeleteRequest nh req change w
           else if rq_Type change = Request_KILL then handleKillRequest nh req change w
           else (panic UnknownRequestType, w)))"

section \<open>Workers\<close>

text \<open>The shards of the requests: the loop that fills \<^verbatim>\<open>shardIDMap\<close>.\<close>

fun shardIDMap :: "NodeHostRequest list \<Rightarrow> (u64, unit) gomap \<Rightarrow> (u64, unit) gomap go" where
  "shardIDMap [] m = Inr m"
| "shardIDMap (req # reqs) m =
     (case nr_Change req of
        None \<Rightarrow> panic NilDereference
      | Some change \<Rightarrow> shardIDMap reqs (mput (rq_ShardId change) () m))"

definition ofShard :: "u64 \<Rightarrow> NodeHostRequest \<Rightarrow> bool" where
  "ofShard shardID req \<longleftrightarrow> map_option rq_ShardId (nr_Change req) = Some shardID"

text \<open>
  What the workers have left to do, and one run of them: \<open>choices\<close> says whose turn it is, and a
  worker that is not chosen any more finishes at the end, since \<^verbatim>\<open>stopper.Stop\<close> waits for all.
\<close>

type_synonym queues = "(u64, NodeHostRequest list) gomap"

fun runWorkers :: "(NodeHostRequest \<Rightarrow> 'w \<Rightarrow> unit go \<times> 'w) \<Rightarrow> queues \<Rightarrow> u64 list \<Rightarrow> 'w \<Rightarrow> unit go \<times> 'w" where
  "runWorkers h qs [] w = foreach h (concat (mvals qs)) w"
| "runWorkers h qs (k # choices) w =
     (case mget qs k of
        Some (q # rest) \<Rightarrow> thenDo (h q w) (\<lambda>_ w1. runWorkers h (mput k rest qs) choices w1)
      | _ \<Rightarrow> runWorkers h qs choices w)"

definition HandleMasterRequests :: "'w nodehost \<Rightarrow> (string, pluginDetails) gomap \<Rightarrow> u64 list \<Rightarrow> 'w agent
    \<Rightarrow> unit go \<times> 'w agent" where
  "HandleMasterRequests nh smFactory choices a =
     (case agent_getRequests a of (reqs, a1) \<Rightarrow>
        (if length reqs = 0 then (Inr (), a1)
         else case shardIDMap reqs [] of
           Inl e \<Rightarrow> (Inl e, a1)
         | Inr ids \<Rightarrow>
             onNetwork (runWorkers (handleRequest nh smFactory)
               (mmap (\<lambda>k _. filter (ofShard k) reqs) ids) choices) a1))"

text \<open>The ticks of the request worker, each with the interleaving of its workers.\<close>

fun masterRequestWorker :: "'w nodehost \<Rightarrow> (string, pluginDetails) gomap \<Rightarrow> u64 list list \<Rightarrow> 'w agent
    \<Rightarrow> unit go \<times> 'w agent" where
  "masterRequestWorker nh smFactory [] a = (Inr (), a)"
| "masterRequestWorker nh smFactory (choices # ticks) a =
     onError (HandleMasterRequests nh smFactory choices a)
       (\<lambda>err a1. if err = ErrContextCanceled then (Inr (), a1)
          else masterRequestWorker nh smFactory ticks a1)
       (\<lambda>_ a1. masterRequestWorker nh smFactory ticks a1)"

section \<open>The order of the requests\<close>

text \<open>The requests in the order the workers take them.\<close>

fun workerOrder :: "queues \<Rightarrow> u64 list \<Rightarrow> NodeHostRequest list" where
  "workerOrder qs [] = concat (mvals qs)"
| "workerOrder qs (k # choices) =
     (case mget qs k of
        Some (q # rest) \<Rightarrow> q # workerOrder (mput k rest qs) choices
      | _ \<Rightarrow> workerOrder qs choices)"

lemma runWorkers_order: "runWorkers h qs choices w = foreach h (workerOrder qs choices) w"
  by (induction qs choices arbitrary: w rule: workerOrder.induct)
    (auto simp: thenDo_def split: option.split list.split sum.split prod.split)

text \<open>Every queue holds requests of its own shard.\<close>

definition sorted_by_shard :: "queues \<Rightarrow> bool" where
  "sorted_by_shard qs \<longleftrightarrow> gm_ok qs \<and> (\<forall>k q. mget qs k = Some q \<longrightarrow> list_all (ofShard k) q)"

lemma filter_concat_queues:
  assumes "sorted_by_shard qs"
  shows "filter (ofShard k) (concat (mvals qs)) = (case mget qs k of None \<Rightarrow> [] | Some q \<Rightarrow> q)"
  using assms
proof (induction qs)
  case (Cons p qs)
  obtain i q where p: "p = (i, q)" by (cases p)
  have all: "list_all (ofShard i) q" and rest: "sorted_by_shard qs" and new: "mget qs i = None"
    using Cons.prems by (auto simp: sorted_by_shard_def p gm_ok_def map_of_eq_None_iff split: if_splits)
  show ?case
  proof (cases "i = k")
    case True
    then have "filter (ofShard k) q = q" using all by (simp add: list_all_iff)
    with True new Cons.IH [OF rest] show ?thesis by (simp add: p mvals_def)
  next
    case False
    then have "filter (ofShard k) q = []" using all by (auto simp: list_all_iff ofShard_def filter_empty_conv)
    with False Cons.IH [OF rest] show ?thesis by (simp add: p mvals_def)
  qed
qed (simp add: mvals_def)

lemma filter_workerOrder:
  "sorted_by_shard qs \<Longrightarrow>
     filter (ofShard k) (workerOrder qs choices) = (case mget qs k of None \<Rightarrow> [] | Some q \<Rightarrow> q)"
proof (induction qs choices rule: workerOrder.induct)
  case (2 qs i choices)
  consider (skip) "mget qs i = None \<or> mget qs i = Some []" | (next_req) q rest where "mget qs i = Some (q # rest)"
    by (cases "mget qs i"; cases "the (mget qs i)") auto
  then show ?case
  proof cases
    case skip
    then show ?thesis using 2 by auto
  next
    case next_req
    have own: "list_all (ofShard i) (q # rest)"
      using 2(4) next_req unfolding sorted_by_shard_def by blast
    have sorted: "sorted_by_shard (mput i rest qs)"
      using 2(4) own by (auto simp: sorted_by_shard_def mget_mput split: if_splits)
    from 2(3) [OF next_req refl sorted] own next_req show ?thesis
      by (auto simp: mget_mput ofShard_def)
  qed
qed (simp add: filter_concat_queues)

lemma mset_workerOrder: "gm_ok qs \<Longrightarrow> mset (workerOrder qs choices) = mset (concat (mvals qs))"
proof (induction qs choices rule: workerOrder.induct)
  case (2 qs i choices)
  consider (skip) "mget qs i = None \<or> mget qs i = Some []" | (next_req) q rest where "mget qs i = Some (q # rest)"
    by (cases "mget qs i"; cases "the (mget qs i)") auto
  then show ?case
  proof cases
    case skip
    then show ?thesis using 2 by auto
  next
    case next_req
    have "mset (concat (mvals qs)) = add_mset q (mset (concat (mvals (mput i rest qs))))"
      using next_req by (induction qs) (auto simp: mvals_def split: if_splits)
    with 2(3) [OF next_req refl] 2(4) next_req show ?thesis by simp
  qed
qed simp

lemma shardIDMap_result:
  "shardIDMap reqs m = Inr m' \<Longrightarrow> gm_ok m \<Longrightarrow>
     gm_ok m' \<and> (\<forall>k. mhas m' k \<longleftrightarrow> mhas m k \<or> (\<exists>q \<in> set reqs. ofShard k q))"
proof (induction reqs m rule: shardIDMap.induct)
  case (2 req reqs m)
  then show ?case by (cases "nr_Change req") (auto simp: panic_def ofShard_def mhas_def mget_mput)
qed simp

lemma shardIDMap_changes: "shardIDMap reqs m = Inr m' \<Longrightarrow> q \<in> set reqs \<Longrightarrow> nr_Change q \<noteq> None"
  by (induction reqs m rule: shardIDMap.induct) (auto simp: panic_def split: option.splits)

text \<open>An interleaving of the requests: each shard's are in their order.\<close>

definition interleaving :: "NodeHostRequest list \<Rightarrow> NodeHostRequest list \<Rightarrow> bool" where
  "interleaving reqs order \<longleftrightarrow> mset order = mset reqs \<and>
     (\<forall>k. filter (ofShard k) order = filter (ofShard k) reqs)"

lemma queues_partition:
  assumes "gm_ok ids" and "\<forall>q \<in> set reqs. \<exists>k. ofShard k q \<and> mhas ids k"
  shows "mset (concat (mvals (mmap (\<lambda>k _. filter (ofShard k) reqs) ids))) = mset reqs"
  using assms
proof (induction ids arbitrary: reqs)
  case Nil
  then show ?case by (cases reqs) (auto simp: mmap_def mvals_def mhas_def)
next
  case (Cons p ids)
  obtain i u where p: "p = (i, u)" by (cases p)
  have new: "mget ids i = None" and ok: "gm_ok ids"
    using Cons.prems(1) by (auto simp: gm_ok_def p map_of_eq_None_iff)
  let ?others = "filter (\<lambda>q. \<not> ofShard i q) reqs"
  have same: "filter (ofShard k) ?others = filter (ofShard k) reqs" if "k \<noteq> i" for k
    using that by (induction reqs) (auto simp: ofShard_def)
  have "mmap (\<lambda>k _. filter (ofShard k) ?others) ids = mmap (\<lambda>k _. filter (ofShard k) reqs) ids"
    using new same by (auto simp: mmap_def map_of_eq_None_iff)
      (metis fst_conv image_eqI)
  moreover have "mset (concat (mvals (mmap (\<lambda>k _. filter (ofShard k) ?others) ids))) = mset ?others"
    by (rule Cons.IH [OF ok]) (use Cons.prems(2) in \<open>force simp: p mhas_def split: if_splits\<close>)
  ultimately have rest: "mset (concat (mvals (mmap (\<lambda>k _. filter (ofShard k) reqs) ids))) = mset ?others"
    by simp
  have cons: "mvals (mmap (\<lambda>k _. filter (ofShard k) reqs) (p # ids)) =
      filter (ofShard i) reqs # mvals (mmap (\<lambda>k _. filter (ofShard k) reqs) ids)"
    by (simp add: p mmap_def mvals_def)
  show ?case
    unfolding cons using rest multiset_partition [of "mset reqs" "ofShard i"] by simp
qed

text \<open>
  C34. Whatever the interleaving of the workers, one pass over the requests handles each of them
  once, with the requests of a shard in the order they came in; the queue is emptied first.
\<close>

theorem requests_handled_in_order:
  assumes "\<forall>q \<in> set (ag_requests a). nr_Change q \<noteq> None"
  shows "\<exists>order. interleaving (ag_requests a) order \<and>
    HandleMasterRequests nh smFactory choices a =
      onNetwork (foreach (handleRequest nh smFactory) order) (a\<lparr>ag_requests := []\<rparr>)"
proof (cases "ag_requests a = []")
  case True
  then show ?thesis
    by (intro exI [of _ "[]"]) (simp add: interleaving_def HandleMasterRequests_def agent_getRequests_def onNetwork_def)
next
  case False
  let ?reqs = "ag_requests a"
  have "\<exists>ids. shardIDMap reqs m = Inr ids" if "\<forall>q \<in> set reqs. nr_Change q \<noteq> None" for reqs m
    using that by (induction reqs m rule: shardIDMap.induct) auto
  then obtain ids where ids: "shardIDMap ?reqs [] = Inr ids" using assms by blast
  from shardIDMap_result [OF this] have ok: "gm_ok ids"
    and has: "mhas ids k \<longleftrightarrow> (\<exists>q \<in> set ?reqs. ofShard k q)" for k by (auto simp: mhas_def)
  let ?qs = "mmap (\<lambda>k _. filter (ofShard k) ?reqs) ids"
  have sorted: "sorted_by_shard ?qs"
    using ok by (auto simp: sorted_by_shard_def gomap_simps list_all_iff)
  have keyed: "\<forall>q \<in> set ?reqs. \<exists>k. ofShard k q \<and> mhas ids k"
    using assms has by (force simp: ofShard_def)
  have "filter (ofShard k) (workerOrder ?qs choices) = filter (ofShard k) ?reqs" for k
    using filter_workerOrder [OF sorted, of k choices] has [of k]
    by (auto simp: gomap_simps mhas_def filter_empty_conv split: option.splits)
  then have "interleaving ?reqs (workerOrder ?qs choices)"
    using mset_workerOrder [of ?qs choices] queues_partition [OF ok keyed] ok by (simp add: interleaving_def)
  with False ids show ?thesis
    by (intro exI [of _ "workerOrder ?qs choices"])
      (simp add: HandleMasterRequests_def agent_getRequests_def runWorkers_order [abs_def])
qed

text \<open>Two requests for shard 1 around one for shard 2, and the workers' turns.\<close>

definition killOf :: "u64 \<Rightarrow> NodeHostRequest" where
  "killOf shardID = zero_NodeHostRequest\<lparr>nr_RaftAddress := ''a1'', nr_Change :=
     Some (zero_Request\<lparr>rq_Type := Request_KILL, rq_ShardId := shardID, rq_Members := [3]\<rparr>)\<rparr>"

definition busyAgent :: "nat agent" where
  "busyAgent = \<lparr>ag_requests = [killOf 1, killOf 2, killOf 1], ag_pool = NewConnectionPool, ag_world = 0\<rparr>"

lemma requests_handled_in_order_witness:
  "\<exists>order. interleaving [killOf 1, killOf 2, killOf 1] order \<and>
     HandleMasterRequests (quietHost None) getPluginMap [2, 1] busyAgent =
       onNetwork (foreach (handleRequest (quietHost None) getPluginMap) order) (busyAgent\<lparr>ag_requests := []\<rparr>)"
proof -
  have "\<forall>q \<in> set (ag_requests busyAgent). nr_Change q \<noteq> None" by (simp add: busyAgent_def killOf_def)
  from requests_handled_in_order [OF this] show ?thesis by (simp add: busyAgent_def)
qed

section \<open>Removal of data\<close>

text \<open>The world after \<open>n\<close> attempts to remove the data of a replica.\<close>

fun afterAttempts :: "'w nodehost \<Rightarrow> u64 \<Rightarrow> u64 \<Rightarrow> nat \<Rightarrow> 'w \<Rightarrow> 'w" where
  "afterAttempts nh shardID replicaID 0 w = w"
| "afterAttempts nh shardID replicaID (Suc n) w =
     afterAttempts nh shardID replicaID n (snd (host_RemoveData nh w shardID replicaID))"

definition notStopped :: "'a go \<Rightarrow> bool" where
  "notStopped r \<longleftrightarrow> r = Inl (Err ErrShardNotStopped)"

text \<open>
  The loop that removes the data of a replica returns as soon as an attempt does anything but
  report that the replica has not stopped: it succeeds if that attempt does, and panics if the
  attempt returns another error.
\<close>

theorem removal_returns:
  assumes "\<And>m. m < n \<Longrightarrow> notStopped (fst (host_RemoveData nh (afterAttempts nh i j m w) i j))"
    and "host_RemoveData nh (afterAttempts nh i j n w) i j = (r, w')" and "\<not> notStopped r"
  shows "removeData nh i j w =
    ((case r of Inr _ \<Rightarrow> Inr () | Inl (Err e) \<Rightarrow> panic RaftCallFailed | Inl e \<Rightarrow> Inl e), w')"
proof -
  have "removeLoop nh i j w =
      Some ((case r of Inr _ \<Rightarrow> Inr () | Inl (Err e) \<Rightarrow> panic RaftCallFailed | Inl e \<Rightarrow> Inl e), w')"
    using assms
  proof (induction n arbitrary: w)
    case 0
    then show ?case
      by (subst removeLoop.simps) (auto simp: notStopped_def split: sum.split gofail.split)
  next
    case (Suc n)
    obtain w1 where first: "host_RemoveData nh w i j = (Inl (Err ErrShardNotStopped), w1)"
      using Suc.prems(1) [of 0] by (cases "host_RemoveData nh w i j") (auto simp: notStopped_def)
    have "removeLoop nh i j w1 =
        Some ((case r of Inr _ \<Rightarrow> Inr () | Inl (Err e) \<Rightarrow> panic RaftCallFailed | Inl e \<Rightarrow> Inl e), w')"
      by (rule Suc.IH) (use Suc.prems(1) [of "Suc m" for m] Suc.prems(2,3) first in auto)
    then show ?case by (subst removeLoop.simps) (simp add: first)
  qed
  then show ?thesis by (simp add: removeData_def)
qed

text \<open>A NodeHost whose replica has stopped at the third attempt.\<close>

definition slowHost :: "nat nodehost" where
  "slowHost = (quietHost None)\<lparr>host_RemoveData :=
     (\<lambda>w _ _. if w < 2 then (Inl (Err ErrShardNotStopped), w + 1) else (Inr (), w))\<rparr>"

lemma removal_returns_witness: "removeData slowHost 1 3 0 = (Inr (), 2)"
proof -
  have attempts: "afterAttempts slowHost 1 3 m 0 = m" if "m \<le> 2" for m
  proof -
    from that have "m = 0 \<or> m = 1 \<or> m = 2" by auto
    then show ?thesis by (auto simp: slowHost_def numeral_2_eq_2)
  qed
  have "removeData slowHost 1 3 0 = ((case Inr () of Inr _ \<Rightarrow> Inr ()
      | Inl (Err e) \<Rightarrow> panic RaftCallFailed | Inl e \<Rightarrow> Inl e), 2)"
    by (rule removal_returns [where n = 2])
      (use attempts in \<open>auto simp: slowHost_def notStopped_def less_2_cases_iff\<close>)
  then show ?thesis by simp
qed

section \<open>Validated requests\<close>

text \<open>A call of the NodeHost that returns, with a result or an error.\<close>

definition returns :: "'a go \<times> 'w \<Rightarrow> bool" where
  "returns m \<longleftrightarrow> (\<forall>p. fst m \<noteq> Inl (Panic p)) \<and> fst m \<noteq> Inl Diverges"

definition orderly :: "'w nodehost \<Rightarrow> bool" where
  "orderly nh \<longleftrightarrow> (\<forall>w i j. returns (host_StopReplica nh w i j) \<and> returns (host_RemoveData nh w i j)) \<and>
     (\<forall>w i j a c. returns (host_RequestAddReplica nh w i j a c)) \<and>
     (\<forall>w i j c. returns (host_RequestDeleteReplica nh w i j c)) \<and>
     (\<forall>w t p b s c. returns (host_StartReplica nh w t p b s c))"

text \<open>What is left to go wrong when a valid request is handled.\<close>

definition handled :: "unit go \<times> 'w \<Rightarrow> bool" where
  "handled m \<longleftrightarrow> fst m \<in> {Inr (), Inl Diverges} \<union>
     panic ` {RaftCallFailed, UnknownResultCode, LaunchOverNodeInfo, PluginNotReady}"

lemma handled_simps [simp]:
  "handled (Inr (), w)" "handled (Inl Diverges, w)" "handled (panic RaftCallFailed, w)"
  "handled (panic UnknownResultCode, w)" "handled (panic LaunchOverNodeInfo, w)"
  "handled (panic PluginNotReady, w)"
  by (simp_all add: handled_def)

lemma handled_panics [simp]:
  "handled (Inl (Panic RaftCallFailed), w)" "handled (Inl (Panic UnknownResultCode), w)"
  "handled (Inl (Panic LaunchOverNodeInfo), w)" "handled (Inl (Panic PluginNotReady), w)"
  by (simp_all add: handled_def panic_def)

lemma handled_onError:
  "returns m \<Longrightarrow> (\<And>e w. handled (h e w)) \<Longrightarrow> (\<And>a w. handled (f a w)) \<Longrightarrow> handled (onError m h f)"
  by (cases m; cases "fst m"; cases "projl (fst m)") (auto simp: returns_def)

lemma handled_removeData:
  assumes "orderly nh"
  shows "handled (removeData nh i j w)"
proof (cases "removeLoop nh i j w")
  case (Some res)
  have "handled res"
  proof (rule removeLoop.raw_induct [OF _ Some, where P = "\<lambda>nh i j w res. orderly nh \<longrightarrow> handled res",
        THEN mp, OF _ assms], intro impI, goal_cases)
    case (1 f nh i j w y)
    obtain r w1 where r: "host_RemoveData nh w i j = (r, w1)" by fastforce
    have "returns (r, w1)" using 1(3) r unfolding orderly_def by metis
    with 1 r show ?case
      by (cases r; cases "projl r") (auto simp: returns_def split: if_splits)
  qed
  then show ?thesis by (simp add: removeData_def Some)
qed (simp add: removeData_def)

lemma peersFrom_total: "length vs \<le> length ids \<Longrightarrow> \<exists>p. peersFrom vs ids m = Inr p"
  by (induction vs ids m rule: peersFrom.induct) auto

lemma getPluginMap_cases:
  "mget getPluginMap a = Some pd \<Longrightarrow>
     isRegularStateMachine pd \<or> isConcurrentStateMachine pd \<or> isOnDiskStateMachine pd"
  by (auto simp: getPluginMap_def noPlugin_def isRegularStateMachine_def isConcurrentStateMachine_def
      isOnDiskStateMachine_def split: if_splits)

text \<open>
  C35. A request of one of the four types that passed the self test of the servers does not crash the
  NodeHost that executes it by an index out of range, and by a nil pointer only when it is a CREATE without
  a configuration: over a NodeHost whose calls return, the handler ends, waits for a replica to stop, or
  panics for one of four causes outside the request's shape, or the request is a CREATE that has no
  configuration, or is to join and to restore at once, which the self test does not look at.
\<close>

theorem valid_requests_run:
  assumes "validateNodeHostRequest req = Inr ()" and "orderly nh"
    and "nr_Change req = Some change"
    and "rq_Type change \<in> {Request_CREATE, Request_DELETE, Request_ADD, Request_KILL}"
  shows "handled (handleRequest nh getPluginMap req w) \<or>
    rq_Type change = Request_CREATE \<and> nr_Config req = None \<and>
      handleRequest nh getPluginMap req w = (panic NilDereference, w) \<or>
    rq_Type change = Request_CREATE \<and> nr_Join req \<and> nr_Restore req \<and>
      handleRequest nh getPluginMap req w = (panic UnknownJoinRestore, w)"
proof -
  note change = assms(3)
  have v: "valid_request req" using assms(1) by (simp add: validate_iff)
  show ?thesis
  proof (cases "rq_Type change")
    case Request_CREATE
    have "length (nr_AddressList req) \<le> length (nr_ReplicaIdList req)"
      using v change Request_CREATE by (simp add: valid_request_def)
    from peersFrom_total [OF this] obtain p where p: "peersFrom (nr_AddressList req) (nr_ReplicaIdList req) [] = Inr p"
      by blast
    have start: "returns (startReplica nh pd peers j c w)" if "mget getPluginMap a = Some pd" for pd peers j c w a
      using getPluginMap_cases [OF that] assms(2) by (auto simp: startReplica_def orderly_def)
    show ?thesis
    proof (cases "nr_Config req")
      case None
      then show ?thesis
        by (cases "host_HasNodeInfo nh w (rq_ShardId change) (nr_InstantiateReplicaId req)")
          (auto simp: handleRequest_def change Request_CREATE handleInstantiateRequest_def instantiatePeers_def p
            Let_def panic_def split: option.split)
    next
      case (Some cfg)
      then show ?thesis
        using start
        by (cases "host_HasNodeInfo nh w (rq_ShardId change) (nr_InstantiateReplicaId req)")
          (auto simp: handleRequest_def change Request_CREATE handleInstantiateRequest_def instantiatePeers_def p
            Let_def panic_def intro!: handled_onError split: option.split)
    qed
  next
    case Request_DELETE
    then obtain m ms where "rq_Members change = m # ms" using v change by (auto simp: valid_request_def)
    then show ?thesis
      using assms(2) handled_removeData [OF assms(2)]
      by (auto simp: handleRequest_def change Request_DELETE handleAddDeleteRequest_def membershipCall_def orderly_def
          intro!: handled_onError split: waitOutcome.split)
  next
    case Request_ADD
    then obtain m ms where "rq_Members change = m # ms" using v change by (auto simp: valid_request_def)
    moreover obtain u where "nr_AddressList req = [u]"
      using v change Request_ADD by (auto simp: valid_request_def length_Suc_conv)
    ultimately show ?thesis
      using assms(2)
      by (auto simp: handleRequest_def change Request_ADD handleAddDeleteRequest_def membershipCall_def orderly_def
          intro!: handled_onError split: waitOutcome.split)
  next
    case Request_KILL
    then obtain m ms where "rq_Members change = m # ms" using v change by (auto simp: valid_request_def)
    then show ?thesis
      using assms(2) handled_removeData [OF assms(2)]
      by (auto simp: handleRequest_def change Request_KILL handleKillRequest_def orderly_def intro!: handled_onError)
  next
    case (Request_Type_Other t)
    with assms(4) show ?thesis by simp
  qed
qed

lemma quietHost_orderly: "orderly (quietHost info)"
  by (simp add: orderly_def returns_def quietHost_def)

lemma valid_requests_run_witness:
  "handled (handleRequest (quietHost None) getPluginMap (killOf 1) (0 :: nat))"
proof -
  have "validateNodeHostRequest (killOf 1) = Inr ()" "nr_Change (killOf 1) = Some (the (nr_Change (killOf 1)))"
    "rq_Type (the (nr_Change (killOf 1))) = Request_KILL"
    by (simp_all add: validate_iff valid_request_def killOf_def zero_NodeHostRequest_def zero_Request_def)
  from valid_requests_run [OF this(1) quietHost_orderly this(2)] this(3) show ?thesis by simp
qed

end
