(* ===== verification/ReportFacts.thy ===== *)
theory ReportFacts
  imports Agent ImageInvariants
begin

text \<open>
  What the agent's side promises: the pool only hands out open connections, and a report without
  the memberships the servers know has the effect of the full one on the shard image
  (\<open>Agent\<close> against \<open>ShardImage\<close>).
\<close>

section \<open>Connections\<close>

text \<open>
  C37. A connection the pool hands out is open, is the one it keeps for the address, and the pool
  stays well formed, whatever was closed before. If the address had an open connection it is that
  one, nothing is dialled, and neither the TLS configuration asked for nor the one it was dialled with
  is looked at: an insecure connection is handed out for a call that asks for TLS. Otherwise it was dialled
  with the options for this call.
\<close>

theorem connection_is_open:
  assumes "pool_ok p" and "getConnection dial addr tls (p, w) = (Inr c, (p', w'))"
  shows "openAt p' addr = Some c \<and> c < length (pl_dialled p') \<and> pool_ok p' \<and>
    (case openAt p addr of
       Some c0 \<Rightarrow> c = c0 \<and> p' = p \<and> w' = w
     | None \<Rightarrow> pl_dialled p' ! c = dialOptions p tls \<and> dial addr (dialOptions p tls) w = (Inr (), w') \<and>
         (\<forall>other. other \<noteq> addr \<longrightarrow> openAt p' other = openAt p other))"
  using assms(2)
proof (cases rule: getConnection_cases)
  case (kept c0)
  with assms(1) show ?thesis by (auto simp: openAt_def pool_ok_def split: option.splits if_splits)
next
  case dialled
  then have "openAt p' other = openAt p other" if "other \<noteq> addr" for other
    using that assms(1) by (auto simp: openAt_def mget_mput conn_IsClosed_def nth_append pool_ok_def split: option.split)
  with dialled assms(1) show ?thesis
    by (auto simp: openAt_def pool_ok_def mget_mput conn_IsClosed_def nth_append less_Suc_eq split: if_splits)
qed simp

text \<open>A pool with an open insecure connection, asked for one with TLS.\<close>

definition insecurePool :: pool where
  "insecurePool = \<lparr>pl_addOptions = None, pl_connections = [(''m1'', 0)], pl_dialled = [[WithInsecure, WithBlock]],
     pl_closed = [False]\<rparr>"

lemma connection_is_open_witness:
  "GetTLSConnection (\<lambda>_. Inr ''m1'') (\<lambda>_ _ _ _. Inr (Some ''tls'')) (\<lambda>_ _ w. (Inr (), w)) ''m1'' [] [] [] (insecurePool, 0 :: nat) =
     (Inr 0, (insecurePool, 0)) \<and> openAt insecurePool ''m1'' = Some 0 \<and> pl_dialled insecurePool ! 0 = [WithInsecure, WithBlock]"
proof -
  have eq: "getConnection (\<lambda>_ _ w. (Inr (), w)) ''m1'' (Some ''tls'') (insecurePool, 0 :: nat) = (Inr 0, (insecurePool, 0))"
    by (simp add: getConnection_def insecurePool_def conn_IsClosed_def)
  have "pool_ok insecurePool" by (simp add: pool_ok_def insecurePool_def)
  from connection_is_open [OF this eq] eq show ?thesis by (simp add: GetTLSConnection_def insecurePool_def)
qed

section \<open>Incomplete reports\<close>

text \<open>The entry of a shard in a report, and whether its membership is left out.\<close>

definition hides :: "(u64, u64) gomap \<Rightarrow> hostShardInfo \<Rightarrow> bool" where
  "hides indexes v \<longleftrightarrow> (\<exists>cci. mget indexes (hi_ShardID v) = Some cci \<and> hi_ConfigChangeIndex v \<le> cci) \<and> \<not> hi_Pending v"

definition entryOf :: "(u64, u64) gomap \<Rightarrow> hostShardInfo \<Rightarrow> ShardInfo" where
  "entryOf indexes v =
     \<lparr>si_ShardId = hi_ShardID v, si_ReplicaId = hi_ReplicaID v, si_IsLeader = hi_IsLeader v,
      si_Replicas = (if hides indexes v then [] else hi_Replicas v),
      si_ConfigChangeIndex = hi_ConfigChangeIndex v, si_Incomplete = hides indexes v, si_Pending = hi_Pending v\<rparr>"

lemma reportFor_entries: "nhi_ShardInfo (reportFor nhi api logs indexes) = map (entryOf indexes) (hh_ShardInfoList nhi)"
  by (auto simp: reportFor_def toDrummerPBShardInfo_def toClusterInfo_def entryOf_def hides_def Let_def
      split: option.split)

lemma entryOf_shown: "\<not> hides indexes v \<Longrightarrow> entryOf indexes v = entryOf [] v"
  by (auto simp: entryOf_def hides_def)

lemma entryOf_fields [simp]:
  "si_ShardId (entryOf indexes v) = hi_ShardID v" "si_ReplicaId (entryOf indexes v) = hi_ReplicaID v"
  "si_IsLeader (entryOf indexes v) = hi_IsLeader v" "si_Pending (entryOf indexes v) = hi_Pending v"
  "si_ConfigChangeIndex (entryOf indexes v) = hi_ConfigChangeIndex v"
  by (simp_all add: entryOf_def)

text \<open>
  The index list came from this image, or from an earlier state of it; and the membership the host
  reports is the one of the image where the indexes are equal, as Raft has one membership per index.
\<close>

definition knownShard :: "(u64, shard) gomap \<Rightarrow> (u64, u64) gomap \<Rightarrow> hostShardInfo \<Rightarrow> bool" where
  "knownShard shards indexes v \<longleftrightarrow> gm_ok (hi_Replicas v) \<and>
     (\<forall>cci. mget indexes (hi_ShardID v) = Some cci \<longrightarrow>
       (\<exists>c. mget shards (hi_ShardID v) = Some c \<and> cci \<le> sh_ConfigChangeIndex c \<and> sh_Replicas c \<noteq> [] \<and>
         gm_ok (sh_Replicas c)))"

definition agreed :: "(u64, shard) gomap \<Rightarrow> hostShardInfo \<Rightarrow> bool" where
  "agreed shards v \<longleftrightarrow> (\<forall>c. mget shards (hi_ShardID v) = Some c \<longrightarrow>
     sh_ConfigChangeIndex c = hi_ConfigChangeIndex v \<longrightarrow>
       mrel (\<lambda>n a. rp_Address n = a) (sh_Replicas c) (hi_Replicas v) \<and>
       distinct (map rp_Address (mvals (sh_Replicas c))))"

lemma addReplicas_known:
  "(\<And>i a. (i, a) \<in> set xs \<Longrightarrow> \<exists>n. mget rs i = Some n \<and> rp_Address n = a) \<Longrightarrow> addReplicas k t xs rs = (Inr (), rs)"
proof (induction xs)
  case (Cons x xs)
  obtain i a where x: "x = (i, a)" by (cases x)
  obtain n where "mget rs i = Some n" "rp_Address n = a" using Cons.prems [of i a] by (auto simp: x)
  moreover have "addReplicas k t xs rs = (Inr (), rs)" using Cons.prems by (intro Cons.IH) auto
  ultimately show ?case by (simp add: x)
qed simp

lemma syncShard_same:
  assumes idx: "sh_ConfigChangeIndex c = si_ConfigChangeIndex ci"
    and same: "mrel (\<lambda>n a. rp_Address n = a) (sh_Replicas c) (si_Replicas ci)"
    and addrs: "distinct (map rp_Address (mvals (sh_Replicas c)))"
  shows "syncShard c ci t = (Inr False, c)"
proof -
  have "mhas (sh_Replicas c) k = mhas (si_Replicas ci) k" for k by (rule mrel_has [OF same])
  then have all: "list_all (mhas (sh_Replicas c)) (mkeys (si_Replicas ci))"
    and none: "filter (\<lambda>nid. \<not> mhas (si_Replicas ci) nid) (mkeys (sh_Replicas c)) = []"
    by (auto simp: list_all_iff filter_empty_conv mhas_mkeys)
  have "\<exists>n. mget (sh_Replicas c) i = Some n \<and> rp_Address n = a" if "(i, a) \<in> set (si_Replicas ci)" for i a
    using mrel_get [OF same, of i] mrel_ok [OF same] that by (auto simp: mget_in_set [symmetric] elim: option.rel_cases)
  then have "addReplicas (si_ShardId ci) t (si_Replicas ci) (sh_Replicas c) = (Inr (), sh_Replicas c)"
    by (rule addReplicas_known)
  moreover have "c\<lparr>sh_ConfigChangeIndex := si_ConfigChangeIndex ci\<rparr> = c" using idx by simp
  ultimately show ?thesis
    using idx mrel_length [OF same] addrs by (simp add: syncShard_def Let_def all none hasDupAddr_iff)
qed

text \<open>What the image accepts at an index it has is the membership it has.\<close>

lemma syncShard_agrees:
  assumes run: "syncShard c ci t = (Inr rej, c')" and idx: "sh_ConfigChangeIndex c = si_ConfigChangeIndex ci"
    and ok: "gm_ok (sh_Replicas c)" "gm_ok (si_Replicas ci)"
  shows "mrel (\<lambda>n a. rp_Address n = a) (sh_Replicas c) (si_Replicas ci) \<and> distinct (map rp_Address (mvals (sh_Replicas c)))"
proof -
  have now: "\<not> sh_ConfigChangeIndex c > si_ConfigChangeIndex ci" "sameIndex c ci" using idx by (simp_all add: sameIndex_def)
  have len: "length (sh_Replicas c) = length (si_Replicas ci)"
    using run syncShard_count [OF now, of t] by (cases "length (sh_Replicas c) = length (si_Replicas ci)") (simp_all add: panic_def)
  then have has: "list_all (mhas (sh_Replicas c)) (mkeys (si_Replicas ci))"
    using run syncShard_ids [OF now, of t]
    by (cases "list_all (mhas (sh_Replicas c)) (mkeys (si_Replicas ci))") (simp_all add: panic_def)
  have conf: "\<not> addrConflict c ci"
    using syncShard_conflict [OF now(1) _ ok(2), of t] len has run by (auto simp: panic_def)
  have sizes: "card (set (mkeys m)) = length m" if "gm_ok m" for m :: "(u64, 'v) gomap"
    using that distinct_card [of "map fst m"] by (simp add: gm_ok_def mkeys_def)
  have "set (mkeys (si_Replicas ci)) = set (mkeys (sh_Replicas c))"
  proof (rule card_subset_eq)
    show "set (mkeys (si_Replicas ci)) \<subseteq> set (mkeys (sh_Replicas c))"
      using has by (auto simp: list_all_iff mhas_mkeys)
  qed (simp_all add: sizes [OF ok(1)] sizes [OF ok(2)] len)
  then have keys: "mhas (si_Replicas ci) k = mhas (sh_Replicas c) k" for k by (metis mhas_mkeys)
  have rel: "rel_option (\<lambda>n a. rp_Address n = a) (mget (sh_Replicas c) k) (mget (si_Replicas ci) k)" for k
    using keys [of k] conf by (auto simp: addrConflict_def mhas_def option.rel_sel)
  obtain rs where rs: "gm_ok rs" "\<And>k. mget rs k = syncedReplica ci t (sh_Replicas c) k"
    "syncShard c ci t = (if distinct (map rp_Address (mvals rs)) then Inr False else panic DuplicatedAddress,
       c\<lparr>sh_ConfigChangeIndex := si_ConfigChangeIndex ci, sh_Replicas := rs\<rparr>)"
    using syncShard_accept [OF now(1) _ ok conf, of t] len has by blast
  have "mget rs k = mget (sh_Replicas c) k" for k
    using keys [of k] by (auto simp: rs(2) syncedReplica_def mhas_def split: option.split)
  then have "mrel (=) rs (sh_Replicas c)" by (rule mrel_eqI [OF rs(1) ok(1)])
  then have "mset (map rp_Address (mvals rs)) = mset (map rp_Address (mvals (sh_Replicas c)))"
    by (simp add: mrel_eq_vals)
  from distinct_mset [OF this] have "distinct (map rp_Address (mvals (sh_Replicas c)))"
    using run rs(3) by (simp add: panic_def split: if_splits)
  with rel ok show ?thesis by (simp add: mrel_def)
qed

text \<open>Two runs of the loop that differ in the flags of the shards to kill at most.\<close>

definition killIds :: "ShardInfo list \<Rightarrow> (u64 \<times> u64) list" where
  "killIds ks = map (\<lambda>ci. (si_ShardId ci, si_ReplicaId ci)) ks"

fun sameRun :: "unit go \<times> (ShardInfo list \<times> (u64, shard) gomap) \<Rightarrow> unit go \<times> (ShardInfo list \<times> (u64, shard) gomap) \<Rightarrow> bool" where
  "sameRun (r, (ks, m)) (r', (ks', m')) \<longleftrightarrow> r = r' \<and> m = m' \<and> killIds ks = killIds ks'"

lemma doUpdateShard_hidden:
  assumes hidden: "hides indexes v" and known: "knownShard m indexes v"
    and agreed: "fst (doUpdateShard t (entryOf [] v) (ks, m)) = Inr () \<or> agreed m v"
  shows "doUpdateShard t (entryOf [] v) (ks, m) =
     (Inr (), (fst (snd (doUpdateShard t (entryOf [] v) (ks, m))), m))"
    and "killIds ks = killIds ks' \<Longrightarrow>
      sameRun (doUpdateShard t (entryOf indexes v) (ks', m)) (doUpdateShard t (entryOf [] v) (ks, m))"
proof -
  obtain cci where cci: "mget indexes (hi_ShardID v) = Some cci" "hi_ConfigChangeIndex v \<le> cci" "\<not> hi_Pending v"
    using hidden by (auto simp: hides_def)
  then obtain c where c: "mget m (hi_ShardID v) = Some c" "cci \<le> sh_ConfigChangeIndex c" "sh_Replicas c \<noteq> []"
    and gm: "gm_ok (sh_Replicas c)" "gm_ok (hi_Replicas v)"
    using known by (auto simp: knownShard_def)
  let ?full = "entryOf [] v"
  have inc: "si_Incomplete (entryOf indexes v)" "\<not> si_Incomplete ?full" "si_Replicas ?full = hi_Replicas v"
    using hidden by (simp_all add: entryOf_def) (simp_all add: hides_def)
  have same: "mrel (\<lambda>n a. rp_Address n = a) (sh_Replicas c) (hi_Replicas v) \<and> distinct (map rp_Address (mvals (sh_Replicas c)))"
    if "sh_ConfigChangeIndex c = hi_ConfigChangeIndex v"
  proof (cases "agreed m v")
    case True
    with that c(1) show ?thesis by (simp add: agreed_def)
  next
    case False
    obtain x c' where x: "syncShard c ?full t = (x, c')" by (cases "syncShard c ?full t")
    then obtain rej where "x = Inr rej"
      using agreed False c(1) inc cci(3) by (cases x) (auto simp: doUpdateShard_def Let_def)
    with x that gm inc(3) syncShard_agrees [of c ?full t rej c'] show ?thesis by simp
  qed
  have kill: "killRequestRequired c (entryOf indexes v) = killRequestRequired c ?full"
    by (simp add: killRequestRequired_def)
  have put: "mput (hi_ShardID v) c m = m" by (rule update_triv [OF c(1)])
  have sync: "syncShard c ?full t = (Inr (sh_ConfigChangeIndex c > hi_ConfigChangeIndex v), c)"
  proof (cases "sh_ConfigChangeIndex c > hi_ConfigChangeIndex v")
    case True
    then show ?thesis by (simp add: syncShard_def)
  next
    case False
    then have "sh_ConfigChangeIndex c = hi_ConfigChangeIndex v" using c(2) cci(2) by (simp add: not_less order_antisym)
    with same show ?thesis using False by (simp add: syncShard_same inc(3))
  qed
  have later: "killRequestRequired c ?full \<Longrightarrow> sh_ConfigChangeIndex c > hi_ConfigChangeIndex v"
    by (auto simp: killRequestRequired_def not_le split: if_splits)
  then have pos: "killRequestRequired c ?full \<Longrightarrow> sh_ConfigChangeIndex c > 0"
    using word_coorder.not_eq_extremum by fastforce
  show "doUpdateShard t ?full (ks, m) = (Inr (), (fst (snd (doUpdateShard t ?full (ks, m))), m))"
    using c(1) inc sync put cci(3) by (simp add: doUpdateShard_def Let_def)
  show "sameRun (doUpdateShard t (entryOf indexes v) (ks', m)) (doUpdateShard t ?full (ks, m))"
    if "killIds ks = killIds ks'"
    using that c inc sync put cci(3) later pos kill by (auto simp: doUpdateShard_def Let_def killIds_def)
qed

lemma doUpdateShard_shown:
  assumes "killIds ks = killIds ks'"
  shows "sameRun (doUpdateShard t ci (ks', m)) (doUpdateShard t ci (ks, m))"
  using assms by (auto simp: doUpdateShard_def Let_def killIds_def split: option.split prod.split sum.split)

lemma sameRun_entries:
  assumes "distinct (map hi_ShardID vs)" and "\<And>v. v \<in> set vs \<Longrightarrow> knownShard m indexes v"
    and "killIds ks = killIds ks'"
    and "fst (foreach (doUpdateShard t) (map (entryOf []) vs) (ks, m)) = Inr () \<or> (\<forall>v \<in> set vs. agreed m v)"
  shows "sameRun (foreach (doUpdateShard t) (map (entryOf indexes) vs) (ks', m))
    (foreach (doUpdateShard t) (map (entryOf []) vs) (ks, m))"
  using assms
proof (induction vs arbitrary: ks ks' m)
  case (Cons v vs)
  have first: "fst (doUpdateShard t (entryOf [] v) (ks, m)) = Inr () \<or> agreed m v"
    using Cons.prems(4) by (auto split: prod.splits sum.splits)
  have one: "sameRun (doUpdateShard t (entryOf indexes v) (ks', m)) (doUpdateShard t (entryOf [] v) (ks, m))"
    using doUpdateShard_hidden(2) [OF _ _ first] doUpdateShard_shown Cons.prems(1-3) entryOf_shown
    by (cases "hides indexes v") auto
  obtain r l m1 where full: "doUpdateShard t (entryOf [] v) (ks, m) = (r, (l, m1))" by (metis surj_pair)
  with one obtain l' where trim: "doUpdateShard t (entryOf indexes v) (ks', m) = (r, (l', m1))"
    and l: "killIds l = killIds l'"
    by (cases "doUpdateShard t (entryOf indexes v) (ks', m)") auto
  have later: "knownShard m1 indexes u \<and> (agreed m u \<longrightarrow> agreed m1 u)" if "u \<in> set vs" for u
  proof -
    have "hi_ShardID u \<noteq> hi_ShardID v" using that Cons.prems(1) by (auto simp: image_iff)
    from doUpdateShard_others [of "hi_ShardID u" "entryOf [] v" t ks m] this
    have "mget m1 (hi_ShardID u) = mget m (hi_ShardID u)" by (simp add: full)
    with Cons.prems(2) [of u] that show ?thesis by (simp add: knownShard_def agreed_def)
  qed
  have rest: "r = Inr () \<Longrightarrow> fst (foreach (doUpdateShard t) (map (entryOf []) vs) (l, m1)) = Inr () \<or> (\<forall>v \<in> set vs. agreed m1 v)"
    using Cons.prems(4) later by (auto simp: full)
  from Cons.IH [of m1 l l'] Cons.prems(1) later l rest show ?case by (cases r) (simp_all add: full trim)
qed simp

lemma fold_entries:
  "fold (tickShard t) (map (entryOf indexes) vs) m = fold (tickShard t) (map (entryOf []) vs) m"
  "fold leaderShard (map (entryOf indexes) vs) m = fold leaderShard (map (entryOf []) vs) m"
  by (induction vs arbitrary: m) (simp_all add: tickShard_def leaderShard_def cong: option.case_cong if_cong)

text \<open>
  C23. Leaving out of a report the memberships the servers know already loses nothing. The host reports
  each shard once, and the index list was taken from this image or an earlier state of it, where the shards
  it lists have replicas. If the image accepts the full report, or if the memberships the host has are those
  of the image wherever the indexes are equal, and the addresses there are distinct, then the shortened report
  has the same outcome and leaves the same image. (So the two can only differ when the full report panics
  and, at the index of the image, a membership is not the image's or has an address twice.)
\<close>

theorem short_reports_lose_nothing:
  assumes "distinct (map hi_ShardID (hh_ShardInfoList nhi))"
    and "\<And>v. v \<in> set (hh_ShardInfoList nhi) \<Longrightarrow> knownShard (ms_Shards mc) indexes v"
    and "fst (ms_update mc ((reportFor nhi api logs [])\<lparr>nhi_LastTick := t\<rparr>)) = Inr () \<or>
      (\<forall>v \<in> set (hh_ShardInfoList nhi). agreed (ms_Shards mc) v)"
  shows "ms_update mc ((reportFor nhi api logs indexes)\<lparr>nhi_LastTick := t\<rparr>) =
    ms_update mc ((reportFor nhi api logs [])\<lparr>nhi_LastTick := t\<rparr>)"
proof -
  let ?short = "(reportFor nhi api logs indexes)\<lparr>nhi_LastTick := t\<rparr>"
  let ?full = "(reportFor nhi api logs [])\<lparr>nhi_LastTick := t\<rparr>"
  let ?run = "\<lambda>ix. foreach (doUpdateShard t) (map (entryOf ix) (hh_ShardInfoList nhi)) ([], ms_Shards mc)"
  obtain r l m1 where full: "?run [] = (r, (l, m1))" by (metis surj_pair)
  have "fst (?run []) = Inr () \<or> (\<forall>v \<in> set (hh_ShardInfoList nhi). agreed (ms_Shards mc) v)"
    using assms(3) by (auto simp: ms_update_def doUpdate_def reportFor_entries full split: sum.splits)
  from sameRun_entries [OF assms(1,2) refl this] full obtain l' where short: "?run indexes = (r, (l', m1))"
    and l: "killIds l = killIds l'" by (cases "?run indexes") auto
  have addr: "nhi_RaftAddress (reportFor nhi api logs ix) = hh_RaftAddress nhi" for ix by (simp add: reportFor_def)
  have kills: "map (\<lambda>ntk. \<lparr>tk_ShardID = si_ShardId ntk, tk_ReplicaID = si_ReplicaId ntk, tk_Address = a\<rparr>) ks =
      map (\<lambda>(i, j). \<lparr>tk_ShardID = i, tk_ReplicaID = j, tk_Address = a\<rparr>) (killIds ks)" for ks a
    by (simp add: killIds_def)
  show ?thesis
    using full short l
    by (cases r) (simp_all add: ms_update_def doUpdate_def syncLeaderInfo_def updateNodeTick_def reportFor_entries
        kills addr fold_entries(1) [of _ indexes] fold_entries(2) [of indexes])
qed

text \<open>A host that still runs an older membership of shard 1, against an image that moved on.\<close>

definition movedShard :: shard where
  "movedShard = \<lparr>sh_ShardID = 1, sh_ConfigChangeIndex = 7,
     sh_Replicas = map (\<lambda>(i, a). (i, newReplica 1 3 i a)) [(1, ''a1''), (4, ''a4'')]\<rparr>"

definition lateHost :: hostInfo where
  "lateHost = \<lparr>hh_RaftAddress = ''a2'', hh_ShardInfoList = [\<lparr>hi_ShardID = 1, hi_ReplicaID = 2, hi_IsLeader = False,
     hi_Replicas = [(1, ''a1''), (2, ''a2'')], hi_ConfigChangeIndex = 5, hi_Pending = False,
     hi_StateMachineType = OnDiskStateMachine\<rparr>], hh_LogInfo = []\<rparr>"

lemma short_reports_lose_nothing_witness:
  "ms_update \<lparr>ms_Shards = [(1, movedShard)], ms_ReplicasToKill = []\<rparr> ((reportFor lateHost ''p2'' False [(1, 7)])\<lparr>nhi_LastTick := 9\<rparr>) =
   ms_update \<lparr>ms_Shards = [(1, movedShard)], ms_ReplicasToKill = []\<rparr> ((reportFor lateHost ''p2'' False [])\<lparr>nhi_LastTick := 9\<rparr>)"
proof (rule short_reports_lose_nothing)
  show "fst (ms_update \<lparr>ms_Shards = [(1, movedShard)], ms_ReplicasToKill = []\<rparr> ((reportFor lateHost ''p2'' False [])\<lparr>nhi_LastTick := 9\<rparr>)) = Inr () \<or>
    (\<forall>v \<in> set (hh_ShardInfoList lateHost). agreed (ms_Shards \<lparr>ms_Shards = [(1, movedShard)], ms_ReplicasToKill = []\<rparr>) v)"
    by (rule disjI1) code_simp
qed (auto simp: lateHost_def knownShard_def movedShard_def gm_ok_def)

end
