(* ===== verification/Delivery.thy ===== *)
theory Delivery
  imports ReportFacts Client DBOperations
begin

text \<open>
  The way of a request from the database to the NodeHost, across the components: the queue and the
  answer of a NodeHost in the database (\<open>DrummerDB\<close>), the report handler of the servers (\<open>Server\<close>) over
  a Raft layer that keeps its contract (\<open>RaftService\<close>), and the report of the agent (\<open>Agent\<close>).
\<close>

section \<open>Queue and answer of one NodeHost\<close>

definition queueOf :: "string \<Rightarrow> db \<Rightarrow> NodeHostRequest list" where
  "queueOf addr d = (case mget (db_Requests d) addr of None \<Rightarrow> [] | Some q \<Rightarrow> q)"

definition answerOf :: "string \<Rightarrow> db \<Rightarrow> NodeHostRequest list" where
  "answerOf addr d = (case mget (db_Outgoing d) addr of None \<Rightarrow> [] | Some q \<Rightarrow> q)"

text \<open>The commands that can change them: reports of the NodeHost and batches that name it.\<close>

definition reportsFor :: "codec \<Rightarrow> string \<Rightarrow> string \<Rightarrow> bool" where
  "reportsFor cdc addr cmd \<longleftrightarrow> (case uUpdate cdc cmd of None \<Rightarrow> False
     | Some u \<Rightarrow> up_Type u = Update_NODEHOST_INFO \<and> (case up_NodehostInfo u of None \<Rightarrow> False
         | Some nhi \<Rightarrow> nhi_RaftAddress nhi = addr))"

definition queuesFor :: "codec \<Rightarrow> string \<Rightarrow> string \<Rightarrow> bool" where
  "queuesFor cdc addr cmd \<longleftrightarrow> (case uUpdate cdc cmd of None \<Rightarrow> False
     | Some u \<Rightarrow> up_Type u = Update_REQUESTS \<and> (case up_Requests u of None \<Rightarrow> False
         | Some rs \<Rightarrow> (\<exists>r \<in> set (nrc_Requests rs). nr_RaftAddress r = addr)))"

text \<open>What a command does to the queues and the answers.\<close>

lemma queue_steps:
  assumes "Update_cmd cdc d cmd = (Inr r, e)"
  obtains (same) "db_Requests e = db_Requests d" "db_Outgoing e = db_Outgoing d"
  | (report) u nhi where "uUpdate cdc cmd = Some u" "up_Type u = Update_NODEHOST_INFO"
      "up_NodehostInfo u = Some nhi" "applyNodeHostInfoUpdate d nhi = (Inr r, e)"
  | (batch) u rs where "uUpdate cdc cmd = Some u" "up_Type u = Update_REQUESTS" "up_Requests u = Some rs"
      "db_Requests e = queueRequests (nrc_Requests rs) (db_Requests d)" "db_Outgoing e = db_Outgoing d"
proof -
  obtain u where u: "uUpdate cdc cmd = Some u" "applyUpdate cdc d u = (Inr r, e)"
    using assms by (rule Update_cmd_effect)
  from u(2) show thesis
  proof (cases rule: applyUpdate_effect)
    case (create c)
    from tryCreateShard_effect(4) [OF create(4)] show thesis by (intro same) (simp_all split: if_splits)
  next
    case (kv kv)
    from applyKV_effect(4) [OF kv(3)] show thesis by (intro same) (simp_all split: if_splits)
  next
    case (requests rs)
    from requests(3) show thesis
      by (cases rule: applyRequests_effect) (simp_all add: same batch [OF u(1) requests(1,2)])
  next
    case tick
    from applyTick_effect(1) [OF tick(2)] show thesis by (intro same) simp_all
  qed (rule report [OF u(1)])
qed

lemma report_queues:
  assumes "applyNodeHostInfoUpdate d nhi = (Inr r, e)"
  shows "answerOf addr e = (if addr = nhi_RaftAddress nhi then queueOf addr d else answerOf addr d)"
    "queueOf addr e = (if addr = nhi_RaftAddress nhi then [] else queueOf addr d)"
  using assms by (auto elim!: applyReport_effect simp: answerOf_def queueOf_def mget_mdel mget_mput split: option.split)

lemma answer_keep:
  assumes "\<not> reportsFor cdc addr cmd" and "answerOf addr d = q" and "Update_cmd cdc d cmd = (Inr r, e)"
  shows "answerOf addr e = q"
  using assms(3)
proof (cases rule: queue_steps)
  case (report u nhi)
  with report_queues(1) [OF report(4), of addr] assms show ?thesis by (auto simp: reportsFor_def)
qed (use assms(2) in \<open>simp_all add: answerOf_def\<close>)

lemma queue_keep:
  assumes "\<not> reportsFor cdc addr cmd \<and> \<not> queuesFor cdc addr cmd" and "queueOf addr d = q"
    and "Update_cmd cdc d cmd = (Inr r, e)"
  shows "queueOf addr e = q"
  using assms(3)
proof (cases rule: queue_steps)
  case same
  with assms(2) show ?thesis by (simp add: queueOf_def)
next
  case (report u nhi)
  with report_queues(2) [OF report(4), of addr] assms show ?thesis by (auto simp: reportsFor_def)
next
  case (batch u rs)
  then have "forAddress addr (nrc_Requests rs) = []"
    using assms(1) by (auto simp: queuesFor_def forAddress_def filter_empty_conv)
  with batch(4) assms(2) show ?thesis by (simp add: queueOf_def queueRequests_get)
qed

interpretation answers_kept: log_invariant "\<lambda>cmd d. Update_cmd cdc d cmd"
    "\<lambda>cmd. \<not> reportsFor cdc addr cmd" "\<lambda>d. answerOf addr d = q" for cdc addr q
  by unfold_locales (rule answer_keep)

interpretation queues_kept: log_invariant "\<lambda>cmd d. Update_cmd cdc d cmd"
    "\<lambda>cmd. \<not> reportsFor cdc addr cmd \<and> \<not> queuesFor cdc addr cmd" "\<lambda>d. queueOf addr d = q" for cdc addr q
  by unfold_locales (rule queue_keep)

section \<open>The log between two points\<close>

definition logRun :: "codec \<Rightarrow> (string \<Rightarrow> bool) \<Rightarrow> db \<Rightarrow> string list \<Rightarrow> db \<Rightarrow> bool" where
  "logRun cdc ok d cmds e \<longleftrightarrow> list_all ok cmds \<and> (\<exists>rs. runs (\<lambda>cmd d. Update_cmd cdc d cmd) d cmds rs e)"

lemma dbMoves_logRun: "dbMoves cdc ok d e \<longleftrightarrow> (\<exists>cmds. logRun cdc ok d cmds e)"
  by (auto simp: dbMoves_def logRun_def)

lemma logRun_answer:
  "logRun cdc ok d cmds e \<Longrightarrow> list_all (\<lambda>cmd. \<not> reportsFor cdc addr cmd) cmds \<Longrightarrow> answerOf addr e = answerOf addr d"
  using answers_kept.run_keeps by (fastforce simp: logRun_def)

lemma logRun_queue:
  "logRun cdc ok d cmds e \<Longrightarrow> list_all (\<lambda>cmd. \<not> reportsFor cdc addr cmd \<and> \<not> queuesFor cdc addr cmd) cmds \<Longrightarrow>
    queueOf addr e = queueOf addr d"
  using queues_kept.run_keeps by (fastforce simp: logRun_def)

section \<open>The handlers of the servers\<close>

definition reportUpdate :: "NodeHostInfo \<Rightarrow> Update" where
  "reportUpdate nhi = zero_Update\<lparr>up_Type := Update_NODEHOST_INFO, up_NodehostInfo := Some nhi\<rparr>"

definition contextQuery :: LookupRequest where
  "contextQuery = zero_LookupRequest\<lparr>lr_Type := LookupRequest_SCHEDULER_CONTEXT\<rparr>"

definition requestsQuery :: "string \<Rightarrow> LookupRequest" where
  "requestsQuery addr = zero_LookupRequest\<lparr>lr_Type := LookupRequest_REQUESTS, lr_Address := addr\<rparr>"

definition requestsAnswer :: "NodeHostRequest list \<Rightarrow> LookupResponse" where
  "requestsAnswer reqs = zero_LookupResponse\<lparr>lp_Code := LookupResponse_OK,
     lp_Requests := Some \<lparr>nrc_Requests = reqs\<rparr>\<rparr>"

text \<open>The documented law of the encoders: what decodes, decodes to what was encoded.\<close>

definition faithful :: "codec \<Rightarrow> bool" where
  "faithful cdc \<longleftrightarrow> (\<forall>u v. uUpdate cdc (mUpdate cdc u) = Some v \<longrightarrow> v = u) \<and>
     (\<forall>q v. uLookup cdc (mLookup cdc q) = Some v \<longrightarrow> v = q) \<and>
     (\<forall>r v. uResponse cdc (mResponse cdc r) = Some v \<longrightarrow> v = r) \<and>
     (\<forall>c v. ujContext cdc (jContext cdc c) = Some v \<longrightarrow> v = c)"

text \<open>The configuration change indexes of the shard image, as the servers list them.\<close>

definition shardIndexes :: "db \<Rightarrow> (u64, u64) gomap" where
  "shardIndexes d = fold (\<lambda>(clusterID, c). mput clusterID (sh_ConfigChangeIndex c)) (ms_Shards (db_ShardImage d)) []"

lemma query_decoded:
  assumes "faithful cdc" and "Lookup_query cdc d (mLookup cdc q) = Inr a"
  shows "uLookup cdc (mLookup cdc q) = Some q"
  using assms by (cases "uLookup cdc (mLookup cdc q)") (simp_all add: Lookup_query_def faithful_def panic_def split: sum.splits)

lemma context_answered:
  assumes "faithful cdc" and "Lookup_query cdc d (mLookup cdc contextQuery) = Inr a" and "ujContext cdc a = Some sc"
  shows "ctx_ShardImage sc = db_ShardImage d"
proof -
  have "handleSchedulerContextLookup cdc d = Inr a"
    using assms(2) query_decoded [OF assms(1,2)]
    by (simp add: Lookup_query_def contextQuery_def zero_LookupRequest_def split: sum.splits)
  then obtain sc' where sc': "schedulerContextOf cdc d = Inr sc'" "a = jContext cdc sc'"
    by (auto simp: handleSchedulerContextLookup_def split: sum.splits)
  then have "sc = sc'" using assms(1,3) by (simp add: faithful_def)
  with sc'(1) show ?thesis
    by (auto simp: schedulerContextOf_def Let_def panic_def split: option.splits)
qed

lemma requests_answered:
  assumes "faithful cdc" and "Lookup_query cdc d (mLookup cdc (requestsQuery addr)) = Inr a"
    and "uResponse cdc a = Some v"
  shows "v = requestsAnswer (answerOf addr d)"
proof -
  have "handleRequestsLookup cdc d (requestsQuery addr) = Inr a"
    using assms(2) query_decoded [OF assms(1,2)]
    by (simp add: Lookup_query_def requestsQuery_def zero_LookupRequest_def split: sum.splits)
  then have "a = mResponse cdc (requestsAnswer (answerOf addr d))"
    by (simp add: handleRequestsLookup_def requestsQuery_def requestsAnswer_def answerOf_def zero_LookupRequest_def Let_def)
  with assms(1,3) show ?thesis by (simp add: faithful_def)
qed

lemma report_applied:
  assumes "faithful cdc" and "Update_cmd cdc d (mUpdate cdc (reportUpdate nhi)) = (Inr r, e)"
  shows "applyNodeHostInfoUpdate d nhi = (Inr r, e)"
proof -
  obtain u where u: "uUpdate cdc (mUpdate cdc (reportUpdate nhi)) = Some u" "applyUpdate cdc d u = (Inr r, e)"
    using assms(2) by (rule Update_cmd_effect)
  then have "u = reportUpdate nhi" using assms(1) by (simp add: faithful_def)
  with u(2) show ?thesis by (simp add: applyUpdate_def reportUpdate_def zero_Update_def)
qed

context raft_service
begin

lemma indexes_listed:
  assumes "faithful cdc" and "GetShardConfigChangeIndexList nh cdc w = (Inr il, w')"
  shows "\<exists>c. dbMoves cdc ok (dbOf w) c \<and> ccl_Indexes il = shardIndexes c \<and> dbMoves cdc ok c (dbOf w')"
proof -
  obtain sc where sc: "getSchedulerContext nh cdc w = (Inr sc, w')"
    "il = \<lparr>ccl_Indexes = fold (\<lambda>(i, c). mput i (sh_ConfigChangeIndex c)) (ms_Shards (ctx_ShardImage sc)) []\<rparr>"
    using assms(2) by (auto simp: GetShardConfigChangeIndexList_def thenDo_Inr)
  obtain a w1 where "SyncRead nh w defaultShardID (mLookup cdc contextQuery) = (Inr a, w1)"
    "ujContext cdc a = Some sc" "w1 = w'"
    using sc(1) by (auto simp: getSchedulerContext_def contextQuery_def thenDo_Inr panic_def split: option.splits)
  with answered [of w defaultShardID "mLookup cdc contextQuery" a w1] context_answered [OF assms(1)] sc(2)
  show ?thesis unfolding shardIndexes_def by fastforce
qed

lemma requests_fetched:
  assumes "faithful cdc" and "server_getRequests nh cdc addr w = (Inr reqs, w')"
  shows "\<exists>d. dbMoves cdc ok (dbOf w) d \<and> reqs = answerOf addr d \<and> dbMoves cdc ok d (dbOf w')"
proof -
  obtain a v where a: "SyncRead nh w defaultShardID (mLookup cdc (requestsQuery addr)) = (Inr a, w')"
    "uResponse cdc a = Some v" "lp_Requests v = Some \<lparr>nrc_Requests = reqs\<rparr>"
    using assms(2) by (auto simp: server_getRequests_def requestsQuery_def thenDo_Inr panic_def Let_def
        split: option.splits)
  obtain d where d: "dbMoves cdc ok (dbOf w) d" "Lookup_query cdc d (mLookup cdc (requestsQuery addr)) = Inr a"
    "dbMoves cdc ok d (dbOf w')"
    using answered [OF a(1)] by blast
  from requests_answered [OF assms(1) d(2) a(2)] a(3) have "reqs = answerOf addr d"
    by (simp add: requestsAnswer_def)
  with d show ?thesis by blast
qed

lemma report_committed:
  assumes "ok (mUpdate cdc (reportUpdate info))" and "updateNodeHostInfo nh cdc info w = (Inr (), w')"
  shows "\<exists>d r e. dbMoves cdc ok (dbOf w) d \<and> Update_cmd cdc d (mUpdate cdc (reportUpdate info)) = (Inr r, e) \<and>
    dbMoves cdc ok e (dbOf w')"
proof -
  obtain cs w1 v w2 where s: "server_getSession nh defaultShardID w = (Inr cs, w1)"
    "proposeDrummerUpdate nh cdc cs (reportUpdate info) w1 = (Inr v, w2)" "w' = snd (SyncCloseSession nh w2 cs)"
    using withSession_Inr [OF assms(2) [unfolded updateNodeHostInfo_def]] by (auto simp: thenDo_Inr reportUpdate_def)
  obtain d e where "dbMoves cdc ok (dbOf w1) d" "Update_cmd cdc d (mUpdate cdc (reportUpdate info)) = (Inr v, e)"
    "dbMoves cdc ok e (dbOf w2)"
    using proposeUpdate_applied [OF assms(1) s(2)] by blast
  moreover have "dbMoves cdc ok (dbOf w2) (dbOf w')"
    unfolding s(3) by (rule closed) (rule surjective_pairing)
  ultimately show ?thesis using getSession_opened [OF s(1)] by (meson dbMoves_trans)
qed

end

section \<open>The report of the agent\<close>

lemma getDrummerConnection_world:
  assumes "getDrummerConnection net addr (p, w) = (r, (p', w'))"
  shows "w' = w \<or> (\<exists>opts x. net_Dial net addr opts w = (x, w'))"
proof -
  consider "w' = w" | tls where "getConnection (net_Dial net) addr tls (p, w) = (r, (p', w'))"
    using assms by (auto simp: getDrummerConnection_def GetConnection_def split: sum.splits)
  then show ?thesis by cases (auto elim: getConnection_cases)
qed

lemma closing_Inr:
  "onError m (closing conn) f = (Inr b, t) \<longleftrightarrow> (\<exists>a s. m = (Inr a, s) \<and> f a s = (Inr b, t))"
  by (cases m; cases "fst m"; cases "projl (fst m)") (auto simp: closing_def)

lemma onNetwork_Inr:
  "onNetwork f a = (Inr x, a') \<longleftrightarrow> (\<exists>w. f (ag_world a) = (Inr x, w) \<and> a' = a\<lparr>ag_world := w\<rparr>)"
  by (auto simp: onNetwork_def split: prod.splits)

lemma onPool_effect:
  assumes "onPool f a = (r, a')"
  shows "\<exists>p w. f (ag_pool a, ag_world a) = (r, (p, w)) \<and> ag_requests a' = ag_requests a \<and> ag_world a' = w"
  using assms by (auto simp: onPool_def split: prod.splits)

text \<open>A report that returned: a connection, the index list, the report with its answer.\<close>

lemma report_steps:
  assumes "SendNodeHostInfo net url nhi api logs a = (Inr (), a')" and "\<not> net_IsPartitioned net (ag_world a)"
  obtains w1 w2 il coll where "w1 = ag_world a \<or> (\<exists>opts x. net_Dial net url opts (ag_world a) = (x, w1))"
    "cl_GetShardConfigChangeIndexList (net_Stub net url) w1 = (Inr il, w2)"
    "cl_ReportAvailableNodeHost (net_Stub net url) (reportFor nhi api logs (ccl_Indexes il)) w2 = (Inr coll, ag_world a')"
    "ag_requests a' = ag_requests a @ nrc_Requests coll"
proof -
  from assms(1) obtain conn a1 where c: "onPool (getDrummerConnection net url) a = (Inr conn, a1)"
    and rest: "onError (onNetwork (cl_GetShardConfigChangeIndexList (net_Stub net url)) a1) (closing conn) (\<lambda>il a2.
           (if \<not> logs \<and> length (hh_LogInfo nhi) \<noteq> 0 then (panic LogInfoUnexpected, a2)
            else
              (let info = reportFor nhi api logs (ccl_Indexes il) in
               onError (onNetwork (cl_ReportAvailableNodeHost (net_Stub net url) info) a2) (closing conn) (\<lambda>coll a3.
                 (if length (nrc_Requests coll) > 0
                  then (Inr (), agent_addRequests (nrc_Requests coll) a3) else (Inr (), a3)))))) = (Inr (), a')"
    unfolding SendNodeHostInfo_def thenDo_Inr Let_def if_not_P [OF assms(2)] by blast
  obtain w1 where w1: "w1 = ag_world a \<or> (\<exists>opts x. net_Dial net url opts (ag_world a) = (x, w1))"
    "ag_requests a1 = ag_requests a" "ag_world a1 = w1"
    using onPool_effect [OF c] getDrummerConnection_world by metis
  let ?answer = "\<lambda>coll a3. (if length (nrc_Requests coll) > 0
    then (Inr () :: unit go, agent_addRequests (nrc_Requests coll) a3) else (Inr (), a3))"
  let ?report = "\<lambda>il. cl_ReportAvailableNodeHost (net_Stub net url) (reportFor nhi api logs (ccl_Indexes il))"
  obtain il a2 where i: "onNetwork (cl_GetShardConfigChangeIndexList (net_Stub net url)) a1 = (Inr il, a2)"
    "(if \<not> logs \<and> length (hh_LogInfo nhi) \<noteq> 0 then (panic LogInfoUnexpected, a2)
      else onError (onNetwork (?report il) a2) (closing conn) ?answer) = (Inr (), a')"
    using rest unfolding closing_Inr Let_def by blast
  obtain w2 where il: "cl_GetShardConfigChangeIndexList (net_Stub net url) w1 = (Inr il, w2)"
    and a2: "a2 = a1\<lparr>ag_world := w2\<rparr>" using i(1) w1(3) by (auto simp: onNetwork_Inr)
  have post: "onError (onNetwork (?report il) a2) (closing conn) ?answer = (Inr (), a')"
    using i(2) by (simp add: panic_def split: if_splits)
  obtain coll a3 where r: "onNetwork (?report il) a2 = (Inr coll, a3)" "?answer coll a3 = (Inr (), a')"
    using post unfolding closing_Inr by blast
  obtain w3 where coll: "?report il w2 = (Inr coll, w3)" "a3 = a1\<lparr>ag_world := w3\<rparr>"
    using r(1) by (auto simp: onNetwork_Inr a2)
  from that [OF w1(1) il, of coll] r(2) coll w1(2) show thesis
    by (auto simp: agent_addRequests_def split: if_splits)
qed

text \<open>
  C10. Requests reach the NodeHost they are for, each once: over any Raft layer that keeps its contract,
  a report of the agent that returns was applied at one point of the log, with the index list of an
  earlier point, and what it adds to the agent's requests is the queue of the NodeHost at that
  point, in order, unless another report of the same NodeHost was committed before the answer was
  read; the report leaves the queue empty. Up to that point the queue is the one before the call
  if no other report of the NodeHost and no batch that names it was committed.
\<close>

theorem requests_reach_their_host:
  assumes "raft_service nh cdc ok dbOf" and "faithful cdc"
    and "\<And>info. nhi_RaftAddress info = hh_RaftAddress nhi \<Longrightarrow> ok (mUpdate cdc (reportUpdate info))"
    and "\<forall>opts x w w'. net_Dial net url opts w = (x, w') \<longrightarrow> dbMoves cdc ok (dbOf w) (dbOf w')"
    and "net_Stub net url = serverClient nh cdc ctx"
    and "\<not> net_IsPartitioned net (ag_world a)"
    and "SendNodeHostInfo net url nhi api logs a = (Inr (), a')"
  shows "\<exists>pre c d r e post f. let addr = hh_RaftAddress nhi in
    logRun cdc ok (dbOf (ag_world a)) pre d \<and>
    dbMoves cdc ok (dbOf (ag_world a)) c \<and> dbMoves cdc ok c d \<and>
    applyNodeHostInfoUpdate d (reportFor nhi api logs (shardIndexes c)) = (Inr r, e) \<and> queueOf addr e = [] \<and>
    logRun cdc ok e post f \<and> dbMoves cdc ok f (dbOf (ag_world a')) \<and>
    ag_requests a' = ag_requests a @ answerOf addr f \<and>
    (list_all (\<lambda>cmd. \<not> reportsFor cdc addr cmd) post \<longrightarrow> ag_requests a' = ag_requests a @ queueOf addr d) \<and>
    (list_all (\<lambda>cmd. \<not> reportsFor cdc addr cmd \<and> \<not> queuesFor cdc addr cmd) pre \<longrightarrow>
       queueOf addr d = queueOf addr (dbOf (ag_world a)))"
proof -
  let ?w = "ag_world a" and ?addr = "hh_RaftAddress nhi"
  obtain w1 w2 il coll where s: "w1 = ?w \<or> (\<exists>opts x. net_Dial net url opts ?w = (x, w1))"
    "GetShardConfigChangeIndexList nh cdc w1 = (Inr il, w2)"
    "ReportAvailableNodeHost nh cdc (reportFor nhi api logs (ccl_Indexes il)) w2 = (Inr coll, ag_world a')"
    "ag_requests a' = ag_requests a @ nrc_Requests coll"
    by (rule report_steps [OF assms(7,6)]) (unfold assms(5) serverClient_def drummerClient.simps, rule that)
  have dialled: "dbMoves cdc ok (dbOf ?w) (dbOf w1)" using s(1) assms(4) by auto
  obtain c where c: "dbMoves cdc ok (dbOf w1) c" "ccl_Indexes il = shardIndexes c" "dbMoves cdc ok c (dbOf w2)"
    using raft_service.indexes_listed [OF assms(1,2) s(2)] by blast
  let ?info = "reportFor nhi api logs (shardIndexes c)"
  have addr: "nhi_RaftAddress ?info = ?addr" by (simp add: reportFor_def)
  obtain w3 reqs where h: "updateNodeHostInfo nh cdc ?info w2 = (Inr (), w3)"
    "server_getRequests nh cdc ?addr w3 = (Inr reqs, ag_world a')" "nrc_Requests coll = reqs"
    using s(3) addr c(2) by (auto simp: ReportAvailableNodeHost_def thenDo_Inr)
  obtain d r e where d: "dbMoves cdc ok (dbOf w2) d" "Update_cmd cdc d (mUpdate cdc (reportUpdate ?info)) = (Inr r, e)"
    "dbMoves cdc ok e (dbOf w3)"
    using raft_service.report_committed [OF assms(1) assms(3) [OF addr] h(1)] by blast
  obtain f where f: "dbMoves cdc ok (dbOf w3) f" "reqs = answerOf ?addr f" "dbMoves cdc ok f (dbOf (ag_world a'))"
    using raft_service.requests_fetched [OF assms(1,2) h(2)] by blast
  obtain post where aft: "logRun cdc ok e post f"
    using dbMoves_trans [OF d(3) f(1)] by (auto simp: dbMoves_logRun)
  have start: "dbMoves cdc ok (dbOf ?w) c" and rest: "dbMoves cdc ok c d"
    using dbMoves_trans dialled c d(1) by blast+
  then obtain pre where bef: "logRun cdc ok (dbOf ?w) pre d"
    using dbMoves_trans by (fastforce simp: dbMoves_logRun)
  have rep: "applyNodeHostInfoUpdate d ?info = (Inr r, e)" by (rule report_applied [OF assms(2) d(2)])
  have all: "ag_requests a' = ag_requests a @ answerOf ?addr f" using s(4) h(3) f(2) by simp
  then have "list_all (\<lambda>cmd. \<not> reportsFor cdc ?addr cmd) post \<Longrightarrow> ag_requests a' = ag_requests a @ queueOf ?addr d"
    using logRun_answer [OF aft, of ?addr] report_queues(1) [OF rep, of ?addr] addr by simp
  moreover have "queueOf ?addr e = []" using report_queues(2) [OF rep, of ?addr] addr by simp
  moreover note logRun_queue [OF bef, of ?addr]
  ultimately show ?thesis
    using bef start rest rep aft f(3) all unfolding Let_def by blast
qed

text \<open>
  A late NodeHost whose queue holds a kill request, and servers that commit a batch for another
  NodeHost before and after its report; a codec of the messages of this run.
\<close>

definition lateDB :: db where
  "lateDB = (NewDB 0 1)\<lparr>db_ShardImage := \<lparr>ms_Shards = [(1, movedShard)], ms_ReplicasToKill = []\<rparr>,
     db_Requests := [(''a2'', [sample_kill ''a2''])]\<rparr>"

definition lateUpdate :: Update where
  "lateUpdate = reportUpdate (reportFor lateHost ''p2'' False [(1, 7)])"

definition lateContext :: schedulerContext where
  "lateContext = \<lparr>ctx_Tick = db_Tick lateDB, ctx_Shards = db_Shards lateDB, ctx_Regions = None,
     ctx_ShardImage = db_ShardImage lateDB, ctx_NodeHostImage = db_NodeHostImage lateDB,
     ctx_NodeHostInfo = db_NodeHostInfo lateDB\<rparr>"

definition lateCodec :: codec where
  "lateCodec = sampleCodec\<lparr>mUpdate := (\<lambda>u. if u = lateUpdate then ''R'' else []),
     uUpdate := (\<lambda>s. if s = ''R'' then Some lateUpdate
       else if s = ''Q'' then Some (zero_Update\<lparr>up_Type := Update_REQUESTS,
         up_Requests := Some \<lparr>nrc_Requests = [sample_kill ''a3'']\<rparr>\<rparr>) else None),
     mLookup := (\<lambda>q. if q = contextQuery then ''C'' else if q = requestsQuery ''a2'' then ''A'' else []),
     uLookup := (\<lambda>s. if s = ''C'' then Some contextQuery else if s = ''A'' then Some (requestsQuery ''a2'') else None),
     mResponse := (\<lambda>r. if r = requestsAnswer [sample_kill ''a2''] then ''K'' else []),
     uResponse := (\<lambda>s. if s = ''K'' then Some (requestsAnswer [sample_kill ''a2'']) else None),
     jContext := (\<lambda>c. if c = lateContext then ''X'' else []),
     ujContext := (\<lambda>s. if s = ''X'' then Some lateContext else None)\<rparr>"

lemma lateCodec_law: "faithful lateCodec"
  by (simp add: faithful_def lateCodec_def)

definition lateClient :: "localWorld drummerClient" where
  "lateClient = serverClient (localRaft lateCodec (\<lambda>_. True)) lateCodec \<lparr>ctxt_Deadline = None, ctxt_Now = 0\<rparr>"

definition lateNetwork :: "localWorld network" where
  "lateNetwork = \<lparr>net_IsPartitioned = (\<lambda>_. False), net_TLSConfig = (\<lambda>_ _. Inr None), net_Dial = (\<lambda>_ _ w. (Inr (), w)),
      net_Stub = (\<lambda>_. lateClient)\<rparr>"

definition lateAgent :: "localWorld agent" where
  "lateAgent = \<lparr>ag_requests = [sample_kill ''a2''], ag_pool = NewConnectionPool,
     ag_world = \<lparr>lw_others = [[], [''Q''], [''Q'']], lw_db = lateDB\<rparr>\<rparr>"

lemma requests_reach_their_host_witness:
  "\<exists>a' c d r e f. SendNodeHostInfo lateNetwork ''m1'' lateHost ''p2'' False lateAgent = (Inr (), a') \<and>
     ag_requests a' = [sample_kill ''a2'', sample_kill ''a2''] \<and>
     applyNodeHostInfoUpdate d (reportFor lateHost ''p2'' False (shardIndexes c)) = (Inr r, e) \<and>
     queueOf ''a2'' e = [] \<and> answerOf ''a2'' f = [sample_kill ''a2'']"
proof -
  let ?run = "SendNodeHostInfo lateNetwork ''m1'' lateHost ''p2'' False lateAgent"
  have ends: "fst ?run = Inr ()" "ag_requests (snd ?run) = [sample_kill ''a2'', sample_kill ''a2'']"
    by code_simp+
  then have run: "?run = (Inr (), snd ?run)" by (metis prod.collapse)
  have host: "hh_RaftAddress lateHost = ''a2''" "ag_requests lateAgent = [sample_kill ''a2'']"
    by (simp_all add: lateHost_def lateAgent_def)
  have dial: "\<forall>opts x w w'. net_Dial lateNetwork ''m1'' opts w = (x, w') \<longrightarrow>
      dbMoves lateCodec (\<lambda>_. True) (lw_db w) (lw_db w')"
    by (auto simp: lateNetwork_def)
  have stub: "net_Stub lateNetwork ''m1'' = serverClient (localRaft lateCodec (\<lambda>_. True)) lateCodec
      \<lparr>ctxt_Deadline = None, ctxt_Now = 0\<rparr>" and up: "\<not> net_IsPartitioned lateNetwork (ag_world lateAgent)"
    by (simp_all add: lateNetwork_def lateClient_def)
  obtain c d r e f where rep: "applyNodeHostInfoUpdate d (reportFor lateHost ''p2'' False (shardIndexes c)) = (Inr r, e)"
    "queueOf (hh_RaftAddress lateHost) e = []"
    "ag_requests (snd ?run) = ag_requests lateAgent @ answerOf (hh_RaftAddress lateHost) f"
    using requests_reach_their_host [OF local_raft.raft_service_axioms lateCodec_law TrueI dial stub up run]
    unfolding Let_def by blast
  have "answerOf ''a2'' f = [sample_kill ''a2'']" using rep(3) ends(2) host by simp
  with run ends(2) rep(1,2) host(1) show ?thesis by (metis (no_types))
qed

end
