(* ===== verification/Bitset.thy ===== *)
theory Bitset
  imports GoPrelude
begin

unbundle bit_operations_syntax

text \<open>
  The bit sets of the linearizability checker (\<^verbatim>\<open>lcm/porcupine/bitset.go\<close>): a slice of 64-bit
  words, here a list. An index past its end panics. The methods that Go applies to a shared slice
  return the new list.
\<close>

section \<open>Operations\<close>

type_synonym bitset = "u64 list"

definition newBitset :: "u64 \<Rightarrow> bitset" where
  "newBitset bits =
     (let extra = (if bits mod 64 \<noteq> 0 then 1 else 0); chunks = bits div 64 + extra
      in replicate (unat chunks) 0)"

definition bitsetIndex :: "u64 \<Rightarrow> u64 \<times> u64" where
  "bitsetIndex pos = (pos div 64, pos mod 64)"

definition atIndex :: "bitset \<Rightarrow> u64 \<Rightarrow> u64 go" where
  "atIndex b major = (if unat major < length b then Inr (b ! unat major) else panic IndexOutOfRange)"

definition bitset_set :: "bitset \<Rightarrow> u64 \<Rightarrow> bitset go" where
  "bitset_set b pos =
     (case bitsetIndex pos of (major, minor) \<Rightarrow>
        (case atIndex b major of
           Inl e \<Rightarrow> Inl e
         | Inr w \<Rightarrow> Inr (b[unat major := w OR push_bit (unat minor) 1])))"

definition bitset_clear :: "bitset \<Rightarrow> u64 \<Rightarrow> bitset go" where
  "bitset_clear b pos =
     (case bitsetIndex pos of (major, minor) \<Rightarrow>
        (case atIndex b major of
           Inl e \<Rightarrow> Inl e
         | Inr w \<Rightarrow> Inr (b[unat major := w AND NOT (push_bit (unat minor) 1)])))"

definition bitset_get :: "bitset \<Rightarrow> u64 \<Rightarrow> bool go" where
  "bitset_get b pos =
     (case bitsetIndex pos of (major, minor) \<Rightarrow>
        (case atIndex b major of
           Inl e \<Rightarrow> Inl e
         | Inr w \<Rightarrow> Inr (w AND push_bit (unat minor) 1 \<noteq> 0)))"

text \<open>The body of the loop of \<^verbatim>\<open>popcnt\<close>, with the masks of the source.\<close>

definition popcntWord :: "u64 \<Rightarrow> u64" where
  "popcntWord v0 =
     (let v1 = (v0 AND 0x5555555555555555) + drop_bit 1 (v0 AND 0xAAAAAAAAAAAAAAAA);
          v2 = (v1 AND 0x3333333333333333) + drop_bit 2 (v1 AND 0xCCCCCCCCCCCCCCCC);
          v3 = (v2 AND 0x0F0F0F0F0F0F0F0F) + drop_bit 4 (v2 AND 0xF0F0F0F0F0F0F0F0);
          v4 = v3 * 0x0101010101010101
      in drop_bit 56 v4 AND 0xFF)"

definition popcnt :: "bitset \<Rightarrow> u64" where
  "popcnt b = fold (\<lambda>v total. total + popcntWord v) b 0"

definition bitset_hash :: "bitset \<Rightarrow> u64" where
  "bitset_hash b = fold (\<lambda>v hash. hash XOR v) b (popcnt b)"

text \<open>The loop of \<^verbatim>\<open>equals\<close> indexes the second slice; the lengths were compared before.\<close>

definition bitset_equals :: "bitset \<Rightarrow> bitset \<Rightarrow> bool" where
  "bitset_equals b b2 =
     (if length b \<noteq> length b2 then False else list_all (\<lambda>i. b ! i = b2 ! i) [0..<length b])"

lemma bitset_equals_iff [simp]: "bitset_equals b b2 \<longleftrightarrow> b = b2"
  by (auto simp: bitset_equals_def list_all_iff intro: nth_equalityI)

section \<open>Sets of positions\<close>

definition positions :: "bitset \<Rightarrow> nat set" where
  "positions b = {i. i div 64 < length b \<and> bit (b ! (i div 64)) (i mod 64)}"

lemma newBitset_empty: "positions (newBitset bits) = {}"
  by (auto simp: positions_def newBitset_def Let_def)

lemma index_nat: "unat (pos div 64 :: u64) = unat pos div 64" "unat (pos mod 64 :: u64) = unat pos mod 64"
  by (simp_all add: unat_div unat_mod)

lemma div_up: "n div 64 + (if n mod 64 \<noteq> 0 then 1 else 0) = (n + 63) div (64 :: nat)"
proof -
  have "n = 64 * (n div 64) + n mod 64" by simp
  then obtain q r where n: "n = 64 * q + r" and r: "r < 64" by (metis mod_less_divisor zero_less_numeral)
  then have "(n + 63) div 64 = q + (r + 63) div 64" by (simp add: add.assoc)
  moreover have "(r + 63) div 64 = (if r = 0 then 0 else 1)" using r by auto
  ultimately show ?thesis using n r by simp
qed

lemma newBitset_length:
  assumes "unat bits + 64 < 2 ^ 64"
  shows "length (newBitset bits) = (unat bits + 63) div 64"
proof -
  let ?extra = "if bits mod 64 \<noteq> 0 then 1 else 0 :: u64"
  have zero: "bits mod 64 = 0 \<longleftrightarrow> unat bits mod 64 = 0"
    by (metis index_nat(2) unat_eq_zero)
  have e: "unat ?extra = (if unat bits mod 64 \<noteq> 0 then 1 else 0)" unfolding zero by simp
  have "unat bits div 64 \<le> unat bits" by simp
  moreover have le1: "(if unat bits mod 64 \<noteq> 0 then 1 else 0) \<le> (1 :: nat)" by simp
  moreover have len64: "2 ^ LENGTH(64) = (2 ^ 64 :: nat)" by simp
  ultimately have lt: "unat (bits div 64) + unat ?extra < 2 ^ LENGTH(64)"
    unfolding e index_nat(1) len64 using assms le1 by linarith
  have "unat (bits div 64 + ?extra) = unat bits div 64 + (if unat bits mod 64 \<noteq> 0 then 1 else 0)"
    unfolding unat_add_lem [THEN iffD1, OF lt] e index_nat(1) ..
  also have "\<dots> = (unat bits + 63) div 64" by (rule div_up)
  finally show ?thesis by (simp add: newBitset_def Let_def)
qed

lemma bit_single: "bit (2 ^ k :: u64) n \<longleftrightarrow> n = k \<and> k < 64"
  by (auto simp: bit_exp_iff possible_bit_word)

text \<open>A position is in range when the slice has a word for it.\<close>

definition inRange :: "bitset \<Rightarrow> u64 \<Rightarrow> bool" where
  "inRange b pos \<longleftrightarrow> unat pos div 64 < length b"

lemma same_position: "i div 64 = j div 64 \<Longrightarrow> i mod 64 = j mod 64 \<Longrightarrow> i = (j :: nat)"
  by (metis div_mult_mod_eq)

lemma bitset_set_position:
  assumes "inRange b pos"
  shows "\<exists>b'. bitset_set b pos = Inr b' \<and> length b' = length b \<and> positions b' = insert (unat pos) (positions b)"
  using assms
  by (auto simp: bitset_set_def bitsetIndex_def atIndex_def index_nat inRange_def positions_def
      nth_list_update bit_or_iff bit_single dest: same_position split: if_splits)

lemma bitset_clear_position:
  assumes "inRange b pos"
  shows "\<exists>b'. bitset_clear b pos = Inr b' \<and> length b' = length b \<and> positions b' = positions b - {unat pos}"
  using assms
  by (auto simp: bitset_clear_def bitsetIndex_def atIndex_def index_nat inRange_def positions_def
      nth_list_update bit_and_iff bit_not_iff bit_single dest: same_position split: if_splits)

lemma bitset_get_position:
  assumes "inRange b pos"
  shows "bitset_get b pos = Inr (unat pos \<in> positions b)"
proof -
  have "w AND push_bit k 1 \<noteq> 0 \<longleftrightarrow> bit w k" if "k < 64" for w :: u64 and k
    unfolding bit_eq_iff [of _ 0] using that by (auto simp: bit_and_iff bit_single push_bit_eq_mult)
  with assms show ?thesis
    by (simp add: bitset_get_def bitsetIndex_def atIndex_def index_nat inRange_def positions_def)
qed

lemma positions_inject:
  assumes "length b = length b2" and "positions b = positions b2"
  shows "b = b2"
proof (rule nth_equalityI [OF assms(1)])
  fix i assume i: "i < length b"
  show "b ! i = b2 ! i"
  proof (rule bit_eqI)
    fix n
    show "bit (b ! i) n = bit (b2 ! i) n" if "possible_bit TYPE(u64) n"
    proof -
      have "n < 64" using that by (simp add: possible_bit_word)
      then have "i * 64 + n \<in> positions c \<longleftrightarrow> bit (c ! i) n" if "length c = length b" for c
        using i that by (simp add: positions_def)
      with assms show ?thesis by metis
    qed
  qed
qed

section \<open>Counting bits\<close>

text \<open>
  A mask step on integers, and how it splits at a digit of \<open>w\<close> bits: no bit crosses the border.
\<close>

definition halves :: "int \<Rightarrow> int \<Rightarrow> nat \<Rightarrow> int \<Rightarrow> int" where
  "halves m M s v = (v AND m) + drop_bit s (v AND M)"

fun ones :: "nat \<Rightarrow> int \<Rightarrow> int" where
  "ones 0 x = 0"
| "ones (Suc n) x = x mod 2 + ones n (x div 2)"

lemma cat_digit: "0 \<le> r \<Longrightarrow> r < 2 ^ w \<Longrightarrow> 2 ^ w * q + r = concat_bit w r (q :: int)"
  by (simp add: concat_bit_eq push_bit_eq_mult take_bit_eq_mod)

lemma and_digits:
  assumes "0 \<le> r" "r < 2 ^ w" "0 \<le> m" "m < (2 ^ w :: int)"
  shows "(2 ^ w * q + r) AND (2 ^ w * M + m) = 2 ^ w * (q AND M) + (r AND m)"
proof -
  have "2 ^ w * (q AND M) + (r AND m) = concat_bit w (r AND m) (q AND M)"
    using assms by (intro cat_digit) (auto intro: AND_upper1' order_le_less_trans [OF AND_upper1])
  then show ?thesis
    using assms by (simp add: cat_digit) (rule bit_eqI, auto simp: bit_concat_bit_iff bit_and_iff)
qed

lemma and_multiple:
  assumes "2 ^ s dvd (N :: int)"
  shows "2 ^ s dvd (q AND N)"
  using assms by (simp flip: take_bit_eq_0_iff)

lemma halves_digits:
  assumes "0 \<le> r" "r < 2 ^ w" "0 \<le> m" "m < 2 ^ w" "0 \<le> M" "M < 2 ^ w" and "2 ^ s dvd N"
  shows "halves (2 ^ w * m' + m) (2 ^ w * N + M) s (2 ^ w * q + r) = 2 ^ w * halves m' N s q + halves m M s r"
proof -
  obtain k where k: "q AND N = 2 ^ s * k" using and_multiple [OF assms(7), of q] by blast
  have "2 ^ w * (2 ^ s * k) + (r AND M) = 2 ^ s * (2 ^ w * k) + (r AND M)" by simp
  then have "drop_bit s (2 ^ w * (q AND N) + (r AND M)) = 2 ^ w * drop_bit s (q AND N) + drop_bit s (r AND M)"
    unfolding k drop_bit_eq_div by (simp only: div_mult_self2 [of "2 ^ s"]) simp
  then show ?thesis
    unfolding halves_def and_digits [OF assms(1,2,3,4)] and_digits [OF assms(1,2,5,6)] by (simp add: algebra_simps)
qed

text \<open>Half a byte: two steps leave its number of bits.\<close>

definition nibble_ok :: "int \<Rightarrow> bool" where
  "nibble_ok x \<longleftrightarrow> halves 5 10 1 x \<in> {0..<16} \<and> halves 3 12 2 (halves 5 10 1 x) = ones 4 x \<and> ones 4 x \<in> {0..<16} \<and>
     ones 4 x AND 15 = ones 4 x"

lemma nibbles_ok: "list_all nibble_ok [0..15]"
  by code_simp

lemma nibble: "0 \<le> x \<Longrightarrow> x < 16 \<Longrightarrow> nibble_ok x"
  using nibbles_ok by (simp add: list_all_iff)

text \<open>A byte, from its two halves.\<close>

lemma halves_nibbles:
  assumes "0 \<le> l" "l < 16" "0 \<le> m" "m < 16" "0 \<le> M" "M < 16" "2 ^ s dvd N"
  shows "halves (16 * m' + m) (16 * N + M) s (16 * h + l) = 16 * halves m' N s h + halves m M s l"
  using halves_digits [where w = 4, of l m M s N m' h] assms by simp

lemma byte:
  assumes "0 \<le> h" "h < 16" "0 \<le> l" "l < 16"
  shows "halves 0x55 0xAA 1 (16 * h + l) \<in> {0..<256}"
    and "halves 0x33 0xCC 2 (halves 0x55 0xAA 1 (16 * h + l)) \<in> {0..<256}"
    and "halves 0x0F 0xF0 4 (halves 0x33 0xCC 2 (halves 0x55 0xAA 1 (16 * h + l))) = ones 4 h + ones 4 l"
proof -
  note h = nibble [OF assms(1,2), unfolded nibble_ok_def] and l = nibble [OF assms(3,4), unfolded nibble_ok_def]
  have one: "halves 0x55 0xAA 1 (16 * h + l) = 16 * halves 5 10 1 h + halves 5 10 1 l"
    using halves_nibbles [OF assms(3,4), of 5 10 1 10 5 h] by simp
  have two: "halves 0x33 0xCC 2 (halves 0x55 0xAA 1 (16 * h + l)) = 16 * ones 4 h + ones 4 l"
    unfolding one using halves_nibbles [of "halves 5 10 1 l" 3 12 2 12 3 "halves 5 10 1 h"] h l by simp
  have "(16 * ones 4 h + ones 4 l) AND 15 = ones 4 l" "(16 * ones 4 h + ones 4 l) AND 240 = 16 * ones 4 h"
    using and_digits [where w = 4, of "ones 4 l" 15 "ones 4 h" 0] and_digits [where w = 4, of "ones 4 l" 0 "ones 4 h" 15]
      h l by simp_all
  then show "halves 0x0F 0xF0 4 (halves 0x33 0xCC 2 (halves 0x55 0xAA 1 (16 * h + l))) = ones 4 h + ones 4 l"
    unfolding two by (simp add: halves_def drop_bit_eq_div)
  show "halves 0x55 0xAA 1 (16 * h + l) \<in> {0..<256}"
    "halves 0x33 0xCC 2 (halves 0x55 0xAA 1 (16 * h + l)) \<in> {0..<256}"
    unfolding two unfolding one using h l by auto
qed

text \<open>The three steps on \<open>k\<close> bytes leave in each byte its number of bits.\<close>

fun rep :: "nat \<Rightarrow> int" where
  "rep 0 = 0"
| "rep (Suc k) = 256 * rep k + 1"

definition counts :: "nat \<Rightarrow> int \<Rightarrow> int" where
  "counts k v = halves (0x0F * rep k) (0xF0 * rep k) 4
     (halves (0x33 * rep k) (0xCC * rep k) 2 (halves (0x55 * rep k) (0xAA * rep k) 1 v))"

lemma halves_bytes:
  assumes "r \<in> {0..<256}" "m \<in> {0..<256}" "M \<in> {0..<256}" "2 ^ s dvd M"
  shows "halves (m * rep (Suc k)) (M * rep (Suc k)) s (256 * q + r) =
    256 * halves (m * rep k) (M * rep k) s q + halves m M s r"
  using halves_digits [where w = 8, of r m M s "M * rep k" "m * rep k" q] assms by (simp add: algebra_simps)

lemma counts_byte:
  assumes "0 \<le> h" "h < 16" "0 \<le> l" "l < 16"
  shows "counts (Suc k) (256 * q + (16 * h + l)) = 256 * counts k q + (ones 4 h + ones 4 l)"
proof -
  let ?r = "16 * h + l"
  have "?r \<in> {0..<256}" using assms by simp
  from halves_bytes [OF this, of 85 170 1 k q] halves_bytes [OF byte(1) [OF assms], of 51 204 2 k]
    halves_bytes [OF byte(2) [OF assms], of 15 240 4 k] byte(3) [OF assms]
  show ?thesis by (simp add: counts_def del: rep.simps)
qed

lemma counts_0: "0 \<le> v \<Longrightarrow> counts 0 v = 0"
  by (simp add: counts_def halves_def)

text \<open>A word is its bytes, and the multiplication adds them up in the highest one.\<close>

definition byteOnes :: "int \<Rightarrow> int" where
  "byteOnes v = ones 4 (v mod 256 div 16) + ones 4 (v mod 16)"

fun byteSum :: "nat \<Rightarrow> int \<Rightarrow> int" where
  "byteSum 0 v = 0"
| "byteSum (Suc k) v = 256 * byteSum k (v div 256) + byteOnes v"

fun byteTotal :: "nat \<Rightarrow> int \<Rightarrow> int" where
  "byteTotal 0 v = 0"
| "byteTotal (Suc k) v = byteTotal k (v div 256) + byteOnes v"

lemma byte_halves: "(v :: int) = 256 * (v div 256) + (16 * (v mod 256 div 16) + v mod 16)"
proof -
  have "v mod 256 mod 16 = v mod 16" by (simp add: mod_mod_cancel)
  then show ?thesis using mult_div_mod_eq [of 256 v] mult_div_mod_eq [of 16 "v mod 256"] by linarith
qed

lemma counts_byteSum: "0 \<le> v \<Longrightarrow> counts k v = byteSum k v"
proof (induction k arbitrary: v)
  case (Suc k)
  have "counts (Suc k) v = counts (Suc k) (256 * (v div 256) + (16 * (v mod 256 div 16) + v mod 16))"
    by (simp only: byte_halves [symmetric])
  also have "\<dots> = 256 * counts k (v div 256) + (ones 4 (v mod 256 div 16) + ones 4 (v mod 16))"
    by (rule counts_byte) auto
  finally show ?case using Suc.IH [of "v div 256"] Suc.prems by (simp add: div_int_pos_iff byteOnes_def)
qed (simp add: counts_0)

lemma ones_add: "ones (m + n) x = ones m x + ones n (x div 2 ^ m)"
  by (induction m arbitrary: x) (simp_all add: zdiv_zmult2_eq)

lemma ones_mod: "ones n (x mod 2 ^ n) = ones n x"
proof (induction n arbitrary: x)
  case (Suc n)
  have "x mod 2 ^ Suc n mod 2 = x mod 2" by (simp add: mod_mod_cancel)
  moreover have "x mod 2 ^ Suc n div 2 = x div 2 mod 2 ^ n"
    using zmod_zmult2_eq [of "2 ^ n" x 2] by (simp add: ac_simps)
  ultimately show ?case by (simp add: Suc)
qed simp

lemma ones_bounds: "0 \<le> ones n x \<and> ones n x \<le> int n"
proof (induction n arbitrary: x)
  case (Suc n)
  have "0 \<le> x mod 2" "x mod 2 \<le> 1" by auto
  with Suc [of "x div 2"] show ?case by simp
qed simp

lemma ones_card: "ones n x = int (card {i. i < n \<and> bit x i})"
proof (induction n arbitrary: x)
  case (Suc n)
  let ?A = "{i. i < n \<and> bit (x div 2) i}"
  have split: "{i. i < Suc n \<and> bit x i} = {i. i = 0 \<and> odd x} \<union> Suc ` ?A"
    by (auto simp: image_iff bit_0 bit_Suc less_Suc_eq_0_disj)
  have "card {i. i < Suc n \<and> bit x i} = card {i :: nat. i = 0 \<and> odd x} + card (Suc ` ?A)"
    unfolding split by (rule card_Un_disjoint) auto
  moreover have "card (Suc ` ?A) = card ?A" by (rule card_image) simp
  moreover have "x mod 2 = int (card {i :: nat. i = 0 \<and> odd x})"
    by (cases "odd x") (simp_all add: odd_iff_mod_2_eq_one even_iff_mod_2_eq_zero)
  ultimately show ?case by (simp add: Suc)
qed simp

lemma byteOnes: "byteOnes v = ones 8 v" "0 \<le> byteOnes v" "byteOnes v \<le> 8"
proof -
  have "v mod 256 div 16 = v div 16 mod 16" using zmod_zmult2_eq [of 16 v 16] by simp
  then show *: "byteOnes v = ones 8 v"
    using ones_add [of 4 4 v] ones_mod [of 4 "v div 16"] ones_mod [of 4 v] by (simp add: byteOnes_def)
  show "0 \<le> byteOnes v" "byteOnes v \<le> 8" unfolding * using ones_bounds [of 8 v] by simp_all
qed

lemma byteTotal: "byteTotal k v = ones (8 * k) v"
  by (induction k arbitrary: v) (simp_all add: byteOnes(1) ones_add [of 8, simplified])

lemma eight: "8 = Suc (Suc (Suc (Suc (Suc (Suc (Suc (Suc 0)))))))"
  by simp

lemma top_digit:
  fixes a0 a1 a2 a3 a4 a5 a6 a7 :: int
  assumes "a0 \<in> {0..8}" "a1 \<in> {0..8}" "a2 \<in> {0..8}" "a3 \<in> {0..8}" "a4 \<in> {0..8}" "a5 \<in> {0..8}"
    "a6 \<in> {0..8}" "a7 \<in> {0..8}"
  shows "(a0 + 256 * (a1 + 256 * (a2 + 256 * (a3 + 256 * (a4 + 256 * (a5 + 256 * (a6 + 256 * a7))))))) *
    0x0101010101010101 mod 2 ^ 64 div 2 ^ 56 = a0 + a1 + a2 + a3 + a4 + a5 + a6 + a7"
proof -
  let ?s = "a0 + a1 + a2 + a3 + a4 + a5 + a6 + a7"
  let ?l = "1 * (a0) + 256 * (a0 + a1)
    + 65536 * (a0 + a1 + a2) + 16777216 * (a0 + a1 + a2 + a3)
    + 4294967296 * (a0 + a1 + a2 + a3 + a4)
    + 1099511627776 * (a0 + a1 + a2 + a3 + a4 + a5) + 281474976710656 * (a0 + a1 + a2 + a3 + a4 + a5 + a6)"
  let ?h = "1 * (a1 + a2 + a3 + a4 + a5 + a6 + a7) + 256 * (a2 + a3 + a4 + a5 + a6 + a7)
    + 65536 * (a3 + a4 + a5 + a6 + a7) + 16777216 * (a4 + a5 + a6 + a7)
    + 4294967296 * (a5 + a6 + a7) + 1099511627776 * (a6 + a7) + 281474976710656 * (a7)"
  have "(a0 + 256 * (a1 + 256 * (a2 + 256 * (a3 + 256 * (a4 + 256 * (a5 + 256 * (a6 + 256 * a7))))))) * 0x0101010101010101 =
      2 ^ 64 * ?h + (2 ^ 56 * ?s + ?l)" by (simp add: algebra_simps)
  moreover have "0 \<le> ?l" "?l < 2 ^ 56" "0 \<le> ?s" "?s \<le> 64" using assms by auto
  then have "(2 ^ 64 * ?h + (2 ^ 56 * ?s + ?l)) mod 2 ^ 64 = 2 ^ 56 * ?s + ?l"
    by (simp only: mod_mult_self4) (rule mod_pos_pos_trivial, auto)
  moreover have "(2 ^ 56 * ?s + ?l) div 2 ^ 56 = ?s"
    using \<open>0 \<le> ?l\<close> \<open>?l < 2 ^ 56\<close> by (simp only: div_mult_self4) (simp add: div_pos_pos_trivial)
  ultimately show ?thesis by (simp only:)
qed

lemma top_byte: "byteSum 8 v * 0x0101010101010101 mod 2 ^ 64 div 2 ^ 56 = byteTotal 8 v"
proof -
  define c where "c j = byteOnes (v div 256 ^ j)" for j
  have bound: "c j \<in> {0..8}" for j by (simp add: c_def byteOnes(2,3))
  have sum: "byteSum 8 v = c 0 + 256 * (c 1 + 256 * (c 2 + 256 * (c 3 + 256 * (c 4 + 256 * (c 5 + 256 * (c 6 + 256 * c 7))))))"
    by (simp add: eight c_def zdiv_zmult2_eq [symmetric])
  have total: "byteTotal 8 v = c 0 + c 1 + c 2 + c 3 + c 4 + c 5 + c 6 + c 7"
    by (simp add: eight c_def zdiv_zmult2_eq [symmetric])
  show ?thesis unfolding sum total by (rule top_digit) (rule bound)+
qed

text \<open>The masks of the source are the byte masks repeated eight times.\<close>

lemma masks:
  "0x55 * rep 8 = 0x5555555555555555" "0xAA * rep 8 = 0xAAAAAAAAAAAAAAAA"
  "0x33 * rep 8 = 0x3333333333333333" "0xCC * rep 8 = 0xCCCCCCCCCCCCCCCC"
  "0x0F * rep 8 = 0x0F0F0F0F0F0F0F0F" "0xF0 * rep 8 = 0xF0F0F0F0F0F0F0F0"
  by (simp_all add: eight)

lemma uint_shift: "uint (drop_bit s (w :: u64)) = uint w div 2 ^ s"
  unfolding unsigned_drop_bit_eq drop_bit_eq_div [where 'a = int] by (simp add: take_bit_int_eq_self bintr_uint)

lemma uint_halves:
  fixes v m M :: u64
  assumes "uint m + uint M div 2 ^ s < 2 ^ 64"
  shows "uint ((v AND m) + drop_bit s (v AND M)) = halves (uint m) (uint M) s (uint v)"
proof -
  have "uint v AND uint m \<le> uint m" "uint v AND uint M \<le> uint M" by (rule AND_upper2, simp)+
  then have "(uint v AND uint m) + (uint v AND uint M) div 2 ^ s < 2 ^ 64"
    using assms zdiv_mono1 [of "uint v AND uint M" "uint M" "2 ^ s", OF _ zero_less_power] by linarith
  then show ?thesis
    unfolding halves_def uint_word_ariths uint_shift uint_and drop_bit_eq_div [where 'a = int]
    by (intro mod_pos_pos_trivial) (simp_all add: div_int_pos_iff del: drop_bit_and)
qed

lemma popcntWord_card: "uint (popcntWord v) = int (card {i. i < 64 \<and> bit v i})"
proof -
  define v1 where "v1 = (v AND 0x5555555555555555) + drop_bit 1 (v AND 0xAAAAAAAAAAAAAAAA)"
  define v2 where "v2 = (v1 AND 0x3333333333333333) + drop_bit 2 (v1 AND 0xCCCCCCCCCCCCCCCC)"
  define v3 where "v3 = (v2 AND 0x0F0F0F0F0F0F0F0F) + drop_bit 4 (v2 AND 0xF0F0F0F0F0F0F0F0)"
  have steps: "uint v1 = halves (0x55 * rep 8) (0xAA * rep 8) 1 (uint v)"
    "uint v2 = halves (0x33 * rep 8) (0xCC * rep 8) 2 (uint v1)"
    "uint v3 = halves (0x0F * rep 8) (0xF0 * rep 8) 4 (uint v2)"
    unfolding v1_def v2_def v3_def masks by (subst uint_halves; simp)+
  have v3: "uint v3 = byteSum 8 (uint v)"
    using counts_byteSum [of "uint v" 8] steps by (simp add: counts_def)
  have total: "byteTotal 8 (uint v) = int (card {i. i < 64 \<and> bit v i})"
    by (simp add: byteTotal ones_card bit_uint_iff conj_commute cong: conj_cong)
  have "uint (v3 * 0x0101010101010101) div 2 ^ 56 = byteTotal 8 (uint v)"
    using top_byte [of "uint v"] by (simp add: uint_word_ariths v3)
  moreover have "byteTotal 8 (uint v) AND 255 = byteTotal 8 (uint v)"
    using ones_bounds [of 64 "uint v"] take_bit_eq_mask [of 8 "ones 64 (uint v)"]
    by (simp add: byteTotal mask_eq_exp_minus_1 take_bit_int_eq_self)
  ultimately show ?thesis
    unfolding popcntWord_def Let_def v1_def [symmetric] v2_def [symmetric] v3_def [symmetric] total [symmetric]
    by (simp add: uint_and uint_shift)
qed

text \<open>
  The population count of the checker, three masked steps and a multiplication per word, is the
  number of positions in the set.
\<close>

theorem popcnt_counts: "popcnt b = of_nat (card (positions b))"
proof (induction b rule: rev_induct)
  case Nil
  then show ?case by (simp add: popcnt_def positions_def)
next
  case (snoc v b)
  have "positions (b @ [v]) = positions b \<union> (\<lambda>i. 64 * length b + i) ` {i. i < 64 \<and> bit v i}"
  proof (rule set_eqI)
    fix i :: nat
    have i: "i = 64 * (i div 64) + i mod 64" by simp
    show "i \<in> positions (b @ [v]) \<longleftrightarrow> i \<in> positions b \<union> (\<lambda>i. 64 * length b + i) ` {i. i < 64 \<and> bit v i}"
    proof (cases "i div 64 = length b")
      case True
      with i have "i = 64 * length b + i mod 64" by simp
      with True show ?thesis by (auto simp: positions_def)
    qed (auto simp: positions_def nth_append less_Suc_eq)
  qed
  moreover have "finite (positions b)"
    by (rule finite_subset [of _ "{..< 64 * length b}"]) (auto simp: positions_def div_less_iff_less_mult mult.commute)
  moreover have "positions b \<inter> (\<lambda>i. 64 * length b + i) ` {i. i < 64 \<and> bit v i} = {}"
    by (auto simp: positions_def)
  ultimately have "card (positions (b @ [v])) = card (positions b) + card {i. i < 64 \<and> bit v i}"
    by (simp add: card_Un_disjoint card_image inj_on_def)
  moreover have "popcntWord v = of_nat (card {i. i < 64 \<and> bit v i})"
    using popcntWord_card [of v] by (metis of_int_of_nat_eq word_of_int_uint)
  ultimately show ?case using snoc by (simp add: popcnt_def)
qed

end
