(* ===== verification/Porcupine.thy ===== *)
theory Porcupine
  imports Bitset
begin

text \<open>
  The linearizability checker of the monkey tests (\<^verbatim>\<open>lcm/porcupine/porcupine.go\<close>, \<^verbatim>\<open>model.go\<close>): a
  backtracking search over the calls of a history, kept in a doubly linked list that calls are
  lifted out of and put back into. The list lives in a heap: a node is a reference, the position
  in a list of nodes that only grows. \<^verbatim>\<open>interface{}\<close> is an option, \<open>None\<close> its \<^verbatim>\<open>nil\<close>.
\<close>

section \<open>Histories and models\<close>

type_synonym 'v any = "'v option"

record 'v operation =
  op_Input :: "'v any"
  op_Call :: int
  op_Output :: "'v any"
  op_Return :: int

datatype eventKind = CallEvent | ReturnEvent

record 'v event =
  ev_Kind :: eventKind
  ev_Value :: "'v any"
  ev_Id :: u64

text \<open>The fields a model may leave \<^verbatim>\<open>nil\<close> are options.\<close>

record ('s, 'v) model =
  mo_Partition :: "('v operation list \<Rightarrow> 'v operation list list) option"
  mo_PartitionEvent :: "('v event list \<Rightarrow> 'v event list list) option"
  mo_Init :: 's
  mo_Step :: "'s \<Rightarrow> 'v any \<Rightarrow> 'v any \<Rightarrow> (bool \<times> 's) go"
  mo_Equal :: "('s \<Rightarrow> 's \<Rightarrow> bool) option"

definition NoPartition :: "'v operation list \<Rightarrow> 'v operation list list" where
  "NoPartition history = [history]"

definition NoPartitionEvent :: "'v event list \<Rightarrow> 'v event list list" where
  "NoPartitionEvent history = [history]"

definition ShallowEqual :: "'s \<Rightarrow> 's \<Rightarrow> bool" where
  "ShallowEqual state1 state2 \<longleftrightarrow> state1 = state2"

definition fillDefault :: "('s, 'v) model \<Rightarrow> ('s, 'v) model" where
  "fillDefault model =
     (let m1 = (if mo_Partition model = None then model\<lparr>mo_Partition := Some NoPartition\<rparr> else model);
          m2 = (if mo_PartitionEvent m1 = None then m1\<lparr>mo_PartitionEvent := Some NoPartitionEvent\<rparr> else m1)
      in if mo_Equal m2 = None then m2\<lparr>mo_Equal := Some ShallowEqual\<rparr> else m2)"

section \<open>Entries\<close>

datatype entryKind = callEntry | returnEntry

record 'v entry =
  en_kind :: entryKind
  en_value :: "'v any"
  en_id :: u64
  en_time :: int

text \<open>
  \<^verbatim>\<open>sort.Sort\<close> is not stable: the order of entries at the same time is left to it. It is an argument
  with the law \<open>sorts\<close>.
\<close>

fun entriesFrom :: "u64 \<Rightarrow> 'v operation list \<Rightarrow> 'v entry list" where
  "entriesFrom nid [] = []"
| "entriesFrom nid (elem # history) =
     \<lparr>en_kind = callEntry, en_value = op_Input elem, en_id = nid, en_time = op_Call elem\<rparr> #
     \<lparr>en_kind = returnEntry, en_value = op_Output elem, en_id = nid, en_time = op_Return elem\<rparr> #
     entriesFrom (nid + 1) history"

definition makeEntries :: "('v entry list \<Rightarrow> 'v entry list) \<Rightarrow> 'v operation list \<Rightarrow> 'v entry list" where
  "makeEntries srt history = srt (entriesFrom 0 history)"

definition sorts :: "('v entry list \<Rightarrow> 'v entry list) \<Rightarrow> bool" where
  "sorts srt \<longleftrightarrow> (\<forall>es. mset (srt es) = mset es \<and> sorted (map en_time (srt es)))"

fun renumberFrom :: "(u64, u64) gomap \<Rightarrow> u64 \<Rightarrow> 'v event list \<Rightarrow> 'v event list" where
  "renumberFrom m nid [] = []"
| "renumberFrom m nid (v # events) =
     (case mget m (ev_Id v) of
        Some r \<Rightarrow> v\<lparr>ev_Id := r\<rparr> # renumberFrom m nid events
      | None \<Rightarrow> v\<lparr>ev_Id := nid\<rparr> # renumberFrom (mput (ev_Id v) nid m) (nid + 1) events)"

definition renumber :: "'v event list \<Rightarrow> 'v event list" where
  "renumber events = renumberFrom [] 0 events"

definition convertEntries :: "'v event list \<Rightarrow> 'v entry list" where
  "convertEntries events = map (\<lambda>elem.
     \<lparr>en_kind = (if ev_Kind elem = ReturnEvent then returnEntry else callEntry),
      en_value = ev_Value elem, en_id = ev_Id elem, en_time = - 1\<rparr>) events"

section \<open>The linked list\<close>

type_synonym ref = nat

record 'v node =
  nd_value :: "'v any"
  nd_match :: "ref option"
  nd_id :: u64
  nd_next :: "ref option"
  nd_prev :: "ref option"

type_synonym 'v heap = "'v node list"

definition newNode :: "'v any \<Rightarrow> ref option \<Rightarrow> u64 \<Rightarrow> 'v node" where
  "newNode value match nid = \<lparr>nd_value = value, nd_match = match, nd_id = nid, nd_next = None, nd_prev = None\<rparr>"

definition putNext :: "ref \<Rightarrow> ref option \<Rightarrow> 'v heap \<Rightarrow> 'v heap" where
  "putNext r p h = h[r := (h ! r)\<lparr>nd_next := p\<rparr>]"

definition putPrev :: "ref \<Rightarrow> ref option \<Rightarrow> 'v heap \<Rightarrow> 'v heap" where
  "putPrev r p h = h[r := (h ! r)\<lparr>nd_prev := p\<rparr>]"

definition insertBefore :: "ref \<Rightarrow> ref option \<Rightarrow> 'v heap \<Rightarrow> 'v heap" where
  "insertBefore n mark h =
     (case mark of
        None \<Rightarrow> h
      | Some m \<Rightarrow>
          (let beforeMark = nd_prev (h ! m);
               h1 = putNext n (Some m) (putPrev m (Some n) h)
           in case beforeMark of
                None \<Rightarrow> h1
              | Some b \<Rightarrow> putNext b (Some n) (putPrev n (Some b) h1)))"

partial_function (option) nodeLength :: "'v heap \<Rightarrow> ref option \<Rightarrow> u64 \<Rightarrow> u64 option" where
  "nodeLength h n l = (case n of None \<Rightarrow> Some l | Some r \<Rightarrow> nodeLength h (nd_next (h ! r)) (l + 1))"

declare nodeLength.simps [code]

text \<open>The loop of \<^verbatim>\<open>makeLinkedEntries\<close>, from the last entry to the first.\<close>

fun linkLoop :: "'v entry list \<Rightarrow> ref option \<Rightarrow> (u64, ref) gomap \<Rightarrow> 'v heap \<Rightarrow> ref option \<times> 'v heap" where
  "linkLoop [] root match h = (root, h)"
| "linkLoop (elem # rest) root match h =
     (let r = length h in
      if en_kind elem = returnEntry
      then linkLoop rest (Some r) (mput (en_id elem) r match)
             (insertBefore r root (h @ [newNode (en_value elem) None (en_id elem)]))
      else linkLoop rest (Some r) match
             (insertBefore r root (h @ [newNode (en_value elem) (mget match (en_id elem)) (en_id elem)])))"

definition makeLinkedEntries :: "'v entry list \<Rightarrow> ref option \<times> 'v heap" where
  "makeLinkedEntries entries = linkLoop (rev entries) None [] []"

text \<open>A write through a pointer that may be \<^verbatim>\<open>nil\<close>.\<close>

definition setNext :: "ref option \<Rightarrow> ref option \<Rightarrow> 'v heap \<Rightarrow> 'v heap go" where
  "setNext p q h = (case p of None \<Rightarrow> panic NilDereference | Some r \<Rightarrow> Inr (putNext r q h))"

definition setPrev :: "ref option \<Rightarrow> ref option \<Rightarrow> 'v heap \<Rightarrow> 'v heap go" where
  "setPrev p q h = (case p of None \<Rightarrow> panic NilDereference | Some r \<Rightarrow> Inr (putPrev r q h))"

definition lift :: "ref \<Rightarrow> 'v heap \<Rightarrow> 'v heap go" where
  "lift e h =
     goThen (setNext (nd_prev (h ! e)) (nd_next (h ! e)) h) (\<lambda>h1.
     goThen (setPrev (nd_next (h1 ! e)) (nd_prev (h1 ! e)) h1) (\<lambda>h2.
       (case nd_match (h2 ! e) of
          None \<Rightarrow> panic NilDereference
        | Some m \<Rightarrow>
            goThen (setNext (nd_prev (h2 ! m)) (nd_next (h2 ! m)) h2) (\<lambda>h3.
              (if nd_next (h3 ! m) \<noteq> None then setPrev (nd_next (h3 ! m)) (nd_prev (h3 ! m)) h3
               else Inr h3)))))"

definition unlift :: "ref \<Rightarrow> 'v heap \<Rightarrow> 'v heap go" where
  "unlift e h =
     (case nd_match (h ! e) of
        None \<Rightarrow> panic NilDereference
      | Some m \<Rightarrow>
          goThen (setNext (nd_prev (h ! m)) (Some m) h) (\<lambda>h1.
          goThen (if nd_next (h1 ! m) \<noteq> None then setPrev (nd_next (h1 ! m)) (Some m) h1 else Inr h1) (\<lambda>h2.
          goThen (setNext (nd_prev (h2 ! e)) (Some e) h2) (\<lambda>h3.
            setPrev (nd_next (h3 ! e)) (Some e) h3))))"

section \<open>The search\<close>

record 's cacheEntry =
  ce_linearized :: bitset
  ce_state :: 's

type_synonym 's cache = "(u64, 's cacheEntry list) gomap"

definition bucket :: "'s cache \<Rightarrow> u64 \<Rightarrow> 's cacheEntry list" where
  "bucket c hash = (case mget c hash of None \<Rightarrow> [] | Some es \<Rightarrow> es)"

text \<open>The loop over a bucket; the states are only compared when the bit sets are equal.\<close>

definition cacheContains :: "('s, 'v) model \<Rightarrow> 's cache \<Rightarrow> 's cacheEntry \<Rightarrow> bool" where
  "cacheContains model c e =
     list_ex (\<lambda>elem. bitset_equals (ce_linearized e) (ce_linearized elem) \<and>
         the (mo_Equal model) (ce_state e) (ce_state elem))
       (bucket c (bitset_hash (ce_linearized e)))"

definition cacheAdd :: "'s cache \<Rightarrow> 's cacheEntry \<Rightarrow> 's cache" where
  "cacheAdd c e = (let hash = bitset_hash (ce_linearized e) in mput hash (bucket c hash @ [e]) c)"

text \<open>The variables of \<^verbatim>\<open>checkSingle\<close>. The head of \<open>se_calls\<close> is the last element of \<^verbatim>\<open>calls\<close>.\<close>

record ('s, 'v) search =
  se_heap :: "'v heap"
  se_entry :: "ref option"
  se_state :: 's
  se_linearized :: bitset
  se_cache :: "'s cache"
  se_calls :: "(ref \<times> 's) list"

text \<open>One iteration of the loop; \<open>None\<close> is \<^verbatim>\<open>return false\<close>.\<close>

definition checkCall :: "('s, 'v) model \<Rightarrow> ref \<Rightarrow> ('s, 'v) search \<Rightarrow> ref \<Rightarrow> 's \<Rightarrow> ('s, 'v) search go" where
  "checkCall model head s e newState =
     goThen (bitset_set (se_linearized s) (nd_id (se_heap s ! e))) (\<lambda>newLinearized.
       (let newCacheEntry = \<lparr>ce_linearized = newLinearized, ce_state = newState\<rparr> in
        if \<not> cacheContains model (se_cache s) newCacheEntry then
          goThen (lift e (se_heap s)) (\<lambda>h.
            Inr (s\<lparr>se_cache := cacheAdd (se_cache s) newCacheEntry, se_calls := (e, se_state s) # se_calls s,
                   se_state := newState, se_linearized := newLinearized, se_heap := h,
                   se_entry := nd_next (h ! head)\<rparr>))
        else Inr (s\<lparr>se_entry := nd_next (se_heap s ! e)\<rparr>)))"

definition checkReturn :: "('s, 'v) search \<Rightarrow> ('s, 'v) search option go" where
  "checkReturn s =
     (case se_calls s of
        [] \<Rightarrow> Inr None
      | (e, st) # calls \<Rightarrow>
          goThen (bitset_clear (se_linearized s) (nd_id (se_heap s ! e))) (\<lambda>linearized.
          goThen (unlift e (se_heap s)) (\<lambda>h.
            Inr (Some (s\<lparr>se_calls := calls, se_state := st, se_linearized := linearized, se_heap := h,
                         se_entry := nd_next (h ! e)\<rparr>)))))"

definition checkStep :: "('s, 'v) model \<Rightarrow> ref \<Rightarrow> ('s, 'v) search \<Rightarrow> ('s, 'v) search option go" where
  "checkStep model head s =
     (case se_entry s of
        None \<Rightarrow> panic NilDereference
      | Some e \<Rightarrow>
          (case nd_match (se_heap s ! e) of
             Some m \<Rightarrow>
               goThen (mo_Step model (se_state s) (nd_value (se_heap s ! e)) (nd_value (se_heap s ! m)))
                 (\<lambda>(ok, newState).
                   (if ok then goThen (checkCall model head s e newState) (\<lambda>s1. Inr (Some s1))
                    else Inr (Some (s\<lparr>se_entry := nd_next (se_heap s ! e)\<rparr>))))
           | None \<Rightarrow> checkReturn s))"

text \<open>
  The loop may not end, so it is a partial function. \<open>kill i\<close> is what iteration \<open>i\<close> reads from the
  flag other goroutines set.
\<close>

partial_function (option) checkLoop :: "('s, 'v) model \<Rightarrow> (nat \<Rightarrow> bool) \<Rightarrow> ref \<Rightarrow> nat \<Rightarrow> ('s, 'v) search \<Rightarrow> bool go option" where
  "checkLoop model kill head i s =
     (if nd_next (se_heap s ! head) = None then Some (Inr True)
      else if kill i then Some (Inr False)
      else case checkStep model head s of
             Inl e \<Rightarrow> Some (Inl e)
           | Inr None \<Rightarrow> Some (Inr False)
           | Inr (Some s1) \<Rightarrow> checkLoop model kill head (Suc i) s1)"

declare checkLoop.simps [code]

definition checkSingle :: "('s, 'v) model \<Rightarrow> (nat \<Rightarrow> bool) \<Rightarrow> ref option \<times> 'v heap \<Rightarrow> bool go option" where
  "checkSingle model kill l =
     (case l of (subhistory, h) \<Rightarrow>
        (case nodeLength h subhistory 0 of
           None \<Rightarrow> None
         | Some len \<Rightarrow>
             (let head = length h; h1 = insertBefore head subhistory (h @ [newNode None None (- 1)])
              in checkLoop model kill head 0 \<lparr>se_heap = h1, se_entry = subhistory, se_state = mo_Init model,
                   se_linearized = newBitset (len div 2), se_cache = [], se_calls = []\<rparr>)))"

section \<open>Checks of a history\<close>

text \<open>
  What the main goroutine receives: the result of a partition, or the timeout. \<open>None\<close> is a wait
  that never ends. Partitions that panic take the process down.
\<close>

datatype arrival = PartitionResult nat | TimedOut

fun collect :: "(nat \<Rightarrow> bool go option) \<Rightarrow> nat \<Rightarrow> nat \<Rightarrow> arrival list \<Rightarrow> bool go option" where
  "collect result n cnt [] = None"
| "collect result n cnt (TimedOut # arrivals) = Some (Inr True)"
| "collect result n cnt (PartitionResult i # arrivals) =
     (case result i of
        None \<Rightarrow> collect result n cnt arrivals
      | Some (Inl e) \<Rightarrow> Some (Inl e)
      | Some (Inr ok) \<Rightarrow>
          (if \<not> ok then Some (Inr False)
           else if cnt + 1 \<ge> n then Some (Inr True)
           else collect result n (cnt + 1) arrivals))"

text \<open>The flag is only set when the loop is left, so no received result was cut short by it.\<close>

definition notKilled :: "nat \<Rightarrow> bool" where
  "notKilled i = False"

definition CheckEventsTimeout :: "('s, 'v) model \<Rightarrow> arrival list \<Rightarrow> 'v event list \<Rightarrow> bool go option" where
  "CheckEventsTimeout model0 arrivals history =
     (let model = fillDefault model0; partitions = the (mo_PartitionEvent model) history
      in collect (\<lambda>i. checkSingle model notKilled (makeLinkedEntries (convertEntries (renumber (partitions ! i)))))
           (length partitions) 0 arrivals)"

definition CheckOperationsTimeout :: "('s, 'v) model \<Rightarrow> ('v entry list \<Rightarrow> 'v entry list) \<Rightarrow> arrival list
    \<Rightarrow> 'v operation list \<Rightarrow> bool go option" where
  "CheckOperationsTimeout model0 srt arrivals history =
     (let model = fillDefault model0; partitions = the (mo_Partition model) history
      in collect (\<lambda>i. checkSingle model notKilled (makeLinkedEntries (makeEntries srt (partitions ! i))))
           (length partitions) 0 arrivals)"

end
