(* ===== verification/LinkedList.thy ===== *)
theory LinkedList
  imports Porcupine
begin

text \<open>
  The doubly linked list of the checker: which addresses a heap links (\<open>linked\<close>), that lifting a
  call and its return takes exactly the two out, and that \<open>unlift\<close> restores the heap as it was.
\<close>

section \<open>Segments\<close>

text \<open>The first address of a list, or what follows it; the last, or what comes before.\<close>

definition firstOr :: "ref list \<Rightarrow> ref option \<Rightarrow> ref option" where
  "firstOr xs q = (case xs of [] \<Rightarrow> q | x # _ \<Rightarrow> Some x)"

definition lastOr :: "ref option \<Rightarrow> ref list \<Rightarrow> ref option" where
  "lastOr p xs = (if xs = [] then p else Some (last xs))"

lemma firstOr_simps [simp]: "firstOr [] q = q" "firstOr (x # xs) q = Some x"
  by (simp_all add: firstOr_def)

lemma lastOr_simps [simp]: "lastOr p [] = p" "lastOr p (xs @ [x]) = Some x" "lastOr p (x # xs) = lastOr (Some x) xs"
  by (simp_all add: lastOr_def)

lemma firstOr_append: "firstOr (xs @ ys) q = firstOr xs (firstOr ys q)"
  by (cases xs) simp_all

fun segment :: "'v heap \<Rightarrow> ref option \<Rightarrow> ref list \<Rightarrow> ref option \<Rightarrow> bool" where
  "segment h p [] q \<longleftrightarrow> True"
| "segment h p (x # xs) q \<longleftrightarrow> x < length h \<and> nd_prev (h ! x) = p \<and> nd_next (h ! x) = firstOr xs q \<and>
     segment h (Some x) xs q"

lemma segment_append [simp]:
  "segment h p (xs @ ys) q \<longleftrightarrow> segment h p xs (firstOr ys q) \<and> segment h (lastOr p xs) ys q"
  by (induction xs arbitrary: p) (auto simp: firstOr_append)

lemma segment_length: "segment h p xs q \<Longrightarrow> x \<in> set xs \<Longrightarrow> x < length h"
  by (induction xs arbitrary: p) auto

text \<open>Two heaps that agree on the links of a segment.\<close>

definition links :: "'v node \<Rightarrow> ref option \<times> ref option" where
  "links nd = (nd_prev nd, nd_next nd)"

lemma segment_frame:
  "(\<And>x. x \<in> set xs \<Longrightarrow> links (h' ! x) = links (h ! x)) \<Longrightarrow> length h' = length h \<Longrightarrow>
     segment h' p xs q = segment h p xs q"
  by (induction xs arbitrary: p) (auto simp: links_def)

lemma put_length [simp]: "length (putNext r p h) = length h" "length (putPrev r p h) = length h"
  by (simp_all add: putNext_def putPrev_def)

lemma put_nth [simp]:
  "x < length h \<Longrightarrow> putNext r p h ! x = (if x = r then (h ! r)\<lparr>nd_next := p\<rparr> else h ! x)"
  "x < length h \<Longrightarrow> putPrev r p h ! x = (if x = r then (h ! r)\<lparr>nd_prev := p\<rparr> else h ! x)"
  by (auto simp: putNext_def putPrev_def nth_list_update)

text \<open>What the links leave alone.\<close>

definition sameData :: "'v heap \<Rightarrow> 'v heap \<Rightarrow> bool" where
  "sameData h h' \<longleftrightarrow> length h' = length h \<and> (\<forall>x < length h. nd_value (h' ! x) = nd_value (h ! x) \<and>
     nd_match (h' ! x) = nd_match (h ! x) \<and> nd_id (h' ! x) = nd_id (h ! x))"

lemma sameData_refl [simp]: "sameData h h"
  by (simp add: sameData_def)

lemma sameData_trans: "sameData a b \<Longrightarrow> sameData b c \<Longrightarrow> sameData a c"
  by (simp add: sameData_def)

lemma sameData_put [simp]: "sameData h (putNext r p h)" "sameData h (putPrev r p h)"
  by (auto simp: sameData_def)

lemma heap_eqI:
  assumes "sameData h h'" and "\<And>x. x < length h \<Longrightarrow> links (h' ! x) = links (h ! x)"
  shows "h' = h"
proof (rule nth_equalityI)
  show "length h' = length h" using assms(1) by (simp add: sameData_def)
  show "h' ! x = h ! x" if "x < length h'" for x
    using assms that by (intro node.equality) (auto simp: sameData_def links_def)
qed

section \<open>One node out, and back\<close>

text \<open>Unlinking a node that is not the first, and linking it again; the node keeps its own links.\<close>

definition unlinkNext :: "ref option \<Rightarrow> ref option \<Rightarrow> 'v heap \<Rightarrow> 'v heap" where
  "unlinkNext q p h = (case q of None \<Rightarrow> h | Some r \<Rightarrow> putPrev r p h)"

definition unlinkNode :: "ref \<Rightarrow> 'v heap \<Rightarrow> 'v heap" where
  "unlinkNode y h = unlinkNext (nd_next (h ! y)) (nd_prev (h ! y)) (putNext (the (nd_prev (h ! y))) (nd_next (h ! y)) h)"

definition relinkNode :: "ref \<Rightarrow> 'v heap \<Rightarrow> 'v heap" where
  "relinkNode y h = unlinkNext (nd_next (h ! y)) (Some y) (putNext (the (nd_prev (h ! y))) (Some y) h)"

lemma unlinkNext_simps [simp]: "unlinkNext None p h = h" "unlinkNext (Some r) p h = putPrev r p h"
  by (simp_all add: unlinkNext_def)

lemma unlinkNext_data [simp]: "sameData h (unlinkNext q p h)" "length (unlinkNext q p h) = length h"
  by (simp_all add: unlinkNext_def split: option.split)

lemma unlinkNode_data: "sameData h (unlinkNode y h)" "length (unlinkNode y h) = length h"
  unfolding unlinkNode_def by (auto intro: sameData_trans [OF _ unlinkNext_data(1)])

text \<open>The list of a heap: it starts at an address that is never taken out.\<close>

definition linked :: "'v heap \<Rightarrow> ref list \<Rightarrow> bool" where
  "linked h xs \<longleftrightarrow> distinct xs \<and> segment h None xs None"

lemma linked_split:
  assumes "linked h (xs @ y # ys)" and "xs \<noteq> []"
  shows "y < length h" "nd_prev (h ! y) = Some (last xs)" "nd_next (h ! y) = firstOr ys None"
    "last xs < length h" "last xs \<noteq> y" "y \<notin> set xs" "y \<notin> set ys" "last xs \<notin> set ys"
    "nd_next (h ! last xs) = Some y"
proof -
  obtain zs where xs: "xs = zs @ [last xs]" using assms(2) by (metis append_butlast_last_id)
  have mem: "last xs \<in> set xs" using assms(2) by simp
  then show "last xs \<notin> set ys" using assms(1) by (auto simp: linked_def)
  from mem show "y < length h" "nd_prev (h ! y) = Some (last xs)" "nd_next (h ! y) = firstOr ys None"
    "last xs < length h" "last xs \<noteq> y" "y \<notin> set xs" "y \<notin> set ys"
    using assms segment_length [of h None xs "Some y" "last xs"] by (auto simp: linked_def lastOr_def)
  have "segment h None (zs @ [last xs]) (Some y)" using assms(1) xs [symmetric] by (simp add: linked_def)
  then show "nd_next (h ! last xs) = Some y" by simp
qed

lemma unlinkNode_links:
  assumes "linked h (xs @ y # ys)" and "xs \<noteq> []" and "x < length h"
  shows "links (unlinkNode y h ! x) =
     (if ys \<noteq> [] \<and> x = hd ys then Some (last xs) else nd_prev (h ! x),
      if x = last xs then firstOr ys None else nd_next (h ! x))"
proof (cases ys)
  case Nil
  with linked_split [OF assms(1,2)] assms(3) show ?thesis by (auto simp: unlinkNode_def links_def)
next
  case (Cons z zs)
  have "z < length h" using assms(1) segment_length by (auto simp: linked_def Cons)
  with linked_split [OF assms(1,2)] assms(3) Cons show ?thesis by (auto simp: unlinkNode_def links_def)
qed

lemma linked_unlinkNode:
  assumes l: "linked h (xs @ y # ys)" and xs: "xs \<noteq> []"
  shows "linked (unlinkNode y h) (xs @ ys)"
proof -
  note s = linked_split [OF l xs] and k = unlinkNode_links [OF l xs]
  let ?h = "unlinkNode y h"
  obtain zs where zs: "xs = zs @ [last xs]" using xs by (metis append_butlast_last_id)
  define x where "x = last xs"
  have xs': "xs = zs @ [x]" using zs by (simp add: x_def)
  have l': "linked h (zs @ [x] @ y # ys)" using l by (simp add: xs')
  have d: "distinct (zs @ [x] @ y # ys)" using l' by (simp add: linked_def)
  have "segment ?h None zs (Some x)"
  proof -
    have "links (?h ! u) = links (h ! u)" if "u \<in> set zs" for u
    proof -
      have "u < length h" using l' that segment_length by (auto simp: linked_def)
      moreover have "u \<noteq> x" "ys \<noteq> [] \<longrightarrow> u \<noteq> hd ys" using d that by (auto dest: hd_in_set)
      ultimately show ?thesis using k [of u] by (auto simp: x_def [symmetric] links_def)
    qed
    then have "segment ?h None zs (Some x) = segment h None zs (Some x)"
      by (rule segment_frame) (simp_all add: unlinkNode_data)
    with l' show ?thesis by (simp add: linked_def)
  qed
  moreover have "x < length ?h \<and> nd_prev (?h ! x) = lastOr None zs \<and> nd_next (?h ! x) = firstOr ys None"
    using k [of x] s(4) s(8) l' unlinkNode_data(2) [of y h]
    by (auto simp: x_def [symmetric] links_def linked_def split: if_splits)
  moreover have "segment ?h (Some x) ys None"
  proof (cases ys)
    case (Cons z us)
    have z: "z < length h" using l' segment_length by (auto simp: linked_def Cons)
    have nx: "z \<noteq> x" using d by (auto simp: Cons)
    have "links (?h ! u) = links (h ! u)" if "u \<in> set us" for u
    proof -
      have "u < length h" using l' that segment_length by (auto simp: linked_def Cons)
      moreover have "u \<noteq> x" "u \<noteq> z" using d that by (auto simp: Cons)
      ultimately show ?thesis using k [of u] by (auto simp: x_def [symmetric] Cons links_def)
    qed
    then have "segment ?h (Some z) us None = segment h (Some z) us None"
      by (rule segment_frame) (simp_all add: unlinkNode_data)
    moreover have "segment h (Some y) (z # us) None" using l' by (simp add: linked_def Cons)
    ultimately show ?thesis
      using k [OF z] z nx unlinkNode_data(2) [of y h] by (simp add: Cons x_def [symmetric] links_def)
  qed simp
  ultimately have "segment ?h None (zs @ [x] @ ys) None" by simp
  with d show ?thesis by (simp add: linked_def xs')
qed

lemma unlinkNode_own:
  assumes "linked h (xs @ y # ys)" and "xs \<noteq> []"
  shows "nd_prev (unlinkNode y h ! y) = Some (last xs)" "nd_next (unlinkNode y h ! y) = firstOr ys None"
  using unlinkNode_links [OF assms linked_split(1) [OF assms]] linked_split [OF assms] by (auto simp: links_def)

lemma relinkNode_unlinkNode:
  assumes "linked h (xs @ y # ys)" and "xs \<noteq> []"
  shows "relinkNode y (unlinkNode y h) = h"
proof (rule heap_eqI)
  note s = linked_split [OF assms] and k = unlinkNode_links [OF assms] and own = unlinkNode_own [OF assms]
  let ?h = "unlinkNode y h"
  show "sameData h (relinkNode y ?h)"
    unfolding relinkNode_def
    by (rule sameData_trans [OF unlinkNode_data(1)], rule sameData_trans [OF sameData_put(1) unlinkNext_data(1)])
  show "links (relinkNode y ?h ! x) = links (h ! x)" if "x < length h" for x
  proof (cases ys)
    case Nil
    with k [OF that] s that own show ?thesis by (auto simp: relinkNode_def links_def unlinkNode_data)
  next
    case (Cons z zs)
    have "z < length h" "nd_prev (h ! z) = Some y"
      using assms segment_length by (auto simp: linked_def Cons)
    with k [OF that] k [of z] k [OF s(4)] s that own Cons show ?thesis
      by (auto simp: relinkNode_def links_def unlinkNode_data)
  qed
qed

section \<open>Calls\<close>

lemma setPrev_if: "(if q \<noteq> None then setPrev q p h else Inr h) = Inr (unlinkNext q p h)"
  by (cases q) (simp_all add: setPrev_def)

text \<open>
  The writes of the source around a node: \<open>next\<close> of the one before, then \<open>prev\<close> of the one after;
  the node's own links are not touched in between.
\<close>

lemma writes_around:
  assumes "nd_prev (h ! y) = Some x" and "x \<noteq> y" and "y < length h"
  shows "setNext (nd_prev (h ! y)) q h = Inr (putNext x q h)"
    and "nd_next (putNext x q h ! y) = nd_next (h ! y)" and "nd_prev (putNext x q h ! y) = Some x"
    and "nd_match (putNext x q h ! y) = nd_match (h ! y)"
    and "unlinkNode y h = unlinkNext (nd_next (h ! y)) (Some x) (putNext x (nd_next (h ! y)) h)"
    and "relinkNode y h = unlinkNext (nd_next (h ! y)) (Some y) (putNext x (Some y) h)"
  using assms by (simp_all add: setNext_def unlinkNode_def relinkNode_def)

text \<open>A call node and its return further down the list.\<close>

lemma lift_unlinks:
  assumes l: "linked h (xs @ e # ys @ m # zs)" and xs: "xs \<noteq> []" and match: "nd_match (h ! e) = Some m"
  shows "lift e h = Inr (unlinkNode m (unlinkNode e h))"
    and "linked (unlinkNode m (unlinkNode e h)) (xs @ ys @ zs)"
    and "unlift e (unlinkNode m (unlinkNode e h)) = Inr h"
proof -
  note s = linked_split [OF l xs] and own = unlinkNode_own [OF l xs]
  let ?h1 = "unlinkNode e h"
  have l1: "linked ?h1 ((xs @ ys) @ m # zs)" using linked_unlinkNode [OF l xs] by simp
  have ne: "xs @ ys \<noteq> []" using xs by simp
  note s1 = linked_split [OF l1 ne] and own1 = unlinkNode_own [OF l1 ne]
  let ?h2 = "unlinkNode m ?h1"
  show "linked ?h2 (xs @ ys @ zs)" using linked_unlinkNode [OF l1 ne] by simp
  have e: "e < length h" "e < length ?h1" "e < length ?h2" and m: "m < length ?h2"
    using s(1) s1(1) by (simp_all add: unlinkNode_data)
  have match': "nd_match (?h1 ! e) = Some m" "nd_match (?h2 ! e) = Some m"
    using match e unlinkNode_data [where h = h and y = e] unlinkNode_data [where h = ?h1 and y = m]
    by (auto simp: sameData_def)
  have next_e: "nd_next (h ! e) = Some (hd (ys @ [m]))" using s(3) by (cases ys) simp_all
  note w = writes_around [OF s(2) s(5) e(1)] and w1 = writes_around [OF s1(2) s1(5) s1(1)]
    and b1 = writes_around [OF own1(1) s1(5) m] and b = writes_around [OF own(1) s(5) e(2)]
  have "lift e h = goThen (setPrev (nd_next (h ! e)) (Some (last xs)) (putNext (last xs) (nd_next (h ! e)) h))
      (\<lambda>h2. case nd_match (h2 ! e) of None \<Rightarrow> panic NilDereference | Some m \<Rightarrow>
         goThen (setNext (nd_prev (h2 ! m)) (nd_next (h2 ! m)) h2) (\<lambda>h3.
           if nd_next (h3 ! m) \<noteq> None then setPrev (nd_next (h3 ! m)) (nd_prev (h3 ! m)) h3 else Inr h3))"
    by (simp only: lift_def w(1,2,3) goThen_simps)
  also have "setPrev (nd_next (h ! e)) (Some (last xs)) (putNext (last xs) (nd_next (h ! e)) h) = Inr ?h1"
    by (simp add: w(5) next_e setPrev_def)
  finally show "lift e h = Inr ?h2"
    by (simp only: goThen_simps match' option.case w1(1,2,3) setPrev_if w1(5) [symmetric])
  have undo1: "relinkNode m ?h2 = ?h1" by (rule relinkNode_unlinkNode [OF l1 ne])
  have undo: "relinkNode e ?h1 = h" by (rule relinkNode_unlinkNode [OF l xs])
  have "unlift e ?h2 = goThen (Inr ?h1) (\<lambda>h2. goThen (setNext (nd_prev (h2 ! e)) (Some e) h2)
      (\<lambda>h3. setPrev (nd_next (h3 ! e)) (Some e) h3))"
    by (simp only: unlift_def match' option.case b1(1,2) goThen_simps setPrev_if b1(6) [symmetric] undo1)
  also have "\<dots> = setPrev (nd_next (?h1 ! e)) (Some e) (putNext (last xs) (Some e) ?h1)"
    by (simp only: goThen_simps b(1,2))
  also have "\<dots> = Inr h"
  proof -
    have "nd_next (?h1 ! e) = Some (hd (ys @ [m]))" using own(2) by (cases ys) simp_all
    then show ?thesis using b(6) undo by (simp add: setPrev_def)
  qed
  finally show "unlift e ?h2 = Inr h" .
qed

end
