(* ===== verification/LinearSearch.thy ===== *)
theory LinearSearch
  imports LinkedList
begin

text \<open>
  The search of \<open>checkSingle\<close> decides reachability: the states it can be in are the pairs of a set
  of linearized calls and a state of the model (\<open>reach\<close>), it visits every one of them at most once,
  so it ends, and it answers true iff one with all calls is reachable.
\<close>

section \<open>The configurations\<close>

text \<open>The list of a history, with its head, as it is when the search starts.\<close>

record ('s, 'v) problem =
  pb_model :: "('s, 'v) model"
  pb_heap :: "'v heap"
  pb_head :: ref
  pb_list :: "ref list"

definition matchOf :: "('s, 'v) problem \<Rightarrow> ref \<Rightarrow> ref option" where
  "matchOf P a = nd_match (pb_heap P ! a)"

definition idOf :: "('s, 'v) problem \<Rightarrow> ref \<Rightarrow> u64" where
  "idOf P a = nd_id (pb_heap P ! a)"

definition stepAt :: "('s, 'v) problem \<Rightarrow> 's \<Rightarrow> ref \<Rightarrow> (bool \<times> 's) go" where
  "stepAt P st a = mo_Step (pb_model P) st (nd_value (pb_heap P ! a)) (nd_value (pb_heap P ! the (matchOf P a)))"

text \<open>What is left of the list when the calls with the IDs \<open>S\<close> are taken out.\<close>

definition left :: "('s, 'v) problem \<Rightarrow> u64 set \<Rightarrow> ref list" where
  "left P S = filter (\<lambda>a. idOf P a \<notin> S) (pb_list P)"

text \<open>A call that may come next: no return is before it.\<close>

definition calls :: "('s, 'v) problem \<Rightarrow> ref list \<Rightarrow> bool" where
  "calls P xs \<longleftrightarrow> (\<forall>a \<in> set xs. matchOf P a \<noteq> None)"

definition choice :: "('s, 'v) problem \<Rightarrow> u64 set \<Rightarrow> ref \<Rightarrow> bool" where
  "choice P S a \<longleftrightarrow> (\<exists>xs ys. left P S = xs @ a # ys \<and> calls P (xs @ [a]))"

inductive reach :: "('s, 'v) problem \<Rightarrow> u64 set \<Rightarrow> 's \<Rightarrow> bool" for P where
  reach_start: "reach P {} (mo_Init (pb_model P))"
| reach_step: "reach P S st \<Longrightarrow> choice P S a \<Longrightarrow> stepAt P st a = Inr (True, st') \<Longrightarrow>
    reach P (insert (idOf P a) S) st'"

definition allIds :: "('s, 'v) problem \<Rightarrow> u64 set" where
  "allIds P = idOf P ` set (pb_list P)"

definition solved :: "('s, 'v) problem \<Rightarrow> bool" where
  "solved P \<longleftrightarrow> (\<exists>st. reach P (allIds P) st)"

text \<open>
  A complete history: every call has its return further down, every return its call, the IDs tell
  the operations apart, and each has a bit in a set of \<open>len\<close> words. The model answers every step
  and compares states by equality.
\<close>

definition complete :: "nat \<Rightarrow> ('s, 'v) problem \<Rightarrow> bool" where
  "complete len P \<longleftrightarrow> linked (pb_heap P) (pb_head P # pb_list P) \<and>
     (\<forall>a m. a \<in> set (pb_list P) \<longrightarrow> matchOf P a = Some m \<longrightarrow> matchOf P m = None \<and> idOf P m = idOf P a \<and>
        (\<exists>xs ys zs. pb_list P = xs @ a # ys @ m # zs)) \<and>
     (\<forall>m \<in> set (pb_list P). matchOf P m = None \<longrightarrow> (\<exists>a \<in> set (pb_list P). matchOf P a = Some m)) \<and>
     (\<forall>a \<in> set (pb_list P). \<forall>b \<in> set (pb_list P). matchOf P a \<noteq> None \<longrightarrow> matchOf P b \<noteq> None \<longrightarrow>
        idOf P a = idOf P b \<longrightarrow> a = b) \<and>
     (\<forall>a \<in> set (pb_list P). unat (idOf P a) div 64 < len) \<and> len \<le> 2 ^ 58"

definition answers :: "('s, 'v) problem \<Rightarrow> bool" where
  "answers P \<longleftrightarrow> (\<forall>st a. a \<in> set (pb_list P) \<longrightarrow> matchOf P a \<noteq> None \<longrightarrow> (\<exists>r. stepAt P st a = Inr r)) \<and>
     mo_Equal (pb_model P) = Some (=)"

lemma completeD:
  assumes "complete len P"
  shows "linked (pb_heap P) (pb_head P # pb_list P)"
    and "a \<in> set (pb_list P) \<Longrightarrow> matchOf P a = Some m \<Longrightarrow> matchOf P m = None \<and> idOf P m = idOf P a \<and>
        (\<exists>xs ys zs. pb_list P = xs @ a # ys @ m # zs)"
    and "m \<in> set (pb_list P) \<Longrightarrow> matchOf P m = None \<Longrightarrow> \<exists>a \<in> set (pb_list P). matchOf P a = Some m"
    and "a \<in> set (pb_list P) \<Longrightarrow> b \<in> set (pb_list P) \<Longrightarrow> matchOf P a \<noteq> None \<Longrightarrow> matchOf P b \<noteq> None \<Longrightarrow>
        idOf P a = idOf P b \<Longrightarrow> a = b"
    and "a \<in> set (pb_list P) \<Longrightarrow> unat (idOf P a) div 64 < len" and "len \<le> 2 ^ 58"
  using assms unfolding complete_def by blast+

lemma left_set: "a \<in> set (left P S) \<longleftrightarrow> a \<in> set (pb_list P) \<and> idOf P a \<notin> S"
  by (simp add: left_def)

text \<open>Nodes with the ID of a call are the call and its return.\<close>

lemma same_id:
  assumes c: "complete len P" and a: "a \<in> set (pb_list P)" "matchOf P a = Some m" and b: "b \<in> set (pb_list P)"
    and "idOf P b = idOf P a"
  shows "b = a \<or> b = m"
proof (cases "matchOf P b")
  case None
  then obtain a' where a': "a' \<in> set (pb_list P)" "matchOf P a' = Some b" using completeD(3) [OF c b] by blast
  then have "idOf P a' = idOf P a" using completeD(2) [OF c a'] assms(5) by simp
  then have "a' = a" using completeD(4) [OF c a'(1) a(1)] a' a by simp
  with a' a show ?thesis by simp
next
  case (Some n)
  then show ?thesis using completeD(4) [OF c b a(1)] a assms(5) by simp
qed

lemma append_Cons_unique:
  assumes "xs @ a # ys = us @ a # vs" and "distinct (xs @ a # ys)"
  shows "xs = us \<and> ys = vs"
  using assms by (metis append_Cons_eq_iff distinct.simps(2) distinct_append not_distinct_conv_prefix)

text \<open>A call that is left has its return after it, and taking the call out removes just the two.\<close>

lemma left_call:
  assumes c: "complete len P" and l: "left P S = xs @ a # ys" and m: "matchOf P a = Some m"
  obtains us vs where "ys = us @ m # vs" and "left P (insert (idOf P a) S) = xs @ us @ vs"
proof -
  have a: "a \<in> set (pb_list P)" "idOf P a \<notin> S" using l left_set [of a P S] by auto
  note am = completeD(2) [OF c a(1) m]
  obtain ps qs rs where ps: "pb_list P = ps @ a # qs @ m # rs" using am by blast
  have d: "distinct (pb_list P)" using completeD(1) [OF c] by (simp add: linked_def)
  let ?f = "filter (\<lambda>a. idOf P a \<notin> S)"
  have "left P S = ?f ps @ a # ?f qs @ m # ?f rs" using a am by (simp add: left_def ps)
  moreover have "distinct (left P S)" using d by (simp add: left_def)
  ultimately have eq: "xs = ?f ps \<and> ys = ?f qs @ m # ?f rs" using l append_Cons_unique by metis
  have other: "idOf P b \<noteq> idOf P a" if "b \<in> set ps \<union> set qs \<union> set rs" for b
  proof
    assume "idOf P b = idOf P a"
    moreover have "b \<in> set (pb_list P)" using that ps by auto
    ultimately have "b = a \<or> b = m" using same_id [OF c a(1) m] by blast
    with that d ps show False by auto
  qed
  let ?g = "filter (\<lambda>b. idOf P b \<noteq> idOf P a \<and> idOf P b \<notin> S)"
  have g: "?g xs = ?f xs" if "set xs \<subseteq> set ps \<union> set qs \<union> set rs" for xs
    using that other by (auto intro!: filter_cong)
  have "left P (insert (idOf P a) S) = ?g ps @ ?g qs @ ?g rs"
    using am by (simp add: left_def ps)
  moreover have "?g ps = ?f ps" "?g qs = ?f qs" "?g rs = ?f rs" by (rule g, blast)+
  ultimately have "left P (insert (idOf P a) S) = ?f ps @ ?f qs @ ?f rs" by (simp only:)
  with eq that show thesis by blast
qed

lemma left_distinct: "complete len P \<Longrightarrow> distinct (pb_head P # left P S)"
  using completeD(1) [of len P] by (auto simp: linked_def left_def)

lemma left_subset: "set (left P S) \<subseteq> set (pb_list P)"
  by (auto simp: left_def)

text \<open>When something is left, there is a return, and before the first one only calls.\<close>

lemma left_return:
  assumes c: "complete len P" and l: "left P S = xs @ ys" and "calls P xs" and "left P S \<noteq> []"
  shows "ys \<noteq> []"
proof
  assume ys: "ys = []"
  then have "xs \<noteq> []" using assms by simp
  then obtain a m where a: "xs = butlast xs @ a # []" "matchOf P a = Some m"
    using assms(3) by (metis append_butlast_last_id calls_def last_in_set not_Some_eq)
  have "left P S = butlast xs @ a # []" using l ys a(1) by simp
  from left_call [OF c this a(2)] show False by auto
qed

lemma choice_split:
  assumes c: "complete len P" and l: "left P S = xs @ y # ys" and "calls P xs" and "matchOf P y = None"
  shows "choice P S a \<longleftrightarrow> a \<in> set xs"
proof
  assume "choice P S a"
  then obtain us vs where u: "left P S = us @ a # vs" "calls P (us @ [a])" by (auto simp: choice_def)
  have "y \<notin> set (us @ [a])" using u(2) assms(4) by (auto simp: calls_def)
  moreover have "xs @ y # ys = us @ a # vs" using l u(1) by simp
  ultimately show "a \<in> set xs"
    by (auto simp: append_eq_append_conv2 Cons_eq_append_conv append_eq_Cons_conv)
next
  assume "a \<in> set xs"
  then obtain us vs where "xs = us @ a # vs" by (meson split_list)
  with l assms(3) show "choice P S a"
    unfolding choice_def calls_def by (intro exI [of _ us] exI [of _ "vs @ y # ys"]) simp
qed

section \<open>Finitely many configurations\<close>

definition configs :: "('s, 'v) problem \<Rightarrow> (u64 set \<times> 's) set" where
  "configs P = {(S, st). reach P S st}"

lemma reach_ids: "reach P S st \<Longrightarrow> S \<subseteq> allIds P"
proof (induction rule: reach.induct)
  case (reach_step S st a st')
  then have "a \<in> set (left P S)" by (auto simp: choice_def)
  with reach_step show ?case by (auto simp: left_set allIds_def)
qed simp

lemma choice_new: "choice P S a \<Longrightarrow> a \<in> set (pb_list P) \<and> idOf P a \<notin> S"
proof -
  assume "choice P S a"
  then have "a \<in> set (left P S)" by (auto simp: choice_def)
  then show ?thesis by (simp add: left_set)
qed

definition successors :: "('s, 'v) problem \<Rightarrow> u64 set \<times> 's \<Rightarrow> (u64 set \<times> 's) set" where
  "successors P c = {(insert (idOf P a) (fst c), st') | a st'. choice P (fst c) a \<and> stepAt P (snd c) a = Inr (True, st')}"

lemma finite_successors: "finite (successors P c)"
proof -
  have "successors P c \<subseteq> (\<lambda>a. (insert (idOf P a) (fst c), snd (projr (stepAt P (snd c) a)))) ` set (pb_list P)"
    by (auto simp: successors_def dest!: choice_new)
  then show ?thesis by (rule finite_subset) simp
qed

lemma finite_configs: "finite (configs P)"
proof -
  let ?at = "\<lambda>n. {(S, st). reach P S st \<and> card S = n}"
  have fin: "reach P S st \<Longrightarrow> finite S" for S st
    using reach_ids by (metis allIds_def finite_imageI List.finite_set finite_subset)
  have "finite (?at n)" for n
  proof (induction n)
    case 0
    have "S = {} \<and> st = mo_Init (pb_model P)" if "reach P S st" "card S = 0" for S st
      using that(1) fin [OF that(1)] that(2) by (cases rule: reach.cases) auto
    then have "?at 0 \<subseteq> {({}, mo_Init (pb_model P))}" by auto
    then show ?case by (rule finite_subset) simp
  next
    case (Suc n)
    have "\<exists>c \<in> ?at n. (S, st) \<in> successors P c" if "reach P S st" "card S = Suc n" for S st
      using that(1)
    proof (cases rule: reach.cases)
      case (reach_step S0 st0 a)
      then have "card S0 = n" using that(2) choice_new fin by fastforce
      with reach_step show ?thesis by (intro bexI [of _ "(S0, st0)"]) (auto simp: successors_def)
    qed (use that in simp)
    then have "?at (Suc n) \<subseteq> (\<Union>c \<in> ?at n. successors P c)" by fastforce
    with Suc finite_successors show ?case by (meson finite_UN_I finite_subset)
  qed
  moreover have "configs P \<subseteq> (\<Union>n \<le> card (allIds P). ?at n)"
    using reach_ids by (fastforce simp: configs_def allIds_def intro: card_mono)
  ultimately show ?thesis by (meson finite_UN_I finite_atMost finite_subset)
qed

section \<open>The cache\<close>

text \<open>The configurations in the cache, whose entries have \<open>len\<close> words and are filed by their hash.\<close>

definition idSet :: "bitset \<Rightarrow> u64 set" where
  "idSet b = {i. unat i \<in> positions b}"

definition entries :: "'s cache \<Rightarrow> 's cacheEntry set" where
  "entries c = {e. \<exists>k. e \<in> set (bucket c k)}"

definition cached :: "'s cache \<Rightarrow> (u64 set \<times> 's) set" where
  "cached c = (\<lambda>e. (idSet (ce_linearized e), ce_state e)) ` entries c"

definition cacheOk :: "nat \<Rightarrow> 's cache \<Rightarrow> bool" where
  "cacheOk len c \<longleftrightarrow> (\<forall>k. \<forall>e \<in> set (bucket c k). bitset_hash (ce_linearized e) = k \<and> length (ce_linearized e) = len)"

lemma idSet_inject:
  assumes "length b = len" "length b' = len" "len \<le> 2 ^ 58" and "idSet b = idSet b'"
  shows "b = b'"
proof (rule positions_inject)
  have "i < 2 ^ 64" if "i \<in> positions c" "length c = len" for c i
  proof -
    have "i div 64 < 2 ^ 58" using that assms(3) by (simp add: positions_def)
    then show ?thesis by (simp add: div_less_iff_less_mult)
  qed
  then have "i \<in> positions c \<longleftrightarrow> i < 2 ^ 64 \<and> of_nat i \<in> idSet c" if "length c = len" for c i
    using that by (auto simp: idSet_def unat_of_nat)
  with assms show "positions b = positions b'" by blast
qed (use assms in simp)

lemma bucket_add:
  "set (bucket (cacheAdd c e) k) = (if k = bitset_hash (ce_linearized e) then insert e (set (bucket c k)) else set (bucket c k))"
  by (auto simp: cacheAdd_def Let_def bucket_def gomap_simps)

lemma cacheAdd_cached:
  assumes "cacheOk len c" and "length (ce_linearized e) = len"
  shows "cacheOk len (cacheAdd c e)" and "cached (cacheAdd c e) = insert (idSet (ce_linearized e), ce_state e) (cached c)"
proof -
  show "cacheOk len (cacheAdd c e)" using assms by (auto simp: cacheOk_def bucket_add)
  have "set (bucket c k) \<subseteq> set (bucket (cacheAdd c e) k)" for k by (auto simp: bucket_add)
  moreover have "e \<in> set (bucket (cacheAdd c e) (bitset_hash (ce_linearized e)))" by (simp add: bucket_add)
  moreover have "set (bucket (cacheAdd c e) k) \<subseteq> insert e (set (bucket c k))" for k by (auto simp: bucket_add)
  ultimately have "entries (cacheAdd c e) = insert e (entries c)" unfolding entries_def by blast
  then show "cached (cacheAdd c e) = insert (idSet (ce_linearized e), ce_state e) (cached c)"
    by (simp add: cached_def)
qed

lemma cacheContains_cached:
  assumes "mo_Equal model = Some (=)" and "cacheOk len c" and "length (ce_linearized e) = len" and "len \<le> 2 ^ 58"
  shows "cacheContains model c e \<longleftrightarrow> (idSet (ce_linearized e), ce_state e) \<in> cached c"
proof
  assume "cacheContains model c e"
  then show "(idSet (ce_linearized e), ce_state e) \<in> cached c"
    using assms(1) by (force simp: cacheContains_def list_ex_iff cached_def entries_def)
next
  assume "(idSet (ce_linearized e), ce_state e) \<in> cached c"
  then obtain k f where f: "f \<in> set (bucket c k)" "idSet (ce_linearized e) = idSet (ce_linearized f)"
    "ce_state e = ce_state f" by (auto simp: cached_def entries_def)
  then have "bitset_hash (ce_linearized f) = k" "length (ce_linearized f) = len" using assms(2) by (auto simp: cacheOk_def)
  moreover from this have "ce_linearized e = ce_linearized f" using f(2) idSet_inject assms(3,4) by blast
  ultimately show "cacheContains model c e"
    using f assms(1) by (auto simp: cacheContains_def list_ex_iff)
qed

lemma cached_empty [simp]: "cached [] = {}" "cacheOk len []"
  by (simp_all add: cached_def entries_def cacheOk_def bucket_def)

lemma idSet_positions:
  "positions b' = insert (unat i) (positions b) \<Longrightarrow> idSet b' = insert i (idSet b)"
  "positions b' = positions b - {unat i} \<Longrightarrow> idSet b' = idSet b - {i}"
  unfolding idSet_def by (simp_all add: set_eq_iff flip: word_unat_eq_iff)

section \<open>The stack\<close>

text \<open>
  What the calls on the stack have tried: the IDs they linearized, the heap they left, and that each
  was a choice the model accepted.
\<close>

definition stackIds :: "('s, 'v) problem \<Rightarrow> (ref \<times> 's) list \<Rightarrow> u64 set" where
  "stackIds P cs = (idOf P \<circ> fst) ` set cs"

fun stackHeap :: "('s, 'v) problem \<Rightarrow> (ref \<times> 's) list \<Rightarrow> 'v heap" where
  "stackHeap P [] = pb_heap P"
| "stackHeap P ((e, st0) # cs) = unlinkNode (the (matchOf P e)) (unlinkNode e (stackHeap P cs))"

fun stackOk :: "('s, 'v) problem \<Rightarrow> (ref \<times> 's) list \<Rightarrow> 's \<Rightarrow> bool" where
  "stackOk P [] st \<longleftrightarrow> st = mo_Init (pb_model P)"
| "stackOk P ((e, st0) # cs) st \<longleftrightarrow> stackOk P cs st0 \<and> choice P (stackIds P cs) e \<and> stepAt P st0 e = Inr (True, st)"

lemma stackIds_Cons [simp]: "stackIds P [] = {}" "stackIds P ((e, st0) # cs) = insert (idOf P e) (stackIds P cs)"
  by (auto simp: stackIds_def)

lemma stack_reach: "stackOk P cs st \<Longrightarrow> reach P (stackIds P cs) st"
  by (induction P cs st rule: stackOk.induct) (auto intro: reach.intros)

lemma choiceE:
  assumes "choice P S e"
  obtains xs ys m where "left P S = xs @ e # ys" "calls P xs" "matchOf P e = Some m"
  using assms by (auto simp: choice_def calls_def)

definition heapOk :: "('s, 'v) problem \<Rightarrow> u64 set \<Rightarrow> 'v heap \<Rightarrow> bool" where
  "heapOk P S h \<longleftrightarrow> sameData (pb_heap P) h \<and> linked h (pb_head P # left P S)"

lemma heapOk_data:
  assumes "complete len P" and "heapOk P S h" and "a \<in> set (pb_list P)"
  shows "nd_match (h ! a) = matchOf P a" "nd_id (h ! a) = idOf P a" "nd_value (h ! a) = nd_value (pb_heap P ! a)"
    "a < length h"
proof -
  have "segment (pb_heap P) (Some (pb_head P)) (pb_list P) None"
    using completeD(1) [OF assms(1)] by (simp add: linked_def)
  from segment_length [OF this assms(3)] assms(2)
  show "nd_match (h ! a) = matchOf P a" "nd_id (h ! a) = idOf P a" "nd_value (h ! a) = nd_value (pb_heap P ! a)"
    "a < length h"
    by (auto simp: heapOk_def sameData_def matchOf_def idOf_def)
qed

lemma heapOk_call:
  assumes c: "complete len P" and h: "heapOk P S h" and ch: "choice P S e"
  defines "h' \<equiv> unlinkNode (the (matchOf P e)) (unlinkNode e h)"
  shows "lift e h = Inr h'" "unlift e h' = Inr h" "heapOk P (insert (idOf P e) S) h'"
proof -
  obtain xs ys m where l: "left P S = xs @ e # ys" "matchOf P e = Some m" using ch by (rule choiceE)
  obtain us vs where u: "ys = us @ m # vs" "left P (insert (idOf P e) S) = xs @ us @ vs"
    using left_call [OF c l] .
  have "linked h ((pb_head P # xs) @ e # us @ m # vs)" using h l u by (simp add: heapOk_def)
  note lift = lift_unlinks [OF this, simplified]
  have "nd_match (h ! e) = Some m" using heapOk_data(1) [OF c h] choice_new [OF ch] l(2) by simp
  from lift [OF this] l(2) show "lift e h = Inr h'" "unlift e h' = Inr h" by (simp_all add: h'_def)
  have "sameData h h'" unfolding h'_def by (rule sameData_trans [OF unlinkNode_data(1) unlinkNode_data(1)])
  then show "heapOk P (insert (idOf P e) S) h'"
    using h lift(2) [OF \<open>nd_match (h ! e) = Some m\<close>] l(2) u(2)
    by (auto simp: heapOk_def h'_def intro: sameData_trans)
qed

lemma stack_heap:
  assumes c: "complete len P"
  shows "stackOk P cs st \<Longrightarrow> heapOk P (stackIds P cs) (stackHeap P cs)"
proof (induction cs arbitrary: st)
  case Nil
  then show ?case using completeD(1) [OF c] by (simp add: heapOk_def left_def)
next
  case (Cons f cs)
  obtain e st0 where f: "f = (e, st0)" by (cases f)
  with Cons have h: "heapOk P (stackIds P cs) (stackHeap P cs)" and ch: "choice P (stackIds P cs) e" by auto
  from heapOk_call(3) [OF c h ch] show ?case by (simp add: f)
qed

section \<open>The invariant of the loop\<close>

text \<open>The choices \<open>xs\<close> of a configuration were tried: what they lead to is in the cache.\<close>

definition explored :: "('s, 'v) problem \<Rightarrow> (u64 set \<times> 's) set \<Rightarrow> u64 set \<Rightarrow> 's \<Rightarrow> ref list \<Rightarrow> bool" where
  "explored P C S st xs \<longleftrightarrow>
     (\<forall>a \<in> set xs. \<forall>st'. stepAt P st a = Inr (True, st') \<longrightarrow> (insert (idOf P a) S, st') \<in> C)"

fun framesExplored :: "('s, 'v) problem \<Rightarrow> (u64 set \<times> 's) set \<Rightarrow> (ref \<times> 's) list \<Rightarrow> bool" where
  "framesExplored P C [] \<longleftrightarrow> True"
| "framesExplored P C ((e, st0) # cs) \<longleftrightarrow> framesExplored P C cs \<and>
     (\<forall>xs ys. left P (stackIds P cs) = xs @ e # ys \<longrightarrow> explored P C (stackIds P cs) st0 (xs @ [e]))"

text \<open>The configurations from the first to the present one.\<close>

fun pathConfigs :: "('s, 'v) problem \<Rightarrow> (ref \<times> 's) list \<Rightarrow> 's \<Rightarrow> (u64 set \<times> 's) set" where
  "pathConfigs P [] st = {({}, st)}"
| "pathConfigs P ((e, st0) # cs) st = insert (insert (idOf P e) (stackIds P cs), st) (pathConfigs P cs st0)"

definition rooted :: "('s, 'v) problem \<Rightarrow> ('s, 'v) search \<Rightarrow> (u64 set \<times> 's) set" where
  "rooted P s = insert ({}, mo_Init (pb_model P)) (cached (se_cache s))"

definition stateOk :: "('s, 'v) problem \<Rightarrow> nat \<Rightarrow> ('s, 'v) search \<Rightarrow> bool" where
  "stateOk P len s \<longleftrightarrow> stackOk P (se_calls s) (se_state s) \<and> se_heap s = stackHeap P (se_calls s) \<and>
     length (se_linearized s) = len \<and> idSet (se_linearized s) = stackIds P (se_calls s) \<and>
     cacheOk len (se_cache s) \<and> cached (se_cache s) \<subseteq> configs P"

definition coverOk :: "('s, 'v) problem \<Rightarrow> ('s, 'v) search \<Rightarrow> bool" where
  "coverOk P s \<longleftrightarrow> framesExplored P (cached (se_cache s)) (se_calls s) \<and>
     pathConfigs P (se_calls s) (se_state s) \<subseteq> rooted P s \<and>
     (\<forall>c \<in> rooted P s - pathConfigs P (se_calls s) (se_state s). successors P c \<subseteq> cached (se_cache s)) \<and>
     (\<forall>st. (allIds P, st) \<in> cached (se_cache s) \<longrightarrow> allIds P = stackIds P (se_calls s))"

definition placeOk :: "('s, 'v) problem \<Rightarrow> ('s, 'v) search \<Rightarrow> ref list \<Rightarrow> ref list \<Rightarrow> bool" where
  "placeOk P s xs ys \<longleftrightarrow> left P (stackIds P (se_calls s)) = xs @ ys \<and> calls P xs \<and> se_entry s = firstOr ys None \<and>
     explored P (cached (se_cache s)) (stackIds P (se_calls s)) (se_state s) xs"

definition searchInv :: "('s, 'v) problem \<Rightarrow> nat \<Rightarrow> ('s, 'v) search \<Rightarrow> ref list \<Rightarrow> ref list \<Rightarrow> bool" where
  "searchInv P len s xs ys \<longleftrightarrow> stateOk P len s \<and> coverOk P s \<and> placeOk P s xs ys"

lemma explored_mono: "explored P C S st xs \<Longrightarrow> C \<subseteq> D \<Longrightarrow> explored P D S st xs"
  by (auto simp: explored_def)

lemma framesExplored_mono: "framesExplored P C cs \<Longrightarrow> C \<subseteq> D \<Longrightarrow> framesExplored P D cs"
  by (induction P C cs rule: framesExplored.induct) (auto intro: explored_mono)

lemma successors_explored:
  assumes "\<And>a. choice P S a \<Longrightarrow> a \<in> set xs" and "explored P C S st xs"
  shows "successors P (S, st) \<subseteq> C"
  using assms by (auto simp: successors_def explored_def)

lemma next_left:
  assumes "complete len P" and "heapOk P S h" and "left P S = xs @ y # ys"
  shows "nd_next (h ! y) = firstOr ys None" "nd_next (h ! pb_head P) = firstOr (left P S) None"
proof -
  have l: "linked h ((pb_head P # xs) @ y # ys)" using assms(2,3) by (simp add: heapOk_def)
  show "nd_next (h ! y) = firstOr ys None" using linked_split(3) [OF l] by simp
  show "nd_next (h ! pb_head P) = firstOr (left P S) None" using assms(2) by (simp add: heapOk_def linked_def)
qed

lemma head_next: "heapOk P S h \<Longrightarrow> nd_next (h ! pb_head P) = firstOr (left P S) None"
  by (simp add: heapOk_def linked_def)

lemma state_heap: "complete len P \<Longrightarrow> stateOk P len' s \<Longrightarrow> heapOk P (stackIds P (se_calls s)) (se_heap s)"
  using stack_heap by (auto simp: stateOk_def)

text \<open>An entry that leads nowhere new is passed.\<close>

lemma pass_call:
  assumes c: "complete len P" and inv: "searchInv P len s xs (y # ys)" and "matchOf P y \<noteq> None"
    and "\<And>st'. stepAt P (se_state s) y = Inr (True, st') \<Longrightarrow>
      (insert (idOf P y) (stackIds P (se_calls s)), st') \<in> cached (se_cache s)"
  shows "searchInv P len (s\<lparr>se_entry := nd_next (se_heap s ! y)\<rparr>) (xs @ [y]) ys"
proof -
  have st: "stateOk P len s" and pl: "placeOk P s xs (y # ys)" using inv by (simp_all add: searchInv_def)
  have "nd_next (se_heap s ! y) = firstOr ys None"
    using next_left(1) [OF c state_heap [OF c st]] pl by (simp add: placeOk_def)
  with inv assms(3,4) show ?thesis
    by (auto simp: searchInv_def stateOk_def coverOk_def rooted_def placeOk_def calls_def explored_def)
qed

text \<open>A call that leads to a new configuration is lifted.\<close>

lemma push_call:
  assumes c: "complete len P" and inv: "searchInv P len s xs (y # ys)" and m: "matchOf P y \<noteq> None"
    and step: "stepAt P (se_state s) y = Inr (True, st')"
    and new: "lin' = ce_linearized e" "ce_state e = st'" "length lin' = len"
      "idSet lin' = insert (idOf P y) (stackIds P (se_calls s))"
  shows "\<exists>h. lift y (se_heap s) = Inr h \<and> searchInv P len (s\<lparr>se_cache := cacheAdd (se_cache s) e,
      se_calls := (y, se_state s) # se_calls s, se_state := st', se_linearized := lin', se_heap := h,
      se_entry := nd_next (h ! pb_head P)\<rparr>) [] (left P (insert (idOf P y) (stackIds P (se_calls s))))"
proof -
  let ?S = "stackIds P (se_calls s)" and ?C = "cached (se_cache s)"
  let ?S' = "insert (idOf P y) ?S"
  have st: "stateOk P len s" and co: "coverOk P s" and pl: "placeOk P s xs (y # ys)"
    using inv by (simp_all add: searchInv_def)
  have l: "left P ?S = xs @ y # ys" "calls P xs" "explored P ?C ?S (se_state s) xs" using pl by (simp_all add: placeOk_def)
  have ch: "choice P ?S y" using l m by (auto simp: choice_def calls_def)
  define h where "h = unlinkNode (the (matchOf P y)) (unlinkNode y (se_heap s))"
  note heap = heapOk_call [OF c state_heap [OF c st] ch, folded h_def]
  have C': "cacheOk len (cacheAdd (se_cache s) e)" "cached (cacheAdd (se_cache s) e) = insert (?S', st') ?C"
    using cacheAdd_cached [of len "se_cache s" e] st new by (auto simp: stateOk_def)
  have "reach P ?S (se_state s)" using st stack_reach by (auto simp: stateOk_def)
  then have "(?S', st') \<in> configs P" using reach_step [OF _ ch step] by (simp add: configs_def)
  then have state: "stateOk P len (s\<lparr>se_cache := cacheAdd (se_cache s) e,
      se_calls := (y, se_state s) # se_calls s, se_state := st', se_linearized := lin', se_heap := h,
      se_entry := nd_next (h ! pb_head P)\<rparr>)"
    using st C' ch step new by (auto simp: stateOk_def h_def)
  have "idOf P y \<in> allIds P" "idOf P y \<notin> ?S" using choice_new [OF ch] by (auto simp: allIds_def)
  then have full: "(allIds P, x) \<notin> ?C" for x using co by (auto simp: coverOk_def)
  have "explored P (insert (?S', st') ?C) ?S (se_state s) (us @ [y])" if "left P ?S = us @ y # vs" for us vs
  proof -
    have "us = xs" using that l(1) left_distinct [OF c, of ?S] append_Cons_unique by (metis distinct.simps(2))
    with l(3) step show ?thesis by (auto simp: explored_def)
  qed
  then have cover: "coverOk P (s\<lparr>se_cache := cacheAdd (se_cache s) e,
      se_calls := (y, se_state s) # se_calls s, se_state := st', se_linearized := lin', se_heap := h,
      se_entry := nd_next (h ! pb_head P)\<rparr>)"
    using co C'(2) full by (auto simp: coverOk_def rooted_def intro: framesExplored_mono)
  have "placeOk P (s\<lparr>se_cache := cacheAdd (se_cache s) e,
      se_calls := (y, se_state s) # se_calls s, se_state := st', se_linearized := lin', se_heap := h,
      se_entry := nd_next (h ! pb_head P)\<rparr>) [] (left P ?S')"
    using head_next [OF heap(3)] by (simp add: placeOk_def calls_def explored_def)
  with heap(1) state cover show ?thesis by (auto simp: searchInv_def)
qed

text \<open>At a return every choice was tried: the configuration is done, and the last call is put back.\<close>

lemma at_return_done:
  assumes c: "complete len P" and inv: "searchInv P len s xs (y # ys)" and y: "matchOf P y = None"
  shows "successors P (stackIds P (se_calls s), se_state s) \<subseteq> cached (se_cache s)"
proof (rule successors_explored)
  show "explored P (cached (se_cache s)) (stackIds P (se_calls s)) (se_state s) xs"
    using inv by (simp add: searchInv_def placeOk_def)
  show "a \<in> set xs" if "choice P (stackIds P (se_calls s)) a" for a
    using choice_split [OF c _ _ y] that inv by (auto simp: searchInv_def placeOk_def)
qed

lemma not_full:
  assumes inv: "searchInv P len s xs (y # ys)"
  shows "allIds P \<noteq> stackIds P (se_calls s)" "(allIds P, st) \<notin> cached (se_cache s)"
proof -
  have "y \<in> set (left P (stackIds P (se_calls s)))" using inv by (auto simp: searchInv_def placeOk_def)
  then show *: "allIds P \<noteq> stackIds P (se_calls s)" by (auto simp: left_set allIds_def)
  show "(allIds P, st) \<notin> cached (se_cache s)" using inv * by (auto simp: searchInv_def coverOk_def)
qed

lemma pop_call:
  assumes c: "complete len P" and inv: "searchInv P len s xs (y # ys)" and y: "matchOf P y = None"
    and cs: "se_calls s = (e, st0) # cs" and lin: "idSet lin' = idSet (se_linearized s) - {idOf P e}" "length lin' = len"
  shows "\<exists>h us vs. unlift e (se_heap s) = Inr h \<and>
    searchInv P len (s\<lparr>se_calls := cs, se_state := st0, se_linearized := lin', se_heap := h,
      se_entry := nd_next (h ! e)\<rparr>) us vs"
proof -
  let ?S0 = "stackIds P cs" and ?C = "cached (se_cache s)"
  have st: "stateOk P len s" and co: "coverOk P s" using inv by (simp_all add: searchInv_def)
  have ok0: "stackOk P cs st0" and ch: "choice P ?S0 e" and heap: "se_heap s = stackHeap P ((e, st0) # cs)"
    using st by (auto simp: stateOk_def cs)
  define h where "h = stackHeap P cs"
  have hok: "heapOk P ?S0 h" unfolding h_def by (rule stack_heap [OF c ok0])
  have un: "unlift e (se_heap s) = Inr h" unfolding heap using heapOk_call(2) [OF c hok ch] by (simp add: h_def)
  obtain us vs m where u: "left P ?S0 = us @ e # vs" "calls P us" "matchOf P e = Some m" using ch by (rule choiceE)
  let ?s' = "s\<lparr>se_calls := cs, se_state := st0, se_linearized := lin', se_heap := h, se_entry := nd_next (h ! e)\<rparr>"
  have "idOf P e \<notin> ?S0" using choice_new [OF ch] by simp
  then have "idSet lin' = ?S0" using lin(1) st by (auto simp: stateOk_def cs)
  then have state: "stateOk P len ?s'" using st ok0 lin(2) by (auto simp: stateOk_def h_def)
  have tried: "successors P (stackIds P (se_calls s), se_state s) \<subseteq> ?C" by (rule at_return_done [OF c inv y])
  have cover: "coverOk P ?s'"
    using co tried not_full(2) [OF inv] by (auto simp: coverOk_def rooted_def cs)
  have "explored P ?C ?S0 st0 (us @ [e])" using co u(1) by (auto simp: coverOk_def cs)
  then have "placeOk P ?s' (us @ [e]) vs"
    using u next_left(1) [OF c hok u(1)] by (auto simp: placeOk_def calls_def)
  with un state cover show ?thesis by (auto simp: searchInv_def)
qed

text \<open>When no call is on the stack at a return, everything reachable was visited.\<close>

lemma exhausted:
  assumes c: "complete len P" and inv: "searchInv P len s xs (y # ys)" and y: "matchOf P y = None" and "se_calls s = []"
  shows "\<not> solved P"
proof
  assume "solved P"
  then obtain st where full: "reach P (allIds P) st" by (auto simp: solved_def)
  have st: "stateOk P len s" and co: "coverOk P s" using inv by (simp_all add: searchInv_def)
  have root: "se_state s = mo_Init (pb_model P)" using st assms(4) by (simp add: stateOk_def)
  have closed: "successors P c \<subseteq> cached (se_cache s)" if "c \<in> rooted P s" for c
    using that co at_return_done [OF c inv y] by (cases "c = ({}, se_state s)") (auto simp: coverOk_def assms(4))
  have "reach P S st \<Longrightarrow> (S, st) \<in> rooted P s" for S st
  proof (induction rule: reach.induct)
    case (reach_step S st a st')
    then have "(insert (idOf P a) S, st') \<in> successors P (S, st)" by (auto simp: successors_def)
    with closed [OF reach_step.IH] show ?case by (auto simp: rooted_def)
  qed (simp add: rooted_def)
  from this [OF full] show False
    using not_full [OF inv] assms(4) by (auto simp: rooted_def)
qed

section \<open>One iteration\<close>

text \<open>What the search has still to do: configurations to visit, calls to put back, entries to pass.\<close>

definition todo :: "('s, 'v) problem \<Rightarrow> ('s, 'v) search \<Rightarrow> ref list \<Rightarrow> nat \<times> nat \<times> nat" where
  "todo P s ys = (card (configs P - cached (se_cache s)), length (se_calls s), length ys)"

definition less_todo :: "((nat \<times> nat \<times> nat) \<times> (nat \<times> nat \<times> nat)) set" where
  "less_todo = less_than <*lex*> less_than <*lex*> less_than"

lemma wf_todo: "wf less_todo"
  by (simp add: less_todo_def wf_lex_prod)

lemma checkStep_call:
  assumes c: "complete len P" and a: "answers P" and inv: "searchInv P len s xs (y # ys)" and m: "matchOf P y = Some m"
  shows "\<exists>s1 us vs. checkStep (pb_model P) (pb_head P) s = Inr (Some s1) \<and> searchInv P len s1 us vs \<and>
    (todo P s1 vs, todo P s (y # ys)) \<in> less_todo"
proof -
  let ?S = "stackIds P (se_calls s)"
  have st: "stateOk P len s" and pl: "placeOk P s xs (y # ys)" using inv by (simp_all add: searchInv_def)
  note hok = state_heap [OF c st]
  have y: "y \<in> set (pb_list P)" "idOf P y \<notin> ?S" and entry: "se_entry s = Some y"
    using pl left_set [of y P ?S] by (auto simp: placeOk_def)
  have m': "m \<in> set (pb_list P)" using completeD(2) [OF c y(1) m] by auto
  note dy = heapOk_data [OF c hok y(1)] and dm = heapOk_data [OF c hok m']
  have "\<exists>r. stepAt P (se_state s) y = Inr r" using a y(1) m by (simp add: answers_def)
  then obtain ok st' where step: "stepAt P (se_state s) y = Inr (ok, st')" by (metis surj_pair)
  then have run: "mo_Step (pb_model P) (se_state s) (nd_value (se_heap s ! y)) (nd_value (se_heap s ! m)) = Inr (ok, st')"
    by (simp add: stepAt_def m dy dm)
  let ?pass = "s\<lparr>se_entry := nd_next (se_heap s ! y)\<rparr>"
  have pass: "searchInv P len ?pass (xs @ [y]) ys \<and> (todo P ?pass ys, todo P s (y # ys)) \<in> less_todo"
    if "ok \<Longrightarrow> (insert (idOf P y) ?S, st') \<in> cached (se_cache s)"
    using pass_call [OF c inv] m that step by (auto simp: todo_def less_todo_def)
  show ?thesis
  proof (cases ok)
    case False
    with pass show ?thesis by (intro exI [of _ ?pass]) (auto simp: checkStep_def entry dy(1,2) m run)
  next
    case True
    have "inRange (se_linearized s) (idOf P y)"
      using completeD(5) [OF c y(1)] st by (simp add: inRange_def stateOk_def)
    from bitset_set_position [OF this] obtain lin' where lin: "bitset_set (se_linearized s) (idOf P y) = Inr lin'"
      "length lin' = len" "positions lin' = insert (unat (idOf P y)) (positions (se_linearized s))"
      using st by (auto simp: stateOk_def)
    have ids: "idSet lin' = insert (idOf P y) ?S" using idSet_positions(1) [OF lin(3)] st by (simp add: stateOk_def)
    let ?e = "\<lparr>ce_linearized = lin', ce_state = st'\<rparr>"
    have contains: "cacheContains (pb_model P) (se_cache s) ?e \<longleftrightarrow> (insert (idOf P y) ?S, st') \<in> cached (se_cache s)"
      using cacheContains_cached [of "pb_model P" len "se_cache s" ?e] a st lin(2) completeD(6) [OF c] ids
      by (simp add: answers_def stateOk_def)
    show ?thesis
    proof (cases "(insert (idOf P y) ?S, st') \<in> cached (se_cache s)")
      case True
      with pass \<open>ok\<close> contains show ?thesis
        by (intro exI [of _ ?pass]) (auto simp: checkStep_def checkCall_def entry dy(1,2) m run lin(1) Let_def)
    next
      case new: False
      obtain h where h: "lift y (se_heap s) = Inr h" and inv': "searchInv P len (s\<lparr>se_cache := cacheAdd (se_cache s) ?e,
          se_calls := (y, se_state s) # se_calls s, se_state := st', se_linearized := lin', se_heap := h,
          se_entry := nd_next (h ! pb_head P)\<rparr>) [] (left P (insert (idOf P y) ?S))"
        using push_call [OF c inv, of st' lin' ?e] m step \<open>ok\<close> lin(2) ids by auto
      let ?s' = "s\<lparr>se_cache := cacheAdd (se_cache s) ?e, se_calls := (y, se_state s) # se_calls s, se_state := st',
          se_linearized := lin', se_heap := h, se_entry := nd_next (h ! pb_head P)\<rparr>"
      have "cached (se_cache ?s') = insert (insert (idOf P y) ?S, st') (cached (se_cache s))"
        using cacheAdd_cached(2) [of len "se_cache s" ?e] st lin(2) ids by (simp add: stateOk_def)
      moreover have "cached (se_cache ?s') \<subseteq> configs P" using inv' by (simp add: searchInv_def stateOk_def)
      ultimately have "configs P - cached (se_cache ?s') \<subset> configs P - cached (se_cache s)" using new by auto
      then have "card (configs P - cached (se_cache ?s')) < card (configs P - cached (se_cache s))"
        by (rule psubset_card_mono [rotated]) (simp add: finite_configs)
      with inv' \<open>ok\<close> contains new show ?thesis
        by (intro exI [of _ ?s']) (auto simp: checkStep_def checkCall_def entry dy(1,2) m run lin(1) h Let_def todo_def less_todo_def)
    qed
  qed
qed

lemma checkStep_return:
  assumes c: "complete len P" and inv: "searchInv P len s xs (y # ys)" and m: "matchOf P y = None"
  shows "(checkStep (pb_model P) (pb_head P) s = Inr None \<and> \<not> solved P) \<or>
    (\<exists>s1 us vs. checkStep (pb_model P) (pb_head P) s = Inr (Some s1) \<and> searchInv P len s1 us vs \<and>
      (todo P s1 vs, todo P s (y # ys)) \<in> less_todo)"
proof -
  have st: "stateOk P len s" and pl: "placeOk P s xs (y # ys)" using inv by (simp_all add: searchInv_def)
  note hok = state_heap [OF c st]
  have y: "y \<in> set (pb_list P)" and entry: "se_entry s = Some y"
    using pl left_set [of y P "stackIds P (se_calls s)"] by (auto simp: placeOk_def)
  have dy: "nd_match (se_heap s ! y) = None" using heapOk_data(1) [OF c hok y] m by simp
  show ?thesis
  proof (cases "se_calls s")
    case Nil
    with exhausted [OF c inv m] show ?thesis by (simp add: checkStep_def checkReturn_def entry dy)
  next
    case (Cons f cs)
    obtain e st0 where cs: "se_calls s = (e, st0) # cs" using Cons by (cases f) simp
    have "choice P (stackIds P cs) e" using st by (simp add: stateOk_def cs)
    then have e: "e \<in> set (pb_list P)" using choice_new by blast
    have "inRange (se_linearized s) (idOf P e)"
      using completeD(5) [OF c e] st by (simp add: inRange_def stateOk_def)
    from bitset_clear_position [OF this] obtain lin' where lin: "bitset_clear (se_linearized s) (idOf P e) = Inr lin'"
      "length lin' = len" "positions lin' = positions (se_linearized s) - {unat (idOf P e)}"
      using st by (auto simp: stateOk_def)
    obtain h us vs where h: "unlift e (se_heap s) = Inr h" "searchInv P len (s\<lparr>se_calls := cs, se_state := st0,
        se_linearized := lin', se_heap := h, se_entry := nd_next (h ! e)\<rparr>) us vs"
      using pop_call [OF c inv m cs idSet_positions(2) [OF lin(3)] lin(2)] by blast
    then show ?thesis
      using heapOk_data(2) [OF c hok e]
      by (auto simp: checkStep_def checkReturn_def entry dy cs lin(1) todo_def less_todo_def)
  qed
qed

section \<open>The whole search\<close>

lemma checkLoop_cases:
  "nd_next (se_heap s ! head) = None \<Longrightarrow> checkLoop model kill head i s = Some (Inr True)"
  "nd_next (se_heap s ! head) \<noteq> None \<Longrightarrow> kill i \<Longrightarrow> checkLoop model kill head i s = Some (Inr False)"
  "nd_next (se_heap s ! head) \<noteq> None \<Longrightarrow> \<not> kill i \<Longrightarrow> checkStep model head s = Inr None \<Longrightarrow>
     checkLoop model kill head i s = Some (Inr False)"
  "nd_next (se_heap s ! head) \<noteq> None \<Longrightarrow> \<not> kill i \<Longrightarrow> checkStep model head s = Inr (Some s1) \<Longrightarrow>
     checkLoop model kill head i s = checkLoop model kill head (Suc i) s1"
  by (rule trans [OF checkLoop.simps]; simp del: not_None_eq)+

lemma checkLoop_decides:
  assumes c: "complete len P" and a: "answers P"
  shows "searchInv P len s xs ys \<Longrightarrow>
    \<exists>b. checkLoop (pb_model P) kill (pb_head P) i s = Some (Inr b) \<and> (b \<longrightarrow> solved P) \<and>
      (\<not> b \<longrightarrow> \<not> solved P \<or> (\<exists>j. kill j))"
proof (induction "todo P s ys" arbitrary: s xs ys i rule: wf_induct_rule [OF wf_todo])
  case 1
  note inv = 1(2) and IH = 1(1)
  have st: "stateOk P len s" and pl: "placeOk P s xs ys" using inv by (simp_all add: searchInv_def)
  let ?S = "stackIds P (se_calls s)"
  have head: "nd_next (se_heap s ! pb_head P) = firstOr (left P ?S) None" by (rule head_next [OF state_heap [OF c st]])
  have reach: "reach P ?S (se_state s)" using st stack_reach by (auto simp: stateOk_def)
  show ?case
  proof (cases "left P ?S = []")
    case True
    then have "allIds P \<subseteq> ?S" by (auto simp: left_def filter_empty_conv allIds_def)
    then have "solved P" using reach reach_ids [OF reach] by (auto simp: solved_def)
    moreover have "nd_next (se_heap s ! pb_head P) = None" using True head by simp
    ultimately show ?thesis using checkLoop_cases(1) by blast
  next
    case False
    then have next_head: "nd_next (se_heap s ! pb_head P) \<noteq> None" using head by (cases "left P ?S") simp_all
    obtain y ys' where ys: "ys = y # ys'"
      using left_return [OF c _ _ False] pl by (cases ys) (auto simp: placeOk_def)
    show ?thesis
    proof (cases "kill i")
      case True
      with checkLoop_cases(2) [OF next_head, where kill = kill and i = i, OF True] show ?thesis by blast
    next
      case running: False
      have "(checkStep (pb_model P) (pb_head P) s = Inr None \<and> \<not> solved P) \<or>
        (\<exists>s1 us vs. checkStep (pb_model P) (pb_head P) s = Inr (Some s1) \<and> searchInv P len s1 us vs \<and>
          (todo P s1 vs, todo P s ys) \<in> less_todo)"
      proof (cases "matchOf P y")
        case None
        from checkStep_return [OF c inv [unfolded ys] this] show ?thesis unfolding ys .
      next
        case (Some m)
        from checkStep_call [OF c a inv [unfolded ys] this] show ?thesis unfolding ys by (rule disjI2)
      qed
      then show ?thesis
      proof (elim disjE exE conjE)
        fix s1 us vs
        assume s1: "checkStep (pb_model P) (pb_head P) s = Inr (Some s1)" "searchInv P len s1 us vs"
          "(todo P s1 vs, todo P s ys) \<in> less_todo"
        from IH [OF s1(3,2), of "Suc i"] show ?thesis unfolding checkLoop_cases(4) [OF next_head, where kill = kill and i = i, OF running s1(1)] .
      next
        assume "checkStep (pb_model P) (pb_head P) s = Inr None" "\<not> solved P"
        with checkLoop_cases(3) [OF next_head, where kill = kill and i = i, OF running] show ?thesis by blast
      qed
    qed
  qed
qed

lemma search_starts:
  assumes c: "complete len P" and "idSet b = {}" "length b = len"
  shows "searchInv P len \<lparr>se_heap = pb_heap P, se_entry = firstOr (pb_list P) None, se_state = mo_Init (pb_model P),
    se_linearized = b, se_cache = [], se_calls = []\<rparr> [] (pb_list P)"
  using assms
  by (auto simp: searchInv_def stateOk_def coverOk_def placeOk_def rooted_def left_def calls_def explored_def)

end
