(* ===== verification/LinkedHistory.thy ===== *)
theory LinkedHistory
  imports LinearSearch
begin

text \<open>
  From entries to the linked list the search works on: \<open>makeLinkedEntries\<close> allocates the entries
  from the last to the first and links every call with its return.
\<close>

section \<open>Building the list\<close>

lemma insertBefore_front:
  fixes v m i
  assumes "linked h xs"
  defines "h' \<equiv> insertBefore (length h) (firstOr xs None) (h @ [newNode v m i])"
  shows "linked h' (length h # xs)" and "sameData (h @ [newNode v m i]) h'"
proof -
  let ?h = "h @ [newNode v m i]"
  have less: "x < length h" if "x \<in> set xs" for x
    using assms(1) that segment_length by (auto simp: linked_def)
  have frame: "segment ?h None xs None"
  proof -
    have "segment ?h p ys None" if "segment h p ys None" for p ys
      using that by (induction ys arbitrary: p) (auto simp: nth_append)
    then show ?thesis using assms(1) by (simp add: linked_def)
  qed
  show "sameData ?h h'"
  proof (cases xs)
    case (Cons x ys)
    then have "nd_prev (?h ! x) = None" using frame by simp
    then show ?thesis
      by (simp add: h'_def Cons insertBefore_def Let_def sameData_trans [OF sameData_put(2) sameData_put(1)])
  qed (simp add: h'_def insertBefore_def)
  show "linked h' (length h # xs)"
  proof (cases xs)
    case Nil
    then show ?thesis by (simp add: h'_def insertBefore_def linked_def newNode_def)
  next
    case (Cons x ys)
    have x: "x < length h" "nd_prev (?h ! x) = None" using frame less by (simp_all add: Cons)
    have h': "h' = putNext (length h) (Some x) (putPrev x (Some (length h)) ?h)"
      using x(2) by (simp add: h'_def Cons insertBefore_def)
    have d: "distinct (x # ys)" using assms(1) by (simp add: linked_def Cons)
    have "segment h' (Some x) ys None = segment ?h (Some x) ys None"
    proof (rule segment_frame)
      show "links (h' ! u) = links (?h ! u)" if "u \<in> set ys" for u
        using that d less [of u] x by (auto simp: h' Cons links_def)
    qed (simp add: h')
    then show ?thesis
      using d less frame x less_SucI [OF x(1)] by (auto simp: linked_def h' Cons newNode_def nth_append)
  qed
qed

text \<open>The last return with an ID among the first \<open>k\<close> processed entries.\<close>

fun lastReturn :: "'v entry list \<Rightarrow> nat \<Rightarrow> u64 \<Rightarrow> ref option" where
  "lastReturn ds 0 i = None"
| "lastReturn ds (Suc k) i =
     (if en_kind (ds ! k) = returnEntry \<and> en_id (ds ! k) = i then Some k else lastReturn ds k i)"

definition matchAt :: "'v entry list \<Rightarrow> ref \<Rightarrow> ref option" where
  "matchAt ds a = (if en_kind (ds ! a) = returnEntry then None else lastReturn ds a (en_id (ds ! a)))"

lemma lastReturn_append: "k \<le> length ds \<Longrightarrow> lastReturn (ds @ es) k i = lastReturn ds k i"
  by (induction k) (auto simp: nth_append)

lemma lastReturn_Some: "lastReturn ds k i = Some m \<Longrightarrow> m < k \<and> en_kind (ds ! m) = returnEntry \<and> en_id (ds ! m) = i"
  by (induction k) (auto split: if_splits intro: less_SucI)

lemma lastReturn_ex: "m < k \<Longrightarrow> en_kind (ds ! m) = returnEntry \<Longrightarrow> en_id (ds ! m) = i \<Longrightarrow> lastReturn ds k i \<noteq> None"
  by (induction k) (auto simp: less_Suc_eq)

text \<open>What the nodes hold after \<open>ds\<close> were processed.\<close>

definition nodesOf :: "'v entry list \<Rightarrow> 'v heap \<Rightarrow> bool" where
  "nodesOf ds h \<longleftrightarrow> (\<forall>a < length ds. nd_value (h ! a) = en_value (ds ! a) \<and> nd_id (h ! a) = en_id (ds ! a) \<and>
     nd_match (h ! a) = matchAt ds a)"

definition linkInv :: "'v entry list \<Rightarrow> ref option \<Rightarrow> (u64, ref) gomap \<Rightarrow> 'v heap \<Rightarrow> bool" where
  "linkInv ds root match h \<longleftrightarrow> length h = length ds \<and> linked h (rev [0..<length ds]) \<and>
     root = firstOr (rev [0..<length ds]) None \<and> nodesOf ds h \<and>
     (\<forall>i. mget match i = lastReturn ds (length ds) i)"

lemma nodesOf_insert:
  assumes "length h = length ds" and "linked h xs" and "nodesOf ds h" and "m = matchAt (ds @ [elem]) (length ds)"
  shows "nodesOf (ds @ [elem]) (insertBefore (length h) (firstOr xs None) (h @ [newNode (en_value elem) m (en_id elem)]))"
proof -
  let ?h = "h @ [newNode (en_value elem) m (en_id elem)]"
  have "nodesOf (ds @ [elem]) ?h"
    using assms(1,3,4) by (auto simp: nodesOf_def nth_append less_Suc_eq newNode_def matchAt_def lastReturn_append)
  with insertBefore_front(2) [OF assms(2), of "en_value elem" m "en_id elem"] assms(1) show ?thesis
    by (auto simp: nodesOf_def sameData_def)
qed

lemma linkLoop_inv:
  "linkInv ds root match h \<Longrightarrow> linkLoop rest root match h = (root', h') \<Longrightarrow> \<exists>match'. linkInv (ds @ rest) root' match' h'"
proof (induction rest root match h arbitrary: ds rule: linkLoop.induct)
  case (1 root match h)
  then show ?case by auto
next
  case (2 elem rest root match h)
  have inv: "length h = length ds" "linked h (rev [0..<length ds])" "root = firstOr (rev [0..<length ds]) None"
    "nodesOf ds h" and mt: "mget match i = lastReturn ds (length ds) i" for i
    using 2(3) by (auto simp: linkInv_def)
  let ?m = "matchAt (ds @ [elem]) (length ds)"
  let ?h = "insertBefore (length h) root (h @ [newNode (en_value elem) ?m (en_id elem)])"
  let ?match = "if en_kind elem = returnEntry then mput (en_id elem) (length h) match else match"
  have len: "length ?h = Suc (length ds)"
    using insertBefore_front(2) [OF inv(2), of "en_value elem" ?m "en_id elem"] inv(1,3) by (simp add: sameData_def)
  have step: "linkLoop (elem # rest) root match h = linkLoop rest (Some (length h)) ?match ?h"
    by (cases "en_kind elem") (simp_all add: Let_def matchAt_def nth_append mt lastReturn_append inv(1))
  have "linkInv (ds @ [elem]) (Some (length h)) ?match ?h"
    using inv len insertBefore_front(1) [OF inv(2), of "en_value elem" ?m "en_id elem"]
      nodesOf_insert [OF inv(1,2,4) refl]
    by (auto simp: linkInv_def mt gomap_simps lastReturn_append nth_append)
  with 2(1,2) [OF refl, of "ds @ [elem]"] 2(4) step show ?case
    by (cases "en_kind elem") (auto simp: Let_def matchAt_def nth_append mt lastReturn_append inv(1))
qed

lemma makeLinkedEntries_inv:
  assumes "makeLinkedEntries es = (root, h)"
  shows "length h = length es \<and> linked h (rev [0..<length es]) \<and> root = firstOr (rev [0..<length es]) None \<and>
    nodesOf (rev es) h"
proof -
  have "linkInv [] None [] ([] :: 'a heap)" by (simp add: linkInv_def linked_def nodesOf_def)
  from linkLoop_inv [OF this assms [unfolded makeLinkedEntries_def]] show ?thesis by (auto simp: linkInv_def)
qed

lemma nodeLength_segment: "segment h p xs None \<Longrightarrow> nodeLength h (firstOr xs None) l = Some (l + of_nat (length xs))"
proof (induction xs arbitrary: p l)
  case Nil
  then show ?case by (simp add: nodeLength.simps)
next
  case (Cons x xs)
  then have "nodeLength h (firstOr xs None) (l + 1) = Some (l + 1 + of_nat (length xs))" by auto
  then show ?case using Cons.prems by (subst nodeLength.simps) (simp add: ac_simps)
qed

end
