(* ===== verification/Linearizability.thy ===== *)
theory Linearizability
  imports LinkedHistory
begin

text \<open>
  What the checker is to decide: a complete history is linearizable when its operations have an
  order that the model runs through and in which an operation that returned before another was
  called comes first. \<open>checkSingle\<close> decides it.
\<close>

section \<open>The specification\<close>

text \<open>Every ID has one call, and one return after it.\<close>

definition completeHistory :: "'v event list \<Rightarrow> bool" where
  "completeHistory H \<longleftrightarrow>
     (\<forall>i. map ev_Kind (filter (\<lambda>e. ev_Id e = i) H) \<in> {[], [CallEvent, ReturnEvent]})"

definition valueOf :: "eventKind \<Rightarrow> 'v event list \<Rightarrow> u64 \<Rightarrow> 'v any" where
  "valueOf k H i = (case find (\<lambda>e. ev_Id e = i \<and> ev_Kind e = k) H of None \<Rightarrow> None | Some e \<Rightarrow> ev_Value e)"

definition returnsBefore :: "'v event list \<Rightarrow> u64 \<Rightarrow> u64 \<Rightarrow> bool" where
  "returnsBefore H i j \<longleftrightarrow> (\<exists>p q. p < q \<and> q < length H \<and> ev_Kind (H ! p) = ReturnEvent \<and> ev_Id (H ! p) = i \<and>
     ev_Kind (H ! q) = CallEvent \<and> ev_Id (H ! q) = j)"

definition precedes :: "'a list \<Rightarrow> 'a \<Rightarrow> 'a \<Rightarrow> bool" where
  "precedes xs a b \<longleftrightarrow> (\<exists>us vs ws. xs = us @ a # vs @ b # ws)"

text \<open>The model runs through operations, given by their inputs and outputs.\<close>

fun runOps :: "('s \<Rightarrow> 'v any \<Rightarrow> 'v any \<Rightarrow> (bool \<times> 's) go) \<Rightarrow> 's \<Rightarrow> ('v any \<times> 'v any) list \<Rightarrow> 's option" where
  "runOps step st [] = Some st"
| "runOps step st ((inp, out) # ops) =
     (case step st inp out of Inr (True, st') \<Rightarrow> runOps step st' ops | _ \<Rightarrow> None)"

definition linearizable :: "('s, 'v) model \<Rightarrow> 'v event list \<Rightarrow> bool" where
  "linearizable model H \<longleftrightarrow> (\<exists>order. distinct order \<and> set order = ev_Id ` set H \<and>
     (\<forall>i j. returnsBefore H i j \<longrightarrow> precedes order i j) \<and>
     runOps (mo_Step model) (mo_Init model) (map (\<lambda>i. (valueOf CallEvent H i, valueOf ReturnEvent H i)) order) \<noteq> None)"

lemma runOps_append:
  "runOps step st (xs @ ys) = Option.bind (runOps step st xs) (\<lambda>st'. runOps step st' ys)"
  by (induction step st xs rule: runOps.induct) (auto split: sum.split prod.split bool.split)

lemma precedes_append: "precedes xs a b \<Longrightarrow> precedes (xs @ ys) a b"
  unfolding precedes_def by (metis append.assoc append_Cons)

lemma precedes_last: "a \<in> set xs \<Longrightarrow> precedes (xs @ [b]) a b"
  unfolding precedes_def by (metis append.assoc append_Cons in_set_conv_decomp)

lemma precedes_index:
  assumes "distinct xs" and "precedes xs a b" and "b = xs ! k" and "k < length xs"
  shows "a \<in> set (take k xs)"
proof -
  obtain us vs ws where xs: "xs = us @ a # vs @ b # ws" using assms(2) by (auto simp: precedes_def)
  let ?n = "length (us @ a # vs)"
  have "xs ! ?n = b" "?n < length xs" by (simp_all add: xs nth_append)
  then have "k = ?n" using assms(1,3,4) nth_eq_iff_index_eq by metis
  then show ?thesis by (simp add: xs)
qed

section \<open>The problem of a history\<close>

definition entryOfEvent :: "'v event \<Rightarrow> 'v entry \<Rightarrow> bool" where
  "entryOfEvent e n \<longleftrightarrow> en_kind n = (if ev_Kind e = ReturnEvent then returnEntry else callEntry) \<and>
     en_value n = ev_Value e \<and> en_id n = ev_Id e"

definition problemOf :: "('s, 'v) model \<Rightarrow> 'v entry list \<Rightarrow> ('s, 'v) problem" where
  "problemOf model es = (let (root, h) = makeLinkedEntries es in
     \<lparr>pb_model = model, pb_heap = insertBefore (length h) root (h @ [newNode None None (- 1)]),
      pb_head = length h, pb_list = rev [0..<length es]\<rparr>)"

text \<open>The event of an address: entries are allocated from the last one.\<close>

definition eventAt :: "'v event list \<Rightarrow> ref \<Rightarrow> 'v event" where
  "eventAt H a = rev H ! a"

definition isReturn :: "'v event list \<Rightarrow> ref \<Rightarrow> bool" where
  "isReturn H a \<longleftrightarrow> ev_Kind (eventAt H a) = ReturnEvent"

lemma problem_nodes:
  assumes "list_all2 entryOfEvent H es" and "P = problemOf model es"
  shows "pb_model P = model" "pb_list P = rev [0..<length H]" "linked (pb_heap P) (pb_head P # pb_list P)"
    and "a < length H \<Longrightarrow> idOf P a = ev_Id (eventAt H a)"
    and "a < length H \<Longrightarrow> nd_value (pb_heap P ! a) = ev_Value (eventAt H a)"
    and "a < length H \<Longrightarrow> matchOf P a = matchAt (rev es) a"
    and "a < length H \<Longrightarrow> en_kind (rev es ! a) = (if isReturn H a then returnEntry else callEntry) \<and>
      en_id (rev es ! a) = ev_Id (eventAt H a)"
proof -
  obtain root h where lk: "makeLinkedEntries es = (root, h)" by (cases "makeLinkedEntries es")
  have len: "length es = length H" using assms(1) by (simp add: list_all2_lengthD)
  note inv = makeLinkedEntries_inv [OF lk]
  let ?front = "insertBefore (length h) root (h @ [newNode None None (- 1)])"
  have P: "P = \<lparr>pb_model = model, pb_heap = ?front, pb_head = length h, pb_list = rev [0..<length es]\<rparr>"
    using assms(2) lk by (simp add: problemOf_def)
  have front: "linked ?front (length h # rev [0..<length es])" "sameData (h @ [newNode None None (- 1)]) ?front"
    using insertBefore_front [of h "rev [0..<length es]" None None "- 1"] inv by auto
  then show "pb_model P = model" "pb_list P = rev [0..<length H]" "linked (pb_heap P) (pb_head P # pb_list P)"
    using len by (simp_all add: P)
  have ev: "entryOfEvent (eventAt H a) (rev es ! a)" if "a < length H" for a
    using assms(1) that len by (simp add: eventAt_def list_all2_conv_all_nth rev_nth)
  show "en_kind (rev es ! a) = (if isReturn H a then returnEntry else callEntry) \<and> en_id (rev es ! a) = ev_Id (eventAt H a)"
    if "a < length H" for a
    using ev [OF that] by (simp add: entryOfEvent_def isReturn_def)
  have nd: "nd_value (pb_heap P ! a) = en_value (rev es ! a) \<and> idOf P a = en_id (rev es ! a) \<and> matchOf P a = matchAt (rev es) a"
    if "a < length H" for a
    using that front(2) inv len by (auto simp: P sameData_def idOf_def matchOf_def nodesOf_def nth_append)
  show "idOf P a = ev_Id (eventAt H a)" "nd_value (pb_heap P ! a) = ev_Value (eventAt H a)"
    "matchOf P a = matchAt (rev es) a" if "a < length H" for a
    using ev [OF that] nd [OF that] by (simp_all add: entryOfEvent_def)
qed

text \<open>In a complete history an ID has a call address above a return address, and no other.\<close>

lemma complete_addresses:
  assumes "completeHistory H" and "a < length H"
  shows "\<exists>c m. m < c \<and> c < length H \<and> \<not> isReturn H c \<and> isReturn H m \<and>
    {b. b < length H \<and> ev_Id (eventAt H b) = ev_Id (eventAt H a)} = {m, c}"
proof -
  let ?i = "ev_Id (eventAt H a)" and ?n = "length H"
  let ?F = "filter (\<lambda>b. ev_Id (eventAt H b) = ?i) [0..<?n]"
  have "rev H = map (eventAt H) [0..<?n]" by (rule nth_equalityI) (simp_all add: eventAt_def)
  then have F': "filter (\<lambda>e. ev_Id e = ?i) (rev H) = map (eventAt H) ?F" by (simp add: filter_map comp_def)
  have kinds: "map (ev_Kind \<circ> eventAt H) ?F = rev (map ev_Kind (filter (\<lambda>e. ev_Id e = ?i) H))"
    by (simp only: rev_map rev_filter F' map_map)
  have "a \<in> set ?F" using assms(2) by simp
  then have "map (ev_Kind \<circ> eventAt H) ?F \<noteq> []" by (metis empty_iff list.map_disc_iff list.set(1))
  moreover have "map ev_Kind (filter (\<lambda>e. ev_Id e = ?i) H) \<in> {[], [CallEvent, ReturnEvent]}"
    using assms(1) by (simp add: completeHistory_def)
  ultimately have "map (ev_Kind \<circ> eventAt H) ?F = [ReturnEvent, CallEvent]"
    unfolding kinds by auto
  then obtain m c where F: "?F = [m, c]" and "ev_Kind (eventAt H m) = ReturnEvent" "ev_Kind (eventAt H c) = CallEvent"
    unfolding map_eq_Cons_conv comp_def by blast
  then have k: "isReturn H m" "\<not> isReturn H c" by (simp_all add: isReturn_def)
  have "sorted_wrt (<) ?F" by (rule sorted_wrt_filter) simp
  then have "m < c" unfolding F by simp
  moreover have "{b. b < ?n \<and> ev_Id (eventAt H b) = ?i} = set ?F" by auto
  then have "{b. b < ?n \<and> ev_Id (eventAt H b) = ?i} = {m, c}" unfolding F by simp
  moreover have "c < ?n" using calculation(2) by blast
  ultimately show ?thesis using k by blast
qed

lemma rev_upt_split: "a < n \<Longrightarrow> rev [0..<n] = rev [Suc a..<n] @ a # rev [0..<a]"
proof -
  assume a: "a < n"
  have "[0..<n] = [0..<a] @ [a..<n]" using upt_add_eq_append [of 0 a "n - a"] a by simp
  also have "[a..<n] = a # [Suc a..<n]" by (rule upt_conv_Cons [OF a])
  finally show ?thesis by simp
qed

text \<open>Histories whose entries the checker links, with IDs below \<open>N\<close>.\<close>

definition checkable :: "nat \<Rightarrow> 'v event list \<Rightarrow> 'v entry list \<Rightarrow> bool" where
  "checkable N H es \<longleftrightarrow> list_all2 entryOfEvent H es \<and> completeHistory H \<and> (\<forall>e \<in> set H. unat (ev_Id e) < N) \<and>
     N + 64 < 2 ^ 64"

lemma eventAt_set: "a < length H \<Longrightarrow> eventAt H a \<in> set H"
  by (simp add: eventAt_def rev_nth)

lemma same_address_id:
  assumes "completeHistory H" and "a < length H" "b < length H" "ev_Id (eventAt H a) = ev_Id (eventAt H b)"
    and "isReturn H a = isReturn H b"
  shows "a = b"
proof -
  obtain c m where "\<not> isReturn H c" "isReturn H m"
    "{d. d < length H \<and> ev_Id (eventAt H d) = ev_Id (eventAt H a)} = {m, c}"
    using complete_addresses [OF assms(1,2)] by blast
  moreover from this have "a \<in> {m, c}" "b \<in> {m, c}" using assms(2-4) by (auto simp: set_eq_iff)
  ultimately show ?thesis using assms(5) by auto
qed

lemma problem_match:
  assumes ch: "checkable N H es" and P: "P = problemOf model es" and a: "a < length H"
  shows "isReturn H a \<Longrightarrow> matchOf P a = None \<and> (\<exists>c. a < c \<and> c < length H \<and> \<not> isReturn H c \<and> matchOf P c = Some a)"
    and "\<not> isReturn H a \<Longrightarrow> \<exists>m. m < a \<and> isReturn H m \<and> ev_Id (eventAt H m) = ev_Id (eventAt H a) \<and> matchOf P a = Some m"
proof -
  have l: "list_all2 entryOfEvent H es" and co: "completeHistory H" using ch by (simp_all add: checkable_def)
  note nodes = problem_nodes [OF l P]
  obtain c m where cm: "m < c" "c < length H" "\<not> isReturn H c" "isReturn H m"
    and ids: "{b. b < length H \<and> ev_Id (eventAt H b) = ev_Id (eventAt H a)} = {m, c}"
    using complete_addresses [OF co a] by blast
  have mc: "ev_Id (eventAt H m) = ev_Id (eventAt H a)" "ev_Id (eventAt H c) = ev_Id (eventAt H a)" "a \<in> {m, c}"
    using ids a by (auto simp: set_eq_iff)
  have "matchOf P c = Some m"
  proof -
    have entry: "en_kind (rev es ! m) = returnEntry" "en_id (rev es ! m) = ev_Id (eventAt H a)"
      "en_kind (rev es ! c) = callEntry" "en_id (rev es ! c) = ev_Id (eventAt H a)"
      using nodes(7) [of m] nodes(7) [of c] cm mc by auto
    obtain m' where m': "lastReturn (rev es) c (ev_Id (eventAt H a)) = Some m'"
      using lastReturn_ex [OF cm(1) entry(1,2)] by blast
    from lastReturn_Some [OF this] have "m' < c" "m' < length H" "isReturn H m'" "ev_Id (eventAt H m') = ev_Id (eventAt H a)"
      using nodes(7) [of m'] cm by (auto split: if_splits)
    then have "m' = m" using same_address_id [OF co] cm mc by (metis less_trans)
    with m' show ?thesis using nodes(6) [OF cm(2)] entry by (simp add: matchAt_def)
  qed
  moreover have "matchOf P m = None"
    using nodes(6) [of m] nodes(7) [of m] cm by (simp add: matchAt_def)
  ultimately show "isReturn H a \<Longrightarrow> matchOf P a = None \<and> (\<exists>c. a < c \<and> c < length H \<and> \<not> isReturn H c \<and> matchOf P c = Some a)"
    and "\<not> isReturn H a \<Longrightarrow> \<exists>m. m < a \<and> isReturn H m \<and> ev_Id (eventAt H m) = ev_Id (eventAt H a) \<and> matchOf P a = Some m"
    using cm mc by auto
qed

lemma div_words: "n < N \<Longrightarrow> n div 64 < (N + 63) div (64 :: nat)"
proof -
  assume "n < N"
  then have "(n + 64) div 64 \<le> (N + 63) div 64" by (intro div_le_mono) simp
  then show ?thesis by simp
qed

lemma problem_complete:
  assumes ch: "checkable N H es" and P: "P = problemOf model es"
  shows "complete ((N + 63) div 64) P"
proof -
  have l: "list_all2 entryOfEvent H es" and co: "completeHistory H" and N: "\<And>e. e \<in> set H \<Longrightarrow> unat (ev_Id e) < N"
    "N + 64 < 2 ^ 64" using ch by (simp_all add: checkable_def)
  note nodes = problem_nodes [OF l P] and match = problem_match [OF ch P]
  let ?n = "length H"
  have mem: "a \<in> set (pb_list P) \<longleftrightarrow> a < ?n" for a by (simp add: nodes(2))
  have calls: "matchOf P m = None \<and> idOf P m = idOf P a \<and> (\<exists>xs ys zs. pb_list P = xs @ a # ys @ m # zs)"
    if a: "a < ?n" and m: "matchOf P a = Some m" for a m
  proof -
    have nr: "\<not> isReturn H a" using match(1) [OF a] m by auto
    with match(2) [OF a] m have ma: "m < a" "isReturn H m" "ev_Id (eventAt H m) = ev_Id (eventAt H a)" by auto
    then have mn: "m < ?n" using a by simp
    have "pb_list P = rev [Suc a..<?n] @ a # rev [Suc m..<a] @ m # rev [0..<m]"
      unfolding nodes(2) rev_upt_split [OF a] rev_upt_split [OF ma(1)] ..
    moreover have "matchOf P m = None" using match(1) [OF mn ma(2)] by simp
    moreover have "idOf P m = idOf P a" using nodes(4) [OF mn] nodes(4) [OF a] ma(3) by simp
    ultimately show ?thesis by blast
  qed
  have returns: "\<exists>a \<in> set (pb_list P). matchOf P a = Some m" if "m < ?n" "matchOf P m = None" for m
  proof -
    have "isReturn H m" using match(2) [OF that(1)] that(2) by auto
    from match(1) [OF that(1) this] obtain c where "c < ?n" "matchOf P c = Some m" by blast
    then show ?thesis by (intro bexI [of _ c]) (simp_all only: mem)
  qed
  have unique: "a = b" if "a < ?n" "b < ?n" "matchOf P a \<noteq> None" "matchOf P b \<noteq> None" "idOf P a = idOf P b" for a b
  proof (rule same_address_id [OF co that(1,2)])
    show "ev_Id (eventAt H a) = ev_Id (eventAt H b)" using that(5) nodes(4) that(1,2) by simp
    have "\<not> isReturn H a" "\<not> isReturn H b" using match(1) [OF that(1)] match(1) [OF that(2)] that(3,4) by blast+
    then show "isReturn H a = isReturn H b" by simp
  qed
  have range: "unat (idOf P a) div 64 < (N + 63) div 64" if "a < ?n" for a
  proof -
    have "unat (idOf P a) < N" using N(1) [OF eventAt_set [OF that]] nodes(4) [OF that] by simp
    then show ?thesis by (rule div_words)
  qed
  have "(N + 63) div 64 \<le> 2 ^ 58"
  proof -
    have "(N + 63) div 64 \<le> (64 * 2 ^ 58) div 64" using N(2) by (intro div_le_mono) simp
    also have "\<dots> = 2 ^ 58" by (rule nonzero_mult_div_cancel_left) simp
    finally show ?thesis .
  qed
  with nodes(3) calls returns unique range show ?thesis
    unfolding complete_def Ball_def mem by blast
qed

lemma problem_choice:
  assumes ch: "checkable N H es" and P: "P = problemOf model es"
  shows "choice P S a \<longleftrightarrow> a < length H \<and> \<not> isReturn H a \<and> ev_Id (eventAt H a) \<notin> S \<and>
    (\<forall>b. a < b \<longrightarrow> b < length H \<longrightarrow> ev_Id (eventAt H b) \<notin> S \<longrightarrow> \<not> isReturn H b)"
proof -
  have l: "list_all2 entryOfEvent H es" using ch by (simp add: checkable_def)
  note nodes = problem_nodes [OF l P] and match = problem_match [OF ch P]
  have call: "matchOf P b \<noteq> None \<longleftrightarrow> \<not> isReturn H b" if "b < length H" for b
    using match [OF that] by auto
  have mem: "b \<in> set (left P S) \<longleftrightarrow> b < length H \<and> ev_Id (eventAt H b) \<notin> S" for b
    using nodes(4) by (auto simp: left_set nodes(2))
  have desc: "sorted_wrt (>) (left P S)"
    unfolding left_def nodes(2) by (rule sorted_wrt_filter) (simp add: sorted_wrt_rev)
  show ?thesis
  proof
    assume "choice P S a"
    then obtain xs ys where xs: "left P S = xs @ a # ys" "calls P (xs @ [a])" by (auto simp: choice_def)
    have "\<not> isReturn H b" if "a < b" "b < length H" "ev_Id (eventAt H b) \<notin> S" for b
    proof -
      have "b \<in> set (left P S)" using that mem by simp
      then have "b \<in> set xs" using that(1) desc by (auto simp: xs(1) sorted_wrt_append)
      then show ?thesis using xs(2) call [OF that(2)] by (auto simp: calls_def)
    qed
    moreover have "a \<in> set (left P S)" by (simp add: xs)
    ultimately show "a < length H \<and> \<not> isReturn H a \<and> ev_Id (eventAt H a) \<notin> S \<and>
      (\<forall>b. a < b \<longrightarrow> b < length H \<longrightarrow> ev_Id (eventAt H b) \<notin> S \<longrightarrow> \<not> isReturn H b)"
      using mem call xs(2) by (auto simp: calls_def)
  next
    assume r: "a < length H \<and> \<not> isReturn H a \<and> ev_Id (eventAt H a) \<notin> S \<and>
      (\<forall>b. a < b \<longrightarrow> b < length H \<longrightarrow> ev_Id (eventAt H b) \<notin> S \<longrightarrow> \<not> isReturn H b)"
    then obtain xs ys where xs: "left P S = xs @ a # ys" using mem by (meson split_list)
    have "b < length H \<and> matchOf P b \<noteq> None" if "b \<in> set (xs @ [a])" for b
    proof -
      have b: "b < length H" "ev_Id (eventAt H b) \<notin> S" using that mem xs by auto
      moreover have "b = a \<or> a < b" using that desc by (auto simp: xs sorted_wrt_append)
      ultimately show ?thesis using r call by blast
    qed
    with xs show "choice P S a" unfolding choice_def calls_def by blast
  qed
qed

section \<open>Orders and reachable configurations\<close>

definition opOf :: "'v event list \<Rightarrow> u64 \<Rightarrow> 'v any \<times> 'v any" where
  "opOf H i = (valueOf CallEvent H i, valueOf ReturnEvent H i)"

lemma history_address: "e \<in> set H \<Longrightarrow> \<exists>a < length H. e = eventAt H a"
  by (metis eventAt_def in_set_conv_nth length_rev set_rev)

lemma valueOf_at:
  assumes "completeHistory H" and "a < length H"
  shows "valueOf (ev_Kind (eventAt H a)) H (ev_Id (eventAt H a)) = ev_Value (eventAt H a)"
proof -
  let ?Q = "\<lambda>e. ev_Id e = ev_Id (eventAt H a) \<and> ev_Kind e = ev_Kind (eventAt H a)"
  have "find ?Q H \<noteq> None" using eventAt_set [OF assms(2)] by (auto simp: find_None_iff)
  then obtain e where e: "find ?Q H = Some e" by blast
  then have "e \<in> set H" "?Q e" by (auto simp: find_Some_iff)
  then obtain b where "b < length H" "e = eventAt H b" "?Q (eventAt H b)" using history_address by blast
  then have "b = a" using same_address_id [OF assms(1) _ assms(2)] by (simp add: isReturn_def)
  with e \<open>e = eventAt H b\<close> show ?thesis by (simp add: valueOf_def)
qed

lemma returnsBefore_address:
  "returnsBefore H i j \<longleftrightarrow> (\<exists>r c. c < r \<and> r < length H \<and> isReturn H r \<and> ev_Id (eventAt H r) = i \<and>
     \<not> isReturn H c \<and> ev_Id (eventAt H c) = j)"
proof -
  let ?n = "length H"
  have at: "H ! p = eventAt H (?n - Suc p)" if "p < ?n" for p using that by (simp add: eventAt_def rev_nth)
  have kind: "ev_Kind e = CallEvent \<longleftrightarrow> ev_Kind e \<noteq> ReturnEvent" for e :: "'a event" by (cases "ev_Kind e") auto
  show ?thesis
  proof
    assume "returnsBefore H i j"
    then obtain p q where "p < q" "q < ?n" "ev_Kind (H ! p) = ReturnEvent" "ev_Id (H ! p) = i"
      "ev_Kind (H ! q) = CallEvent" "ev_Id (H ! q) = j" by (auto simp: returnsBefore_def)
    then show "\<exists>r c. c < r \<and> r < ?n \<and> isReturn H r \<and> ev_Id (eventAt H r) = i \<and> \<not> isReturn H c \<and> ev_Id (eventAt H c) = j"
      using at [of p] at [of q] by (intro exI [of _ "?n - Suc p"] exI [of _ "?n - Suc q"]) (auto simp: isReturn_def)
  next
    assume "\<exists>r c. c < r \<and> r < ?n \<and> isReturn H r \<and> ev_Id (eventAt H r) = i \<and> \<not> isReturn H c \<and> ev_Id (eventAt H c) = j"
    then obtain r c where rc: "c < r" "r < ?n" "isReturn H r" "ev_Id (eventAt H r) = i" "\<not> isReturn H c" "ev_Id (eventAt H c) = j"
      by blast
    let ?p = "?n - Suc r" and ?q = "?n - Suc c"
    have "H ! ?p = eventAt H r" "H ! ?q = eventAt H c" using rc at [of ?p] at [of ?q] by simp_all
    moreover have "?p < ?q" "?q < ?n" using rc by auto
    ultimately show "returnsBefore H i j"
      unfolding returnsBefore_def using rc kind by (intro exI [of _ ?p] exI [of _ ?q]) (simp add: isReturn_def)
  qed
qed

lemma problem_step:
  assumes ch: "checkable N H es" and P: "P = problemOf model es" and a: "a < length H" "\<not> isReturn H a"
  shows "stepAt P st a = mo_Step model st (fst (opOf H (ev_Id (eventAt H a)))) (snd (opOf H (ev_Id (eventAt H a))))"
proof -
  have l: "list_all2 entryOfEvent H es" and co: "completeHistory H" using ch by (simp_all add: checkable_def)
  note nodes = problem_nodes [OF l P]
  obtain m where m: "m < a" "isReturn H m" "ev_Id (eventAt H m) = ev_Id (eventAt H a)" "matchOf P a = Some m"
    using problem_match(2) [OF ch P a] by blast
  have "ev_Kind (eventAt H a) = CallEvent" "ev_Kind (eventAt H m) = ReturnEvent"
    using a(2) m(2) by (simp_all add: isReturn_def) (cases "ev_Kind (eventAt H a)", auto)
  then have "opOf H (ev_Id (eventAt H a)) = (ev_Value (eventAt H a), ev_Value (eventAt H m))"
    using valueOf_at [OF co a(1)] valueOf_at [OF co, of m] m a by (simp add: opOf_def)
  then show ?thesis using nodes(1) nodes(5) [OF a(1)] nodes(5) [of m] m a by (simp add: stepAt_def)
qed

definition ordered :: "'v event list \<Rightarrow> u64 list \<Rightarrow> bool" where
  "ordered H order \<longleftrightarrow> distinct order \<and> (\<forall>i j. j \<in> set order \<longrightarrow> returnsBefore H i j \<longrightarrow> precedes order i j)"

lemma reach_order:
  assumes ch: "checkable N H es" and P: "P = problemOf model es"
  shows "reach P S st \<Longrightarrow> \<exists>order. ordered H order \<and> set order = S \<and>
    runOps (mo_Step model) (mo_Init model) (map (opOf H) order) = Some st"
proof (induction rule: reach.induct)
  case reach_start
  have "list_all2 entryOfEvent H es" using ch by (simp add: checkable_def)
  from problem_nodes(1) [OF this P] have "pb_model P = model" .
  then show ?case by (intro exI [of _ "[]"]) (simp add: ordered_def)
next
  case (reach_step S st a st')
  have co: "completeHistory H" and l: "list_all2 entryOfEvent H es" using ch by (simp_all add: checkable_def)
  have a: "a < length H" "\<not> isReturn H a" "ev_Id (eventAt H a) \<notin> S"
    and first: "\<And>b. a < b \<Longrightarrow> b < length H \<Longrightarrow> ev_Id (eventAt H b) \<notin> S \<Longrightarrow> \<not> isReturn H b"
    using reach_step(2) unfolding problem_choice [OF ch P] by auto
  obtain order where o: "ordered H order" "set order = S"
    "runOps (mo_Step model) (mo_Init model) (map (opOf H) order) = Some st" using reach_step.IH by blast
  let ?i = "ev_Id (eventAt H a)"
  have "precedes (order @ [?i]) i ?i" if before: "returnsBefore H i ?i" for i
  proof -
    obtain r c where rc: "c < r" "r < length H" "isReturn H r" "ev_Id (eventAt H r) = i" "\<not> isReturn H c" "ev_Id (eventAt H c) = ?i"
      using before unfolding returnsBefore_address by blast
    have "c = a" by (rule same_address_id [OF co _ a(1) rc(6)]) (use rc a in simp_all)
    then have "i \<in> S" using first [of r] rc by blast
    then show ?thesis using o(2) by (simp add: precedes_last)
  qed
  then have "ordered H (order @ [?i])"
    using o(1,2) a(3) by (auto simp: ordered_def precedes_append)
  moreover have "runOps (mo_Step model) (mo_Init model) (map (opOf H) (order @ [?i])) = Some st'"
    using o(3) reach_step(3) by (simp add: runOps_append problem_step [OF ch P a(1,2)] case_prod_unfold split: prod.split)
      (cases "opOf H ?i", simp)
  moreover have "set (order @ [?i]) = insert (idOf P a) S" using o(2) problem_nodes(4) [OF l P a(1)] by simp
  ultimately show ?case by blast
qed

lemma order_reach:
  assumes ch: "checkable N H es" and P: "P = problemOf model es"
    and o: "ordered H order" "set order \<subseteq> ev_Id ` set H" "runOps (mo_Step model) (mo_Init model) (map (opOf H) order) \<noteq> None"
  shows "k \<le> length order \<Longrightarrow> \<exists>st. reach P (set (take k order)) st \<and>
    runOps (mo_Step model) (mo_Init model) (map (opOf H) (take k order)) = Some st"
proof (induction k)
  case 0
  have "list_all2 entryOfEvent H es" using ch by (simp add: checkable_def)
  from problem_nodes(1) [OF this P] have "pb_model P = model" .
  then show ?case using reach_start [of P] by auto
next
  case (Suc k)
  have co: "completeHistory H" and l: "list_all2 entryOfEvent H es" using ch by (simp_all add: checkable_def)
  let ?i = "order ! k"
  have k: "k < length order" using Suc.prems by simp
  obtain st where st: "reach P (set (take k order)) st"
    "runOps (mo_Step model) (mo_Init model) (map (opOf H) (take k order)) = Some st" using Suc by auto
  have "?i \<in> ev_Id ` set H" using o(2) k nth_mem by blast
  then obtain a' where a': "a' < length H" "ev_Id (eventAt H a') = ?i" using history_address by (metis imageE)
  obtain a m where "a < length H" "\<not> isReturn H a" "{b. b < length H \<and> ev_Id (eventAt H b) = ?i} = {m, a}"
    using complete_addresses [OF co a'(1)] a'(2) by auto
  then have a: "a < length H" "\<not> isReturn H a" "ev_Id (eventAt H a) = ?i" by auto
  have take: "take (Suc k) order = take k order @ [?i]" by (rule take_Suc_conv_app_nth [OF k])
  have new: "?i \<notin> set (take k order)"
    using o(1) take k by (metis distinct_take distinct_append disjoint_iff list.set_intros(1) ordered_def)
  have choice: "choice P (set (take k order)) a"
    unfolding problem_choice [OF ch P]
  proof (intro conjI allI impI)
    fix b assume b: "a < b" "b < length H" "ev_Id (eventAt H b) \<notin> set (take k order)"
    show "\<not> isReturn H b"
    proof
      assume "isReturn H b"
      then have "returnsBefore H (ev_Id (eventAt H b)) ?i" unfolding returnsBefore_address using a b by blast
      then have "precedes order (ev_Id (eventAt H b)) ?i" using o(1) k by (simp add: ordered_def)
      with o(1) k b(3) precedes_index show False by (metis ordered_def)
    qed
  qed (use a new in simp_all)
  have "map (opOf H) order = map (opOf H) (take k order) @ opOf H ?i # map (opOf H) (drop (Suc k) order)"
    by (metis id_take_nth_drop [OF k] list.simps(9) map_append)
  then obtain st' where step: "mo_Step model st (fst (opOf H ?i)) (snd (opOf H ?i)) = Inr (True, st')"
    using o(3) st(2) by (cases "opOf H ?i") (auto simp: runOps_append split: sum.splits prod.splits bool.splits)
  have "reach P (insert (idOf P a) (set (take k order))) st'"
    by (rule reach_step [OF st(1) choice]) (simp add: problem_step [OF ch P a(1,2)] a(3) step)
  moreover have "runOps (mo_Step model) (mo_Init model) (map (opOf H) (take (Suc k) order)) = Some st'"
    using st(2) step by (cases "opOf H ?i") (simp add: take runOps_append)
  ultimately show ?case using problem_nodes(4) [OF l P a(1)] a(3) by (auto simp: take)
qed

lemma solved_linearizable:
  assumes ch: "checkable N H es" and P: "P = problemOf model es"
  shows "solved P \<longleftrightarrow> linearizable model H"
proof -
  have l: "list_all2 entryOfEvent H es" using ch by (simp add: checkable_def)
  have "idOf P ` {..<length H} = ev_Id ` eventAt H ` {..<length H}"
    using problem_nodes(4) [OF l P] by force
  moreover have "eventAt H ` {..<length H} = set H" using history_address eventAt_set by blast
  ultimately have ids: "allIds P = ev_Id ` set H"
    using problem_nodes(2) [OF l P] by (simp add: allIds_def atLeast0LessThan)
  have rb: "j \<in> ev_Id ` set H" if "returnsBefore H i j" for i j
    using that by (auto simp: returnsBefore_def)
  show ?thesis
  proof
    assume "solved P"
    then obtain st where "reach P (ev_Id ` set H) st" by (auto simp: solved_def ids)
    from reach_order [OF ch P this] rb show "linearizable model H"
      unfolding linearizable_def ordered_def opOf_def by (metis (no_types, lifting) option.distinct(1))
  next
    assume "linearizable model H"
    then obtain order where o: "ordered H order" "set order = ev_Id ` set H"
      "runOps (mo_Step model) (mo_Init model) (map (opOf H) order) \<noteq> None"
      unfolding linearizable_def ordered_def opOf_def by blast
    from order_reach [OF ch P o(1) _ o(3), of "length order"] o(2) show "solved P"
      by (auto simp: solved_def ids)
  qed
qed

section \<open>One partition\<close>

text \<open>The model answers for the calls of the history.\<close>

definition stepsOf :: "('s, 'v) model \<Rightarrow> 'v event list \<Rightarrow> bool" where
  "stepsOf model H \<longleftrightarrow> (\<forall>st. \<forall>i \<in> ev_Id ` set H. \<exists>r. mo_Step model st (valueOf CallEvent H i) (valueOf ReturnEvent H i) = Inr r)"

lemma problem_answers:
  assumes ch: "checkable N H es" and P: "P = problemOf model es" and "stepsOf model H" and "mo_Equal model = Some (=)"
  shows "answers P"
proof -
  have l: "list_all2 entryOfEvent H es" using ch by (simp add: checkable_def)
  note nodes = problem_nodes [OF l P]
  have "\<exists>r. stepAt P st a = Inr r" if "a \<in> set (pb_list P)" "matchOf P a \<noteq> None" for st a
  proof -
    have a: "a < length H" using that(1) nodes(2) by simp
    have nr: "\<not> isReturn H a" using problem_match(1) [OF ch P a] that(2) by auto
    show ?thesis
      using assms(3) eventAt_set [OF a] by (simp add: problem_step [OF ch P a nr] stepsOf_def opOf_def)
  qed
  with nodes(1) assms(4) show ?thesis by (simp add: answers_def)
qed

lemma complete_length:
  assumes "completeHistory H"
  shows "length H = 2 * card (ev_Id ` set H)"
proof -
  let ?n = "length H"
  let ?A = "\<lambda>i. {b. b < ?n \<and> ev_Id (eventAt H b) = i}"
  have two: "card (?A i) = 2" if "i \<in> ev_Id ` set H" for i
  proof -
    from that obtain e where "e \<in> set H" "i = ev_Id e" by blast
    then obtain a where a: "a < ?n" "i = ev_Id (eventAt H a)" using history_address by blast
    from complete_addresses [OF assms this(1)] obtain c m where "m < c" "?A i = {m, c}" unfolding a(2) by blast
    then show ?thesis by simp
  qed
  have "{..<?n} = (\<Union>i \<in> ev_Id ` set H. ?A i)"
    using eventAt_set by blast
  then have "card {..<?n} = card (\<Union>i \<in> ev_Id ` set H. ?A i)" by (rule arg_cong)
  also have "\<dots> = (\<Sum>i \<in> ev_Id ` set H. card (?A i))"
    by (rule card_UN_disjoint) auto
  also have "\<dots> = (\<Sum>i \<in> ev_Id ` set H. 2)" by (rule sum.cong [OF refl two])
  finally show ?thesis by simp
qed

lemma checkSingle_problem:
  assumes "list_all2 entryOfEvent H es" and "P = problemOf model es"
  shows "checkSingle model kill (makeLinkedEntries es) =
    checkLoop (pb_model P) kill (pb_head P) 0 \<lparr>se_heap = pb_heap P, se_entry = firstOr (pb_list P) None,
      se_state = mo_Init (pb_model P), se_linearized = newBitset (of_nat (length H) div 2), se_cache = [], se_calls = []\<rparr>"
proof -
  obtain root h where lk: "makeLinkedEntries es = (root, h)" by (cases "makeLinkedEntries es")
  note inv = makeLinkedEntries_inv [OF lk]
  have len: "length es = length H" using assms(1) by (simp add: list_all2_lengthD)
  have "nodeLength h root 0 = Some (of_nat (length H))"
    using nodeLength_segment [of h None "rev [0..<length es]" 0] inv len by (simp add: linked_def)
  then show ?thesis using lk inv assms(2) by (simp add: checkSingle_def problemOf_def Let_def)
qed

text \<open>The search on a history: it returns, and its answer is right unless it was killed.\<close>

lemma checkSingle_decides:
  assumes l: "list_all2 entryOfEvent H es" and co: "completeHistory H" and steps: "stepsOf model H"
    and eq: "mo_Equal model = Some (=)" and ids: "\<And>e. e \<in> set H \<Longrightarrow> unat (ev_Id e) < length H div 2"
    and len: "length H < 2 ^ 64"
  shows "\<exists>b. checkSingle model kill (makeLinkedEntries es) = Some (Inr b) \<and> (b \<longrightarrow> linearizable model H) \<and>
    (\<not> b \<longrightarrow> \<not> linearizable model H \<or> (\<exists>j. kill j))"
proof -
  define P where "P = problemOf model es"
  let ?N = "length H div 2"
  have ch: "checkable ?N H es" using l co ids len by (auto simp: checkable_def)
  have bits: "unat (of_nat (length H) div 2 :: u64) = ?N"
    using len by (simp add: unat_div unat_of_nat)
  have b: "length (newBitset (of_nat (length H) div 2)) = (?N + 63) div 64"
    using newBitset_length [of "of_nat (length H) div 2"] len by (simp add: bits)
  have e: "idSet (newBitset (of_nat (length H) div 2)) = {}" by (simp add: idSet_def newBitset_empty)
  note c = problem_complete [OF ch P_def]
  from checkLoop_decides [OF c problem_answers [OF ch P_def steps eq] search_starts [OF c e b], of kill 0]
  show ?thesis
    unfolding checkSingle_problem [OF l P_def] solved_linearizable [OF ch P_def] .
qed

end
