(* ===== verification/CheckFacts.thy ===== *)
theory CheckFacts
  imports Linearizability
begin

text \<open>
  The checks of whole histories: renumbering and conversion keep what a history says, and
  \<open>CheckEventsTimeout\<close> gathers the answers of the partitions.
\<close>

section \<open>Renaming the operations of a history\<close>

definition rename :: "(u64 \<Rightarrow> u64) \<Rightarrow> 'v event list \<Rightarrow> 'v event list" where
  "rename f H = map (\<lambda>e. e\<lparr>ev_Id := f (ev_Id e)\<rparr>) H"

definition idsOf :: "'v event list \<Rightarrow> u64 set" where
  "idsOf H = ev_Id ` set H"

lemma rename_simps [simp]:
  "idsOf (rename f H) = f ` idsOf H" "length (rename f H) = length H"
  "p < length H \<Longrightarrow> ev_Kind (rename f H ! p) = ev_Kind (H ! p)"
  "p < length H \<Longrightarrow> ev_Id (rename f H ! p) = f (ev_Id (H ! p))"
  by (simp_all add: rename_def idsOf_def image_image)

lemma nth_idsOf: "p < length H \<Longrightarrow> ev_Id (H ! p) \<in> idsOf H"
  by (simp add: idsOf_def)

lemma rename_back:
  assumes "inj_on f (idsOf H)"
  shows "rename (inv_into (idsOf H) f) (rename f H) = H"
proof -
  have "inv_into (idsOf H) f (f (ev_Id e)) = ev_Id e" if "e \<in> set H" for e
    using assms that by (intro inv_into_f_f) (simp_all add: idsOf_def)
  then have "map (\<lambda>e. e\<lparr>ev_Id := inv_into (idsOf H) f (f (ev_Id e))\<rparr>) H = map (\<lambda>e. e) H"
    by (intro map_cong refl) simp
  then show ?thesis by (simp add: rename_def comp_def)
qed

lemma rename_complete:
  assumes "completeHistory H" and inj: "inj_on f (idsOf H)"
  shows "completeHistory (rename f H)"
  unfolding completeHistory_def
proof
  fix k
  show "map ev_Kind (filter (\<lambda>e. ev_Id e = k) (rename f H)) \<in> {[], [CallEvent, ReturnEvent]}"
  proof (cases "k \<in> f ` idsOf H")
    case True
    then obtain i where i: "i \<in> idsOf H" "k = f i" by blast
    have "filter (\<lambda>e. f (ev_Id e) = k) H = filter (\<lambda>e. ev_Id e = i) H"
      by (rule filter_cong) (use inj i in \<open>auto simp: idsOf_def inj_on_eq_iff\<close>)
    then have "map ev_Kind (filter (\<lambda>e. ev_Id e = k) (rename f H)) = map ev_Kind (filter (\<lambda>e. ev_Id e = i) H)"
      by (simp add: rename_def filter_map comp_def)
    with assms(1) show ?thesis by (simp add: completeHistory_def)
  next
    case False
    then have "filter (\<lambda>e. ev_Id e = k) (rename f H) = []"
      by (auto simp: filter_empty_conv rename_def idsOf_def)
    then show ?thesis by simp
  qed
qed

lemma find_map_option: "find Q (map g xs) = map_option g (find (Q \<circ> g) xs)"
  by (induction xs) simp_all

lemma find_cong: "(\<And>x. x \<in> set xs \<Longrightarrow> Q x = R x) \<Longrightarrow> find Q xs = find R xs"
  by (induction xs) simp_all

lemma rename_valueOf:
  assumes "inj_on f (idsOf H)" and "i \<in> idsOf H"
  shows "valueOf k (rename f H) (f i) = valueOf k H i"
proof -
  have "find (\<lambda>e. f (ev_Id e) = f i \<and> ev_Kind e = k) H = find (\<lambda>e. ev_Id e = i \<and> ev_Kind e = k) H"
    by (rule find_cong) (use assms in \<open>auto simp: idsOf_def inj_on_eq_iff\<close>)
  then show ?thesis
    by (simp add: valueOf_def rename_def find_map_option comp_def split: option.split)
qed

lemma rename_steps:
  assumes "stepsOf model H" and "inj_on f (idsOf H)"
  shows "stepsOf model (rename f H)"
  unfolding stepsOf_def idsOf_def [symmetric]
proof (intro allI ballI)
  fix st j assume "j \<in> idsOf (rename f H)"
  then obtain i where "i \<in> idsOf H" "j = f i" by auto
  with assms show "\<exists>r. mo_Step model st (valueOf CallEvent (rename f H) j) (valueOf ReturnEvent (rename f H) j) = Inr r"
    by (auto simp: rename_valueOf stepsOf_def idsOf_def)
qed

lemma precedes_map: "precedes xs a b \<Longrightarrow> precedes (map f xs) (f a) (f b)"
  by (force simp: precedes_def)

lemma linearizable_order:
  "linearizable model H \<longleftrightarrow> (\<exists>order. distinct order \<and> set order = idsOf H \<and>
     (\<forall>i j. returnsBefore H i j \<longrightarrow> precedes order i j) \<and>
     runOps (mo_Step model) (mo_Init model) (map (opOf H) order) \<noteq> None)"
  by (simp add: linearizable_def idsOf_def opOf_def [abs_def])

lemma rename_linearizable_imp:
  assumes inj: "inj_on f (idsOf H)" and lin: "linearizable model H"
  shows "linearizable model (rename f H)"
proof -
  obtain order where o: "distinct order" "set order = idsOf H"
    and before: "\<And>i j. returnsBefore H i j \<Longrightarrow> precedes order i j"
    and run: "runOps (mo_Step model) (mo_Init model) (map (opOf H) order) \<noteq> None"
    using lin unfolding linearizable_order by blast
  have ops: "map (opOf (rename f H) \<circ> f) order = map (opOf H) order"
    using o(2) by (intro map_cong refl) (simp add: opOf_def rename_valueOf [OF inj])
  have run': "runOps (mo_Step model) (mo_Init model) (map (opOf (rename f H)) (map f order)) \<noteq> None"
    unfolding map_map ops by (rule run)
  have "precedes (map f order) i j" if rb: "returnsBefore (rename f H) i j" for i j
  proof -
    obtain p q where pq: "p < q" "q < length H" and r: "ev_Kind (rename f H ! p) = ReturnEvent" "ev_Id (rename f H ! p) = i"
      "ev_Kind (rename f H ! q) = CallEvent" "ev_Id (rename f H ! q) = j"
      using rb unfolding returnsBefore_def rename_simps(2) by blast
    have "p < length H" using pq by simp
    with pq(2) r have p: "ev_Kind (H ! p) = ReturnEvent" "f (ev_Id (H ! p)) = i"
      "ev_Kind (H ! q) = CallEvent" "f (ev_Id (H ! q)) = j" by simp_all
    have "returnsBefore H (ev_Id (H ! p)) (ev_Id (H ! q))" unfolding returnsBefore_def using p pq by blast
    from precedes_map [OF before [OF this], of f] p show ?thesis by simp
  qed
  moreover have "distinct (map f order)" using o inj by (simp add: distinct_map)
  moreover have "set (map f order) = idsOf (rename f H)" using o(2) by simp
  ultimately show ?thesis using run' unfolding linearizable_order by blast
qed

lemma rename_linearizable:
  assumes inj: "inj_on f (idsOf H)"
  shows "linearizable model (rename f H) \<longleftrightarrow> linearizable model H"
proof
  assume "linearizable model (rename f H)"
  moreover have "inj_on (inv_into (idsOf H) f) (idsOf (rename f H))"
    by (simp add: inj_on_inv_into)
  ultimately have "linearizable model (rename (inv_into (idsOf H) f) (rename f H))"
    by (rule rename_linearizable_imp [rotated])
  then show "linearizable model H" by (simp add: rename_back [OF inj])
qed (rule rename_linearizable_imp [OF inj])

section \<open>Renumbering\<close>

definition numbered :: "(u64, u64) gomap \<Rightarrow> nat \<Rightarrow> bool" where
  "numbered m n \<longleftrightarrow> (\<forall>i r. mget m i = Some r \<longrightarrow> unat r < n) \<and> inj_on (mget m) (dom (mget m)) \<and> card (dom (mget m)) = n"

lemma numbered_put:
  assumes "numbered m n" and "mget m i = None" and "n < 2 ^ 64"
  shows "numbered (mput i (of_nat n) m) (Suc n)"
proof -
  have n: "unat (of_nat n :: u64) = n" using assms(3) by (simp add: unat_of_nat)
  have "inj_on (mget (mput i (of_nat n) m)) (dom (mget (mput i (of_nat n) m)))"
  proof (rule inj_onI)
    fix a b assume ab: "a \<in> dom (mget (mput i (of_nat n) m))" "b \<in> dom (mget (mput i (of_nat n) m))"
      "mget (mput i (of_nat n) m) a = mget (mput i (of_nat n) m) b"
    have old: "mget m k \<noteq> Some (of_nat n)" for k
      using assms(1) n unfolding numbered_def by (metis less_irrefl)
    have "inj_on (mget m) (dom (mget m))" using assms(1) by (simp add: numbered_def)
    with ab old show "a = b" by (auto simp: gomap_simps dom_def inj_on_def split: if_splits)
  qed
  moreover have "dom (mget (mput i (of_nat n) m)) = insert i (dom (mget m))" by (auto simp: gomap_simps dom_def)
  ultimately show ?thesis
    using assms n finite_dom_map_of [of m] by (auto simp: numbered_def gomap_simps domIff less_SucI split: if_splits)
qed

lemma renumberFrom_rename:
  "numbered m n \<Longrightarrow> n + length events < 2 ^ 64 \<Longrightarrow>
    \<exists>m' n'. renumberFrom m (of_nat n) events = rename (\<lambda>i. the (mget m' i)) events \<and> numbered m' n' \<and>
      (\<forall>i. mget m i \<noteq> None \<longrightarrow> mget m' i = mget m i) \<and> dom (mget m') = dom (mget m) \<union> idsOf events"
proof (induction events arbitrary: m n)
  case Nil
  then show ?case by (intro exI [of _ m] exI [of _ n]) (simp add: rename_def idsOf_def)
next
  case (Cons v events)
  show ?case
  proof (cases "mget m (ev_Id v)")
    case None
    let ?m = "mput (ev_Id v) (of_nat n) m"
    have "numbered ?m (Suc n)" by (rule numbered_put [OF Cons.prems(1) None]) (use Cons.prems(2) in simp)
    from Cons.IH [OF this] Cons.prems(2) obtain m' n' where IH:
      "renumberFrom ?m (of_nat (Suc n)) events = rename (\<lambda>i. the (mget m' i)) events" "numbered m' n'"
      "\<And>i. mget ?m i \<noteq> None \<Longrightarrow> mget m' i = mget ?m i" "dom (mget m') = dom (mget ?m) \<union> idsOf events" by auto
    moreover have "mget m' (ev_Id v) = Some (of_nat n)" using IH(3) [of "ev_Id v"] by (simp add: gomap_simps)
    moreover have "dom (mget ?m) = insert (ev_Id v) (dom (mget m))" by (auto simp: gomap_simps dom_def)
    ultimately show ?thesis
      using None by (intro exI [of _ m'] exI [of _ n']) (auto simp: rename_def idsOf_def gomap_simps add.commute split: if_splits)
  next
    case (Some r)
    from Cons.IH [OF Cons.prems(1)] Cons.prems(2) obtain m' n' where IH:
      "renumberFrom m (of_nat n) events = rename (\<lambda>i. the (mget m' i)) events" "numbered m' n'"
      "\<And>i. mget m i \<noteq> None \<Longrightarrow> mget m' i = mget m i" "dom (mget m') = dom (mget m) \<union> idsOf events" by auto
    with Some show ?thesis
      by (intro exI [of _ m'] exI [of _ n']) (auto simp: rename_def idsOf_def domIff)
  qed
qed

lemma renumber_rename:
  assumes "length H < 2 ^ 64"
  obtains f where "renumber H = rename f H" "inj_on f (idsOf H)" "\<And>i. i \<in> idsOf H \<Longrightarrow> unat (f i) < card (idsOf H)"
proof -
  have "numbered [] 0" by (simp add: numbered_def)
  from renumberFrom_rename [OF this, of H] assms obtain m n where m: "renumber H = rename (\<lambda>i. the (mget m i)) H"
    "numbered m n" "dom (mget m) = idsOf H" by (auto simp: renumber_def)
  show thesis
  proof
    show "renumber H = rename (\<lambda>i. the (mget m i)) H" by (rule m(1))
    show "inj_on (\<lambda>i. the (mget m i)) (idsOf H)"
      using m(2) unfolding m(3) [symmetric] by (auto simp: numbered_def inj_on_def dom_def)
    show "unat (the (mget m i)) < card (idsOf H)" if "i \<in> idsOf H" for i
      using that m(2) unfolding m(3) [symmetric] by (auto simp: numbered_def dom_def)
  qed
qed

section \<open>The partitions of a history\<close>

text \<open>A model that compares states by equality, or leaves it to \<^verbatim>\<open>fillDefault\<close>.\<close>

definition plainEqual :: "('s, 'v) model \<Rightarrow> bool" where
  "plainEqual model \<longleftrightarrow> mo_Equal model = None \<or> mo_Equal model = Some (=)"

definition partitionsOf :: "('s, 'v) model \<Rightarrow> 'v event list \<Rightarrow> 'v event list list" where
  "partitionsOf model H = the (mo_PartitionEvent (fillDefault model)) H"

lemma fillDefault_simps:
  "mo_Init (fillDefault model) = mo_Init model" "mo_Step (fillDefault model) = mo_Step model"
  "plainEqual model \<Longrightarrow> mo_Equal (fillDefault model) = Some (=)"
  by (auto simp: fillDefault_def Let_def plainEqual_def ShallowEqual_def fun_eq_iff)

lemma fillDefault_history:
  "linearizable (fillDefault model) H = linearizable model H" "stepsOf (fillDefault model) H = stepsOf model H"
  by (simp_all add: linearizable_def stepsOf_def fillDefault_simps)

lemma convert_entries: "list_all2 entryOfEvent H (convertEntries H)"
  by (simp add: convertEntries_def list_all2_conv_all_nth entryOfEvent_def)

text \<open>What the checks ask of a partition.\<close>

definition fit :: "('s, 'v) model \<Rightarrow> 'v event list \<Rightarrow> bool" where
  "fit model H \<longleftrightarrow> completeHistory H \<and> stepsOf model H \<and> length H < 2 ^ 64"

lemma partition_decides:
  assumes "fit model H" and "plainEqual model"
  shows "\<exists>b. checkSingle (fillDefault model) kill (makeLinkedEntries (convertEntries (renumber H))) = Some (Inr b) \<and>
    (b \<longrightarrow> linearizable model H) \<and> (\<not> b \<longrightarrow> \<not> linearizable model H \<or> (\<exists>j. kill j))"
proof -
  have H: "completeHistory H" "stepsOf (fillDefault model) H" "length H < 2 ^ 64"
    using assms(1) by (simp_all add: fit_def fillDefault_history)
  obtain f where f: "renumber H = rename f H" "inj_on f (idsOf H)" "\<And>i. i \<in> idsOf H \<Longrightarrow> unat (f i) < card (idsOf H)"
    using renumber_rename [OF H(3)] by blast
  have "card (idsOf H) = length H div 2" using complete_length [OF H(1)] by (simp add: idsOf_def)
  then have "unat (ev_Id e) < length (rename f H) div 2" if "e \<in> set (rename f H)" for e
  proof -
    have "ev_Id e \<in> f ` idsOf H" using that rename_simps(1) [of f H] by (auto simp: idsOf_def)
    with f(3) \<open>card (idsOf H) = length H div 2\<close> show ?thesis by auto
  qed
  from checkSingle_decides [OF convert_entries rename_complete [OF H(1) f(2)] rename_steps [OF H(2) f(2)]
    fillDefault_simps(3) [OF assms(2)] this, of kill] H(3)
  show ?thesis unfolding f(1) rename_linearizable [OF f(2)] fillDefault_history by simp
qed

lemma collect_answers:
  assumes "\<And>i. i \<in> set is \<Longrightarrow> result i = Some (Inr (ok i))" and "is \<noteq> []" and "cnt + length is = n"
  shows "collect result n cnt (map PartitionResult is) = Some (Inr (\<forall>i \<in> set is. ok i))"
  using assms
proof (induction "is" arbitrary: cnt)
  case (Cons i "is")
  show ?case
  proof (cases "is = []")
    case True
    with Cons.prems show ?thesis by auto
  next
    case False
    with Cons.IH [of "Suc cnt"] Cons.prems show ?thesis by (cases "is") auto
  qed
qed simp

lemma collect_false:
  "collect result n cnt arrivals = Some (Inr False) \<Longrightarrow> \<exists>i. PartitionResult i \<in> set arrivals \<and> result i = Some (Inr False)"
  by (induction result n cnt arrivals rule: collect.induct) (auto split: option.splits sum.splits if_splits)

lemma unkilled: "\<not> notKilled j"
  by (simp add: notKilled_def)

lemma partition_answer:
  assumes "fit model H" and "plainEqual model"
  shows "checkSingle (fillDefault model) notKilled (makeLinkedEntries (convertEntries (renumber H))) = Some (Inr (linearizable model H))"
  using partition_decides [OF assms, of notKilled] unkilled by auto

text \<open>
  C15. One partition: whatever the search reads from the flag that other goroutines set, it returns
  without a panic; yes means the partition is linearizable, and no means it is not, unless the flag
  was set. The history must be complete and the model's step must not panic on its values.
\<close>

theorem partition_check_returns:
  assumes "completeHistory H" and "stepsOf model H" and "length H < 2 ^ 64" and "plainEqual model"
  shows "\<exists>b. checkSingle (fillDefault model) kill (makeLinkedEntries (convertEntries (renumber H))) = Some (Inr b) \<and>
    (b \<longrightarrow> linearizable model H) \<and> (\<not> b \<longrightarrow> \<not> linearizable model H \<or> (\<exists>j. kill j))"
  using assms by (intro partition_decides) (simp_all add: fit_def)

text \<open>
  C5. \<^verbatim>\<open>CheckEventsTimeout\<close> is right on complete histories: when every call of every partition has its
  return, the model's step does not panic on their values, and its states are compared by plain
  equality, then, when the result of every partition arrives, in any order, and no timeout before
  them, it answers whether every partition of the history is linearizable. A history without a
  partition gets no answer: the loop counts results only, and waits for the timeout.
\<close>

theorem events_check_decides:
  assumes "\<And>p. p \<in> set (partitionsOf model H) \<Longrightarrow> fit model p" and "plainEqual model"
    and "mset arrivals = mset (map PartitionResult [0..<length (partitionsOf model H)])"
  shows "CheckEventsTimeout model arrivals H = (if partitionsOf model H = [] then None
    else Some (Inr (\<forall>p \<in> set (partitionsOf model H). linearizable model p)))"
proof (cases "partitionsOf model H = []")
  case True
  with assms(3) show ?thesis
    by (simp add: CheckEventsTimeout_def Let_def partitionsOf_def [symmetric])
next
  case some: False
  let ?n = "length (partitionsOf model H)"
  define indices where "indices = map (\<lambda>a. case a of PartitionResult i \<Rightarrow> i | TimedOut \<Rightarrow> 0) arrivals"
  have "set arrivals = PartitionResult ` {..<?n}"
    using mset_eq_setD [OF assms(3)] by (auto simp: atLeast0LessThan)
  then have "arrivals = map PartitionResult indices"
    unfolding indices_def map_map by (intro map_idI [symmetric]) auto
  moreover from this have "PartitionResult ` set indices = PartitionResult ` {..<?n}"
    using \<open>set arrivals = PartitionResult ` {..<?n}\<close> by simp
  moreover have "inj PartitionResult" by (simp add: inj_def)
  ultimately have i: "arrivals = map PartitionResult indices" "set indices = {..<?n}"
    by (simp_all add: inj_image_eq_iff)
  have "size (mset arrivals) = size (mset (map PartitionResult [0..<?n]))" using assms(3) by (rule arg_cong)
  then have len: "length indices = ?n" by (simp add: i(1))
  have "indices \<noteq> []" using len some by auto
  moreover have "checkSingle (fillDefault model) notKilled (makeLinkedEntries (convertEntries (renumber (partitionsOf model H ! i)))) =
    Some (Inr (linearizable model (partitionsOf model H ! i)))" if "i \<in> set indices" for i
    by (rule partition_answer [OF assms(1,2)]) (use that i(2) in simp)
  ultimately have "CheckEventsTimeout model arrivals H = Some (Inr (\<forall>i \<in> set indices. linearizable model (partitionsOf model H ! i)))"
    using len unfolding CheckEventsTimeout_def Let_def partitionsOf_def [symmetric] i(1) by (intro collect_answers) simp_all
  moreover have "(\<forall>p \<in> set (partitionsOf model H). linearizable model p) =
      (\<forall>i \<in> {..<?n}. linearizable model (partitionsOf model H ! i))"
    by (auto simp: all_set_conv_all_nth)
  ultimately show ?thesis using some by (simp only: i(2) if_False)
qed

text \<open>
  C16. No false alarm on complete histories: let every call of every partition have its return, the
  model's step not panic on their values, and its states be compared by plain equality. When
  \<^verbatim>\<open>CheckEventsTimeout\<close> answers no, with or without a timeout and whichever results arrived, some
  partition is not linearizable. Histories with a pending call are outside of this: the search
  takes such a call for a return that it cannot pass.
\<close>

theorem events_check_no_false_alarm:
  assumes "CheckEventsTimeout model arrivals H = Some (Inr False)"
    and "\<And>p. p \<in> set (partitionsOf model H) \<Longrightarrow> fit model p" and "plainEqual model"
    and "\<And>i. PartitionResult i \<in> set arrivals \<Longrightarrow> i < length (partitionsOf model H)"
  shows "\<exists>p \<in> set (partitionsOf model H). \<not> linearizable model p"
proof -
  obtain i where i: "PartitionResult i \<in> set arrivals"
    "checkSingle (fillDefault model) notKilled (makeLinkedEntries (convertEntries (renumber (partitionsOf model H ! i)))) = Some (Inr False)"
    using collect_false assms(1) unfolding CheckEventsTimeout_def Let_def partitionsOf_def [symmetric] by blast
  have "partitionsOf model H ! i \<in> set (partitionsOf model H)" using assms(4) [OF i(1)] by simp
  moreover from partition_answer [OF assms(2) [OF this] assms(3)] i(2) have "\<not> linearizable model (partitionsOf model H ! i)" by simp
  ultimately show ?thesis by blast
qed

end
