(* ===== verification/EtcdModel.thy ===== *)
theory EtcdModel
  imports CheckFacts Decimal
begin

text \<open>
  The model the monkey tests check against, a register with reads, writes and compare-and-set, and
  the reader of their logs (\<^verbatim>\<open>lcm/porcupine/etcd.go\<close>). A Go \<^verbatim>\<open>int\<close> is only compared and stored here:
  it is an \<open>int\<close>. The values of the history are the two structs.
\<close>

section \<open>The register\<close>

record etcdInput =
  ei_op :: "8 word"
  ei_arg1 :: int
  ei_arg2 :: int

record etcdOutput =
  eo_ok :: bool
  eo_exists :: bool
  eo_value :: int
  eo_unknown :: bool

datatype etcdValue = EtcdInput etcdInput | EtcdOutput etcdOutput

definition noOutput :: etcdOutput where
  "noOutput = \<lparr>eo_ok = False, eo_exists = False, eo_value = 0, eo_unknown = False\<rparr>"

definition nilState :: int where
  "nilState = - 1000000"

text \<open>The conversions \<^verbatim>\<open>input.(etcdInput)\<close> and \<^verbatim>\<open>output.(etcdOutput)\<close> panic on other values.\<close>

definition asInput :: "etcdValue any \<Rightarrow> etcdInput go" where
  "asInput v = (case v of Some (EtcdInput i) \<Rightarrow> Inr i | _ \<Rightarrow> panic TypeAssertion)"

definition asOutput :: "etcdValue any \<Rightarrow> etcdOutput go" where
  "asOutput v = (case v of Some (EtcdOutput r) \<Rightarrow> Inr r | _ \<Rightarrow> panic TypeAssertion)"

definition etcdStep :: "int \<Rightarrow> etcdValue any \<Rightarrow> etcdValue any \<Rightarrow> (bool \<times> int) go" where
  "etcdStep st input out0 =
     goThen (asInput input) (\<lambda>inp. goThen (asOutput out0) (\<lambda>out.
       (if ei_op inp = 0 then
          Inr ((\<not> eo_exists out \<and> st = nilState) \<or> (eo_exists out \<and> st = eo_value out) \<or> eo_unknown out, st)
        else if ei_op inp = 1 then Inr (True, ei_arg1 inp)
        else
          (let ok = (ei_arg1 inp = st \<and> eo_ok out) \<or> (ei_arg1 inp \<noteq> st \<and> \<not> eo_ok out) \<or> eo_unknown out;
               result = (if ei_arg1 inp = st then ei_arg2 inp else st)
           in Inr (ok, result)))))"

definition getEtcdModel :: "(int, etcdValue) model" where
  "getEtcdModel = \<lparr>mo_Partition = None, mo_PartitionEvent = None, mo_Init = nilState, mo_Step = etcdStep,
     mo_Equal = None\<rparr>"

section \<open>The lines of a log\<close>

text \<open>
  The regular expressions, anchored on both sides: literal text, \<^verbatim>\<open>\s+\<close>, and the groups \<^verbatim>\<open>(\d+)\<close>,
  \<^verbatim>\<open>(nil|\d+)\<close> and \<^verbatim>\<open>(ok|fail)\<close>. No piece starts with a character the repeated one before it takes,
  so the longest run is the only match. The result lists the groups.
\<close>

datatype piece = Lit string | Blanks | Digits | NilOrDigits | OkOrFail

definition isBlank :: "char \<Rightarrow> bool" where
  "isBlank c \<longleftrightarrow> (of_char c :: nat) \<in> {9, 10, 12, 13, 32}"

definition isDigit :: "char \<Rightarrow> bool" where
  "isDigit c \<longleftrightarrow> digitOf c \<noteq> None"

fun after :: "string \<Rightarrow> string \<Rightarrow> string option" where
  "after [] s = Some s"
| "after (a # p) [] = None"
| "after (a # p) (c # s) = (if a = c then after p s else None)"

function matchPieces :: "piece list \<Rightarrow> string \<Rightarrow> string list option" where
  "matchPieces [] s = (if s = [] then Some [] else None)"
| "matchPieces (Lit p # ps) s = (case after p s of None \<Rightarrow> None | Some r \<Rightarrow> matchPieces ps r)"
| "matchPieces (Blanks # ps) s = (if takeWhile isBlank s = [] then None else matchPieces ps (dropWhile isBlank s))"
| "matchPieces (Digits # ps) s =
     (if takeWhile isDigit s = [] then None
      else map_option ((#) (takeWhile isDigit s)) (matchPieces ps (dropWhile isDigit s)))"
| "matchPieces (NilOrDigits # ps) s =
     (case after ''nil'' s of
        Some r \<Rightarrow> map_option ((#) ''nil'') (matchPieces ps r)
      | None \<Rightarrow> matchPieces (Digits # ps) s)"
| "matchPieces (OkOrFail # ps) s =
     (case after ''ok'' s of
        Some r \<Rightarrow> map_option ((#) ''ok'') (matchPieces ps r)
      | None \<Rightarrow> (case after ''fail'' s of
            Some r \<Rightarrow> map_option ((#) ''fail'') (matchPieces ps r)
          | None \<Rightarrow> None))"
  by pat_completeness auto

termination matchPieces
  by (relation "measures [\<lambda>(ps, s). length ps, \<lambda>(ps, s). length (filter ((=) NilOrDigits) ps)]") auto

definition linePrefix :: "piece list" where
  "linePrefix = [Lit ''INFO'', Blanks, Lit ''jepsen.util'', Blanks, Lit ''-'', Blanks, Digits, Blanks]"

definition invokeRead :: "piece list" where
  "invokeRead = linePrefix @ [Lit '':invoke'', Blanks, Lit '':read'', Blanks, Lit ''nil'']"

definition invokeWrite :: "piece list" where
  "invokeWrite = linePrefix @ [Lit '':invoke'', Blanks, Lit '':write'', Blanks, Digits]"

definition invokeCas :: "piece list" where
  "invokeCas = linePrefix @ [Lit '':invoke'', Blanks, Lit '':cas'', Blanks, Lit ''['', Digits, Blanks, Digits, Lit '']'']"

definition returnRead :: "piece list" where
  "returnRead = linePrefix @ [Lit '':ok'', Blanks, Lit '':read'', Blanks, NilOrDigits]"

definition returnWrite :: "piece list" where
  "returnWrite = linePrefix @ [Lit '':ok'', Blanks, Lit '':write'', Blanks, Digits]"

definition returnCas :: "piece list" where
  "returnCas = linePrefix @ [Lit '':'', OkOrFail, Blanks, Lit '':cas'', Blanks, Lit ''['', Digits, Blanks, Digits, Lit '']'']"

definition timeoutRead :: "piece list" where
  "timeoutRead = linePrefix @ [Lit '':fail'', Blanks, Lit '':read'', Blanks, Lit '':timed-out'']"

section \<open>The history of a log\<close>

record logReader =
  lr_events :: "etcdValue event list"
  lr_id :: u64
  lr_procIdMap :: "(int, u64) gomap"

definition callOf :: "string \<Rightarrow> etcdInput \<Rightarrow> logReader \<Rightarrow> logReader" where
  "callOf proc inp r =
     r\<lparr>lr_events := lr_events r @ [\<lparr>ev_Kind = CallEvent, ev_Value = Some (EtcdInput inp), ev_Id = lr_id r\<rparr>],
       lr_procIdMap := mput (atoiDigits proc) (lr_id r) (lr_procIdMap r), lr_id := lr_id r + 1\<rparr>"

definition returnOf :: "string \<Rightarrow> etcdOutput \<Rightarrow> logReader \<Rightarrow> logReader" where
  "returnOf proc out r =
     (let matchId = (case mget (lr_procIdMap r) (atoiDigits proc) of None \<Rightarrow> 0 | Some i \<Rightarrow> i)
      in r\<lparr>lr_procIdMap := mdel (atoiDigits proc) (lr_procIdMap r),
           lr_events := lr_events r @ [\<lparr>ev_Kind = ReturnEvent, ev_Value = Some (EtcdOutput out), ev_Id = matchId\<rparr>]\<rparr>)"

text \<open>The \<^verbatim>\<open>switch\<close>; lines no case matches are skipped. \<open>args ! k\<close> is \<^verbatim>\<open>args[k + 1]\<close>.\<close>

definition parseLine :: "string \<Rightarrow> logReader \<Rightarrow> logReader" where
  "parseLine line r =
     (case matchPieces invokeRead line of
        Some args \<Rightarrow> callOf (args ! 0) \<lparr>ei_op = 0, ei_arg1 = 0, ei_arg2 = 0\<rparr> r
      | None \<Rightarrow>
     (case matchPieces invokeWrite line of
        Some args \<Rightarrow> callOf (args ! 0) \<lparr>ei_op = 1, ei_arg1 = atoiDigits (args ! 1), ei_arg2 = 0\<rparr> r
      | None \<Rightarrow>
     (case matchPieces invokeCas line of
        Some args \<Rightarrow> callOf (args ! 0) \<lparr>ei_op = 2, ei_arg1 = atoiDigits (args ! 1), ei_arg2 = atoiDigits (args ! 2)\<rparr> r
      | None \<Rightarrow>
     (case matchPieces returnRead line of
        Some args \<Rightarrow>
          (if args ! 1 \<noteq> ''nil''
           then returnOf (args ! 0) (noOutput\<lparr>eo_exists := True, eo_value := atoiDigits (args ! 1)\<rparr>) r
           else returnOf (args ! 0) noOutput r)
      | None \<Rightarrow>
     (case matchPieces returnWrite line of
        Some args \<Rightarrow> returnOf (args ! 0) noOutput r
      | None \<Rightarrow>
     (case matchPieces returnCas line of
        Some args \<Rightarrow> returnOf (args ! 0) (noOutput\<lparr>eo_ok := args ! 1 = ''ok''\<rparr>) r
      | None \<Rightarrow>
     (case matchPieces timeoutRead line of
        Some args \<Rightarrow> returnOf (args ! 0) (noOutput\<lparr>eo_unknown := True\<rparr>) r
      | None \<Rightarrow> r)))))))"

text \<open>
  \<^verbatim>\<open>bufio.Reader.ReadLine\<close> with its buffer of 4096 bytes: a line without its end, \<^verbatim>\<open>\n\<close> or \<^verbatim>\<open>\r\n\<close>, or
  a prefix of a line that fills the buffer. \<open>None\<close> is \<^verbatim>\<open>io.EOF\<close>.
\<close>

definition newline :: char where
  "newline = char_of (10 :: nat)"

definition dropReturn :: "string \<Rightarrow> string" where
  "dropReturn s = (if s \<noteq> [] \<and> last s = char_of (13 :: nat) then butlast s else s)"

definition readLine :: "string \<Rightarrow> (string \<times> string) option go" where
  "readLine s =
     (if s = [] then Inr None
      else
        (let line = takeWhile (\<lambda>c. c \<noteq> newline) s; rest = dropWhile (\<lambda>c. c \<noteq> newline) s in
         if length line \<ge> 4096 then panic LineTooLong
         else case rest of
             [] \<Rightarrow> Inr (Some (line, []))
           | _ # rest' \<Rightarrow> Inr (Some (dropReturn line, rest'))))"

lemma readLine_shorter:
  assumes "readLine s = Inr (Some (line, rest))"
  shows "length rest < length s"
proof -
  let ?rest = "dropWhile (\<lambda>c. c \<noteq> newline) s"
  have "rest = [] \<and> s \<noteq> [] \<or> (\<exists>c. ?rest = c # rest)"
    using assms by (auto simp: readLine_def Let_def panic_def split: if_splits list.splits)
  moreover have "length ?rest \<le> length s" by (rule length_dropWhile_le)
  ultimately show ?thesis by auto
qed

function readLog :: "string \<Rightarrow> logReader \<Rightarrow> logReader go" where
  "readLog s r =
     (case readLine s of
        Inl e \<Rightarrow> Inl e
      | Inr None \<Rightarrow> Inr r
      | Inr (Some (line, rest)) \<Rightarrow> readLog rest (parseLine line r))"
  by auto

termination readLog
  by (relation "measure (\<lambda>(s, r). length s)") (auto dest: readLine_shorter)

declare readLog.simps [simp del]

text \<open>
  The whole reader, of the contents of the file, \<open>None\<close> when it cannot be opened. \<open>visit\<close> is the
  order in which the last loop visits the map.
\<close>

definition parseJepsenLog :: "((int \<times> u64) list \<Rightarrow> (int \<times> u64) list) \<Rightarrow> string option \<Rightarrow> etcdValue event list go" where
  "parseJepsenLog visit file =
     (case file of
        None \<Rightarrow> panic CannotOpenFile
      | Some s \<Rightarrow>
          goThen (readLog s \<lparr>lr_events = [], lr_id = 0, lr_procIdMap = []\<rparr>) (\<lambda>r.
            Inr (lr_events r @ map (\<lambda>p. \<lparr>ev_Kind = ReturnEvent,
              ev_Value = Some (EtcdOutput (noOutput\<lparr>eo_unknown := True\<rparr>)), ev_Id = snd p\<rparr>) (visit (lr_procIdMap r)))))"

section \<open>The command\<close>

text \<open>
  \<^verbatim>\<open>lcm/checker/main.go\<close>: \<open>file\<close> is the contents of the file at the path \<open>fp\<close>, \<open>arrivals\<close> what the
  checker's goroutines and its timer deliver. A violation is a panic; \<open>None\<close> is a wait without end.
\<close>

definition checkerMain :: "((int \<times> u64) list \<Rightarrow> (int \<times> u64) list) \<Rightarrow> arrival list \<Rightarrow> string \<Rightarrow> string option
    \<Rightarrow> unit go option" where
  "checkerMain visit arrivals fp file =
     (if length fp = 0 then Some (panic PathNotSet)
      else case parseJepsenLog visit file of
             Inl e \<Rightarrow> Some (Inl e)
           | Inr events \<Rightarrow>
               (case CheckEventsTimeout getEtcdModel arrivals events of
                  None \<Rightarrow> None
                | Some (Inl e) \<Rightarrow> Some (Inl e)
                | Some (Inr ok) \<Rightarrow> (if \<not> ok then Some (panic ViolationFound) else Some (Inr ()))))"

end
