(* ===== verification/Coordinator.thy ===== *)
theory Coordinator
  imports Decimal KVCodec NodehostAPI Agent
begin

text \<open>
  The manager of the linearizability tests (\<^verbatim>\<open>lcm/manager.go\<close>, \<^verbatim>\<open>lcm/process.go\<close>): processes that
  read and write one key of a shard, the log of what they did, and the coordinator that starts
  their operations. The flags of a process are \<^verbatim>\<open>uint32\<close>s that are 0 or 1, Booleans here.
\<close>

section \<open>Log entries\<close>

definition eventInvoked :: u64 where "eventInvoked = 0"

definition eventCompleted :: u64 where "eventCompleted = 1"

definition eventFailed :: u64 where "eventFailed = 2"

definition eventTypeRead :: u64 where "eventTypeRead = 0"

definition eventTypeWrite :: u64 where "eventTypeWrite = 1"

record lcmEvent =
  le_eventType :: u64
  le_eventResult :: u64
  le_id :: u64
  le_value :: u64

definition stringValue :: "lcmEvent \<Rightarrow> string" where
  "stringValue e = (if le_value e = - 1 then ''nil'' else FormatUint (le_value e))"

definition toEDNLogEntry :: "lcmEvent \<Rightarrow> string go" where
  "toEDNLogEntry e =
     (let f = (if le_eventType e = eventTypeRead then ''read'' else ''write'') in
      goThen
        (if le_eventResult e = eventInvoked then Inr ''invoke''
         else if le_eventResult e = eventFailed then
           (if le_eventType e = eventTypeWrite then Inr ''info'' else Inr ''fail'')
         else if le_eventResult e = eventCompleted then Inr ''ok''
         else panic UnknownEventResult) (\<lambda>t.
      goThen
        (if le_eventType e = eventTypeRead then
           (if le_eventResult e = eventInvoked then Inr ''nil''
            else if le_eventResult e = eventFailed then Inr ''nil''
            else if le_eventResult e = eventCompleted then Inr (stringValue e)
            else panic UnknownEventResult)
         else if le_eventType e = eventTypeWrite then
           (if le_eventResult e = eventInvoked then Inr (stringValue e)
            else if le_eventResult e = eventFailed then Inr (stringValue e)
            else if le_eventResult e = eventCompleted then Inr (stringValue e)
            else panic UnknownEventResult)
         else panic UnknownEventResult) (\<lambda>v.
      Inr (''{:process '' @ FormatUint (le_id e) @ '', :type :'' @ t @ '', :f :'' @ f @ '', :value '' @ v @ ''}''))))"

definition toJepsenLogEntry :: "lcmEvent \<Rightarrow> string go" where
  "toJepsenLogEntry e =
     (let t = (if le_eventType e = eventTypeRead then '':read'' else '':write'') in
      goThen
        (if le_eventResult e = eventInvoked then Inr '':invoke''
         else if le_eventResult e = eventCompleted then Inr '':ok''
         else if le_eventResult e = eventFailed then
           (if le_eventType e = eventTypeRead then Inr '':fail'' else Inr '':info'')
         else panic UnknownEventResult) (\<lambda>r.
      goThen
        (if le_eventType e = eventTypeRead then
           (if le_eventResult e = eventInvoked then Inr ''nil''
            else if le_eventResult e = eventFailed then Inr '':timed-out''
            else if le_eventResult e = eventCompleted then Inr (stringValue e)
            else panic UnknownEventResult)
         else if le_eventType e = eventTypeWrite then
           (if le_eventResult e = eventInvoked then Inr (stringValue e)
            else if le_eventResult e = eventFailed then Inr '':timed-out''
            else if le_eventResult e = eventCompleted then Inr (stringValue e)
            else panic UnknownEventResult)
         else panic UnknownEventResult) (\<lambda>v.
      Inr (''INFO  jepsen.util - '' @ padRight 4 (FormatUint (le_id e)) @ padRight 8 r @ padRight 8 t @ v @
        [char_of (10 :: nat)]))))"

section \<open>The coordinator\<close>

record process =
  pr_id :: u64
  pr_stoppedFlag :: bool
  pr_idleFlag :: bool
  pr_pool :: pool

definition newProcess :: "u64 \<Rightarrow> process" where
  "newProcess i = \<lparr>pr_id = i, pr_stoppedFlag = False, pr_idleFlag = True, pr_pool = NewConnectionPool\<rparr>"

definition setStopped :: "process \<Rightarrow> process" where
  "setStopped p = p\<lparr>pr_stoppedFlag := True, pr_pool := pool_Close (pr_pool p)\<rparr>"

definition isStopped :: "process \<Rightarrow> bool" where
  "isStopped p = pr_stoppedFlag p"

definition setIdle :: "process \<Rightarrow> process" where
  "setIdle p = p\<lparr>pr_idleFlag := True\<rparr>"

definition setBusy :: "process \<Rightarrow> process" where
  "setBusy p = p\<lparr>pr_idleFlag := False\<rparr>"

definition isIdle :: "process \<Rightarrow> bool" where
  "isIdle p = pr_idleFlag p"

definition initialWait :: u64 where "initialWait = 25"

definition maxWait :: u64 where "maxWait = 100"

record coordinator =
  co_shardID :: u64
  co_processes :: "process list"
  co_events :: "lcmEvent list"
  co_drummerAddresses :: "string list"
  co_value :: u64
  co_completeCount :: u64
  co_wait :: u64
  co_pool :: pool

definition NewCoordinator :: "u64 \<Rightarrow> u64 \<Rightarrow> string list \<Rightarrow> coordinator" where
  "NewCoordinator size0 shardID drummerAddresses =
     \<lparr>co_shardID = shardID, co_processes = map (\<lambda>i. newProcess (of_nat i)) [0..<unat size0],
      co_events = [], co_drummerAddresses = drummerAddresses, co_value = 1, co_completeCount = 0,
      co_wait = initialWait, co_pool = NewDrummerConnectionPool\<rparr>"

definition lcm_Stop :: "coordinator \<Rightarrow> coordinator" where
  "lcm_Stop c = c\<lparr>co_pool := pool_Close (co_pool c),
     co_processes := map (\<lambda>p. if \<not> isStopped p then setStopped p else p) (co_processes c)\<rparr>"

text \<open>The files are their contents, what was written before a panic included.\<close>

definition SaveAsJepsenLog :: "coordinator \<Rightarrow> unit go \<times> string" where
  "SaveAsJepsenLog c =
     foreach (\<lambda>e file. case toJepsenLogEntry e of Inl p \<Rightarrow> (Inl p, file) | Inr line \<Rightarrow> (Inr (), file @ line))
       (co_events c) []"

definition ednLoop :: "lcmEvent list \<Rightarrow> bool \<times> string \<Rightarrow> unit go \<times> (bool \<times> string)" where
  "ednLoop events = foreach (\<lambda>e (isFirst, file0).
       (let file = (if isFirst then file0 else file0 @ [char_of (10 :: nat)]) in
        case toEDNLogEntry e of Inl p \<Rightarrow> (Inl p, (False, file)) | Inr line \<Rightarrow> (Inr (), (False, file @ line)))) events"

definition SaveAsEDNLog :: "coordinator \<Rightarrow> unit go \<times> string" where
  "SaveAsEDNLog c =
     (case ednLoop (co_events c) (True, ''['') of
        (Inl e, (_, file)) \<Rightarrow> (Inl e, file)
      | (Inr _, (_, file)) \<Rightarrow> (Inr (), file @ '']''))"

definition allStopped :: "coordinator \<Rightarrow> bool" where
  "allStopped c = list_all isStopped (co_processes c)"

definition hasAvailableProcess :: "coordinator \<Rightarrow> bool" where
  "hasAvailableProcess c = list_ex (\<lambda>p. isIdle p \<and> \<not> isStopped p) (co_processes c)"

section \<open>Recording\<close>

definition increaseCompleteCount :: "coordinator \<Rightarrow> coordinator" where
  "increaseCompleteCount c =
     (let c1 = c\<lparr>co_completeCount := co_completeCount c + 1\<rparr> in
      if co_completeCount c1 = 4 then c1\<lparr>co_wait := initialWait, co_completeCount := 0\<rparr> else c1)"

definition resetCompleteCount :: "coordinator \<Rightarrow> coordinator" where
  "resetCompleteCount c =
     (let c1 = c\<lparr>co_completeCount := 0, co_wait := co_wait c * 2\<rparr> in
      if co_wait c1 \<ge> maxWait then c1\<lparr>co_wait := maxWait\<rparr> else c1)"

definition appendEvent :: "lcmEvent \<Rightarrow> coordinator \<Rightarrow> coordinator" where
  "appendEvent e c = c\<lparr>co_events := co_events c @ [e]\<rparr>"

definition recordWriteInvoked :: "u64 \<Rightarrow> u64 \<Rightarrow> coordinator \<Rightarrow> coordinator" where
  "recordWriteInvoked i v = appendEvent \<lparr>le_eventType = eventTypeWrite, le_eventResult = eventInvoked, le_id = i, le_value = v\<rparr>"

definition recordWriteFailed :: "u64 \<Rightarrow> coordinator \<Rightarrow> coordinator" where
  "recordWriteFailed i c =
     appendEvent \<lparr>le_eventType = eventTypeWrite, le_eventResult = eventFailed, le_id = i, le_value = 0\<rparr> (resetCompleteCount c)"

definition recordWriteCompleted :: "u64 \<Rightarrow> u64 \<Rightarrow> coordinator \<Rightarrow> coordinator" where
  "recordWriteCompleted i v c =
     appendEvent \<lparr>le_eventType = eventTypeWrite, le_eventResult = eventCompleted, le_id = i, le_value = v\<rparr> (increaseCompleteCount c)"

definition recordReadInvoked :: "u64 \<Rightarrow> coordinator \<Rightarrow> coordinator" where
  "recordReadInvoked i = appendEvent \<lparr>le_eventType = eventTypeRead, le_eventResult = eventInvoked, le_id = i, le_value = 0\<rparr>"

definition recordReadFailed :: "u64 \<Rightarrow> coordinator \<Rightarrow> coordinator" where
  "recordReadFailed i c =
     appendEvent \<lparr>le_eventType = eventTypeRead, le_eventResult = eventFailed, le_id = i, le_value = 0\<rparr> (resetCompleteCount c)"

definition recordReadCompleted :: "u64 \<Rightarrow> u64 \<Rightarrow> coordinator \<Rightarrow> coordinator" where
  "recordReadCompleted i v c =
     appendEvent \<lparr>le_eventType = eventTypeRead, le_eventResult = eventCompleted, le_id = i, le_value = v\<rparr> (increaseCompleteCount c)"

section \<open>Operations of a process\<close>

text \<open>The stub of the NodeHost API, and how its servers are dialled.\<close>

record 'w hostClient =
  hc_GetSession :: "u64 \<Rightarrow> 'w \<Rightarrow> pbSession go \<times> 'w"
  hc_Propose :: "pbSession \<Rightarrow> string \<Rightarrow> 'w \<Rightarrow> u64 go \<times> 'w"
  hc_Read :: "u64 \<Rightarrow> string \<Rightarrow> 'w \<Rightarrow> string go \<times> 'w"

record 'w hostNet =
  hn_Dial :: "'w dialer"
  hn_Stub :: "string \<Rightarrow> 'w hostClient"

definition lcmKey :: string where
  "lcmKey = ''lcm_key''"

definition getUint64Value :: "string \<Rightarrow> u64 go" where
  "getUint64Value val = (case ParseUint val of Inl _ \<Rightarrow> panic ParseFailed | Inr v \<Rightarrow> Inr v)"

definition beside :: "('w \<Rightarrow> 'a go \<times> 'w) \<Rightarrow> pool \<times> 'w \<Rightarrow> 'a go \<times> (pool \<times> 'w)" where
  "beside f st = (case f (snd st) of (r, w) \<Rightarrow> (r, (fst st, w)))"

definition hangUp :: "nat \<Rightarrow> goerror \<Rightarrow> pool \<times> 'w \<Rightarrow> 'a go \<times> (pool \<times> 'w)" where
  "hangUp conn err st = (Inl (Err err), (conn_Close conn (fst st), snd st))"

definition process_write :: "'w hostNet \<Rightarrow> string \<Rightarrow> u64 \<Rightarrow> u64 \<Rightarrow> pool \<times> 'w \<Rightarrow> unit go \<times> (pool \<times> 'w)" where
  "process_write net addr shardID value st =
     thenDo (GetInsecureConnection (hn_Dial net) addr st) (\<lambda>writeConn st1.
       (let writeClient = hn_Stub net addr in
        onError (beside (hc_GetSession writeClient shardID) st1) (hangUp writeConn) (\<lambda>cs st2.
          (let v = FormatUint value in
           case MarshalBinary \<lparr>kp_Key = bytesOf lcmKey, kp_Val = bytesOf v\<rparr> of
             Inl e \<Rightarrow> (Inl e, st2)
           | Inr (Inl _) \<Rightarrow> (panic MarshalFailed, st2)
           | Inr (Inr data) \<Rightarrow>
               onError (beside (hc_Propose writeClient cs (stringOf data)) st2) (hangUp writeConn)
                 (\<lambda>_ st3. (Inr (), st3))))))"

definition process_read :: "'w hostNet \<Rightarrow> string \<Rightarrow> u64 \<Rightarrow> pool \<times> 'w \<Rightarrow> u64 go \<times> (pool \<times> 'w)" where
  "process_read net addr shardID st =
     thenDo (GetInsecureConnection (hn_Dial net) addr st) (\<lambda>readConn st1.
       onError (beside (hc_Read (hn_Stub net addr) shardID lcmKey) st1) (hangUp readConn) (\<lambda>data st2.
         (if length data = 0 then (Inr (- 1), st2) else (getUint64Value data, st2))))"

section \<open>Scheduling\<close>

text \<open>
  \<^verbatim>\<open>rand.Int\<close> is not negative; its answers are arguments. The remainder by the number of addresses
  panics when there is none.
\<close>

definition getTargetAddress :: "'w dialer \<Rightarrow> (string \<Rightarrow> 'w drummerClient) \<Rightarrow> nat \<Rightarrow> nat
    \<Rightarrow> coordinator \<Rightarrow> pool \<times> 'w \<Rightarrow> (string \<times> string \<times> bool) go \<times> (pool \<times> 'w)" where
  "getTargetAddress dial stub rand1 rand2 c st =
     (case co_drummerAddresses c of
        [] \<Rightarrow> (panic IndexOutOfRange, st)
      | addr # _ \<Rightarrow>
          onError (GetInsecureConnection dial addr st) (\<lambda>_ st1. (Inr ([], [], False), st1)) (\<lambda>conn st1.
            onError (beside (cl_GetShardStates (stub addr) \<lparr>ssr_ShardIdList = [co_shardID c]\<rparr>) st1)
              (\<lambda>_ st2. (Inr ([], [], False), (conn_Close conn (fst st2), snd st2)))
              (\<lambda>resp st2.
                (case sts_Collection resp of
                   [ci] \<Rightarrow>
                     (let n = length (ss_RPCAddresses ci) in
                      if n = 0 then (panic DivideByZero, st2)
                      else
                        (let readNodeIdx = rand1 mod n; leaderIdx = rand2 mod n;
                             nodeIDList = mkeys (ss_RPCAddresses ci);
                             leaderRPCAddress = the (mget (ss_RPCAddresses ci) (nodeIDList ! leaderIdx));
                             readNodeAddress = the (mget (ss_RPCAddresses ci) (nodeIDList ! readNodeIdx))
                         in if length leaderRPCAddress = 0 then (Inr ([], [], False), st2)
                            else (Inr (leaderRPCAddress, readNodeAddress, True), st2)))
                 | _ \<Rightarrow> (Inr ([], [], False), st2)))))"

text \<open>
  The goroutine of an operation: what is left of it after the coordinator has started it. An
  operation that fails stops its process first, then records the failure; at its end it makes the
  process idle. \<open>Finishing\<close> is left with that.
\<close>

datatype goroutine = Reading string | Writing string u64 | ReadFailing | WriteFailing | Finishing

record system =
  sy_co :: coordinator
  sy_running :: "nat \<Rightarrow> goroutine option"

definition onProcess :: "nat \<Rightarrow> (process \<Rightarrow> process) \<Rightarrow> coordinator \<Rightarrow> coordinator" where
  "onProcess k f c = c\<lparr>co_processes := (co_processes c)[k := f (co_processes c ! k)]\<rparr>"

definition StartRead :: "nat \<Rightarrow> string \<Rightarrow> system \<Rightarrow> system" where
  "StartRead k addr s = s\<lparr>sy_co := onProcess k setBusy (sy_co s), sy_running := (sy_running s)(k := Some (Reading addr))\<rparr>"

definition StartWrite :: "nat \<Rightarrow> string \<Rightarrow> u64 \<Rightarrow> system \<Rightarrow> system" where
  "StartWrite k addr v s = s\<lparr>sy_co := onProcess k setBusy (sy_co s), sy_running := (sy_running s)(k := Some (Writing addr v))\<rparr>"

text \<open>The body of the loop of \<^verbatim>\<open>scheduleProcesses\<close> once it has picked process \<open>k\<close>.\<close>

definition startOne :: "string \<Rightarrow> string \<Rightarrow> nat \<Rightarrow> nat \<Rightarrow> system \<Rightarrow> system" where
  "startOne writeAddr readAddr k rw s =
     (let c = sy_co s; p = co_processes c ! k in
      if rw mod 2 = 0 then StartRead k readAddr (s\<lparr>sy_co := recordReadInvoked (pr_id p) c\<rparr>)
      else StartWrite k writeAddr (co_value c)
        (s\<lparr>sy_co := recordWriteInvoked (pr_id p) (co_value c) (c\<lparr>co_value := co_value c + 1\<rparr>)\<rparr>))"

text \<open>
  The loop: each iteration has what the goroutines did before it and its two random numbers. It is
  left when no process is available or four have been started; \<open>None\<close> is a loop still running.
\<close>

fun scheduleLoop :: "string \<Rightarrow> string \<Rightarrow> nat \<Rightarrow> ((system \<Rightarrow> system) \<times> nat \<times> nat) list \<Rightarrow> system \<Rightarrow> system option" where
  "scheduleLoop writeAddr readAddr cnt [] s =
     (if hasAvailableProcess (sy_co s) \<and> cnt < 4 then None else Some s)"
| "scheduleLoop writeAddr readAddr cnt ((others, idx, rw) # rounds) s0 =
     (let s = others s0; c = sy_co s in
      if hasAvailableProcess c \<and> cnt < 4 then
        (let k = idx mod length (co_processes c); p = co_processes c ! k in
         if \<not> isIdle p \<or> isStopped p then scheduleLoop writeAddr readAddr cnt rounds s
         else scheduleLoop writeAddr readAddr (cnt + 1) rounds (startOne writeAddr readAddr k rw s))
      else Some s)"

definition scheduleProcesses :: "string \<times> string \<times> bool \<Rightarrow> ((system \<Rightarrow> system) \<times> nat \<times> nat) list \<Rightarrow> system \<Rightarrow> system option" where
  "scheduleProcesses target rounds s =
     (case target of (writeAddr, readAddr, ok) \<Rightarrow>
        (if \<not> ok then Some s else scheduleLoop writeAddr readAddr 0 rounds s))"

text \<open>A tick of \<^verbatim>\<open>mainLoop\<close>; \<open>None\<close> is its return. \<open>sched\<close> is \<open>scheduleProcesses\<close>.\<close>

definition mainTick :: "(system \<Rightarrow> system) \<Rightarrow> u64 \<times> system \<Rightarrow> (u64 \<times> system) option" where
  "mainTick sched st = (case st of (cnt0, s) \<Rightarrow>
     (let cnt = cnt0 + 1 in
      if allStopped (sy_co s) then None
      else if cnt \<ge> co_wait (sy_co s) then Some (0, sched s)
      else Some (cnt, s)))"

text \<open>The loop over ticks, each with what the goroutines did before it.\<close>

fun mainLoop :: "(system \<Rightarrow> system) \<Rightarrow> (system \<Rightarrow> system) list \<Rightarrow> u64 \<times> system \<Rightarrow> (u64 \<times> system) option" where
  "mainLoop sched [] st = Some st"
| "mainLoop sched (others # ticks) (cnt, s) =
     (case mainTick sched (cnt, others s) of None \<Rightarrow> None | Some st \<Rightarrow> mainLoop sched ticks st)"

text \<open>The steps of the goroutines. A failed operation takes two before it ends, as the code does.\<close>

definition endRead :: "nat \<Rightarrow> u64 option \<Rightarrow> system \<Rightarrow> system" where
  "endRead k r s =
     (case r of
        None \<Rightarrow> s\<lparr>sy_co := onProcess k setStopped (sy_co s), sy_running := (sy_running s)(k := Some ReadFailing)\<rparr>
      | Some v \<Rightarrow> s\<lparr>sy_co := recordReadCompleted (pr_id (co_processes (sy_co s) ! k)) v (sy_co s),
                    sy_running := (sy_running s)(k := Some Finishing)\<rparr>)"

definition endWrite :: "nat \<Rightarrow> u64 \<Rightarrow> bool \<Rightarrow> system \<Rightarrow> system" where
  "endWrite k v ok s =
     (if \<not> ok then s\<lparr>sy_co := onProcess k setStopped (sy_co s), sy_running := (sy_running s)(k := Some WriteFailing)\<rparr>
      else s\<lparr>sy_co := recordWriteCompleted (pr_id (co_processes (sy_co s) ! k)) v (sy_co s),
             sy_running := (sy_running s)(k := Some Finishing)\<rparr>)"

definition goOn :: "nat \<Rightarrow> goroutine \<Rightarrow> system \<Rightarrow> system" where
  "goOn k g s =
     (let p = co_processes (sy_co s) ! k in
      case g of
        ReadFailing \<Rightarrow> s\<lparr>sy_co := recordReadFailed (pr_id p) (sy_co s), sy_running := (sy_running s)(k := Some Finishing)\<rparr>
      | WriteFailing \<Rightarrow> s\<lparr>sy_co := recordWriteFailed (pr_id p) (sy_co s), sy_running := (sy_running s)(k := Some Finishing)\<rparr>
      | Finishing \<Rightarrow> s\<lparr>sy_co := onProcess k setIdle (sy_co s), sy_running := (sy_running s)(k := None)\<rparr>
      | _ \<Rightarrow> s)"

inductive goroutineStep :: "system \<Rightarrow> system \<Rightarrow> bool" where
  read_ends: "sy_running s k = Some (Reading addr) \<Longrightarrow> goroutineStep s (endRead k r s)"
| write_ends: "sy_running s k = Some (Writing addr v) \<Longrightarrow> goroutineStep s (endWrite k v ok s)"
| goes_on: "sy_running s k = Some g \<Longrightarrow> g \<in> {ReadFailing, WriteFailing, Finishing} \<Longrightarrow> goroutineStep s (goOn k g s)"

text \<open>A run: the coordinator starts an operation of an idle process, or a goroutine goes on.\<close>

inductive lcmRun :: "coordinator \<Rightarrow> system \<Rightarrow> bool" for c0 :: coordinator where
  run_starts: "lcmRun c0 \<lparr>sy_co = c0, sy_running = (\<lambda>_. None)\<rparr>"
| run_schedules: "lcmRun c0 s \<Longrightarrow> k < length (co_processes (sy_co s)) \<Longrightarrow> isIdle (co_processes (sy_co s) ! k) \<Longrightarrow>
    \<not> isStopped (co_processes (sy_co s) ! k) \<Longrightarrow> lcmRun c0 (startOne writeAddr readAddr k rw s)"
| run_goroutine: "lcmRun c0 s \<Longrightarrow> goroutineStep s s' \<Longrightarrow> lcmRun c0 s'"
| run_stops: "lcmRun c0 s \<Longrightarrow> lcmRun c0 (s\<lparr>sy_co := lcm_Stop (sy_co s)\<rparr>)"

end
