(* ===== verification/JepsenLog.thy ===== *)
theory JepsenLog
  imports EtcdModel Coordinator
begin

text \<open>
  The logs of the coordinator read by the checker: every entry has a line that the reader takes
  back apart (\<^verbatim>\<open>lcm/manager.go\<close> against \<^verbatim>\<open>lcm/porcupine/etcd.go\<close>).
\<close>

section \<open>Matching\<close>

named_theorems match_simps

lemma after_append [simp]: "after p (p @ s) = Some s"
  by (induction p) simp_all

lemma blank_chars [match_simps]:
  "isBlank CHR '' ''" "\<not> isBlank CHR '':''" "\<not> isBlank CHR ''-''" "\<not> isBlank CHR ''j''" "\<not> isBlank CHR ''n''"
  by (simp_all add: isBlank_def)

lemma digit_not_blank: "isDigit c \<Longrightarrow> \<not> isBlank c"
  by (auto simp: isDigit_def digitOf_def isBlank_def split: if_splits)

lemma digit_chars [match_simps]:
  "\<not> isDigit CHR '' ''" "\<not> isDigit CHR ''n''" "\<not> isDigit CHR '':''"
  by (simp_all add: isDigit_def digitOf_def)

definition numeralText :: "string \<Rightarrow> bool" where
  "numeralText d \<longleftrightarrow> d \<noteq> [] \<and> (\<forall>c \<in> set d. isDigit c)"

lemma numeralText_format: "numeralText (FormatUint x)"
  using formatNat_digits by (auto simp: numeralText_def FormatUint_def formatNat_nonempty isDigit_def)

lemma numeral_runs [match_simps]:
  assumes "numeralText d"
  shows "takeWhile isDigit d = d" "dropWhile isDigit d = []" "takeWhile isBlank d = []" "dropWhile isBlank d = d"
    "d \<noteq> []" "d \<noteq> ''nil''" "after ''nil'' d = None" "after ('':'' @ q) d = None" "after ''nil'' (d @ e) = None"
proof -
  obtain c cs where d: "d = c # cs" "isDigit c" "\<forall>c \<in> set cs. isDigit c" using assms by (cases d) (auto simp: numeralText_def)
  have ne: "c \<noteq> CHR ''n''" "c \<noteq> CHR '':''" using d(2) digit_chars by auto
  show "takeWhile isDigit d = d" "dropWhile isDigit d = []" using assms by (simp_all add: numeralText_def)
  show "takeWhile isBlank d = []" "dropWhile isBlank d = d" using digit_not_blank [OF d(2)] by (simp_all add: d(1))
  show "d \<noteq> []" "d \<noteq> ''nil''" "after ''nil'' d = None" "after ('':'' @ q) d = None" "after ''nil'' (d @ e) = None"
    using ne by (auto simp: d(1))
qed

lemma match_line:
  assumes "numeralText d" and "length d < 4" and "\<not> isBlank c"
  shows "matchPieces (linePrefix @ ps) (''INFO  jepsen.util - '' @ padRight 4 d @ c # s) =
    map_option ((#) d) (matchPieces ps (c # s))"
proof -
  obtain n where n: "4 - length d = Suc n" using assms(2) by (cases "4 - length d") auto
  have d: "takeWhile isDigit (d @ CHR '' '' # x) = d" "dropWhile isDigit (d @ CHR '' '' # x) = CHR '' '' # x"
    for x using assms(1) by (simp_all add: numeralText_def match_simps takeWhile_append dropWhile_append)
  have s: "dropWhile isBlank (d @ x) = d @ x" for x
    using assms(1) digit_not_blank by (cases d) (auto simp: numeralText_def)
  have b: "dropWhile isBlank (replicate m CHR '' '' @ c # s) = c # s" for m
    using assms(3) by (induction m) (simp_all add: match_simps)
  show ?thesis using assms(1) by (simp add: linePrefix_def padRight_def n d s b match_simps)
qed

lemmas match_eval = match_simps after.simps matchPieces.simps padRight_def

lemma padded [match_simps]:
  "padRight 8 '':invoke'' = '':invoke ''" "padRight 8 '':ok'' = '':ok     ''" "padRight 8 '':fail'' = '':fail   ''"
  "padRight 8 '':info'' = '':info   ''" "padRight 8 '':read'' = '':read   ''" "padRight 8 '':write'' = '':write  ''"
  by (simp_all add: padRight_def eval_nat_numeral)

section \<open>Entries read back\<close>

text \<open>What the reader does with an entry: the lines of failed writes match no expression.\<close>

definition readEvent :: "lcmEvent \<Rightarrow> logReader \<Rightarrow> logReader" where
  "readEvent e r =
     (let proc = FormatUint (le_id e); v = atoiDigits (FormatUint (le_value e)) in
      if le_eventType e = eventTypeRead then
        (if le_eventResult e = eventInvoked then callOf proc \<lparr>ei_op = 0, ei_arg1 = 0, ei_arg2 = 0\<rparr> r
         else if le_eventResult e = eventCompleted then
           returnOf proc (if le_value e = - 1 then noOutput else noOutput\<lparr>eo_exists := True, eo_value := v\<rparr>) r
         else returnOf proc (noOutput\<lparr>eo_unknown := True\<rparr>) r)
      else
        (if le_eventResult e = eventInvoked then callOf proc \<lparr>ei_op = 1, ei_arg1 = v, ei_arg2 = 0\<rparr> r
         else if le_eventResult e = eventCompleted then returnOf proc noOutput r
         else r))"

text \<open>The entries the coordinator writes: three digits of process ID leave a blank after them.\<close>

definition plainEvent :: "lcmEvent \<Rightarrow> bool" where
  "plainEvent e \<longleftrightarrow> unat (le_id e) < 1000 \<and> le_eventType e \<in> {eventTypeRead, eventTypeWrite} \<and>
     le_eventResult e \<in> {eventInvoked, eventCompleted, eventFailed} \<and>
     (le_eventType e = eventTypeWrite \<longrightarrow> le_value e \<noteq> - 1)"

lemmas event_codes = eventTypeRead_def eventTypeWrite_def eventInvoked_def eventCompleted_def eventFailed_def

lemma short_id: "unat x < 1000 \<Longrightarrow> length (FormatUint x) < 4"
  using formatNat_length [of "unat x" 3] by (simp add: FormatUint_def)

lemma match_rest:
  assumes "numeralText d"
  shows "matchPieces [Digits] d = Some [d]" "matchPieces [NilOrDigits] d = Some [d]"
    "matchPieces [NilOrDigits] ''nil'' = Some [''nil'']"
  using assms by (simp_all add: match_simps)

text \<open>The parts of a line after the process ID.\<close>

lemma parse_line:
  assumes "unat i < 1000" and "q = CHR '':'' # s"
  shows "parseLine (''INFO  jepsen.util - '' @ padRight 4 (FormatUint i) @ q) r =
     (let d = FormatUint i; m = (\<lambda>ps. map_option ((#) d) (matchPieces ps q)) in
      case m [Lit '':invoke'', Blanks, Lit '':read'', Blanks, Lit ''nil''] of
        Some args \<Rightarrow> callOf (args ! 0) \<lparr>ei_op = 0, ei_arg1 = 0, ei_arg2 = 0\<rparr> r
      | None \<Rightarrow>
     (case m [Lit '':invoke'', Blanks, Lit '':write'', Blanks, Digits] of
        Some args \<Rightarrow> callOf (args ! 0) \<lparr>ei_op = 1, ei_arg1 = atoiDigits (args ! 1), ei_arg2 = 0\<rparr> r
      | None \<Rightarrow>
     (case m [Lit '':invoke'', Blanks, Lit '':cas'', Blanks, Lit ''['', Digits, Blanks, Digits, Lit '']''] of
        Some args \<Rightarrow> callOf (args ! 0) \<lparr>ei_op = 2, ei_arg1 = atoiDigits (args ! 1), ei_arg2 = atoiDigits (args ! 2)\<rparr> r
      | None \<Rightarrow>
     (case m [Lit '':ok'', Blanks, Lit '':read'', Blanks, NilOrDigits] of
        Some args \<Rightarrow>
          (if args ! 1 \<noteq> ''nil''
           then returnOf (args ! 0) (noOutput\<lparr>eo_exists := True, eo_value := atoiDigits (args ! 1)\<rparr>) r
           else returnOf (args ! 0) noOutput r)
      | None \<Rightarrow>
     (case m [Lit '':ok'', Blanks, Lit '':write'', Blanks, Digits] of
        Some args \<Rightarrow> returnOf (args ! 0) noOutput r
      | None \<Rightarrow>
     (case m [Lit '':'', OkOrFail, Blanks, Lit '':cas'', Blanks, Lit ''['', Digits, Blanks, Digits, Lit '']''] of
        Some args \<Rightarrow> returnOf (args ! 0) (noOutput\<lparr>eo_ok := args ! 1 = ''ok''\<rparr>) r
      | None \<Rightarrow>
     (case m [Lit '':fail'', Blanks, Lit '':read'', Blanks, Lit '':timed-out''] of
        Some args \<Rightarrow> returnOf (args ! 0) (noOutput\<lparr>eo_unknown := True\<rparr>) r
      | None \<Rightarrow> r)))))))"
  unfolding parseLine_def invokeRead_def invokeWrite_def invokeCas_def returnRead_def returnWrite_def returnCas_def
    timeoutRead_def assms(2)
    match_line [OF numeralText_format short_id [OF assms(1)], of "CHR '':''", OF blank_chars(2)] Let_def ..

lemma parse_read_lines:
  assumes "unat i < 1000"
  shows
    "parseLine (''INFO  jepsen.util - '' @ padRight 4 (FormatUint i) @ '':invoke :read   nil'') r =
       callOf (FormatUint i) \<lparr>ei_op = 0, ei_arg1 = 0, ei_arg2 = 0\<rparr> r"
    "parseLine (''INFO  jepsen.util - '' @ padRight 4 (FormatUint i) @ '':ok     :read   nil'') r =
       returnOf (FormatUint i) noOutput r"
    "parseLine (''INFO  jepsen.util - '' @ padRight 4 (FormatUint i) @ '':fail   :read   :timed-out'') r =
       returnOf (FormatUint i) (noOutput\<lparr>eo_unknown := True\<rparr>) r"
    "numeralText d \<Longrightarrow> parseLine (''INFO  jepsen.util - '' @ padRight 4 (FormatUint i) @ '':ok     :read   '' @ d) r =
       returnOf (FormatUint i) (noOutput\<lparr>eo_exists := True, eo_value := atoiDigits d\<rparr>) r"
  by (subst parse_line [OF assms]; simp add: match_simps)+

lemma parse_write_lines:
  assumes "unat i < 1000"
  shows
    "numeralText d \<Longrightarrow> parseLine (''INFO  jepsen.util - '' @ padRight 4 (FormatUint i) @ '':invoke :write  '' @ d) r =
       callOf (FormatUint i) \<lparr>ei_op = 1, ei_arg1 = atoiDigits d, ei_arg2 = 0\<rparr> r"
    "numeralText d \<Longrightarrow> parseLine (''INFO  jepsen.util - '' @ padRight 4 (FormatUint i) @ '':ok     :write  '' @ d) r =
       returnOf (FormatUint i) noOutput r"
    "parseLine (''INFO  jepsen.util - '' @ padRight 4 (FormatUint i) @ '':info   :write  :timed-out'') r = r"
  by (subst parse_line [OF assms]; simp add: match_simps)+

text \<open>No character of an entry ends a line.\<close>

definition printable :: "string \<Rightarrow> bool" where
  "printable s \<longleftrightarrow> (\<forall>c \<in> set s. 32 \<le> (of_char c :: nat))"

lemma printable_simps [simp]:
  "printable []" "printable (c # s) \<longleftrightarrow> 32 \<le> (of_char c :: nat) \<and> printable s"
  "printable (s @ t) \<longleftrightarrow> printable s \<and> printable t"
  by (auto simp: printable_def)

lemma printable_numeral: "numeralText d \<Longrightarrow> printable d"
  by (auto simp: numeralText_def printable_def isDigit_def digitOf_def split: if_splits)

lemma printable_pad: "printable s \<Longrightarrow> printable (padRight n s)"
  by (auto simp: padRight_def printable_def)

lemma format_length: "length (FormatUint x) \<le> 20"
proof -
  have "uint x < 2 ^ 64" using uint_bounded [of x] by simp
  then have "unat x < 2 ^ 64" by (simp add: nat_less_iff flip: nat_uint_eq)
  also have "\<dots> < 10 ^ 20" by simp
  finally show ?thesis unfolding FormatUint_def by (intro formatNat_length) simp_all
qed

lemma padRight_length: "length (padRight n s) = max n (length s)"
  by (simp add: padRight_def)

definition entryLine :: "lcmEvent \<Rightarrow> string \<Rightarrow> bool" where
  "entryLine e line \<longleftrightarrow> toJepsenLogEntry e = Inr (line @ [newline]) \<and> line \<noteq> [] \<and> printable line \<and>
     length line < 4096 \<and> (\<forall>r. parseLine line r = readEvent e r)"

lemma entryLineI:
  assumes "toJepsenLogEntry e = Inr (''INFO  jepsen.util - '' @ padRight 4 (FormatUint (le_id e)) @ q @ [newline])"
    and "printable q" and "length q < 100"
    and "\<And>r. parseLine (''INFO  jepsen.util - '' @ padRight 4 (FormatUint (le_id e)) @ q) r = readEvent e r"
  shows "entryLine e (''INFO  jepsen.util - '' @ padRight 4 (FormatUint (le_id e)) @ q)"
  using assms printable_pad [OF printable_numeral [OF numeralText_format], of 4 "le_id e"] format_length [of "le_id e"]
  by (simp add: entryLine_def padRight_length)

lemma entry_line:
  assumes "plainEvent e"
  shows "\<exists>line. entryLine e line"
proof -
  let ?d = "FormatUint (le_value e)"
  have i: "unat (le_id e) < 1000" using assms by (simp add: plainEvent_def)
  note d = numeralText_format [of "le_value e"] printable_numeral [OF numeralText_format, of "le_value e"] format_length [of "le_value e"]
  note eval = toJepsenLogEntry_def stringValue_def readEvent_def event_codes newline_def padded
  consider "le_eventType e = 0" "le_eventResult e = 0" | "le_eventType e = 0" "le_eventResult e = 1" "le_value e = - 1"
    | "le_eventType e = 0" "le_eventResult e = 1" "le_value e \<noteq> - 1" | "le_eventType e = 0" "le_eventResult e = 2"
    | "le_eventType e = 1" "le_value e \<noteq> - 1" "le_eventResult e = 0" | "le_eventType e = 1" "le_value e \<noteq> - 1" "le_eventResult e = 1"
    | "le_eventType e = 1" "le_eventResult e = 2"
    using assms unfolding plainEvent_def event_codes by auto
  then show ?thesis
  proof cases
    case 1
    show ?thesis by (rule exI, rule entryLineI [where q = "'':invoke :read   nil''"])
        (use 1 in \<open>simp_all add: eval parse_read_lines(1) [OF i, simplified]\<close>)
  next
    case 2
    show ?thesis by (rule exI, rule entryLineI [where q = "'':ok     :read   nil''"])
        (use 2 in \<open>simp_all add: eval parse_read_lines(2) [OF i, simplified]\<close>)
  next
    case 3
    show ?thesis by (rule exI, rule entryLineI [where q = "'':ok     :read   '' @ ?d"])
        (use 3 d in \<open>simp_all add: eval parse_read_lines(4) [OF i d(1), simplified]\<close>)
  next
    case 4
    show ?thesis by (rule exI, rule entryLineI [where q = "'':fail   :read   :timed-out''"])
        (use 4 in \<open>simp_all add: eval parse_read_lines(3) [OF i, simplified]\<close>)
  next
    case 5
    show ?thesis by (rule exI, rule entryLineI [where q = "'':invoke :write  '' @ ?d"])
        (use 5 d in \<open>simp_all add: eval parse_write_lines(1) [OF i d(1), simplified]\<close>)
  next
    case 6
    show ?thesis by (rule exI, rule entryLineI [where q = "'':ok     :write  '' @ ?d"])
        (use 6 d in \<open>simp_all add: eval parse_write_lines(2) [OF i d(1), simplified]\<close>)
  next
    case 7
    show ?thesis by (rule exI, rule entryLineI [where q = "'':info   :write  :timed-out''"])
        (use 7 in \<open>simp_all add: eval parse_write_lines(3) [OF i, simplified]\<close>)
  qed
qed

section \<open>Files read back\<close>

lemma readLine_entry:
  assumes "line \<noteq> []" and "printable line" and "length line < 4096"
  shows "readLine (line @ newline # rest) = Inr (Some (line, rest))"
proof -
  have nl: "\<forall>c \<in> set line. c \<noteq> newline" using assms(2) by (auto simp: printable_def newline_def)
  have "last line \<in> set line" using assms(1) by simp
  then have "last line \<noteq> char_of (13 :: nat)" using assms(2) by (auto simp: printable_def)
  then have "dropReturn line = line" by (simp add: dropReturn_def)
  with nl assms show ?thesis by (simp add: readLine_def takeWhile_append dropWhile_append)
qed

lemma read_entries:
  assumes "list_all2 entryLine events lines"
  shows "readLog (concat (map (\<lambda>line. line @ [newline]) lines)) r = Inr (fold readEvent events r)"
  using assms
proof (induction events lines arbitrary: r rule: list_all2_induct)
  case Nil
  show ?case by (simp add: readLog.simps readLine_def)
next
  case (Cons e events line lines)
  then have "readLine (line @ newline # rest) = Inr (Some (line, rest))" for rest
    by (intro readLine_entry) (simp_all add: entryLine_def)
  with Cons show ?case by (subst readLog.simps) (simp add: entryLine_def)
qed

lemma save_entries:
  "list_all2 entryLine events lines \<Longrightarrow>
    foreach (\<lambda>e f. case toJepsenLogEntry e of Inl p \<Rightarrow> (Inl p, f) | Inr line \<Rightarrow> (Inr (), f @ line)) events f =
    (Inr (), f @ concat (map (\<lambda>line. line @ [newline]) lines))"
  by (induction events lines arbitrary: f rule: list_all2_induct) (simp_all add: entryLine_def)

definition emptyReader :: logReader where
  "emptyReader = \<lparr>lr_events = [], lr_id = 0, lr_procIdMap = []\<rparr>"

text \<open>The history of a list of entries, without the detour through the file.\<close>

definition historyOf :: "((int \<times> u64) list \<Rightarrow> (int \<times> u64) list) \<Rightarrow> lcmEvent list \<Rightarrow> etcdValue event list" where
  "historyOf visit events =
     (let r = fold readEvent events emptyReader
      in lr_events r @ map (\<lambda>p. \<lparr>ev_Kind = ReturnEvent, ev_Value = Some (EtcdOutput (noOutput\<lparr>eo_unknown := True\<rparr>)),
           ev_Id = snd p\<rparr>) (visit (lr_procIdMap r)))"

lemma entry_lines: "list_all plainEvent events \<Longrightarrow> \<exists>lines. list_all2 entryLine events lines"
proof (induction events)
  case Nil
  show ?case by (intro exI [of _ "[]"]) simp
next
  case (Cons e events)
  then obtain line lines where "entryLine e line" "list_all2 entryLine events lines" using entry_line [of e] by auto
  then show ?case by (intro exI [of _ "line # lines"]) simp
qed

lemma log_read_back:
  assumes "list_all plainEvent (co_events c)"
  shows "\<exists>file. SaveAsJepsenLog c = (Inr (), file) \<and> parseJepsenLog visit (Some file) = Inr (historyOf visit (co_events c))"
proof -
  obtain lines where "list_all2 entryLine (co_events c) lines" using entry_lines [OF assms] by blast
  from save_entries [OF this, of "[]"] read_entries [OF this, of emptyReader] show ?thesis
    by (simp add: SaveAsJepsenLog_def parseJepsenLog_def historyOf_def emptyReader_def Let_def)
qed

end
