(* ===== verification/CoordinatorFacts.thy ===== *)
theory CoordinatorFacts
  imports JepsenLog
begin

text \<open>
  What the runs of the coordinator record: the log of every run, in any interleaving of the
  processes, reads back as a complete history, on which the checker gives the right answer.
\<close>

section \<open>The reader's invariant\<close>

definition typedEvent :: "etcdValue event \<Rightarrow> bool" where
  "typedEvent e \<longleftrightarrow> (case ev_Kind e of CallEvent \<Rightarrow> \<exists>i. ev_Value e = Some (EtcdInput i)
     | ReturnEvent \<Rightarrow> \<exists>out. ev_Value e = Some (EtcdOutput out))"

definition kindsOf :: "u64 \<Rightarrow> 'v event list \<Rightarrow> eventKind list" where
  "kindsOf i H = map ev_Kind (filter (\<lambda>e. ev_Id e = i) H)"

definition openIds :: "logReader \<Rightarrow> u64 set" where
  "openIds r = snd ` set (lr_procIdMap r)"

text \<open>\<open>n\<close> calls so far: the IDs below \<open>n\<close> are called, and returned unless a process has them open.\<close>

definition readerInv :: "nat \<Rightarrow> logReader \<Rightarrow> bool" where
  "readerInv n r \<longleftrightarrow> lr_id r = of_nat n \<and> n < 2 ^ 64 \<and> gm_ok (lr_procIdMap r) \<and> distinct (map snd (lr_procIdMap r)) \<and>
     (\<forall>i \<in> openIds r. unat i < n) \<and> (\<forall>e \<in> set (lr_events r). typedEvent e) \<and>
     (\<forall>i. kindsOf i (lr_events r) =
        (if unat i < n then (if i \<in> openIds r then [CallEvent] else [CallEvent, ReturnEvent]) else []))"

lemma kindsOf_append: "kindsOf i (H @ G) = kindsOf i H @ kindsOf i G"
  by (simp add: kindsOf_def)

lemma kindsOf_single: "kindsOf i [\<lparr>ev_Kind = k, ev_Value = v, ev_Id = j\<rparr>] = (if j = i then [k] else [])"
  by (simp add: kindsOf_def)

lemma update_new: "mget m k = None \<Longrightarrow> mput k v m = m @ [(k, v)]"
  by (induction m) auto

lemma mdel_open:
  assumes "gm_ok m" and "distinct (map snd m)" and "mget m k = Some i"
  shows "snd ` set (mdel k m) = snd ` set m - {i}" "distinct (map snd (mdel k m))"
proof -
  have ki: "(k, i) \<in> set m" using assms(3) by (rule map_of_SomeD)
  have inj: "p = q" if "p \<in> set m" "q \<in> set m" "snd p = snd q" for p q
    using assms(2) that by (auto simp: distinct_map inj_on_def)
  have key: "fst p = k \<longleftrightarrow> p = (k, i)" if "p \<in> set m" for p
    using assms(1,3) that mget_in_set [OF assms(1)] by (metis fst_conv option.inject prod.collapse)
  show "snd ` set (mdel k m) = snd ` set m - {i}"
    using key inj ki by (auto simp: mdel_def image_iff) (metis snd_conv)
  show "distinct (map snd (mdel k m))" using assms(2) by (simp add: mdel_def distinct_map_filter)
qed

lemma readerInv_call:
  assumes "readerInv n r" and "Suc n < 2 ^ 64" and "mget (lr_procIdMap r) (atoiDigits proc) = None"
  shows "readerInv (Suc n) (callOf proc inp r)"
proof -
  let ?i = "of_nat n :: u64"
  have n: "unat ?i = n" using assms(2) by (simp add: unat_of_nat)
  have open': "openIds (callOf proc inp r) = insert ?i (openIds r)"
    using assms(1,3) by (simp add: callOf_def openIds_def update_new readerInv_def)
  have new: "?i \<notin> openIds r" using assms(1) n by (auto simp: readerInv_def)
  have eq: "unat i < Suc n \<longleftrightarrow> unat i < n \<or> i = ?i" for i
    using n by (metis less_Suc_eq word_unat_eq_iff)
  have kinds: "kindsOf i (lr_events (callOf proc inp r)) = kindsOf i (lr_events r) @ (if ?i = i then [CallEvent] else [])" for i
    using assms(1) by (simp add: callOf_def kindsOf_append kindsOf_single readerInv_def)
  show ?thesis
    unfolding readerInv_def open' kinds eq
    using assms n new by (auto simp: readerInv_def callOf_def update_new openIds_def typedEvent_def gm_ok_def map_of_eq_None_iff less_SucI)
qed

lemma readerInv_return:
  assumes "readerInv n r" and "mget (lr_procIdMap r) (atoiDigits proc) = Some i"
  shows "readerInv n (returnOf proc out r)"
proof -
  have ok: "gm_ok (lr_procIdMap r)" "distinct (map snd (lr_procIdMap r))" using assms(1) by (simp_all add: readerInv_def)
  note del = mdel_open [OF ok assms(2)]
  have i: "i \<in> openIds r" using map_of_SomeD [OF assms(2)] by (force simp: openIds_def)
  have open': "openIds (returnOf proc out r) = openIds r - {i}" by (simp add: returnOf_def Let_def openIds_def del)
  have kinds: "kindsOf j (lr_events (returnOf proc out r)) = kindsOf j (lr_events r) @ (if i = j then [ReturnEvent] else [])" for j
    by (simp add: returnOf_def Let_def assms(2) kindsOf_append kindsOf_single)
  show ?thesis
    unfolding readerInv_def open' kinds
    using assms i del ok by (auto simp: readerInv_def returnOf_def Let_def typedEvent_def)
qed

section \<open>Complete histories\<close>

definition closedHistory :: "((int \<times> u64) list \<Rightarrow> (int \<times> u64) list) \<Rightarrow> logReader \<Rightarrow> etcdValue event list" where
  "closedHistory visit r = lr_events r @ map (\<lambda>p. \<lparr>ev_Kind = ReturnEvent,
     ev_Value = Some (EtcdOutput (noOutput\<lparr>eo_unknown := True\<rparr>)), ev_Id = snd p\<rparr>) (visit (lr_procIdMap r))"

lemma historyOf_closed: "historyOf visit events = closedHistory visit (fold readEvent events emptyReader)"
  by (simp add: historyOf_def closedHistory_def Let_def)

lemma kindsOf_returns:
  assumes "distinct (map snd m)"
  shows "kindsOf i (map (\<lambda>p. \<lparr>ev_Kind = ReturnEvent, ev_Value = v, ev_Id = snd p\<rparr>) m) =
    (if i \<in> snd ` set m then [ReturnEvent] else [])"
  using assms
proof (induction m)
  case (Cons p m)
  have "filter (\<lambda>q. snd q = snd p) m = []" using Cons.prems by (auto simp: filter_empty_conv image_iff)
  with Cons show ?case by (auto simp: kindsOf_def filter_map comp_def)
qed (simp add: kindsOf_def)

lemma closed_complete:
  assumes "readerInv n r" and "mset (visit (lr_procIdMap r)) = mset (lr_procIdMap r)"
  shows "completeHistory (closedHistory visit r)" and "\<forall>e \<in> set (closedHistory visit r). typedEvent e"
    and "ev_Id ` set (closedHistory visit r) \<subseteq> {i. unat i < n}"
proof -
  have s: "set (visit (lr_procIdMap r)) = set (lr_procIdMap r)" using assms(2) by (rule mset_eq_setD)
  have "mset (map snd (visit (lr_procIdMap r))) = mset (map snd (lr_procIdMap r))" by (simp only: mset_map assms(2))
  from mset_eq_imp_distinct_iff [OF this] have d: "distinct (map snd (visit (lr_procIdMap r)))"
    using assms(1) by (simp add: readerInv_def)
  have k: "kindsOf i (closedHistory visit r) = (if unat i < n then [CallEvent, ReturnEvent] else [])" for i
  proof -
    have "kindsOf i (closedHistory visit r) = kindsOf i (lr_events r) @ (if i \<in> openIds r then [ReturnEvent] else [])"
      unfolding closedHistory_def kindsOf_append kindsOf_returns [OF d] s openIds_def ..
    then show ?thesis using assms(1) by (auto simp: readerInv_def)
  qed
  then show "completeHistory (closedHistory visit r)" by (simp add: completeHistory_def kindsOf_def)
  show "\<forall>e \<in> set (closedHistory visit r). typedEvent e"
    using assms(1) by (auto simp: closedHistory_def readerInv_def typedEvent_def)
  show "ev_Id ` set (closedHistory visit r) \<subseteq> {i. unat i < n}"
  proof (rule image_subsetI)
    fix e assume "e \<in> set (closedHistory visit r)"
    then have "kindsOf (ev_Id e) (closedHistory visit r) \<noteq> []" by (auto simp: kindsOf_def filter_empty_conv)
    then show "ev_Id e \<in> {i. unat i < n}" unfolding k by (simp split: if_splits)
  qed
qed

lemma complete_value:
  assumes "completeHistory H" and "i \<in> ev_Id ` set H"
  shows "\<exists>e \<in> set H. ev_Kind e = k \<and> ev_Id e = i \<and> valueOf k H i = ev_Value e"
proof -
  have "map ev_Kind (filter (\<lambda>e. ev_Id e = i) H) \<in> {[], [CallEvent, ReturnEvent]}" using assms(1) by (simp add: completeHistory_def)
  moreover have "filter (\<lambda>e. ev_Id e = i) H \<noteq> []" using assms(2) by (auto simp: filter_empty_conv)
  ultimately have "k \<in> set (map ev_Kind (filter (\<lambda>e. ev_Id e = i) H))" by (cases k) auto
  then have "\<exists>e \<in> set H. ev_Id e = i \<and> ev_Kind e = k" by auto
  then obtain e where "find (\<lambda>e. ev_Id e = i \<and> ev_Kind e = k) H = Some e"
    by (cases "find (\<lambda>e. ev_Id e = i \<and> ev_Kind e = k) H") (auto simp: find_None_iff)
  moreover from this have "e \<in> set H" "ev_Id e = i" "ev_Kind e = k" by (auto simp: find_Some_iff)
  ultimately show ?thesis by (auto simp: valueOf_def)
qed

lemma typed_steps:
  assumes "completeHistory H" and "\<forall>e \<in> set H. typedEvent e"
  shows "stepsOf getEtcdModel H"
  unfolding stepsOf_def
proof (intro allI ballI)
  fix st i assume "i \<in> ev_Id ` set H"
  note v = complete_value [OF assms(1) this]
  obtain c where "c \<in> set H" "ev_Kind c = CallEvent" "valueOf CallEvent H i = ev_Value c" using v by blast
  moreover obtain q where "q \<in> set H" "ev_Kind q = ReturnEvent" "valueOf ReturnEvent H i = ev_Value q" using v by blast
  ultimately obtain inp out where
    "valueOf CallEvent H i = Some (EtcdInput inp)" "valueOf ReturnEvent H i = Some (EtcdOutput out)"
    using assms(2) by (fastforce simp: typedEvent_def)
  then show "\<exists>r. mo_Step getEtcdModel st (valueOf CallEvent H i) (valueOf ReturnEvent H i) = Inr r"
    by (auto simp: getEtcdModel_def etcdStep_def asInput_def asOutput_def Let_def)
qed

lemma closed_fit:
  assumes "readerInv n r" and "mset (visit (lr_procIdMap r)) = mset (lr_procIdMap r)" and "n < 2 ^ 63"
  shows "fit getEtcdModel (closedHistory visit r)"
proof -
  note c = closed_complete [where visit = visit, OF assms(1,2)]
  have "ev_Id ` set (closedHistory visit r) \<subseteq> of_nat ` {..<n}" using c(3) by (force simp: image_iff)
  then have "card (ev_Id ` set (closedHistory visit r)) \<le> card (of_nat ` {..<n} :: u64 set)" by (rule card_mono [rotated]) simp
  also have "\<dots> \<le> n" by (metis card_image_le card_lessThan finite_lessThan)
  finally have "length (closedHistory visit r) < 2 ^ 64" using complete_length [OF c(1)] assms(3) by simp
  then show ?thesis using c typed_steps [OF c(1)] by (simp add: fit_def)
qed

section \<open>The invariant of a run\<close>

definition readerOf :: "system \<Rightarrow> logReader" where
  "readerOf s = fold readEvent (co_events (sy_co s)) emptyReader"

definition openProcs :: "system \<Rightarrow> int set" where
  "openProcs s = dom (mget (lr_procIdMap (readerOf s)))"

text \<open>
  An operation is open in the log from its first entry to its second. A process that is not
  stopped and has no goroutine, or one that only has to make it idle, has none open.
\<close>

definition procInv :: "system \<Rightarrow> nat \<Rightarrow> bool" where
  "procInv s k \<longleftrightarrow>
     (let p = co_processes (sy_co s) ! k; isOpen = (int k \<in> openProcs s) in
      pr_id p = of_nat k \<and> (isIdle p \<longleftrightarrow> sy_running s k = None) \<and>
      (case sy_running s k of
         None \<Rightarrow> isOpen \<longrightarrow> isStopped p
       | Some (Reading addr) \<Rightarrow> isOpen
       | Some (Writing addr v) \<Rightarrow> isOpen \<and> v \<noteq> - 1
       | Some Finishing \<Rightarrow> isOpen \<longrightarrow> isStopped p
       | Some _ \<Rightarrow> isOpen \<and> isStopped p))"

definition runInv :: "nat \<Rightarrow> system \<Rightarrow> bool" where
  "runInv N s \<longleftrightarrow> length (co_processes (sy_co s)) = N \<and> (\<forall>k < N. procInv s k) \<and>
     (\<forall>k. sy_running s k \<noteq> None \<longrightarrow> k < N) \<and>
     list_all plainEvent (co_events (sy_co s)) \<and>
     unat (co_value (sy_co s)) \<le> length (co_events (sy_co s)) + 1 \<and>
     (\<exists>n \<le> length (co_events (sy_co s)). readerInv n (readerOf s))"

lemma atoi_format: "unat x < 2 ^ 63 \<Longrightarrow> atoiDigits (FormatUint x) = int (unat x)"
proof -
  assume "unat x < 2 ^ 63"
  then have "int (unat x) < int (2 ^ 63)" by (simp only: of_nat_less_iff)
  then have "int (unat x) \<le> 2 ^ 63 - 1" by simp
  then show ?thesis unfolding atoiDigits_def FormatUint_def parse_formatNat option.case by (rule min_absorb1)
qed

text \<open>One more entry, of a process of the run.\<close>

lemma reader_append:
  assumes "co_events (sy_co s') = co_events (sy_co s) @ [e]"
  shows "readerOf s' = readEvent e (readerOf s)"
  by (simp add: readerOf_def assms)

lemma proc_key:
  assumes "k < 1000"
  shows "atoiDigits (FormatUint (of_nat k)) = int k" "unat (of_nat k :: u64) < 1000"
  using assms atoi_format [of "of_nat k"] by (simp_all add: unat_of_nat)

lemma read_opens:
  assumes "readerInv n r" and "Suc n < 2 ^ 64" and "k < 1000" and "le_id e = of_nat k"
    and "le_eventResult e = eventInvoked" and "int k \<notin> dom (mget (lr_procIdMap r))"
  shows "readerInv (Suc n) (readEvent e r)"
    "dom (mget (lr_procIdMap (readEvent e r))) = insert (int k) (dom (mget (lr_procIdMap r)))"
proof -
  have "\<exists>inp. readEvent e r = callOf (FormatUint (of_nat k)) inp r"
    using assms(4,5) by (cases "le_eventType e = eventTypeRead") (auto simp: readEvent_def Let_def)
  then obtain inp where e: "readEvent e r = callOf (FormatUint (of_nat k)) inp r" by blast
  show "readerInv (Suc n) (readEvent e r)"
    unfolding e using assms proc_key [OF assms(3)] by (intro readerInv_call) auto
  show "dom (mget (lr_procIdMap (readEvent e r))) = insert (int k) (dom (mget (lr_procIdMap r)))"
    unfolding e by (auto simp: callOf_def proc_key [OF assms(3)] gomap_simps)
qed

lemma read_closes:
  assumes "readerInv n r" and "k < 1000" and "le_id e = of_nat k"
    and "le_eventResult e = eventCompleted \<or> le_eventResult e = eventFailed \<and> le_eventType e = eventTypeRead"
    and "int k \<in> dom (mget (lr_procIdMap r))"
  shows "readerInv n (readEvent e r)"
    "dom (mget (lr_procIdMap (readEvent e r))) = dom (mget (lr_procIdMap r)) - {int k}"
proof -
  have "\<exists>out. readEvent e r = returnOf (FormatUint (of_nat k)) out r"
    using assms(3,4) by (cases "le_eventType e = eventTypeRead"; cases "le_value e = - 1") (auto simp: readEvent_def Let_def event_codes)
  then obtain out where e: "readEvent e r = returnOf (FormatUint (of_nat k)) out r" by blast
  show "readerInv n (readEvent e r)"
    unfolding e using assms(1,5) proc_key [OF assms(2)] by (auto intro: readerInv_return)
  show "dom (mget (lr_procIdMap (readEvent e r))) = dom (mget (lr_procIdMap r)) - {int k}"
    unfolding e by (auto simp: returnOf_def Let_def proc_key [OF assms(2)] gomap_simps split: if_splits)
qed

section \<open>The steps keep it\<close>

lemma coordinator_simps [simp]:
  "co_events (onProcess k f c) = co_events c" "co_value (onProcess k f c) = co_value c"
  "co_processes (onProcess k f c) = (co_processes c)[k := f (co_processes c ! k)]"
  "co_events (appendEvent e c) = co_events c @ [e]" "co_value (appendEvent e c) = co_value c"
  "co_processes (appendEvent e c) = co_processes c"
  "co_events (increaseCompleteCount c) = co_events c" "co_value (increaseCompleteCount c) = co_value c"
  "co_processes (increaseCompleteCount c) = co_processes c"
  "co_events (resetCompleteCount c) = co_events c" "co_value (resetCompleteCount c) = co_value c"
  "co_processes (resetCompleteCount c) = co_processes c"
  by (simp_all add: onProcess_def appendEvent_def increaseCompleteCount_def resetCompleteCount_def Let_def)

lemma process_simps [simp]:
  "pr_id (setBusy p) = pr_id p" "pr_id (setIdle p) = pr_id p" "pr_id (setStopped p) = pr_id p"
  "\<not> isIdle (setBusy p)" "isIdle (setIdle p)" "isIdle (setStopped p) = isIdle p"
  "isStopped (setBusy p) = isStopped p" "isStopped (setIdle p) = isStopped p" "isStopped (setStopped p)"
  by (simp_all add: setBusy_def setIdle_def setStopped_def isIdle_def isStopped_def)

lemma unat_next: "unat (x + 1 :: u64) \<le> unat x + 1"
  by (simp add: unat_word_ariths)

text \<open>A step of process \<open>k\<close> leaves the others as they are.\<close>

lemma runInv_step:
  assumes "runInv N s" and "k < N" and "length (co_processes (sy_co s')) = N"
    and "\<And>j. j \<noteq> k \<Longrightarrow> co_processes (sy_co s') ! j = co_processes (sy_co s) ! j \<and> sy_running s' j = sy_running s j"
    and "\<And>j. j \<noteq> int k \<Longrightarrow> j \<in> openProcs s' \<longleftrightarrow> j \<in> openProcs s" and "procInv s' k"
    and "list_all plainEvent (co_events (sy_co s'))" and "unat (co_value (sy_co s')) \<le> length (co_events (sy_co s')) + 1"
    and "readerInv n (readerOf s')" and "n \<le> length (co_events (sy_co s'))"
  shows "runInv N s'"
proof -
  have "procInv s' j" if "j < N" for j
  proof (cases "j = k")
    case False
    then have "procInv s' j \<longleftrightarrow> procInv s j" using assms(4,5) by (simp add: procInv_def)
    with assms(1) that show ?thesis by (simp add: runInv_def)
  qed (simp add: assms(6))
  moreover have "j < N" if "sy_running s' j \<noteq> None" for j
    using assms(1,2,4) that by (cases "j = k") (auto simp: runInv_def)
  ultimately show ?thesis unfolding runInv_def using assms(3,7-10) by blast
qed

text \<open>The step adds one entry, or none.\<close>

lemma runInv_entry:
  assumes inv: "runInv N s" and k: "k < N" and procs: "co_processes (sy_co s') = (co_processes (sy_co s))[k := p]"
    and running: "sy_running s' = (sy_running s)(k := g)" and events: "co_events (sy_co s') = co_events (sy_co s) @ [e]"
    and e: "plainEvent e" and val: "unat (co_value (sy_co s')) \<le> unat (co_value (sy_co s)) + 1"
    and reader: "\<And>n. readerInv n (readerOf s) \<Longrightarrow> n \<le> length (co_events (sy_co s)) \<Longrightarrow>
      \<exists>n' \<le> Suc n. readerInv n' (readEvent e (readerOf s)) \<and>
        dom (mget (lr_procIdMap (readEvent e (readerOf s)))) - {int k} = openProcs s - {int k}"
    and here: "procInv s' k"
  shows "runInv N s'"
proof -
  obtain n where n: "readerInv n (readerOf s)" "n \<le> length (co_events (sy_co s))" using inv by (auto simp: runInv_def)
  from reader [OF n] obtain n' where n': "n' \<le> Suc n" "readerInv n' (readerOf s')" "openProcs s' - {int k} = openProcs s - {int k}"
    unfolding reader_append [OF events, symmetric] openProcs_def by blast
  show ?thesis
    by (rule runInv_step [OF inv k]) (use inv n n' val e here in \<open>auto simp: procs running events runInv_def\<close>)
qed

lemma runInv_quiet:
  assumes inv: "runInv N s" and k: "k < N" and procs: "co_processes (sy_co s') = (co_processes (sy_co s))[k := p]"
    and running: "sy_running s' = (sy_running s)(k := g)" and events: "co_events (sy_co s') = co_events (sy_co s)"
    and val: "co_value (sy_co s') = co_value (sy_co s)" and here: "procInv s' k"
  shows "runInv N s'"
proof -
  obtain n where n: "readerInv n (readerOf s)" "n \<le> length (co_events (sy_co s))" using inv by (auto simp: runInv_def)
  have r: "readerOf s' = readerOf s" by (simp add: readerOf_def events)
  then have o: "openProcs s' = openProcs s" by (simp add: openProcs_def)
  show ?thesis
    by (rule runInv_step [OF inv k, where n = n]) (use inv n here in \<open>auto simp: procs running events val r o runInv_def\<close>)
qed

lemma open_new: "openProcs s = dom (mget (lr_procIdMap (readerOf s)))"
  by (simp add: openProcs_def)

lemma startOne_inv:
  assumes inv: "runInv N s" and N: "N \<le> 1000" and len: "length (co_events (sy_co s)) < 2 ^ 63 - 1"
    and k: "k < N" "isIdle (co_processes (sy_co s) ! k)" "\<not> isStopped (co_processes (sy_co s) ! k)"
  shows "runInv N (startOne writeAddr readAddr k rw s)"
proof -
  let ?p = "co_processes (sy_co s) ! k" and ?s = "startOne writeAddr readAddr k rw s"
  have P: "procInv s k" "length (co_processes (sy_co s)) = N" using inv k(1) by (simp_all add: runInv_def)
  have k1000: "k < 1000" using k(1) N by simp
  have id: "pr_id ?p = of_nat k" and closed: "int k \<notin> openProcs s" and idle: "sy_running s k = None"
    using P(1) k(2,3) by (auto simp: procInv_def Let_def)
  have v: "unat (co_value (sy_co s)) < 2 ^ 63"
    using inv len by (auto simp: runInv_def)
  then have v1: "co_value (sy_co s) \<noteq> - 1" by (auto simp: unsigned_minus_1_eq_mask mask_eq_exp_minus_1)
  define e where "e = (if rw mod 2 = 0
      then \<lparr>le_eventType = eventTypeRead, le_eventResult = eventInvoked, le_id = of_nat k, le_value = 0\<rparr>
      else \<lparr>le_eventType = eventTypeWrite, le_eventResult = eventInvoked, le_id = of_nat k, le_value = co_value (sy_co s)\<rparr>)"
  have e: "plainEvent e" "le_id e = of_nat k" "le_eventResult e = eventInvoked"
    using v1 proc_key(2) [OF k1000] by (auto simp: e_def plainEvent_def event_codes)
  have s: "co_events (sy_co ?s) = co_events (sy_co s) @ [e]" "co_processes (sy_co ?s) = (co_processes (sy_co s))[k := setBusy ?p]"
    "co_value (sy_co ?s) = co_value (sy_co s) \<or> co_value (sy_co ?s) = co_value (sy_co s) + 1"
    by (simp_all add: startOne_def Let_def StartRead_def StartWrite_def recordReadInvoked_def recordWriteInvoked_def e_def id)
  define g where "g = (if rw mod 2 = 0 then Reading readAddr else Writing writeAddr (co_value (sy_co s)))"
  have g: "sy_running ?s = (sy_running s)(k := Some g)" "g = Reading readAddr \<or> g = Writing writeAddr (co_value (sy_co s))"
    by (simp_all add: startOne_def Let_def StartRead_def StartWrite_def g_def)
  obtain n where n: "readerInv n (readerOf s)" "n \<le> length (co_events (sy_co s))" using inv by (auto simp: runInv_def)
  have read: "readerInv (Suc m) (readEvent e (readerOf s))" "dom (mget (lr_procIdMap (readEvent e (readerOf s)))) = insert (int k) (openProcs s)"
    if "readerInv m (readerOf s)" "m \<le> length (co_events (sy_co s))" for m
    using read_opens [OF that(1) _ k1000 e(2,3)] that(2) len closed by (simp_all add: openProcs_def)
  have "openProcs ?s = insert (int k) (openProcs s)"
    using read(2) [OF n] unfolding openProcs_def reader_append [OF s(1)] .
  then have "procInv ?s k" using P(2) k(1) id g v1 by (auto simp: procInv_def s(2))
  moreover have "unat (co_value (sy_co ?s)) \<le> unat (co_value (sy_co s)) + 1"
    using s(3) unat_next [of "co_value (sy_co s)"] by auto
  ultimately show ?thesis
    by (intro runInv_entry [OF inv k(1) s(2) g(1) s(1) e(1)]) (use read in \<open>blast+\<close>)
qed

text \<open>The end of an operation: its entry closes it, or it stays open and the process is stopped.\<close>

lemma closing_entry:
  assumes inv: "runInv N s" and N: "N \<le> 1000" and k: "k < N" and "int k \<in> openProcs s"
    and e: "plainEvent e" "le_id e = of_nat k" "le_eventResult e \<noteq> eventInvoked"
    and s': "co_processes (sy_co s') = co_processes (sy_co s)" "co_events (sy_co s') = co_events (sy_co s) @ [e]"
      "co_value (sy_co s') = co_value (sy_co s)" "sy_running s' = (sy_running s)(k := Some Finishing)"
    and failed: "le_eventResult e = eventFailed \<Longrightarrow> isStopped (co_processes (sy_co s) ! k)"
    and busy: "sy_running s k \<noteq> None"
  shows "runInv N s'"
proof -
  have k1000: "k < 1000" using k N by simp
  have P: "procInv s k" "length (co_processes (sy_co s)) = N" using inv k by (simp_all add: runInv_def)
  have procs: "co_processes (sy_co s') = (co_processes (sy_co s))[k := co_processes (sy_co s) ! k]" using s'(1) by simp
  have id: "pr_id (co_processes (sy_co s) ! k) = of_nat k" and idle: "\<not> isIdle (co_processes (sy_co s) ! k)"
    using P(1) busy by (simp_all add: procInv_def Let_def)
  show ?thesis
  proof (cases "le_eventResult e = eventFailed \<and> le_eventType e = eventTypeWrite")
    case True
    then have same: "readEvent e r = r" for r by (simp add: readEvent_def event_codes Let_def)
    have "openProcs s' = openProcs s" by (simp add: openProcs_def reader_append [OF s'(2)] same)
    then have "procInv s' k" using id idle failed True by (simp add: procInv_def s'(1,4) Let_def)
    then show ?thesis
      by (intro runInv_entry [OF inv k procs s'(4,2) e(1)]) (auto simp: s'(3) same openProcs_def intro: le_SucI)
  next
    case False
    then have res: "le_eventResult e = eventCompleted \<or> le_eventResult e = eventFailed \<and> le_eventType e = eventTypeRead"
      using e by (auto simp: plainEvent_def)
    note close = read_closes [OF _ k1000 e(2) res assms(4) [unfolded openProcs_def]]
    obtain n where n: "readerInv n (readerOf s)" using inv by (auto simp: runInv_def)
    have "openProcs s' = openProcs s - {int k}"
      using close(2) [OF n] unfolding openProcs_def reader_append [OF s'(2)] .
    then have "procInv s' k" using id idle by (simp add: procInv_def s'(1,4) Let_def)
    then show ?thesis
      by (intro runInv_entry [OF inv k procs s'(4,2) e(1)])
        (auto simp: s'(3) openProcs_def close(2) intro: close(1) le_SucI)
  qed
qed

lemma endRead_inv:
  assumes inv: "runInv N s" and N: "N \<le> 1000" and run: "sy_running s k = Some (Reading addr)"
  shows "runInv N (endRead k r s)"
proof -
  have k: "k < N" using inv run by (auto simp: runInv_def)
  then have P: "procInv s k" "length (co_processes (sy_co s)) = N" using inv by (simp_all add: runInv_def)
  then have open': "int k \<in> openProcs s" and id: "pr_id (co_processes (sy_co s) ! k) = of_nat k"
    and idle: "\<not> isIdle (co_processes (sy_co s) ! k)" using run by (simp_all add: procInv_def Let_def)
  show ?thesis
  proof (cases r)
    case None
    let ?s = "endRead k r s"
    have "openProcs ?s = openProcs s" by (simp add: openProcs_def readerOf_def endRead_def None)
    then have "procInv ?s k" using P(2) k id idle open' by (simp add: procInv_def endRead_def None Let_def)
    then show ?thesis by (intro runInv_quiet [OF inv k, where g = "Some ReadFailing"]) (simp_all add: endRead_def None)
  next
    case (Some v)
    show ?thesis
      by (rule closing_entry [OF inv N k open', where e = "\<lparr>le_eventType = eventTypeRead, le_eventResult = eventCompleted, le_id = of_nat k, le_value = v\<rparr>"])
        (use run k N in \<open>simp_all add: endRead_def Some recordReadCompleted_def id plainEvent_def event_codes proc_key(2)\<close>)
  qed
qed

lemma endWrite_inv:
  assumes inv: "runInv N s" and N: "N \<le> 1000" and run: "sy_running s k = Some (Writing addr v)"
  shows "runInv N (endWrite k v ok s)"
proof -
  have k: "k < N" using inv run by (auto simp: runInv_def)
  then have P: "procInv s k" "length (co_processes (sy_co s)) = N" using inv by (simp_all add: runInv_def)
  then have open': "int k \<in> openProcs s" and id: "pr_id (co_processes (sy_co s) ! k) = of_nat k"
    and idle: "\<not> isIdle (co_processes (sy_co s) ! k)" and v: "v \<noteq> - 1" using run by (simp_all add: procInv_def Let_def)
  show ?thesis
  proof (cases ok)
    case False
    let ?s = "endWrite k v ok s"
    have "openProcs ?s = openProcs s" by (simp add: openProcs_def readerOf_def endWrite_def False)
    then have "procInv ?s k" using P(2) k id idle open' by (simp add: procInv_def endWrite_def False Let_def)
    then show ?thesis by (intro runInv_quiet [OF inv k, where g = "Some WriteFailing"]) (simp_all add: endWrite_def False)
  next
    case True
    show ?thesis
      by (rule closing_entry [OF inv N k open', where e = "\<lparr>le_eventType = eventTypeWrite, le_eventResult = eventCompleted, le_id = of_nat k, le_value = v\<rparr>"])
        (use run k N v in \<open>simp_all add: endWrite_def True recordWriteCompleted_def id plainEvent_def event_codes proc_key(2)\<close>)
  qed
qed

lemma goOn_inv:
  assumes inv: "runInv N s" and N: "N \<le> 1000" and run: "sy_running s k = Some g" and g: "g \<in> {ReadFailing, WriteFailing, Finishing}"
  shows "runInv N (goOn k g s)"
proof -
  have k: "k < N" using inv run by (auto simp: runInv_def)
  then have P: "procInv s k" "length (co_processes (sy_co s)) = N" using inv by (simp_all add: runInv_def)
  then have id: "pr_id (co_processes (sy_co s) ! k) = of_nat k" by (simp add: procInv_def Let_def)
  consider "g = ReadFailing" | "g = WriteFailing" | "g = Finishing" using g by blast
  then show ?thesis
  proof cases
    case 1
    then have "int k \<in> openProcs s" "isStopped (co_processes (sy_co s) ! k)" using P(1) run by (simp_all add: procInv_def Let_def)
    then show ?thesis
      by (intro closing_entry [OF inv N k, where e = "\<lparr>le_eventType = eventTypeRead, le_eventResult = eventFailed, le_id = of_nat k, le_value = 0\<rparr>"])
        (use run k N 1 in \<open>simp_all add: goOn_def Let_def recordReadFailed_def id plainEvent_def event_codes proc_key(2)\<close>)
  next
    case 2
    then have "int k \<in> openProcs s" "isStopped (co_processes (sy_co s) ! k)" using P(1) run by (simp_all add: procInv_def Let_def)
    then show ?thesis
      by (intro closing_entry [OF inv N k, where e = "\<lparr>le_eventType = eventTypeWrite, le_eventResult = eventFailed, le_id = of_nat k, le_value = 0\<rparr>"])
        (use run k N 2 in \<open>simp_all add: goOn_def Let_def recordWriteFailed_def id plainEvent_def event_codes proc_key(2)\<close>)
  next
    case 3
    let ?s = "goOn k g s"
    have "openProcs ?s = openProcs s" by (simp add: openProcs_def readerOf_def goOn_def Let_def 3)
    then have "procInv ?s k" using P k id run 3 by (simp add: procInv_def goOn_def Let_def)
    then show ?thesis by (intro runInv_quiet [OF inv k, where g = None]) (simp_all add: goOn_def Let_def 3)
  qed
qed

lemma stop_inv:
  assumes inv: "runInv N s"
  shows "runInv N (s\<lparr>sy_co := lcm_Stop (sy_co s)\<rparr>)"
proof -
  have "procInv (s\<lparr>sy_co := lcm_Stop (sy_co s)\<rparr>) k" if "k < N" for k
  proof -
    have "procInv s k" "length (co_processes (sy_co s)) = N" using inv that by (simp_all add: runInv_def)
    then show ?thesis using that
      by (auto simp: procInv_def lcm_Stop_def Let_def openProcs_def readerOf_def split: option.splits goroutine.splits)
  qed
  then show ?thesis using inv by (simp add: runInv_def readerOf_def lcm_Stop_def)
qed

section \<open>Runs\<close>

lemma startOne_events: "length (co_events (sy_co (startOne writeAddr readAddr k rw s))) = Suc (length (co_events (sy_co s)))"
  by (simp add: startOne_def Let_def StartRead_def StartWrite_def recordReadInvoked_def recordWriteInvoked_def)

lemma goroutine_events: "goroutineStep s s' \<Longrightarrow> length (co_events (sy_co s)) \<le> length (co_events (sy_co s'))"
  by (induction rule: goroutineStep.induct)
    (auto simp: endRead_def endWrite_def goOn_def Let_def recordReadCompleted_def recordWriteCompleted_def
      recordReadFailed_def recordWriteFailed_def split: option.splits)

lemma new_inv: "runInv (unat n) \<lparr>sy_co = NewCoordinator n shardID addrs, sy_running = (\<lambda>_. None)\<rparr>"
proof -
  have "readerInv 0 emptyReader" by (simp add: readerInv_def emptyReader_def openIds_def kindsOf_def)
  then show ?thesis
    by (simp add: runInv_def procInv_def Let_def NewCoordinator_def newProcess_def isIdle_def openProcs_def readerOf_def emptyReader_def)
qed

lemma run_inv:
  assumes "lcmRun (NewCoordinator n shardID addrs) s" and "unat n \<le> 1000" and "length (co_events (sy_co s)) < 2 ^ 63"
  shows "runInv (unat n) s"
  using assms(1,3)
proof (induction rule: lcmRun.induct)
  case run_starts
  show ?case by (rule new_inv)
next
  case (run_schedules s k writeAddr readAddr rw)
  then have "runInv (unat n) s" "length (co_events (sy_co s)) < 2 ^ 63 - 1" by (simp_all add: startOne_events)
  moreover from this have "k < unat n" using run_schedules.hyps(2) by (simp add: runInv_def)
  ultimately show ?case using assms(2) run_schedules.hyps by (intro startOne_inv)
next
  case (run_goroutine s s')
  then have inv: "runInv (unat n) s" using goroutine_events by fastforce
  from run_goroutine.hyps(2) show ?case
    by cases (use inv assms(2) in \<open>auto intro: endRead_inv endWrite_inv goOn_inv\<close>)
next
  case (run_stops s)
  then show ?case by (intro stop_inv) (simp add: lcm_Stop_def)
qed

text \<open>The command on a file that reads back as a history fit for the check.\<close>

lemma checker_answers:
  assumes "fit getEtcdModel H" and "parseJepsenLog visit (Some content) = Inr H" and "fp \<noteq> []"
  shows "checkerMain visit [PartitionResult 0] fp (Some content) =
    Some (if linearizable getEtcdModel H then Inr () else panic ViolationFound)"
proof -
  have "CheckEventsTimeout getEtcdModel [PartitionResult 0] H = Some (Inr (linearizable getEtcdModel H))"
    using partition_answer [OF assms(1)]
    by (simp add: CheckEventsTimeout_def Let_def fillDefault_def getEtcdModel_def NoPartitionEvent_def plainEqual_def)
  then show ?thesis using assms(2,3) by (simp add: checkerMain_def)
qed

text \<open>
  C7. The log of any run of at most 1000 processes is written without a panic, and what the checker
  reads from it is a complete history: every operation has one call and one return, whichever way
  the processes were interleaved and whatever failed. On that file the checker command ends, and it
  reports a violation exactly when the history is not linearizable.
\<close>

theorem run_is_checked:
  assumes "lcmRun (NewCoordinator n shardID addrs) s" and "unat n \<le> 1000" and "length (co_events (sy_co s)) < 2 ^ 63"
    and "\<And>m. mset (visit m) = mset m" and "fp \<noteq> []"
  shows "\<exists>file H. SaveAsJepsenLog (sy_co s) = (Inr (), file) \<and> parseJepsenLog visit (Some file) = Inr H \<and> completeHistory H \<and>
    checkerMain visit [PartitionResult 0] fp (Some file) =
      Some (if linearizable getEtcdModel H then Inr () else panic ViolationFound)"
proof -
  let ?H = "historyOf visit (co_events (sy_co s))"
  have inv: "runInv (unat n) s" by (rule run_inv [OF assms(1-3)])
  then obtain k where k: "readerInv k (readerOf s)" "k < 2 ^ 63" using assms(3) by (auto simp: runInv_def)
  then have fit: "fit getEtcdModel ?H" unfolding historyOf_closed readerOf_def by (intro closed_fit) (simp_all add: assms(4))
  have "list_all plainEvent (co_events (sy_co s))" using inv by (simp add: runInv_def)
  then obtain f where "SaveAsJepsenLog (sy_co s) = (Inr (), f)" "parseJepsenLog visit (Some f) = Inr ?H"
    using log_read_back by blast
  then show ?thesis using fit checker_answers [OF fit _ assms(5)]
    by (intro exI [of _ f] exI [of _ ?H]) (simp add: fit_def)
qed

definition waitOk :: "coordinator \<Rightarrow> bool" where
  "waitOk c \<longleftrightarrow> 25 \<le> co_wait c \<and> co_wait c \<le> 100 \<and> co_completeCount c < 4"

lemma double_wait: "25 \<le> w \<Longrightarrow> w \<le> 100 \<Longrightarrow> 25 \<le> w * (2 :: u64)"
  by (simp add: word_le_nat_alt unat_word_ariths)

lemma next_count: "n < 4 \<Longrightarrow> n + 1 \<noteq> 4 \<Longrightarrow> n + 1 < (4 :: u64)"
proof -
  assume "n < 4" "n + 1 \<noteq> 4"
  then have "unat n < 4" "unat (n + 1) \<noteq> 4" by (simp_all add: word_less_nat_alt word_unat_eq_iff)
  moreover from this have "unat (n + 1) = unat n + 1" by (simp add: unat_word_ariths)
  ultimately show ?thesis by (simp add: word_less_nat_alt)
qed

lemma waitOk_simps [simp]:
  "waitOk c \<Longrightarrow> waitOk (increaseCompleteCount c)" "waitOk c \<Longrightarrow> waitOk (resetCompleteCount c)"
  "waitOk (appendEvent e c) = waitOk c" "waitOk (onProcess k f c) = waitOk c" "waitOk (lcm_Stop c) = waitOk c"
  "waitOk (NewCoordinator n shardID addrs)" "waitOk (c\<lparr>co_value := v\<rparr>) = waitOk c"
  by (auto simp: waitOk_def increaseCompleteCount_def resetCompleteCount_def Let_def initialWait_def maxWait_def
      appendEvent_def onProcess_def lcm_Stop_def NewCoordinator_def double_wait next_count)

lemma goroutine_wait: "goroutineStep s s' \<Longrightarrow> waitOk (sy_co s) \<Longrightarrow> waitOk (sy_co s')"
  by (induction rule: goroutineStep.induct)
    (auto simp: endRead_def endWrite_def goOn_def Let_def recordReadCompleted_def recordWriteCompleted_def
      recordReadFailed_def recordWriteFailed_def split: option.splits)

lemma startOne_wait: "waitOk (sy_co s) \<Longrightarrow> waitOk (sy_co (startOne writeAddr readAddr k rw s))"
  by (simp add: startOne_def Let_def StartRead_def StartWrite_def recordReadInvoked_def recordWriteInvoked_def)

lemma run_wait: "lcmRun (NewCoordinator n shardID addrs) s \<Longrightarrow> waitOk (sy_co s)"
  by (induction rule: lcmRun.induct) (auto intro: goroutine_wait startOne_wait)

text \<open>
  C19. The wait between two rounds of operations stays between 25 and 100 seconds in every run, and
  fewer than four completed operations are counted towards shortening it.
\<close>

theorem wait_bounded:
  assumes "lcmRun (NewCoordinator n shardID addrs) s"
  shows "25 \<le> co_wait (sy_co s) \<and> co_wait (sy_co s) \<le> 100 \<and> co_completeCount (sy_co s) < 4"
  using run_wait [OF assms] unfolding waitOk_def .

section \<open>Rounds\<close>

text \<open>What the goroutines may do between two steps of the coordinator.\<close>

definition goroutineMoves :: "(system \<Rightarrow> system) \<Rightarrow> bool" where
  "goroutineMoves f \<longleftrightarrow> (\<forall>s. goroutineStep\<^sup>*\<^sup>* s (f s))"

lemma moves_run:
  assumes "goroutineStep\<^sup>*\<^sup>* s s'" and "lcmRun c0 s"
  shows "lcmRun c0 s'"
  using assms by (induction rule: rtranclp_induct) (auto intro: run_goroutine)

definition started :: "system \<Rightarrow> nat" where
  "started s = length (filter (\<lambda>e. le_eventResult e = eventInvoked) (co_events (sy_co s)))"

lemma goroutine_started: "goroutineStep s s' \<Longrightarrow> started s' = started s"
  by (induction rule: goroutineStep.induct)
    (auto simp: started_def endRead_def endWrite_def goOn_def Let_def recordReadCompleted_def recordWriteCompleted_def
      recordReadFailed_def recordWriteFailed_def event_codes split: option.splits)

lemma moves_started: "goroutineStep\<^sup>*\<^sup>* s s' \<Longrightarrow> started s' = started s"
  by (induction rule: rtranclp_induct) (auto simp: goroutine_started)

lemma startOne_started: "started (startOne writeAddr readAddr k rw s) = Suc (started s)"
  by (simp add: started_def startOne_def Let_def StartRead_def StartWrite_def recordReadInvoked_def recordWriteInvoked_def)

lemma available_nonempty: "hasAvailableProcess c \<Longrightarrow> co_processes c \<noteq> []"
  by (auto simp: hasAvailableProcess_def)

lemma scheduleLoop_run:
  assumes "scheduleLoop writeAddr readAddr cnt rounds s = Some s'" and "lcmRun c0 s" and "cnt \<le> 4"
    and "\<And>f i j. (f, i, j) \<in> set rounds \<Longrightarrow> goroutineMoves f"
  shows "lcmRun c0 s' \<and> started s' + cnt \<le> started s + 4"
  using assms
proof (induction rounds arbitrary: cnt s)
  case (Cons r rounds)
  obtain f idx rw where r: "r = (f, idx, rw)" by (cases r)
  let ?s = "f s" and ?k = "idx mod length (co_processes (sy_co (f s)))"
  have moves: "goroutineStep\<^sup>*\<^sup>* s ?s" using Cons.prems(4) r by (auto simp: goroutineMoves_def)
  have run: "lcmRun c0 ?s" and st: "started ?s = started s" using moves_run [OF moves Cons.prems(2)] moves_started [OF moves] .
  have rest: "lcmRun c0 s' \<and> started s' + c \<le> started t + 4"
    if "scheduleLoop writeAddr readAddr c rounds t = Some s'" "lcmRun c0 t" "c \<le> 4" for c t
    using Cons.IH [OF that] Cons.prems(4) by auto
  show ?case
  proof (cases "hasAvailableProcess (sy_co ?s) \<and> cnt < 4")
    case False
    with Cons.prems(1,3) run st show ?thesis by (auto simp: r Let_def)
  next
    case True
    then have k: "?k < length (co_processes (sy_co ?s))" using available_nonempty by auto
    show ?thesis
    proof (cases "\<not> isIdle (co_processes (sy_co ?s) ! ?k) \<or> isStopped (co_processes (sy_co ?s) ! ?k)")
      case skip: True
      then have "scheduleLoop writeAddr readAddr cnt rounds ?s = Some s'" using Cons.prems(1) True by (simp add: r Let_def)
      from rest [OF this run Cons.prems(3)] st show ?thesis by simp
    next
      case False
      then have "scheduleLoop writeAddr readAddr (cnt + 1) rounds (startOne writeAddr readAddr ?k rw ?s) = Some s'"
        using Cons.prems(1) True by (simp add: r Let_def)
      moreover have "lcmRun c0 (startOne writeAddr readAddr ?k rw ?s)" using run k False by (intro run_schedules) auto
      ultimately show ?thesis using rest [of "cnt + 1"] True st by (force simp: startOne_started)
    qed
  qed
qed (auto split: if_splits)

text \<open>
  C17. The scheduling loop, whatever numbers it draws and whatever the goroutines do between its
  iterations, only takes steps of a run, and starts at most four operations.
\<close>

theorem scheduling_is_a_run:
  assumes "scheduleProcesses target rounds s = Some s'" and "lcmRun c0 s"
    and "\<And>f i j. (f, i, j) \<in> set rounds \<Longrightarrow> goroutineMoves f"
  shows "lcmRun c0 s' \<and> started s' \<le> started s + 4"
  using assms scheduleLoop_run [of _ _ 0 rounds s s' c0]
  by (auto simp: scheduleProcesses_def split: prod.splits if_splits)

lemma moves_wait: "goroutineStep\<^sup>*\<^sup>* s s' \<Longrightarrow> waitOk (sy_co s) \<Longrightarrow> waitOk (sy_co s')"
  by (induction rule: rtranclp_induct) (auto intro: goroutine_wait)

lemma mainLoop_schedules:
  assumes "waitOk (sy_co s)" and "\<And>f. f \<in> set ticks \<Longrightarrow> goroutineMoves f" and "unat cnt < 100" and "100 \<le> unat cnt + length ticks"
  shows "mainLoop sched ticks (cnt, s) = None \<or> (\<exists>k < length ticks. \<exists>c t.
    mainLoop sched (take k ticks) (cnt, s) = Some (c, t) \<and> mainTick sched (c, (ticks ! k) t) = Some (0, sched ((ticks ! k) t)))"
  using assms
proof (induction ticks arbitrary: cnt s)
  case (Cons f ticks)
  have wait: "waitOk (sy_co (f s))" using Cons.prems(1,2) by (auto simp: goroutineMoves_def intro: moves_wait)
  show ?case
  proof (cases "mainTick sched (cnt, f s)")
    case (Some st)
    show ?thesis
    proof (cases "cnt + 1 \<ge> co_wait (sy_co (f s))")
      case True
      then have "mainTick sched (cnt, f s) = Some (0, sched (f s))" using Some by (auto simp: mainTick_def Let_def split: if_splits)
      then show ?thesis by (intro disjI2 exI [of _ 0]) simp
    next
      case False
      then have st: "st = (cnt + 1, f s)" using Some by (auto simp: mainTick_def Let_def split: if_splits)
      have "unat (cnt + 1) = unat cnt + 1" using Cons.prems(3) by (simp add: unat_word_ariths)
      moreover have "unat (cnt + 1) < 100" using False wait by (simp add: waitOk_def word_le_nat_alt)
      ultimately have "mainLoop sched ticks st = None \<or> (\<exists>k < length ticks. \<exists>c t.
          mainLoop sched (take k ticks) st = Some (c, t) \<and> mainTick sched (c, (ticks ! k) t) = Some (0, sched ((ticks ! k) t)))"
        unfolding st using Cons.prems by (intro Cons.IH wait) auto
      then show ?thesis
      proof
        assume "\<exists>k < length ticks. \<exists>c t. mainLoop sched (take k ticks) st = Some (c, t) \<and>
          mainTick sched (c, (ticks ! k) t) = Some (0, sched ((ticks ! k) t))"
        then obtain k c t where "k < length ticks" "mainLoop sched (take k ticks) st = Some (c, t)"
          "mainTick sched (c, (ticks ! k) t) = Some (0, sched ((ticks ! k) t))" by blast
        then show ?thesis using Some by (intro disjI2 exI [of _ "Suc k"]) auto
      qed (simp add: Some)
    qed
  qed simp
qed simp

text \<open>
  C18. The coordinator keeps going: among any hundred consecutive ticks of its main loop there is one
  at which it schedules a round of operations, unless it returns because all processes are stopped.
\<close>

theorem rounds_recur:
  assumes "lcmRun (NewCoordinator n shardID addrs) s" and "length ticks = 100" and "\<And>f. f \<in> set ticks \<Longrightarrow> goroutineMoves f"
  shows "mainLoop sched ticks (0, s) = None \<or> (\<exists>k < 100. \<exists>c t.
    mainLoop sched (take k ticks) (0, s) = Some (c, t) \<and> mainTick sched (c, (ticks ! k) t) = Some (0, sched ((ticks ! k) t)))"
  using mainLoop_schedules [OF run_wait [OF assms(1)] assms(3), where cnt = 0 and sched = sched and ticks = ticks] assms(2) by simp

section \<open>Processes with more than three digits\<close>

lemma format_long: "10 ^ k \<le> n \<Longrightarrow> k < length (formatNat n)"
proof (induction k arbitrary: n)
  case 0
  show ?case using formatNat_nonempty by simp
next
  case (Suc k)
  then have "10 ^ k \<le> n div 10" by (simp add: less_eq_div_iff_mult_less_eq mult.commute)
  moreover have "10 \<le> n" by (rule le_trans [OF _ Suc.prems]) simp
  ultimately show ?case using Suc.IH [of "n div 10"] by (simp add: formatNat.simps [of n])
qed

lemma entry_text:
  assumes "toJepsenLogEntry e = Inr l"
  shows "\<exists>q. l = ''INFO  jepsen.util - '' @ padRight 4 (FormatUint (le_id e)) @ CHR '':'' # q @ [newline]"
  using assms unfolding toJepsenLogEntry_def newline_def Let_def
  by (auto simp: goThen_def panic_def padded split: if_splits)

lemma match_long:
  assumes "numeralText d" and "4 \<le> length d"
  shows "matchPieces (linePrefix @ ps) (''INFO  jepsen.util - '' @ padRight 4 d @ CHR '':'' # s) = None"
proof -
  have "takeWhile isDigit (d @ CHR '':'' # s) = d" "dropWhile isDigit (d @ CHR '':'' # s) = CHR '':'' # s"
    using assms(1) by (simp_all add: numeralText_def match_simps takeWhile_append dropWhile_append)
  moreover have "dropWhile isBlank (d @ x) = d @ x" for x
    using assms(1) digit_not_blank by (cases d) (auto simp: numeralText_def)
  ultimately show ?thesis using assms by (simp add: linePrefix_def padRight_def match_simps)
qed

text \<open>
  From process 1000 on, an entry has no blank between the process ID and what follows: whatever
  the entry says, the reader skips its line.
\<close>

theorem long_ids_are_skipped:
  assumes "1000 \<le> unat (le_id e)" and "toJepsenLogEntry e = Inr (line @ [newline])"
  shows "parseLine line r = r"
proof -
  obtain q where "line = ''INFO  jepsen.util - '' @ padRight 4 (FormatUint (le_id e)) @ CHR '':'' # q"
    using entry_text [OF assms(2)] by auto
  moreover have "4 \<le> length (FormatUint (le_id e))" using format_long [of 3 "unat (le_id e)"] assms(1) by (simp add: FormatUint_def)
  ultimately show ?thesis
    by (simp only: parseLine_def invokeRead_def invokeWrite_def invokeCas_def returnRead_def returnWrite_def
        returnCas_def timeoutRead_def match_long [OF numeralText_format] option.case)
qed

section \<open>The values of a log\<close>

definition typedReader :: "logReader \<Rightarrow> bool" where
  "typedReader r \<longleftrightarrow> (\<forall>e \<in> set (lr_events r). typedEvent e)"

lemma typed_reader [simp]:
  "typedReader r \<Longrightarrow> typedReader (callOf proc inp r)" "typedReader r \<Longrightarrow> typedReader (returnOf proc out r)"
  by (auto simp: typedReader_def typedEvent_def callOf_def returnOf_def Let_def)

lemma typed_line: "typedReader r \<Longrightarrow> typedReader (parseLine line r)"
  unfolding parseLine_def by (auto split: option.split)

lemma typed_log: "readLog s r = Inr r' \<Longrightarrow> typedReader r \<Longrightarrow> typedReader r'"
proof (induction s r rule: readLog.induct)
  case (1 s r)
  then show ?case by (subst (asm) (2) readLog.simps) (auto simp: typed_line split: sum.splits option.splits prod.splits)
qed

text \<open>
  C20. Whatever a log says, a call read from it carries an input of the register and a return an
  output: the conversions in the model's step, which panic on any other value, never do.
\<close>

theorem log_values_are_typed:
  assumes "parseJepsenLog visit file = Inr H" and "c \<in> set H" and "ev_Kind c = CallEvent"
    and "q \<in> set H" and "ev_Kind q = ReturnEvent"
  shows "\<exists>result. mo_Step getEtcdModel st (ev_Value c) (ev_Value q) = Inr result"
proof -
  obtain s r where r: "file = Some s" "readLog s \<lparr>lr_events = [], lr_id = 0, lr_procIdMap = []\<rparr> = Inr r"
    "H = closedHistory visit r"
    using assms(1) by (auto simp: parseJepsenLog_def goThen_def panic_def closedHistory_def split: option.splits sum.splits)
  from typed_log [OF r(2)] have "typedReader r" by (simp add: typedReader_def)
  then have "\<forall>e \<in> set H. typedEvent e" unfolding r(3) by (auto simp: typedReader_def closedHistory_def typedEvent_def)
  then have "typedEvent c" "typedEvent q" using assms by simp_all
  then obtain inp out where "ev_Value c = Some (EtcdInput inp)" "ev_Value q = Some (EtcdOutput out)"
    using assms(3,5) by (auto simp: typedEvent_def)
  then show ?thesis by (auto simp: getEtcdModel_def etcdStep_def asInput_def asOutput_def Let_def)
qed

end
