(* ===== verification/RegisterBook.thy ===== *)
theory RegisterBook
  imports CoordinatorFacts
begin

text \<open>
  A store that is an atomic register, seen through the log: a book of the operations that took
  effect, in the order in which they did, is kept beside the reader's state, and a book is a
  linearization of what the reader has read.
\<close>

section \<open>Histories that grow\<close>

lemma find_append: "find P (xs @ ys) = (case find P xs of None \<Rightarrow> find P ys | Some x \<Rightarrow> Some x)"
  by (induction xs) simp_all

lemma kindsOf_find: "k \<in> set (kindsOf i H) \<longleftrightarrow> find (\<lambda>e. ev_Id e = i \<and> ev_Kind e = k) H \<noteq> None"
  by (auto simp: kindsOf_def find_None_iff)

lemma valueOf_append:
  "valueOf k (H @ G) i = (if k \<in> set (kindsOf i H) then valueOf k H i else valueOf k G i)"
  unfolding kindsOf_find by (auto simp: valueOf_def find_append split: option.split)

lemma valueOf_single: "valueOf k [\<lparr>ev_Kind = k', ev_Value = v, ev_Id = j\<rparr>] i = (if j = i \<and> k' = k then v else None)"
  by (simp add: valueOf_def)

lemma returnsBefore_snoc:
  "returnsBefore (H @ [e]) i j \<longleftrightarrow>
     returnsBefore H i j \<or> ev_Kind e = CallEvent \<and> ev_Id e = j \<and> ReturnEvent \<in> set (kindsOf i H)"
proof
  assume "returnsBefore (H @ [e]) i j"
  then obtain p q where pq: "p < q" "q < Suc (length H)" "ev_Kind ((H @ [e]) ! p) = ReturnEvent" "ev_Id ((H @ [e]) ! p) = i"
    "ev_Kind ((H @ [e]) ! q) = CallEvent" "ev_Id ((H @ [e]) ! q) = j" by (auto simp: returnsBefore_def)
  show "returnsBefore H i j \<or> ev_Kind e = CallEvent \<and> ev_Id e = j \<and> ReturnEvent \<in> set (kindsOf i H)"
  proof (cases "q < length H")
    case True
    with pq have "returnsBefore H i j" unfolding returnsBefore_def by (auto simp: nth_append split: if_splits)
    then show ?thesis ..
  next
    case False
    with pq have "q = length H" "p < length H" by simp_all
    moreover from this pq have "H ! p \<in> set H" "ev_Kind (H ! p) = ReturnEvent" "ev_Id (H ! p) = i" by (auto simp: nth_append)
    ultimately show ?thesis using pq(5,6) by (force simp: kindsOf_def)
  qed
next
  assume "returnsBefore H i j \<or> ev_Kind e = CallEvent \<and> ev_Id e = j \<and> ReturnEvent \<in> set (kindsOf i H)"
  then show "returnsBefore (H @ [e]) i j"
  proof
    assume "returnsBefore H i j"
    then obtain p q where "p < q" "q < length H" "ev_Kind (H ! p) = ReturnEvent" "ev_Id (H ! p) = i"
      "ev_Kind (H ! q) = CallEvent" "ev_Id (H ! q) = j" by (auto simp: returnsBefore_def)
    then show ?thesis unfolding returnsBefore_def by (intro exI [of _ p] exI [of _ q]) (simp add: nth_append)
  next
    assume e: "ev_Kind e = CallEvent \<and> ev_Id e = j \<and> ReturnEvent \<in> set (kindsOf i H)"
    then obtain p where "p < length H" "ev_Kind (H ! p) = ReturnEvent" "ev_Id (H ! p) = i"
      by (auto simp: kindsOf_def in_set_conv_nth)
    with e show ?thesis unfolding returnsBefore_def by (intro exI [of _ p] exI [of _ "length H"]) (simp add: nth_append)
  qed
qed

lemma kindsOf_nth: "p < length H \<Longrightarrow> ev_Kind (H ! p) \<in> set (kindsOf (ev_Id (H ! p)) H)"
  by (auto simp: kindsOf_def intro!: imageI)

lemma kindsOf_id: "k \<in> set (kindsOf i H) \<Longrightarrow> i \<in> idsOf H"
  by (auto simp: kindsOf_def idsOf_def)

lemma returnsBefore_returned: "returnsBefore H i j \<Longrightarrow> ReturnEvent \<in> set (kindsOf i H)"
  unfolding returnsBefore_def using kindsOf_nth by (metis less_trans)

lemma returnsBefore_called: "returnsBefore H i j \<Longrightarrow> CallEvent \<in> set (kindsOf j H)"
  unfolding returnsBefore_def using kindsOf_nth by metis

lemma returnsBefore_returns:
  assumes "\<And>e. e \<in> set G \<Longrightarrow> ev_Kind e = ReturnEvent"
  shows "returnsBefore (H @ G) i j = returnsBefore H i j"
  using assms
proof (induction G rule: rev_induct)
  case (snoc e G)
  then show ?case using returnsBefore_snoc [of "H @ G" e] by auto
qed simp

section \<open>The book\<close>

definition unknownOutput :: etcdOutput where
  "unknownOutput = noOutput\<lparr>eo_unknown := True\<rparr>"

text \<open>
  \<open>L\<close> lists the operations that took effect, \<open>ideal\<close> gives their outputs; run in this order they lead
  the model to \<open>st\<close>. Every returned operation is in the list, with its output or an unknown one.
\<close>

definition book :: "logReader \<Rightarrow> u64 list \<Rightarrow> (u64 \<Rightarrow> etcdOutput) \<Rightarrow> int \<Rightarrow> bool" where
  "book r L ideal st \<longleftrightarrow>
     (let E = lr_events r in
      distinct L \<and> (\<forall>i \<in> set L. CallEvent \<in> set (kindsOf i E)) \<and>
      (\<forall>i. ReturnEvent \<in> set (kindsOf i E) \<longrightarrow> i \<in> set L) \<and>
      (\<forall>i j. returnsBefore E i j \<longrightarrow> j \<in> set L \<longrightarrow> precedes L i j) \<and>
      runOps etcdStep nilState (map (\<lambda>i. (valueOf CallEvent E i, Some (EtcdOutput (ideal i)))) L) = Some st \<and>
      (\<forall>i. ReturnEvent \<in> set (kindsOf i E) \<longrightarrow>
         valueOf ReturnEvent E i = Some (EtcdOutput (ideal i)) \<or> valueOf ReturnEvent E i = Some (EtcdOutput unknownOutput)))"

lemma bookD:
  assumes "book r L ideal st"
  shows "distinct L" "i \<in> set L \<Longrightarrow> CallEvent \<in> set (kindsOf i (lr_events r))"
    "ReturnEvent \<in> set (kindsOf i (lr_events r)) \<Longrightarrow> i \<in> set L"
    "returnsBefore (lr_events r) i j \<Longrightarrow> j \<in> set L \<Longrightarrow> precedes L i j"
    "runOps etcdStep nilState (map (\<lambda>i. (valueOf CallEvent (lr_events r) i, Some (EtcdOutput (ideal i)))) L) = Some st"
    "ReturnEvent \<in> set (kindsOf i (lr_events r)) \<Longrightarrow> valueOf ReturnEvent (lr_events r) i = Some (EtcdOutput (ideal i)) \<or>
       valueOf ReturnEvent (lr_events r) i = Some (EtcdOutput unknownOutput)"
  using assms unfolding book_def Let_def by blast+

lemma book_call:
  assumes b: "book r L ideal st" and inv: "readerInv n r" and n: "Suc n < 2 ^ 64"
  shows "book (callOf proc inp r) L ideal st" and "lr_id r \<notin> set L"
    and "valueOf CallEvent (lr_events (callOf proc inp r)) (lr_id r) = Some (EtcdInput inp)"
    and "i \<noteq> lr_id r \<Longrightarrow> valueOf CallEvent (lr_events (callOf proc inp r)) i = valueOf CallEvent (lr_events r) i"
proof -
  let ?i = "lr_id r" and ?r = "callOf proc inp r"
  have E: "lr_events ?r = lr_events r @ [\<lparr>ev_Kind = CallEvent, ev_Value = Some (EtcdInput inp), ev_Id = ?i\<rparr>]"
    by (simp add: callOf_def)
  have "unat ?i = n" using inv n by (simp add: readerInv_def unat_of_nat)
  then have new: "kindsOf ?i (lr_events r) = []" using inv by (simp add: readerInv_def)
  then show notin: "?i \<notin> set L" using bookD(2) [OF b, of ?i] by auto
  show "valueOf CallEvent (lr_events ?r) ?i = Some (EtcdInput inp)" by (simp add: E valueOf_append valueOf_single new)
  have same: "valueOf CallEvent (lr_events ?r) i = valueOf CallEvent (lr_events r) i" if "i \<noteq> ?i" for i
    using that by (auto simp: E valueOf_append valueOf_single) (simp add: valueOf_def kindsOf_find)
  then show "i \<noteq> ?i \<Longrightarrow> valueOf CallEvent (lr_events ?r) i = valueOf CallEvent (lr_events r) i" .
  have kinds: "ReturnEvent \<in> set (kindsOf i (lr_events ?r)) \<longleftrightarrow> ReturnEvent \<in> set (kindsOf i (lr_events r))" for i
    by (simp add: E kindsOf_append kindsOf_single)
  have run: "map (\<lambda>i. (valueOf CallEvent (lr_events ?r) i, Some (EtcdOutput (ideal i)))) L =
      map (\<lambda>i. (valueOf CallEvent (lr_events r) i, Some (EtcdOutput (ideal i)))) L"
  proof (intro map_cong refl)
    fix j assume "j \<in> set L"
    with notin have "j \<noteq> ?i" by blast
    then show "(valueOf CallEvent (lr_events ?r) j, Some (EtcdOutput (ideal j))) =
      (valueOf CallEvent (lr_events r) j, Some (EtcdOutput (ideal j)))" by (simp add: same)
  qed
  have before: "returnsBefore (lr_events ?r) i j \<Longrightarrow> j \<in> set L \<Longrightarrow> returnsBefore (lr_events r) i j" for i j
    using notin by (auto simp: E returnsBefore_snoc)
  show "book ?r L ideal st"
    unfolding book_def Let_def kinds run
    using bookD [OF b] before by (auto simp: E kindsOf_append valueOf_append)
qed

text \<open>An open operation takes effect.\<close>

lemma book_effect:
  assumes b: "book r L ideal st" and "i \<notin> set L" and "CallEvent \<in> set (kindsOf i (lr_events r))"
    and "etcdStep st (valueOf CallEvent (lr_events r) i) (Some (EtcdOutput out)) = Inr (True, st')"
  shows "book r (L @ [i]) (ideal(i := out)) st'"
proof -
  have fresh: "ReturnEvent \<notin> set (kindsOf i (lr_events r))" using bookD(3) [OF b] assms(2) by blast
  have same: "map (\<lambda>j. (valueOf CallEvent (lr_events r) j, Some (EtcdOutput ((ideal(i := out)) j)))) L =
      map (\<lambda>j. (valueOf CallEvent (lr_events r) j, Some (EtcdOutput (ideal j)))) L"
    using assms(2) by (intro map_cong refl) auto
  have "runOps etcdStep nilState (map (\<lambda>j. (valueOf CallEvent (lr_events r) j, Some (EtcdOutput ((ideal(i := out)) j)))) (L @ [i])) = Some st'"
    unfolding map_append runOps_append same bookD(5) [OF b] using assms(4) by simp
  moreover have "precedes (L @ [i]) j k" if "returnsBefore (lr_events r) j k" "k \<in> set (L @ [i])" for j k
  proof (cases "k = i")
    case True
    then show ?thesis using bookD(3) [OF b returnsBefore_returned [OF that(1)]] by (simp add: precedes_last)
  next
    case False
    then show ?thesis using bookD(4) [OF b that(1)] that(2) by (simp add: precedes_append)
  qed
  ultimately show ?thesis
    using assms(2,3) fresh bookD(1,2,3,6) [OF b] unfolding book_def Let_def by auto
qed

lemma book_return:
  assumes b: "book r L ideal st" and inv: "readerInv n r" and p: "mget (lr_procIdMap r) (atoiDigits proc) = Some i"
    and "i \<in> set L" and "out = ideal i \<or> out = unknownOutput"
  shows "book (returnOf proc out r) L ideal st"
    and "CallEvent \<in> set (kindsOf j (lr_events r)) \<Longrightarrow>
      valueOf CallEvent (lr_events (returnOf proc out r)) j = valueOf CallEvent (lr_events r) j"
proof -
  let ?r = "returnOf proc out r"
  have E: "lr_events ?r = lr_events r @ [\<lparr>ev_Kind = ReturnEvent, ev_Value = Some (EtcdOutput out), ev_Id = i\<rparr>]"
    by (simp add: returnOf_def Let_def p)
  show same: "CallEvent \<in> set (kindsOf j (lr_events r)) \<Longrightarrow> valueOf CallEvent (lr_events ?r) j = valueOf CallEvent (lr_events r) j" for j
    by (simp add: E valueOf_append)
  have run: "map (\<lambda>i. (valueOf CallEvent (lr_events ?r) i, Some (EtcdOutput (ideal i)))) L =
      map (\<lambda>i. (valueOf CallEvent (lr_events r) i, Some (EtcdOutput (ideal i)))) L"
    using same bookD(2) [OF b] by (intro map_cong refl) auto
  have "i \<in> openIds r" using map_of_SomeD [OF p] by (force simp: openIds_def)
  then have "ReturnEvent \<notin> set (kindsOf i (lr_events r))" using inv by (auto simp: readerInv_def)
  then have val: "ReturnEvent \<in> set (kindsOf j (lr_events ?r)) \<Longrightarrow>
      valueOf ReturnEvent (lr_events ?r) j = Some (EtcdOutput (ideal j)) \<or> valueOf ReturnEvent (lr_events ?r) j = Some (EtcdOutput unknownOutput)" for j
    using bookD(6) [OF b, of j] assms(5) by (auto simp: E valueOf_append valueOf_single kindsOf_append kindsOf_single split: if_splits)
  show "book ?r L ideal st"
    unfolding book_def Let_def run
    using bookD [OF b] assms(4) val by (auto simp: E kindsOf_append kindsOf_single returnsBefore_snoc split: if_splits)
qed

section \<open>A book is a linearization\<close>

lemma unknown_step: "\<exists>st'. etcdStep st (Some (EtcdInput inp)) (Some (EtcdOutput unknownOutput)) = Inr (True, st')"
  by (auto simp: etcdStep_def asInput_def asOutput_def unknownOutput_def Let_def)

lemma unknown_same:
  "etcdStep st c (Some (EtcdOutput out)) = Inr (True, st') \<Longrightarrow> etcdStep st c (Some (EtcdOutput unknownOutput)) = Inr (True, st')"
  by (cases "asInput c") (auto simp: etcdStep_def asOutput_def unknownOutput_def Let_def split: if_splits)

lemma typed_call:
  assumes "readerInv n r" and "CallEvent \<in> set (kindsOf i (lr_events r))"
  shows "\<exists>inp. valueOf CallEvent (lr_events r) i = Some (EtcdInput inp)"
proof -
  obtain e where e: "find (\<lambda>e. ev_Id e = i \<and> ev_Kind e = CallEvent) (lr_events r) = Some e"
    using assms(2) unfolding kindsOf_find by blast
  then have "e \<in> set (lr_events r)" "ev_Kind e = CallEvent" by (auto simp: find_Some_iff)
  moreover from this have "typedEvent e" using assms(1) by (simp add: readerInv_def)
  ultimately show ?thesis by (auto simp: valueOf_def e typedEvent_def)
qed

lemma book_rest:
  assumes "readerInv n r" and "book r L ideal st" and "distinct js" and "set js \<inter> set L = {}"
    and "\<And>i. i \<in> set js \<Longrightarrow> CallEvent \<in> set (kindsOf i (lr_events r))"
  shows "\<exists>ideal' st'. book r (L @ js) ideal' st'"
  using assms(2-)
proof (induction js arbitrary: L ideal st)
  case Nil
  then show ?case by auto
next
  case (Cons i js)
  obtain inp where "valueOf CallEvent (lr_events r) i = Some (EtcdInput inp)"
    using typed_call [OF assms(1) Cons.prems(4) [of i]] by auto
  then obtain st' where "etcdStep st (valueOf CallEvent (lr_events r) i) (Some (EtcdOutput unknownOutput)) = Inr (True, st')"
    using unknown_step [of st inp] by auto
  from book_effect [OF Cons.prems(1) _ _ this] Cons.prems(3,4) have "book r (L @ [i]) (ideal(i := unknownOutput)) st'" by auto
  from Cons.IH [OF this] Cons.prems(2-4) show ?case by auto
qed

lemma runOps_outputs:
  assumes "runOps etcdStep s (map (\<lambda>i. (c i, Some (EtcdOutput (ideal i)))) js) = Some st"
    and "\<And>i. i \<in> set js \<Longrightarrow> out i = Some (EtcdOutput (ideal i)) \<or> out i = Some (EtcdOutput unknownOutput)"
  shows "runOps etcdStep s (map (\<lambda>i. (c i, out i)) js) = Some st"
  using assms
proof (induction js arbitrary: s)
  case (Cons i js)
  obtain s' where s': "etcdStep s (c i) (Some (EtcdOutput (ideal i))) = Inr (True, s')"
    "runOps etcdStep s' (map (\<lambda>i. (c i, Some (EtcdOutput (ideal i)))) js) = Some st"
    using Cons.prems(1) by (auto split: sum.splits prod.splits bool.splits)
  moreover have "etcdStep s (c i) (out i) = Inr (True, s')" using Cons.prems(2) [of i] s'(1) unknown_same by auto
  ultimately show ?case using Cons.IH Cons.prems(2) by simp
qed simp

lemma book_linearizable:
  assumes inv: "readerInv n r" and b: "book r L ideal st" and v: "mset (visit (lr_procIdMap r)) = mset (lr_procIdMap r)"
  shows "linearizable getEtcdModel (closedHistory visit r)"
proof -
  let ?E = "lr_events r" and ?H = "closedHistory visit r"
  define js where "js = filter (\<lambda>i. i \<notin> set L) (map snd (lr_procIdMap r))"
  have kinds: "kindsOf i ?E = (if unat i < n then (if i \<in> openIds r then [CallEvent] else [CallEvent, ReturnEvent]) else [])" for i
    using inv by (simp add: readerInv_def)
  have "i \<in> openIds r \<Longrightarrow> unat i < n" for i using inv by (simp add: readerInv_def)
  then have "\<exists>ideal' st'. book r (L @ js) ideal' st'"
    using inv by (intro book_rest [OF inv b]) (auto simp: js_def readerInv_def kinds openIds_def)
  then obtain ideal' st' where b': "book r (L @ js) ideal' st'" by blast
  have all: "set (L @ js) = {i. unat i < n}"
  proof (intro set_eqI iffI)
    fix i assume "i \<in> set (L @ js)"
    from bookD(2) [OF b' this] show "i \<in> {i. unat i < n}" by (simp add: kinds split: if_splits)
  next
    fix i :: u64 assume i: "i \<in> {i. unat i < n}"
    show "i \<in> set (L @ js)"
    proof (cases "i \<in> openIds r")
      case True
      then show ?thesis by (auto simp: js_def openIds_def)
    next
      case False
      then have "ReturnEvent \<in> set (kindsOf i ?E)" using i by (simp add: kinds)
      from bookD(3) [OF b' this] show ?thesis .
    qed
  qed
  define R where "R = map (\<lambda>p. \<lparr>ev_Kind = ReturnEvent, ev_Value = Some (EtcdOutput unknownOutput), ev_Id = snd p\<rparr>) (visit (lr_procIdMap r))"
  have H: "?H = ?E @ R" by (simp add: closedHistory_def R_def unknownOutput_def)
  have called: "i \<in> {i. unat i < n} \<Longrightarrow> CallEvent \<in> set (kindsOf i ?E)" for i by (simp add: kinds)
  have set_visit: "set (visit (lr_procIdMap r)) = set (lr_procIdMap r)" using v by (rule mset_eq_setD)
  have "idsOf ?H = {i. unat i < n}"
  proof
    show "idsOf ?H \<subseteq> {i. unat i < n}" unfolding idsOf_def using closed_complete(3) [where visit = visit, OF inv v] .
    show "{i. unat i < n} \<subseteq> idsOf ?H" using kindsOf_id [OF called] by (auto simp: H idsOf_def)
  qed
  moreover have "returnsBefore ?H i j = returnsBefore ?E i j" for i j
    unfolding H by (rule returnsBefore_returns) (auto simp: R_def)
  moreover have "j \<in> set (L @ js)" if "returnsBefore ?E i j" for i j
    using returnsBefore_called [OF that] unfolding all kinds by (auto split: if_splits)
  moreover have "runOps etcdStep nilState (map (\<lambda>i. (valueOf CallEvent ?E i, valueOf ReturnEvent ?H i)) (L @ js)) = Some st'"
  proof (rule runOps_outputs [OF bookD(5) [OF b']])
    fix i assume i: "i \<in> set (L @ js)"
    show "valueOf ReturnEvent ?H i = Some (EtcdOutput (ideal' i)) \<or> valueOf ReturnEvent ?H i = Some (EtcdOutput unknownOutput)"
    proof (cases "ReturnEvent \<in> set (kindsOf i ?E)")
      case True
      then show ?thesis using bookD(6) [OF b' True] by (simp add: H valueOf_append)
    next
      case False
      then have "i \<in> openIds r" using i all by (auto simp: kinds split: if_splits)
      then have "find (\<lambda>e. ev_Id e = i \<and> ev_Kind e = ReturnEvent) R \<noteq> None"
        by (auto simp: find_None_iff R_def openIds_def set_visit)
      then obtain e where "find (\<lambda>e. ev_Id e = i \<and> ev_Kind e = ReturnEvent) R = Some e" by blast
      moreover from this have "ev_Value e = Some (EtcdOutput unknownOutput)" by (auto simp: find_Some_iff R_def)
      ultimately show ?thesis using False by (simp add: H valueOf_append) (simp add: valueOf_def)
    qed
  qed
  moreover have "map (opOf ?H) (L @ js) = map (\<lambda>i. (valueOf CallEvent ?E i, valueOf ReturnEvent ?H i)) (L @ js)"
    using called all by (intro map_cong refl) (auto simp: opOf_def H valueOf_append)
  ultimately show ?thesis
    unfolding linearizable_order getEtcdModel_def model.select_convs
    using bookD(1) [OF b'] bookD(4) [OF b'] all by (intro exI [of _ "L @ js"] conjI allI impI) (simp_all only: option.simps simp_thms)
qed

end
