(* ===== verification/RegisterRun.thy ===== *)
theory RegisterRun
  imports RegisterBook
begin

text \<open>
  Runs of the coordinator against a store that is an atomic register: an operation takes effect at
  one moment between its start and its end. One that fails may have taken effect or not, and a
  write that failed may still take effect at any time later, as a proposal that timed out does.
\<close>

section \<open>The runs\<close>

text \<open>
  \<open>rg_effect\<close> is what the running operation of a process read or wrote once it took effect,
  \<open>rg_pending\<close> the value of a failed write that has not. \<open>- 1\<close> is the value of a key never written.
\<close>

record register =
  rg_sys :: system
  rg_value :: u64
  rg_effect :: "nat \<Rightarrow> u64 option"
  rg_pending :: "nat \<Rightarrow> u64 option"

inductive registerRun :: "coordinator \<Rightarrow> register \<Rightarrow> bool" for c0 :: coordinator where
  reg_starts: "registerRun c0 \<lparr>rg_sys = \<lparr>sy_co = c0, sy_running = (\<lambda>_. None)\<rparr>, rg_value = - 1,
    rg_effect = (\<lambda>_. None), rg_pending = (\<lambda>_. None)\<rparr>"
| reg_schedules: "registerRun c0 x \<Longrightarrow> k < length (co_processes (sy_co (rg_sys x))) \<Longrightarrow>
    isIdle (co_processes (sy_co (rg_sys x)) ! k) \<Longrightarrow> \<not> isStopped (co_processes (sy_co (rg_sys x)) ! k) \<Longrightarrow>
    registerRun c0 (x\<lparr>rg_sys := startOne writeAddr readAddr k rw (rg_sys x), rg_effect := (rg_effect x)(k := None)\<rparr>)"
| reg_reads: "registerRun c0 x \<Longrightarrow> sy_running (rg_sys x) k = Some (Reading addr) \<Longrightarrow> rg_effect x k = None \<Longrightarrow>
    registerRun c0 (x\<lparr>rg_effect := (rg_effect x)(k := Some (rg_value x))\<rparr>)"
| reg_writes: "registerRun c0 x \<Longrightarrow> sy_running (rg_sys x) k = Some (Writing addr v) \<Longrightarrow> rg_effect x k = None \<Longrightarrow>
    registerRun c0 (x\<lparr>rg_effect := (rg_effect x)(k := Some v), rg_value := v\<rparr>)"
| reg_writes_late: "registerRun c0 x \<Longrightarrow> rg_pending x k = Some v \<Longrightarrow>
    registerRun c0 (x\<lparr>rg_pending := (rg_pending x)(k := None), rg_value := v\<rparr>)"
| reg_read_ends: "registerRun c0 x \<Longrightarrow> sy_running (rg_sys x) k = Some (Reading addr) \<Longrightarrow> rg_effect x k = Some v \<Longrightarrow>
    registerRun c0 (x\<lparr>rg_sys := endRead k (Some v) (rg_sys x)\<rparr>)"
| reg_read_fails: "registerRun c0 x \<Longrightarrow> sy_running (rg_sys x) k = Some (Reading addr) \<Longrightarrow>
    registerRun c0 (x\<lparr>rg_sys := endRead k None (rg_sys x)\<rparr>)"
| reg_write_ends: "registerRun c0 x \<Longrightarrow> sy_running (rg_sys x) k = Some (Writing addr v) \<Longrightarrow> rg_effect x k \<noteq> None \<Longrightarrow>
    registerRun c0 (x\<lparr>rg_sys := endWrite k v True (rg_sys x)\<rparr>)"
| reg_write_fails: "registerRun c0 x \<Longrightarrow> sy_running (rg_sys x) k = Some (Writing addr v) \<Longrightarrow>
    registerRun c0 (x\<lparr>rg_sys := endWrite k v False (rg_sys x),
      rg_pending := (if rg_effect x k = None then (rg_pending x)(k := Some v) else rg_pending x)\<rparr>)"
| reg_goes_on: "registerRun c0 x \<Longrightarrow> sy_running (rg_sys x) k = Some g \<Longrightarrow> g \<in> {ReadFailing, WriteFailing, Finishing} \<Longrightarrow>
    registerRun c0 (x\<lparr>rg_sys := goOn k g (rg_sys x)\<rparr>)"
| reg_stops: "registerRun c0 x \<Longrightarrow> registerRun c0 (x\<lparr>rg_sys := (rg_sys x)\<lparr>sy_co := lcm_Stop (sy_co (rg_sys x))\<rparr>\<rparr>)"

lemma registerRun_lcmRun: "registerRun c0 x \<Longrightarrow> lcmRun c0 (rg_sys x)"
  by (induction rule: registerRun.induct) (auto intro: lcmRun.intros goroutineStep.intros)

section \<open>What the reader makes of the steps\<close>

definition readOp :: etcdInput where
  "readOp = \<lparr>ei_op = 0, ei_arg1 = 0, ei_arg2 = 0\<rparr>"

definition writeOp :: "u64 \<Rightarrow> etcdInput" where
  "writeOp v = \<lparr>ei_op = 1, ei_arg1 = atoiDigits (FormatUint v), ei_arg2 = 0\<rparr>"

definition readOut :: "u64 \<Rightarrow> etcdOutput" where
  "readOut v = (if v = - 1 then noOutput else noOutput\<lparr>eo_exists := True, eo_value := atoiDigits (FormatUint v)\<rparr>)"

definition regState :: "u64 \<Rightarrow> int" where
  "regState v = (if v = - 1 then nilState else atoiDigits (FormatUint v))"

lemma read_step: "etcdStep (regState v) (Some (EtcdInput readOp)) (Some (EtcdOutput (readOut v))) = Inr (True, regState v)"
  by (simp add: etcdStep_def asInput_def asOutput_def readOp_def readOut_def regState_def noOutput_def)

lemma write_step: "v \<noteq> - 1 \<Longrightarrow> etcdStep st (Some (EtcdInput (writeOp v))) (Some (EtcdOutput noOutput)) = Inr (True, regState v)"
  by (simp add: etcdStep_def asInput_def asOutput_def writeOp_def regState_def)

lemma unknown_read: "etcdStep st (Some (EtcdInput readOp)) (Some (EtcdOutput unknownOutput)) = Inr (True, st)"
  by (simp add: etcdStep_def asInput_def asOutput_def readOp_def unknownOutput_def)

lemma nth_update: "ps[k := p] ! j = (if j = k \<and> k < length ps then p else ps ! j)"
  by (cases "k < length ps") (auto simp: nth_list_update list_update_beyond)

definition stoppedAt :: "system \<Rightarrow> nat \<Rightarrow> bool" where
  "stoppedAt s j \<longleftrightarrow> j < length (co_processes (sy_co s)) \<and> isStopped (co_processes (sy_co s) ! j)"

lemma start_reader:
  assumes "pr_id (co_processes (sy_co s) ! k) = of_nat k"
  shows "readerOf (startOne writeAddr readAddr k rw s) =
    callOf (FormatUint (of_nat k)) (if rw mod 2 = 0 then readOp else writeOp (co_value (sy_co s))) (readerOf s)"
    and "sy_running (startOne writeAddr readAddr k rw s) =
      (sy_running s)(k := Some (if rw mod 2 = 0 then Reading readAddr else Writing writeAddr (co_value (sy_co s))))"
    and "stoppedAt (startOne writeAddr readAddr k rw s) j = stoppedAt s j"
  using assms by (auto simp: startOne_def Let_def StartRead_def StartWrite_def recordReadInvoked_def recordWriteInvoked_def
      readerOf_def readEvent_def event_codes readOp_def writeOp_def nth_update stoppedAt_def)

lemma end_reader:
  assumes "pr_id (co_processes (sy_co s) ! k) = of_nat k"
  shows "readerOf (endRead k (Some v) s) = returnOf (FormatUint (of_nat k)) (readOut v) (readerOf s)"
    "readerOf (endRead k None s) = readerOf s"
    "readerOf (endWrite k v True s) = returnOf (FormatUint (of_nat k)) noOutput (readerOf s)"
    "readerOf (endWrite k v False s) = readerOf s"
    "readerOf (goOn k ReadFailing s) = returnOf (FormatUint (of_nat k)) unknownOutput (readerOf s)"
    "readerOf (goOn k WriteFailing s) = readerOf s" "readerOf (goOn k Finishing s) = readerOf s"
  using assms by (auto simp: endRead_def endWrite_def goOn_def Let_def recordReadCompleted_def recordWriteCompleted_def
      recordReadFailed_def recordWriteFailed_def readerOf_def readEvent_def event_codes readOut_def unknownOutput_def)

lemma end_running:
  "sy_running (endRead k (Some v) s) = (sy_running s)(k := Some Finishing)"
  "sy_running (endRead k None s) = (sy_running s)(k := Some ReadFailing)"
  "sy_running (endWrite k v True s) = (sy_running s)(k := Some Finishing)"
  "sy_running (endWrite k v False s) = (sy_running s)(k := Some WriteFailing)"
  "sy_running (goOn k ReadFailing s) = (sy_running s)(k := Some Finishing)"
  "sy_running (goOn k WriteFailing s) = (sy_running s)(k := Some Finishing)"
  "sy_running (goOn k Finishing s) = (sy_running s)(k := None)"
  by (simp_all add: endRead_def endWrite_def goOn_def Let_def)

lemma end_stopped:
  "stoppedAt s j \<Longrightarrow> stoppedAt (endRead k r s) j" "stoppedAt s j \<Longrightarrow> stoppedAt (endWrite k v ok s) j"
  "stoppedAt s j \<Longrightarrow> stoppedAt (goOn k g s) j" "k < length (co_processes (sy_co s)) \<Longrightarrow> stoppedAt (endWrite k v False s) k"
  "stoppedAt s j \<Longrightarrow> stoppedAt (s\<lparr>sy_co := lcm_Stop (sy_co s)\<rparr>) j"
  by (auto simp: endRead_def endWrite_def goOn_def Let_def recordReadCompleted_def recordWriteCompleted_def stoppedAt_def
      recordReadFailed_def recordWriteFailed_def nth_update lcm_Stop_def split: option.splits goroutine.splits)

section \<open>The book of a run\<close>

definition opOpen :: "logReader \<Rightarrow> nat \<Rightarrow> u64 \<Rightarrow> etcdInput \<Rightarrow> bool" where
  "opOpen r k i inp \<longleftrightarrow> mget (lr_procIdMap r) (int k) = Some i \<and> valueOf CallEvent (lr_events r) i = Some (EtcdInput inp)"

definition procBook :: "register \<Rightarrow> u64 list \<Rightarrow> (u64 \<Rightarrow> etcdOutput) \<Rightarrow> nat \<Rightarrow> bool" where
  "procBook x L ideal k \<longleftrightarrow>
     (let r = readerOf (rg_sys x) in
      case sy_running (rg_sys x) k of
        Some (Reading addr) \<Rightarrow> rg_pending x k = None \<and> (\<exists>i. opOpen r k i readOp \<and>
          (case rg_effect x k of None \<Rightarrow> i \<notin> set L | Some v \<Rightarrow> i \<in> set L \<and> ideal i = readOut v))
      | Some (Writing addr v) \<Rightarrow> rg_pending x k = None \<and> v \<noteq> - 1 \<and> (\<exists>i. opOpen r k i (writeOp v) \<and>
          (case rg_effect x k of None \<Rightarrow> i \<notin> set L | Some v \<Rightarrow> i \<in> set L \<and> ideal i = noOutput))
      | Some ReadFailing \<Rightarrow> rg_pending x k = None \<and> (\<exists>i. opOpen r k i readOp)
      | _ \<Rightarrow> (case rg_pending x k of None \<Rightarrow> True
               | Some v \<Rightarrow> v \<noteq> - 1 \<and> stoppedAt (rg_sys x) k \<and> (\<exists>i. opOpen r k i (writeOp v) \<and> i \<notin> set L)))"

definition regInv :: "register \<Rightarrow> bool" where
  "regInv x \<longleftrightarrow> (\<exists>L ideal. book (readerOf (rg_sys x)) L ideal (regState (rg_value x)) \<and> (\<forall>k. procBook x L ideal k))"

text \<open>What one process does leaves the page of another as it is.\<close>

lemma procBook_frame:
  assumes "procBook x L ideal j" and "sy_running (rg_sys x') j = sy_running (rg_sys x) j"
    and "rg_effect x' j = rg_effect x j" and "rg_pending x' j = rg_pending x j"
    and "stoppedAt (rg_sys x) j \<Longrightarrow> stoppedAt (rg_sys x') j"
    and "\<And>i inp. opOpen (readerOf (rg_sys x)) j i inp \<Longrightarrow> opOpen (readerOf (rg_sys x')) j i inp \<and> (i \<in> set L' \<longleftrightarrow> i \<in> set L) \<and> ideal' i = ideal i"
  shows "procBook x' L' ideal' j"
proof (cases "sy_running (rg_sys x) j")
  case None
  then show ?thesis using assms by (fastforce simp: procBook_def Let_def split: option.splits)
next
  case (Some g)
  then show ?thesis using assms by (cases g) (fastforce simp: procBook_def Let_def split: option.splits)+
qed

lemma opOpen_openIds: "opOpen r k i inp \<Longrightarrow> i \<in> openIds r"
  by (force simp: opOpen_def openIds_def dest: map_of_SomeD)

lemma opOpen_called: "readerInv n r \<Longrightarrow> opOpen r k i inp \<Longrightarrow> CallEvent \<in> set (kindsOf i (lr_events r))"
  using opOpen_openIds by (fastforce simp: readerInv_def)

lemma opOpen_distinct:
  assumes "readerInv n r" and "opOpen r k i inp" and "opOpen r j i' inp'" and "j \<noteq> k"
  shows "i' \<noteq> i"
proof
  assume "i' = i"
  then have "(int k, i) \<in> set (lr_procIdMap r)" "(int j, i) \<in> set (lr_procIdMap r)"
    using assms(2,3) by (auto simp: opOpen_def dest: map_of_SomeD)
  moreover have "inj_on snd (set (lr_procIdMap r))" using assms(1) by (simp add: readerInv_def distinct_map)
  ultimately have "int k = int j" by (metis fst_conv inj_onD snd_conv)
  with assms(4) show False by simp
qed

text \<open>An operation takes effect: only the page of its process changes.\<close>

lemma effect_inv:
  assumes inv: "readerInv n (readerOf (rg_sys x))" and b: "book (readerOf (rg_sys x)) L ideal (regState (rg_value x))"
    and P: "\<And>j. procBook x L ideal j" and op: "opOpen (readerOf (rg_sys x)) k i inp" "i \<notin> set L"
    and step: "etcdStep (regState (rg_value x)) (Some (EtcdInput inp)) (Some (EtcdOutput out)) = Inr (True, regState (rg_value x'))"
    and s: "rg_sys x' = rg_sys x" and other: "\<And>j. j \<noteq> k \<Longrightarrow> rg_effect x' j = rg_effect x j \<and> rg_pending x' j = rg_pending x j"
    and here: "procBook x' (L @ [i]) (ideal(i := out)) k"
  shows "regInv x'"
proof -
  have "book (readerOf (rg_sys x')) (L @ [i]) (ideal(i := out)) (regState (rg_value x'))"
    unfolding s using op step by (intro book_effect [OF b] opOpen_called [OF inv]) (auto simp: opOpen_def)
  moreover have "procBook x' (L @ [i]) (ideal(i := out)) j" for j
  proof (cases "j = k")
    case False
    then show ?thesis
      by (intro procBook_frame [OF P]) (use s other False opOpen_distinct [OF inv op(1) _ False] in auto)
  qed (simp add: here)
  ultimately show ?thesis by (auto simp: regInv_def)
qed

text \<open>An operation returns, with its own output or an unknown one.\<close>

lemma opOpen_return:
  assumes "readerInv n r" and "k < 1000" and "opOpen r k i inp0" and "opOpen r j i' inp" and "j \<noteq> k"
  shows "opOpen (returnOf (FormatUint (of_nat k)) out r) j i' inp"
proof -
  have "CallEvent \<in> set (kindsOf i' (lr_events r))" by (rule opOpen_called [OF assms(1,4)])
  then show ?thesis using assms(4,5)
    by (simp add: opOpen_def returnOf_def Let_def proc_key [OF assms(2)] gomap_simps valueOf_append)
qed

lemma return_inv:
  assumes inv: "readerInv n (readerOf (rg_sys x))" and b: "book (readerOf (rg_sys x)) L ideal (regState (rg_value x))"
    and P: "\<And>j. procBook x L ideal j" and op: "opOpen (readerOf (rg_sys x)) k i inp" "i \<in> set L" "k < 1000"
    and out: "out = ideal i \<or> out = unknownOutput"
    and r: "readerOf (rg_sys x') = returnOf (FormatUint (of_nat k)) out (readerOf (rg_sys x))" and v: "rg_value x' = rg_value x"
    and other: "\<And>j. j \<noteq> k \<Longrightarrow> sy_running (rg_sys x') j = sy_running (rg_sys x) j \<and> rg_effect x' j = rg_effect x j \<and> rg_pending x' j = rg_pending x j"
    and stop: "\<And>j. stoppedAt (rg_sys x) j \<Longrightarrow> stoppedAt (rg_sys x') j"
    and here: "procBook x' L ideal k"
  shows "regInv x'"
proof -
  have "mget (lr_procIdMap (readerOf (rg_sys x))) (atoiDigits (FormatUint (of_nat k))) = Some i"
    using op(1) by (simp add: opOpen_def proc_key [OF op(3)])
  then have "book (readerOf (rg_sys x')) L ideal (regState (rg_value x'))"
    unfolding r v by (rule book_return(1) [OF b inv _ op(2) out])
  moreover have "procBook x' L ideal j" for j
  proof (cases "j = k")
    case False
    then show ?thesis
      by (intro procBook_frame [OF P]) (use other stop r False opOpen_return [OF inv op(3,1) _ False] in auto)
  qed (simp add: here)
  ultimately show ?thesis by (auto simp: regInv_def)
qed

text \<open>Nothing is read.\<close>

lemma quiet_inv:
  assumes b: "book (readerOf (rg_sys x)) L ideal (regState (rg_value x))" and P: "\<And>j. procBook x L ideal j"
    and r: "readerOf (rg_sys x') = readerOf (rg_sys x)" and v: "rg_value x' = rg_value x"
    and other: "\<And>j. j \<noteq> k \<Longrightarrow> sy_running (rg_sys x') j = sy_running (rg_sys x) j \<and> rg_effect x' j = rg_effect x j \<and> rg_pending x' j = rg_pending x j"
    and stop: "\<And>j. stoppedAt (rg_sys x) j \<Longrightarrow> stoppedAt (rg_sys x') j"
    and here: "procBook x' L ideal k"
  shows "regInv x'"
proof -
  have "procBook x' L ideal j" for j
  proof (cases "j = k")
    case False
    then show ?thesis by (intro procBook_frame [OF P]) (use other stop r False in auto)
  qed (simp add: here)
  then show ?thesis using b unfolding regInv_def r v by auto
qed

section \<open>The steps\<close>

lemma run_facts:
  assumes "runInv N s" and "N \<le> 1000" and "sy_running s k \<noteq> None"
  shows "pr_id (co_processes (sy_co s) ! k) = of_nat k" "k < 1000" "k < length (co_processes (sy_co s))"
proof -
  have k: "k < N" using assms(1,3) by (auto simp: runInv_def)
  then have "procInv s k" using assms(1) by (simp add: runInv_def)
  then show "pr_id (co_processes (sy_co s) ! k) = of_nat k" by (simp add: procInv_def Let_def)
  show "k < 1000" "k < length (co_processes (sy_co s))" using k assms(1,2) by (auto simp: runInv_def)
qed

lemma run_reader: "runInv N s \<Longrightarrow> \<exists>n \<le> length (co_events (sy_co s)). readerInv n (readerOf s)"
  by (simp add: runInv_def)

lemma start_keeps:
  assumes reg: "regInv x" and inv: "runInv N (rg_sys x)" and N: "N \<le> 1000"
    and len: "length (co_events (sy_co (rg_sys x))) < 2 ^ 63 - 1"
    and k: "k < N" "isIdle (co_processes (sy_co (rg_sys x)) ! k)" "\<not> isStopped (co_processes (sy_co (rg_sys x)) ! k)"
  shows "regInv (x\<lparr>rg_sys := startOne writeAddr readAddr k rw (rg_sys x), rg_effect := (rg_effect x)(k := None)\<rparr>)" (is "regInv ?x")
proof -
  let ?s = "rg_sys x" and ?r = "readerOf (rg_sys x)"
  let ?inp = "if rw mod 2 = 0 then readOp else writeOp (co_value (sy_co ?s))"
  obtain L ideal where b: "book ?r L ideal (regState (rg_value x))" and P: "\<And>j. procBook x L ideal j"
    using reg by (auto simp: regInv_def)
  have pi: "procInv ?s k" using inv k(1) by (simp add: runInv_def)
  then have id: "pr_id (co_processes (sy_co ?s) ! k) = of_nat k" and idle: "sy_running ?s k = None"
    using k(2) by (simp_all add: procInv_def Let_def)
  have pending: "rg_pending x k = None" using P [of k] k(3) idle by (auto simp: procBook_def stoppedAt_def split: option.splits)
  obtain n where n: "readerInv n ?r" "n \<le> length (co_events (sy_co ?s))" using run_reader [OF inv] by blast
  have key: "atoiDigits (FormatUint (of_nat k)) = int k" using proc_key k(1) N by simp
  note start = start_reader [OF id, where writeAddr = writeAddr and readAddr = readAddr and rw = rw]
  have v: "co_value (sy_co ?s) \<noteq> - 1"
    using inv len by (auto simp: runInv_def unsigned_minus_1_eq_mask mask_eq_exp_minus_1)
  have n1: "Suc n < 2 ^ 64" using n(2) len by simp
  let ?proc = "FormatUint (of_nat k)"
  note call = book_call(1) [OF b n(1) n1, where proc = ?proc and inp = ?inp] book_call(2) [OF b n(1) n1]
    book_call(3) [OF b n(1) n1, where proc = ?proc and inp = ?inp] book_call(4) [OF b n(1) n1, where proc = ?proc and inp = ?inp]
  have r: "readerOf (rg_sys ?x) = callOf (FormatUint (of_nat k)) ?inp ?r" using start(1) by simp
  have new: "opOpen (readerOf (rg_sys ?x)) k (lr_id ?r) ?inp"
    unfolding r opOpen_def using call(3) by (simp add: callOf_def key gomap_simps)
  have "procBook ?x L ideal j" for j
  proof (cases "j = k")
    case True
    with new call(2) pending v show ?thesis by (cases "rw mod 2 = 0") (auto simp: procBook_def start(2) Let_def)
  next
    case False
    have "opOpen (readerOf (rg_sys ?x)) j i inp \<and> i \<noteq> lr_id ?r" if "opOpen ?r j i inp" for i inp
    proof -
      have "unat i < n" using opOpen_openIds [OF that] n(1) by (auto simp: readerInv_def)
      moreover have "unat (lr_id ?r) = n" using n(1) by (auto simp: readerInv_def unat_of_nat)
      ultimately have "i \<noteq> lr_id ?r" by auto
      with that False call(4) show ?thesis unfolding r by (auto simp: opOpen_def callOf_def key gomap_simps)
    qed
    then show ?thesis using False by (intro procBook_frame [OF P]) (auto simp: start)
  qed
  moreover have "book (readerOf (rg_sys ?x)) L ideal (regState (rg_value ?x))" unfolding r using call(1) by simp
  ultimately show ?thesis unfolding regInv_def by blast
qed

lemma effect_keeps:
  assumes reg: "regInv x" and inv: "runInv N (rg_sys x)" and N: "N \<le> 1000" and effect: "rg_effect x k = None"
  shows "sy_running (rg_sys x) k = Some (Reading addr) \<Longrightarrow> regInv (x\<lparr>rg_effect := (rg_effect x)(k := Some (rg_value x))\<rparr>)"
    and "sy_running (rg_sys x) k = Some (Writing addr v) \<Longrightarrow>
      regInv (x\<lparr>rg_effect := (rg_effect x)(k := Some v), rg_value := v\<rparr>)"
proof -
  obtain L ideal where b: "book (readerOf (rg_sys x)) L ideal (regState (rg_value x))" and P: "\<And>j. procBook x L ideal j"
    using reg by (auto simp: regInv_def)
  obtain n where n: "readerInv n (readerOf (rg_sys x))" using run_reader [OF inv] by blast
  show "regInv (x\<lparr>rg_effect := (rg_effect x)(k := Some (rg_value x))\<rparr>)" if run: "sy_running (rg_sys x) k = Some (Reading addr)"
  proof -
    obtain i where i: "opOpen (readerOf (rg_sys x)) k i readOp" "i \<notin> set L" "rg_pending x k = None"
      using P [of k] run effect by (auto simp: procBook_def Let_def)
    then show ?thesis
      by (intro effect_inv [OF n b P i(1,2), where out = "readOut (rg_value x)"]) (auto simp: read_step procBook_def Let_def run)
  qed
  show "regInv (x\<lparr>rg_effect := (rg_effect x)(k := Some v), rg_value := v\<rparr>)" if run: "sy_running (rg_sys x) k = Some (Writing addr v)"
  proof -
    obtain i where i: "opOpen (readerOf (rg_sys x)) k i (writeOp v)" "i \<notin> set L" "rg_pending x k = None" "v \<noteq> - 1"
      using P [of k] run effect by (auto simp: procBook_def Let_def)
    then show ?thesis
      by (intro effect_inv [OF n b P i(1,2), where out = noOutput]) (auto simp: write_step procBook_def Let_def run)
  qed
qed

lemma late_keeps:
  assumes reg: "regInv x" and inv: "runInv N (rg_sys x)" and pending: "rg_pending x k = Some v"
  shows "regInv (x\<lparr>rg_pending := (rg_pending x)(k := None), rg_value := v\<rparr>)"
proof -
  obtain L ideal where b: "book (readerOf (rg_sys x)) L ideal (regState (rg_value x))" and P: "\<And>j. procBook x L ideal j"
    using reg by (auto simp: regInv_def)
  obtain n where n: "readerInv n (readerOf (rg_sys x))" using run_reader [OF inv] by blast
  from P [of k] pending have "v \<noteq> - 1 \<and> (\<exists>i. opOpen (readerOf (rg_sys x)) k i (writeOp v) \<and> i \<notin> set L) \<and>
      sy_running (rg_sys x) k \<in> {None, Some WriteFailing, Some Finishing}"
    by (cases "sy_running (rg_sys x) k") (auto simp: procBook_def Let_def split: goroutine.splits)
  then obtain i where i: "opOpen (readerOf (rg_sys x)) k i (writeOp v)" "i \<notin> set L" "v \<noteq> - 1"
    "sy_running (rg_sys x) k \<in> {None, Some WriteFailing, Some Finishing}" by blast
  then show ?thesis
    by (intro effect_inv [OF n b P i(1,2), where out = noOutput]) (auto simp: write_step procBook_def Let_def)
qed

lemma ends_keep:
  assumes reg: "regInv x" and inv: "runInv N (rg_sys x)" and N: "N \<le> 1000"
  shows "sy_running (rg_sys x) k = Some (Reading addr) \<Longrightarrow> rg_effect x k = Some v \<Longrightarrow> regInv (x\<lparr>rg_sys := endRead k (Some v) (rg_sys x)\<rparr>)"
    and "sy_running (rg_sys x) k = Some (Writing addr w) \<Longrightarrow> rg_effect x k \<noteq> None \<Longrightarrow> regInv (x\<lparr>rg_sys := endWrite k w True (rg_sys x)\<rparr>)"
proof -
  obtain L ideal where b: "book (readerOf (rg_sys x)) L ideal (regState (rg_value x))" and P: "\<And>j. procBook x L ideal j"
    using reg by (auto simp: regInv_def)
  obtain n where n: "readerInv n (readerOf (rg_sys x))" using run_reader [OF inv] by blast
  show "regInv (x\<lparr>rg_sys := endRead k (Some v) (rg_sys x)\<rparr>)"
    if run: "sy_running (rg_sys x) k = Some (Reading addr)" and effect: "rg_effect x k = Some v"
  proof -
    have "sy_running (rg_sys x) k \<noteq> None" using run by simp
    note facts = run_facts [OF inv N this]
    obtain i where i: "opOpen (readerOf (rg_sys x)) k i readOp" "i \<in> set L" "ideal i = readOut v" "rg_pending x k = None"
      using P [of k] run effect by (auto simp: procBook_def Let_def)
    then show ?thesis
      by (intro return_inv [OF n b P i(1,2) facts(2), where out = "readOut v"])
        (auto simp: end_reader [OF facts(1)] end_running procBook_def Let_def intro: end_stopped)
  qed
  show "regInv (x\<lparr>rg_sys := endWrite k w True (rg_sys x)\<rparr>)"
    if run: "sy_running (rg_sys x) k = Some (Writing addr w)" and effect: "rg_effect x k \<noteq> None"
  proof -
    have "sy_running (rg_sys x) k \<noteq> None" using run by simp
    note facts = run_facts [OF inv N this]
    obtain i where i: "opOpen (readerOf (rg_sys x)) k i (writeOp w)" "i \<in> set L" "ideal i = noOutput" "rg_pending x k = None"
      using P [of k] run effect by (auto simp: procBook_def Let_def)
    then show ?thesis
      by (intro return_inv [OF n b P i(1,2) facts(2), where out = noOutput])
        (auto simp: end_reader [OF facts(1)] end_running procBook_def Let_def intro: end_stopped)
  qed
qed

lemma fails_keep:
  assumes reg: "regInv x" and inv: "runInv N (rg_sys x)" and N: "N \<le> 1000"
  shows "sy_running (rg_sys x) k = Some (Reading addr) \<Longrightarrow> regInv (x\<lparr>rg_sys := endRead k None (rg_sys x)\<rparr>)"
    and "sy_running (rg_sys x) k = Some (Writing addr w) \<Longrightarrow> regInv (x\<lparr>rg_sys := endWrite k w False (rg_sys x),
      rg_pending := (if rg_effect x k = None then (rg_pending x)(k := Some w) else rg_pending x)\<rparr>)"
proof -
  obtain L ideal where b: "book (readerOf (rg_sys x)) L ideal (regState (rg_value x))" and P: "\<And>j. procBook x L ideal j"
    using reg by (auto simp: regInv_def)
  show "regInv (x\<lparr>rg_sys := endRead k None (rg_sys x)\<rparr>)" if run: "sy_running (rg_sys x) k = Some (Reading addr)"
  proof -
    have "sy_running (rg_sys x) k \<noteq> None" using run by simp
    note facts = run_facts [OF inv N this]
    obtain i where i: "opOpen (readerOf (rg_sys x)) k i readOp" "rg_pending x k = None"
      using P [of k] run by (auto simp: procBook_def Let_def)
    then show ?thesis
      by (intro quiet_inv [OF b P, where k = k])
        (auto simp: end_reader [OF facts(1)] end_running procBook_def Let_def intro: end_stopped)
  qed
  show "regInv (x\<lparr>rg_sys := endWrite k w False (rg_sys x),
      rg_pending := (if rg_effect x k = None then (rg_pending x)(k := Some w) else rg_pending x)\<rparr>)"
    if run: "sy_running (rg_sys x) k = Some (Writing addr w)"
  proof -
    have "sy_running (rg_sys x) k \<noteq> None" using run by simp
    note facts = run_facts [OF inv N this]
    obtain i where i: "opOpen (readerOf (rg_sys x)) k i (writeOp w)" "rg_effect x k = None \<longrightarrow> i \<notin> set L" "rg_pending x k = None" "w \<noteq> - 1"
      using P [of k] run by (auto simp: procBook_def Let_def split: option.splits)
    then show ?thesis
      by (intro quiet_inv [OF b P, where k = k])
        (auto simp: end_reader [OF facts(1)] end_running procBook_def Let_def intro: end_stopped end_stopped(4) [OF facts(3)])
  qed
qed

lemma goes_on_keeps:
  assumes reg: "regInv x" and inv: "runInv N (rg_sys x)" and N: "N \<le> 1000"
    and run: "sy_running (rg_sys x) k = Some g" and g: "g \<in> {ReadFailing, WriteFailing, Finishing}"
  shows "regInv (x\<lparr>rg_sys := goOn k g (rg_sys x)\<rparr>)"
proof -
  obtain L ideal where b: "book (readerOf (rg_sys x)) L ideal (regState (rg_value x))" and P: "\<And>j. procBook x L ideal j"
    using reg by (auto simp: regInv_def)
  obtain n where n: "readerInv n (readerOf (rg_sys x))" using run_reader [OF inv] by blast
  have "sy_running (rg_sys x) k \<noteq> None" using run by simp
  note facts = run_facts [OF inv N this]
  consider "g = ReadFailing" | "g = WriteFailing \<or> g = Finishing" using g by blast
  then show ?thesis
  proof cases
    case 2
    have "procBook (x\<lparr>rg_sys := goOn k g (rg_sys x)\<rparr>) L ideal k"
      using P [of k] run 2 by (auto simp: procBook_def Let_def end_reader [OF facts(1)] end_running intro: end_stopped split: option.splits)
    then show ?thesis
      by (intro quiet_inv [OF b P, where k = k]) (use 2 in \<open>auto simp: end_reader [OF facts(1)] end_running intro: end_stopped\<close>)
  next
    case 1
    obtain i where i: "opOpen (readerOf (rg_sys x)) k i readOp" "rg_pending x k = None"
      using P [of k] run 1 by (auto simp: procBook_def Let_def)
    have here: "procBook (x\<lparr>rg_sys := goOn k g (rg_sys x)\<rparr>) M f k" for M f
      using i(2) by (simp add: procBook_def Let_def end_running 1)
    have return: "regInv (x\<lparr>rg_sys := goOn k g (rg_sys x)\<rparr>)"
      if "book (readerOf (rg_sys x)) M f (regState (rg_value x))" "\<And>j. procBook x M f j" "i \<in> set M" for M f
      by (rule return_inv [OF n that(1,2) i(1) that(3) facts(2), where out = unknownOutput])
        (use 1 here in \<open>auto simp: end_reader [OF facts(1)] end_running intro: end_stopped\<close>)
    show ?thesis
    proof (cases "i \<in> set L")
      case True
      show ?thesis by (rule return [OF b P True])
    next
      case False
      have "book (readerOf (rg_sys x)) (L @ [i]) (ideal(i := unknownOutput)) (regState (rg_value x))"
        using i(1) by (intro book_effect [OF b False] opOpen_called [OF n i(1)]) (simp add: opOpen_def unknown_read)
      moreover have "procBook x (L @ [i]) (ideal(i := unknownOutput)) j" for j
      proof (cases "j = k")
        case True
        then show ?thesis using i run 1 by (auto simp: procBook_def Let_def)
      next
        case ne: False
        then show ?thesis
          by (intro procBook_frame [OF P]) (use opOpen_distinct [OF n i(1) _ ne] in auto)
      qed
      ultimately show ?thesis by (intro return) auto
    qed
  qed
qed

lemma stop_keeps:
  assumes reg: "regInv x"
  shows "regInv (x\<lparr>rg_sys := (rg_sys x)\<lparr>sy_co := lcm_Stop (sy_co (rg_sys x))\<rparr>\<rparr>)" (is "regInv ?x")
proof -
  obtain L ideal where b: "book (readerOf (rg_sys x)) L ideal (regState (rg_value x))" and P: "\<And>j. procBook x L ideal j"
    using reg by (auto simp: regInv_def)
  have r: "readerOf ((rg_sys x)\<lparr>sy_co := lcm_Stop (sy_co (rg_sys x))\<rparr>) = readerOf (rg_sys x)"
    by (simp add: readerOf_def lcm_Stop_def)
  have "procBook ?x L ideal j" for j by (rule procBook_frame [OF P]) (auto simp: r intro: end_stopped)
  moreover have "book (readerOf (rg_sys ?x)) L ideal (regState (rg_value ?x))" using b r by simp
  ultimately show ?thesis unfolding regInv_def by blast
qed

section \<open>A register is never flagged\<close>

lemma new_register:
  "regInv \<lparr>rg_sys = \<lparr>sy_co = NewCoordinator n shardID addrs, sy_running = (\<lambda>_. None)\<rparr>, rg_value = - 1,
     rg_effect = (\<lambda>_. None), rg_pending = (\<lambda>_. None)\<rparr>"
proof -
  have "book emptyReader [] (\<lambda>_. noOutput) (regState (- 1))"
    by (simp add: book_def emptyReader_def kindsOf_def regState_def)
  then show ?thesis by (auto simp: regInv_def procBook_def readerOf_def NewCoordinator_def)
qed

lemma goOn_events: "length (co_events (sy_co s)) \<le> length (co_events (sy_co (goOn k g s)))"
  by (auto simp: goOn_def Let_def recordReadFailed_def recordWriteFailed_def split: goroutine.splits)

lemma end_events:
  "length (co_events (sy_co s)) \<le> length (co_events (sy_co (endRead k r s)))"
  "length (co_events (sy_co s)) \<le> length (co_events (sy_co (endWrite k v ok s)))"
  by (auto simp: endRead_def endWrite_def recordReadCompleted_def recordWriteCompleted_def split: option.splits)

lemma register_inv:
  assumes "registerRun (NewCoordinator n shardID addrs) x" and "unat n \<le> 1000" and "length (co_events (sy_co (rg_sys x))) < 2 ^ 63"
  shows "regInv x"
  using assms(1,3)
proof (induction rule: registerRun.induct)
  case reg_starts
  show ?case by (rule new_register)
next
  case (reg_schedules x k writeAddr readAddr rw)
  then have len: "length (co_events (sy_co (rg_sys x))) < 2 ^ 63 - 1" by (simp add: startOne_events)
  then have inv: "runInv (unat n) (rg_sys x)"
    using run_inv [OF registerRun_lcmRun [OF reg_schedules.hyps(1)] assms(2)] by simp
  moreover have "k < unat n" using inv reg_schedules.hyps(2) by (simp add: runInv_def)
  moreover have "regInv x" using reg_schedules.IH len by simp
  ultimately show ?case using assms(2) len reg_schedules.hyps by (intro start_keeps)
next
  case (reg_reads x k addr)
  then show ?case using run_inv [OF registerRun_lcmRun [OF reg_reads.hyps(1)] assms(2)] assms(2)
    by (intro effect_keeps(1)) auto
next
  case (reg_writes x k addr v)
  then show ?case using run_inv [OF registerRun_lcmRun [OF reg_writes.hyps(1)] assms(2)] assms(2)
    by (intro effect_keeps(2)) auto
next
  case (reg_writes_late x k v)
  then show ?case using run_inv [OF registerRun_lcmRun [OF reg_writes_late.hyps(1)] assms(2)]
    by (intro late_keeps) auto
next
  case (reg_read_ends x k addr v)
  then have "length (co_events (sy_co (rg_sys x))) < 2 ^ 63" using end_events(1) [of "rg_sys x" k "Some v"] by simp
  then show ?case using reg_read_ends run_inv [OF registerRun_lcmRun [OF reg_read_ends.hyps(1)] assms(2)] assms(2)
    by (intro ends_keep(1)) auto
next
  case (reg_read_fails x k addr)
  then have "length (co_events (sy_co (rg_sys x))) < 2 ^ 63" using end_events(1) [of "rg_sys x" k None] by simp
  then show ?case using reg_read_fails run_inv [OF registerRun_lcmRun [OF reg_read_fails.hyps(1)] assms(2)] assms(2)
    by (intro fails_keep(1)) auto
next
  case (reg_write_ends x k addr v)
  then have "length (co_events (sy_co (rg_sys x))) < 2 ^ 63" using end_events(2) [of "rg_sys x" k v True] by simp
  then show ?case using reg_write_ends run_inv [OF registerRun_lcmRun [OF reg_write_ends.hyps(1)] assms(2)] assms(2)
    by (intro ends_keep(2)) auto
next
  case (reg_write_fails x k addr v)
  then have "length (co_events (sy_co (rg_sys x))) < 2 ^ 63" using end_events(2) [of "rg_sys x" k v False] by simp
  then show ?case using reg_write_fails run_inv [OF registerRun_lcmRun [OF reg_write_fails.hyps(1)] assms(2)] assms(2)
    by (intro fails_keep(2)) auto
next
  case (reg_goes_on x k g)
  then have "length (co_events (sy_co (rg_sys x))) < 2 ^ 63" using goOn_events [of "rg_sys x" k g] by simp
  then show ?case using reg_goes_on run_inv [OF registerRun_lcmRun [OF reg_goes_on.hyps(1)] assms(2)] assms(2)
    by (intro goes_on_keeps) auto
next
  case (reg_stops x)
  then show ?case by (intro stop_keeps) (simp add: lcm_Stop_def)
qed

text \<open>
  C6. A store that behaves as an atomic register is never reported: whichever way the operations of
  at most 1000 processes overlap, whichever fail, and even when failed writes take effect long
  after, the checker command on the coordinator's log returns without finding a violation.
\<close>

theorem register_is_never_flagged:
  assumes "registerRun (NewCoordinator n shardID addrs) x" and "unat n \<le> 1000"
    and "length (co_events (sy_co (rg_sys x))) < 2 ^ 63" and "\<And>m. mset (visit m) = mset m" and "fp \<noteq> []"
  shows "\<exists>content. SaveAsJepsenLog (sy_co (rg_sys x)) = (Inr (), content) \<and>
    checkerMain visit [PartitionResult 0] fp (Some content) = Some (Inr ())"
proof -
  let ?s = "rg_sys x" and ?H = "historyOf visit (co_events (sy_co (rg_sys x)))"
  have inv: "runInv (unat n) ?s" by (rule run_inv [OF registerRun_lcmRun [OF assms(1)] assms(2,3)])
  obtain L ideal where b: "book (readerOf ?s) L ideal (regState (rg_value x))"
    using register_inv [OF assms(1-3)] by (auto simp: regInv_def)
  obtain k where k: "readerInv k (readerOf ?s)" "k < 2 ^ 63" using inv assms(3) by (auto simp: runInv_def)
  have H: "?H = closedHistory visit (readerOf ?s)" by (simp add: historyOf_closed readerOf_def)
  have "fit getEtcdModel ?H" unfolding H by (rule closed_fit [where visit = visit, OF k(1) assms(4) k(2)])
  moreover have "linearizable getEtcdModel ?H" unfolding H by (rule book_linearizable [where visit = visit, OF k(1) b assms(4)])
  moreover have "list_all plainEvent (co_events (sy_co ?s))" using inv by (simp add: runInv_def)
  ultimately show ?thesis using assms(5) checker_answers log_read_back [of "sy_co ?s" visit] by fastforce
qed

end
