(* ===== verification/CheckSamples.thy ===== *)
theory CheckSamples
  imports RegisterRun
begin

text \<open>
  Concrete histories and runs: the theorems on the checker and on the coordinator applied at them.
\<close>

section \<open>Histories\<close>

definition callEvent :: "u64 \<Rightarrow> etcdInput \<Rightarrow> etcdValue event" where
  "callEvent i inp = \<lparr>ev_Kind = CallEvent, ev_Value = Some (EtcdInput inp), ev_Id = i\<rparr>"

definition returnEvent :: "u64 \<Rightarrow> etcdOutput \<Rightarrow> etcdValue event" where
  "returnEvent i out = \<lparr>ev_Kind = ReturnEvent, ev_Value = Some (EtcdOutput out), ev_Id = i\<rparr>"

definition readInput :: etcdInput where
  "readInput = \<lparr>ei_op = 0, ei_arg1 = 0, ei_arg2 = 0\<rparr>"

definition writeInput :: "int \<Rightarrow> etcdInput" where
  "writeInput v = \<lparr>ei_op = 1, ei_arg1 = v, ei_arg2 = 0\<rparr>"

definition readOutput :: "int \<Rightarrow> etcdOutput" where
  "readOutput v = noOutput\<lparr>eo_exists := True, eo_value := v\<rparr>"

text \<open>A read that overlaps a write and answers its value; a read after a write that does not.\<close>

definition overlapping :: "etcdValue event list" where
  "overlapping = [callEvent 7 (writeInput 5), callEvent 9 readInput, returnEvent 9 (readOutput 5), returnEvent 7 noOutput]"

definition stale :: "etcdValue event list" where
  "stale = [callEvent 7 (writeInput 5), returnEvent 7 noOutput, callEvent 9 readInput, returnEvent 9 (readOutput 4)]"

lemmas history_defs = callEvent_def returnEvent_def readInput_def writeInput_def readOutput_def noOutput_def

lemma sample_complete: "completeHistory overlapping" "completeHistory stale"
  by (auto simp: completeHistory_def overlapping_def stale_def history_defs)

lemma sample_fit: "fit getEtcdModel overlapping" "fit getEtcdModel stale"
  using sample_complete typed_steps [OF sample_complete(1)] typed_steps [OF sample_complete(2)]
  by (simp_all add: fit_def typedEvent_def) (simp_all add: overlapping_def stale_def history_defs)

lemma etcd_plain: "plainEqual getEtcdModel" "partitionsOf getEtcdModel H = [H]"
  by (simp_all add: plainEqual_def getEtcdModel_def partitionsOf_def fillDefault_def NoPartitionEvent_def)

lemma overlapping_accepted: "CheckEventsTimeout getEtcdModel [PartitionResult 0] overlapping = Some (Inr True)"
  by code_simp

lemma stale_rejected: "CheckEventsTimeout getEtcdModel [PartitionResult 0, TimedOut] stale = Some (Inr False)"
  by code_simp

lemma partition_check_returns_witness:
  "checkSingle (fillDefault getEtcdModel) notKilled (makeLinkedEntries (convertEntries (renumber overlapping))) =
     Some (Inr (linearizable getEtcdModel overlapping))"
  using partition_check_returns [of overlapping getEtcdModel notKilled] sample_fit(1) etcd_plain(1)
  by (auto simp: fit_def unkilled)

lemma events_check_decides_witness:
  "CheckEventsTimeout getEtcdModel [PartitionResult 0] overlapping = Some (Inr True) \<and> linearizable getEtcdModel overlapping"
  using events_check_decides [of getEtcdModel overlapping "[PartitionResult 0]"] sample_fit(1) etcd_plain overlapping_accepted
  by simp

lemma events_check_no_false_alarm_witness:
  "CheckEventsTimeout getEtcdModel [PartitionResult 0, TimedOut] stale = Some (Inr False) \<and> \<not> linearizable getEtcdModel stale"
  using events_check_no_false_alarm [of getEtcdModel "[PartitionResult 0, TimedOut]" stale] sample_fit(2) etcd_plain stale_rejected
  by simp

section \<open>A run\<close>

text \<open>Process 0 writes while process 1 reads; the write returns, the read fails.\<close>

definition twoProcesses :: coordinator where
  "twoProcesses = NewCoordinator 2 1 [''drummer:1'']"

definition bothStarted :: system where
  "bothStarted = startOne ''a'' ''b'' 1 0 (startOne ''a'' ''b'' 0 1 \<lparr>sy_co = twoProcesses, sy_running = (\<lambda>_. None)\<rparr>)"

definition readFailed :: system where
  "readFailed = goOn 1 ReadFailing (endRead 1 None (endWrite 0 1 True bothStarted))"

lemmas run_defs = bothStarted_def startOne_def Let_def StartRead_def StartWrite_def recordReadInvoked_def recordWriteInvoked_def
  onProcess_def appendEvent_def endRead_def endWrite_def goOn_def recordWriteCompleted_def recordReadFailed_def
  increaseCompleteCount_def resetCompleteCount_def twoProcesses_def NewCoordinator_def newProcess_def
  setBusy_def setStopped_def setIdle_def isIdle_def isStopped_def

lemma upt_two: "[0..<2] = [0, 1 :: nat]"
  by (simp add: upt_rec)

lemma two_start: "lcmRun twoProcesses \<lparr>sy_co = twoProcesses, sy_running = (\<lambda>_. None)\<rparr>"
  by (rule run_starts)

lemma both_run: "lcmRun twoProcesses bothStarted"
  unfolding bothStarted_def
  by (intro run_schedules two_start) (simp_all add: run_defs upt_two)

lemma failed_run: "lcmRun twoProcesses readFailed"
proof -
  have "goroutineStep bothStarted (endWrite 0 1 True bothStarted)"
    by (rule write_ends [of _ _ "''a''"]) (simp add: run_defs upt_two)
  moreover have "goroutineStep (endWrite 0 1 True bothStarted) (endRead 1 None (endWrite 0 1 True bothStarted))"
    by (rule read_ends [of _ _ "''b''"]) (simp add: run_defs upt_two)
  moreover have "goroutineStep (endRead 1 None (endWrite 0 1 True bothStarted)) readFailed"
    unfolding readFailed_def by (rule goes_on) (simp_all add: run_defs upt_two)
  ultimately show ?thesis using both_run by (metis run_goroutine)
qed

lemma failed_events: "length (co_events (sy_co readFailed)) = 4"
  by (simp add: readFailed_def run_defs upt_two)

lemma run_is_checked_witness:
  "\<exists>file H. SaveAsJepsenLog (sy_co readFailed) = (Inr (), file) \<and> parseJepsenLog (\<lambda>m. m) (Some file) = Inr H \<and>
    completeHistory H \<and> checkerMain (\<lambda>m. m) [PartitionResult 0] ''log'' (Some file) =
      Some (if linearizable getEtcdModel H then Inr () else panic ViolationFound)"
  using failed_run failed_events unfolding twoProcesses_def
  by (intro run_is_checked [where n = 2 and shardID = 1 and addrs = "[''drummer:1'']"]) simp_all

lemma wait_bounded_witness:
  "co_wait (sy_co readFailed) = 50 \<and> 25 \<le> co_wait (sy_co readFailed) \<and> co_wait (sy_co readFailed) \<le> 100"
proof -
  have "co_wait (sy_co readFailed) = 50"
    by (simp add: readFailed_def run_defs upt_two initialWait_def maxWait_def)
  then show ?thesis using wait_bounded [of 2 1 "[''drummer:1'']" readFailed] failed_run by (simp add: twoProcesses_def)
qed

lemma idle_moves: "goroutineMoves (\<lambda>s. s)"
  by (simp add: goroutineMoves_def)

lemma scheduling_is_a_run_witness:
  "scheduleProcesses (''a'', ''b'', True) [(\<lambda>s. s, 0, 1), (\<lambda>s. s, 1, 0)] \<lparr>sy_co = twoProcesses, sy_running = (\<lambda>_. None)\<rparr> =
     Some bothStarted \<and> lcmRun twoProcesses bothStarted \<and> started bothStarted \<le> 4"
proof -
  have s: "scheduleProcesses (''a'', ''b'', True) [(\<lambda>s. s, 0, 1), (\<lambda>s. s, 1, 0)] \<lparr>sy_co = twoProcesses, sy_running = (\<lambda>_. None)\<rparr> =
     Some bothStarted"
    by (simp add: scheduleProcesses_def hasAvailableProcess_def run_defs upt_two)
  have "started \<lparr>sy_co = twoProcesses, sy_running = (\<lambda>_. None)\<rparr> = 0" by (simp add: started_def twoProcesses_def NewCoordinator_def)
  with scheduling_is_a_run [OF s two_start] idle_moves s show ?thesis by auto
qed

lemma rounds_recur_witness:
  "mainLoop (\<lambda>s. s) (replicate 100 (\<lambda>s. s)) (0, readFailed) = None \<or> (\<exists>k < 100. \<exists>c t.
    mainLoop (\<lambda>s. s) (take k (replicate 100 (\<lambda>s. s))) (0, readFailed) = Some (c, t) \<and>
    mainTick (\<lambda>s. s) (c, (replicate 100 (\<lambda>s. s) ! k) t) = Some (0, (replicate 100 (\<lambda>s. s) ! k) t))"
  using failed_run idle_moves unfolding twoProcesses_def
  by (intro rounds_recur [where n = 2 and shardID = 1 and addrs = "[''drummer:1'']"]) auto

lemma long_ids_are_skipped_witness:
  "parseLine ''INFO  jepsen.util - 1000:invoke :read   nil'' emptyReader = emptyReader"
proof (rule long_ids_are_skipped)
  let ?e = "\<lparr>le_eventType = 0, le_eventResult = 0, le_id = 1000, le_value = 0\<rparr>"
  show "1000 \<le> unat (le_id ?e)" by simp
  show "toJepsenLogEntry ?e = Inr (''INFO  jepsen.util - 1000:invoke :read   nil'' @ [newline])" by code_simp
qed

lemma log_values_are_typed_witness:
  "\<exists>result. mo_Step getEtcdModel 3 (ev_Value (callEvent 0 readInput)) (ev_Value (returnEvent 0 (noOutput\<lparr>eo_unknown := True\<rparr>))) = Inr result"
proof (rule log_values_are_typed)
  let ?file = "''INFO  jepsen.util - 12  :invoke :read   nil'' @ [newline]"
  show "parseJepsenLog (\<lambda>m. m) (Some ?file) = Inr [callEvent 0 readInput, returnEvent 0 (noOutput\<lparr>eo_unknown := True\<rparr>)]"
    by code_simp
qed (simp_all add: callEvent_def returnEvent_def)

section \<open>A run against a register\<close>

text \<open>Process 0 writes 1 and process 1 reads it; the write is recorded as failed.\<close>

definition afterStart :: register where
  "afterStart = \<lparr>rg_sys = bothStarted, rg_value = - 1, rg_effect = (\<lambda>_. None), rg_pending = (\<lambda>_. None)\<rparr>"

definition afterEffects :: register where
  "afterEffects = afterStart\<lparr>rg_effect := (\<lambda>_. None)(0 := Some 1, 1 := Some 1), rg_value := 1\<rparr>"

definition afterFailure :: register where
  "afterFailure = afterEffects\<lparr>rg_sys := goOn 0 WriteFailing (endWrite 0 1 False (endRead 1 (Some 1) bothStarted))\<rparr>"

lemma no_effect [simp]: "(\<lambda>_. None)(k := None) = (\<lambda>_. None)"
  by auto

lemma start_registerRun: "registerRun twoProcesses afterStart"
proof -
  let ?x = "\<lparr>rg_sys = \<lparr>sy_co = twoProcesses, sy_running = (\<lambda>_. None)\<rparr>, rg_value = - 1, rg_effect = (\<lambda>_. None), rg_pending = (\<lambda>_. None)\<rparr>"
  have "registerRun twoProcesses (?x\<lparr>rg_sys := startOne ''a'' ''b'' 0 1 (rg_sys ?x), rg_effect := (rg_effect ?x)(0 := None)\<rparr>)" (is "registerRun _ ?y")
    by (rule reg_schedules [OF reg_starts]) (simp_all add: run_defs upt_two)
  then have "registerRun twoProcesses (?y\<lparr>rg_sys := startOne ''a'' ''b'' 1 0 (rg_sys ?y), rg_effect := (rg_effect ?y)(1 := None)\<rparr>)"
    by (rule reg_schedules) (simp_all add: run_defs upt_two)
  then show ?thesis by (simp add: afterStart_def bothStarted_def)
qed

lemma effects_registerRun: "registerRun twoProcesses afterEffects"
proof -
  have "registerRun twoProcesses (afterStart\<lparr>rg_effect := (rg_effect afterStart)(0 := Some 1), rg_value := 1\<rparr>)" (is "registerRun _ ?y")
    by (rule reg_writes [OF start_registerRun, of 0 "''a''"]) (simp_all add: afterStart_def run_defs upt_two)
  then have "registerRun twoProcesses (?y\<lparr>rg_effect := (rg_effect ?y)(1 := Some (rg_value ?y))\<rparr>)"
    by (rule reg_reads [of _ _ _ "''b''"]) (simp_all add: afterStart_def run_defs upt_two)
  then show ?thesis by (simp add: afterEffects_def afterStart_def)
qed

lemma failure_registerRun: "registerRun twoProcesses afterFailure"
proof -
  have run: "sy_running bothStarted = (\<lambda>_. None)(0 := Some (Writing ''a'' 1), 1 := Some (Reading ''b''))"
    by (simp add: run_defs upt_two)
  have "registerRun twoProcesses (afterEffects\<lparr>rg_sys := endRead 1 (Some 1) (rg_sys afterEffects)\<rparr>)" (is "registerRun _ ?y")
    by (rule reg_read_ends [OF effects_registerRun, of 1 "''b''"]) (simp_all add: afterEffects_def afterStart_def run)
  then have "registerRun twoProcesses (?y\<lparr>rg_sys := endWrite 0 1 False (rg_sys ?y),
      rg_pending := (if rg_effect ?y 0 = None then (rg_pending ?y)(0 := Some 1) else rg_pending ?y)\<rparr>)" (is "registerRun _ ?z")
    by (rule reg_write_fails [of _ _ _ "''a''"]) (simp add: afterEffects_def afterStart_def end_running run)
  then have "registerRun twoProcesses (?z\<lparr>rg_sys := goOn 0 WriteFailing (rg_sys ?z)\<rparr>)"
    by (rule reg_goes_on) (simp_all add: end_running)
  then show ?thesis by (simp add: afterFailure_def afterEffects_def afterStart_def)
qed

lemma register_is_never_flagged_witness:
  "\<exists>content. SaveAsJepsenLog (sy_co (rg_sys afterFailure)) = (Inr (), content) \<and>
    checkerMain (\<lambda>m. m) [PartitionResult 0] ''log'' (Some content) = Some (Inr ())"
proof (rule register_is_never_flagged)
  show "registerRun (NewCoordinator 2 1 [''drummer:1'']) afterFailure" using failure_registerRun by (simp add: twoProcesses_def)
  show "length (co_events (sy_co (rg_sys afterFailure))) < 2 ^ 63"
    by (simp add: afterFailure_def afterEffects_def run_defs upt_two recordReadCompleted_def recordWriteFailed_def)
qed simp_all

end
