(* ===== verification/Lifecycle.thy ===== *)
theory Lifecycle
  imports Election NodehostAPI AgentRequests
begin

text \<open>
  How the parts are put together, started and stopped: the Drummer server (\<^verbatim>\<open>drummer.go\<close>), the NodeHost API
  (\<^verbatim>\<open>nodehostapi.go\<close>) and the client of a NodeHost (\<^verbatim>\<open>client/node.go\<close>, \<^verbatim>\<open>client/nodehost.go\<close>). Listeners,
  TLS configurations and the random source are third-party: the record \<open>'w transport\<close>. A gRPC server is
  what it was built with and whether it was stopped; a stopper and a context are their closed flags.
\<close>

section \<open>Serving gRPC\<close>

datatype serverOption = ServerCreds tlsConfig | MaxRecvMsgSize u64 | MaxSendMsgSize u64

record grpcServer =
  gs_address :: string
  gs_options :: "serverOption list"
  gs_stopped :: bool

record 'w transport =
  tr_IsValidAddress :: "string \<Rightarrow> bool"
  tr_Listen :: "string \<Rightarrow> 'w \<Rightarrow> unit go \<times> 'w"
  tr_ServerTLS :: "'w \<Rightarrow> tlsConfig option go"

text \<open>
  The body \<^verbatim>\<open>startDrummerRPCServer\<close> and \<^verbatim>\<open>NewNodehostAPI\<close> share: a listener, the credentials, the options
  beyond them, a server that serves from then on.
\<close>

definition serveOn :: "'w transport \<Rightarrow> string \<Rightarrow> serverOption list \<Rightarrow> 'w \<Rightarrow> grpcServer go \<times> 'w" where
  "serveOn tr address extra w =
     onError (tr_Listen tr address w) (\<lambda>_ w1. (panic ListenFailed, w1)) (\<lambda>_ w1.
       (case tr_ServerTLS tr w1 of
          Inl (Err _) \<Rightarrow> (panic TLSConfigFailed, w1)
        | Inl e \<Rightarrow> (Inl e, w1)
        | Inr tls \<Rightarrow>
            (let opts = (case tls of None \<Rightarrow> [] | Some cfg \<Rightarrow> [ServerCreds cfg]) @ extra
             in (Inr \<lparr>gs_address = address, gs_options = opts, gs_stopped = False\<rparr>, w1))))"

section \<open>The Drummer server\<close>

definition maxServerMsgSize :: u64 where
  "maxServerMsgSize = MaxDrummerServerMsgSize Soft"

record 'w drummerServer =
  ds_drummer :: "'w drummer"
  ds_grpcHost :: string
  ds_grpcServer :: "grpcServer option"
  ds_electionID :: u64
  ds_canceled :: bool
  ds_electionCanceled :: bool
  ds_stopped :: bool

text \<open>
  \<open>config\<close> is the result of \<open>GetShardConfig\<close>. The election manager takes the first number of the random
  source as its instance ID; its worker has a session and rounds of its own (\<open>Election\<close>).
\<close>

definition NewDrummer :: "'w transport \<Rightarrow> rand_src \<Rightarrow> Config go \<Rightarrow> string \<Rightarrow> 'w \<Rightarrow> 'w drummerServer go" where
  "NewDrummer tr randSrc config grpcHost w =
     (if \<not> tr_IsValidAddress tr grpcHost then panic InvalidAddress
      else goThen config (\<lambda>cfg.
        Inr \<lparr>ds_drummer = \<lparr>dr_session = None, dr_world = w, dr_scheduler = newScheduler (Some randSrc) cfg,
               dr_randPos = 1, dr_count = 0, dr_deploymentID = 0\<rparr>,
             ds_grpcHost = grpcHost, ds_grpcServer = None, ds_electionID = rnd_Uint64 randSrc 0,
             ds_canceled = False, ds_electionCanceled = False, ds_stopped = False\<rparr>))"

definition onDrummer :: "('w drummer \<Rightarrow> 'a go \<times> 'w drummer) \<Rightarrow> 'w drummerServer \<Rightarrow> 'a go \<times> 'w drummerServer" where
  "onDrummer f s = (case f (ds_drummer s) of (r, d) \<Rightarrow> (r, s\<lparr>ds_drummer := d\<rparr>))"

definition startDrummerRPCServer :: "'w transport \<Rightarrow> 'w drummerServer \<Rightarrow> unit go \<times> 'w drummerServer" where
  "startDrummerRPCServer tr s =
     thenDo (onDrummer (withWorld (serveOn tr (ds_grpcHost s)
         [MaxRecvMsgSize maxServerMsgSize, MaxSendMsgSize maxServerMsgSize])) s)
       (\<lambda>srv s1. (Inr (), s1\<lparr>ds_grpcServer := Some srv\<rparr>))"

text \<open>
  \<^verbatim>\<open>drummerWorker\<close>: the attempts to set the deployment ID, whether the stopper is closed when it is looked
  at after them (it is if \<open>setDeploymentID\<close> was left for it), and the events of the main loop.
\<close>

definition drummerWorker :: "'w raft \<Rightarrow> codec \<Rightarrow> 'w transport \<Rightarrow> (u64 \<times> bool \<times> bool) list \<Rightarrow> bool
    \<Rightarrow> (bool \<times> tickerEvent) list \<Rightarrow> 'w drummerServer \<Rightarrow> unit go \<times> 'w drummerServer" where
  "drummerWorker nh cdc tr attempts stopping evs s =
     thenDo (onDrummer (drummer_setDeploymentID nh cdc attempts) s) (\<lambda>returned s1.
       (if \<not> returned \<or> stopping then (Inr (), s1)
        else thenDo (startDrummerRPCServer tr s1) (\<lambda>_ s2. onDrummer (drummerMain nh cdc evs) s2)))"

definition Drummer_Stop :: "'w drummerServer \<Rightarrow> 'w drummerServer" where
  "Drummer_Stop s =
     (let s1 = s\<lparr>ds_canceled := True\<rparr>; s2 = s1\<lparr>ds_electionCanceled := True\<rparr>; s3 = s2\<lparr>ds_stopped := True\<rparr>
      in s3\<lparr>ds_grpcServer := map_option (\<lambda>srv. srv\<lparr>gs_stopped := True\<rparr>) (ds_grpcServer s3)\<rparr>)"

section \<open>The NodeHost API\<close>

record nodehostAPI =
  na_server :: grpcServer
  na_supportCS :: csCache
  na_stopped :: bool

definition NewNodehostAPI :: "'w transport \<Rightarrow> string \<Rightarrow> 'w \<Rightarrow> nodehostAPI go \<times> 'w" where
  "NewNodehostAPI tr address w =
     thenDo (serveOn tr address [] w) (\<lambda>server w1.
       (Inr \<lparr>na_server = server, na_supportCS = [], na_stopped = False\<rparr>, w1))"

definition NodehostAPI_Stop :: "nodehostAPI \<Rightarrow> nodehostAPI" where
  "NodehostAPI_Stop m = (let m1 = m\<lparr>na_stopped := True\<rparr> in m1\<lparr>na_server := (na_server m1)\<lparr>gs_stopped := True\<rparr>\<rparr>)"

section \<open>The client of a NodeHost\<close>

definition NewDrummerClient :: "'w \<Rightarrow> 'w agent \<times> (string, pluginDetails) gomap" where
  "NewDrummerClient w =
     (\<lparr>ag_requests = [], ag_pool = NewDrummerConnectionPool, ag_world = w\<rparr>, getPluginMap)"

definition DrummerClient_Stop :: "'w agent \<Rightarrow> 'w agent" where
  "DrummerClient_Stop a = a\<lparr>ag_pool := pool_Close (ag_pool a)\<rparr>"

text \<open>
  A stopper is its closed flag; the reporter's is \<open>None\<close> after \<open>StopNodeHostInfoReporter\<close>.
\<close>

record 'w nodeHostClient =
  nc_client :: "'w agent"
  nc_masterServers :: "string list"
  nc_apiAddress :: string
  nc_reporterStopper :: "bool option"
  nc_stopped :: bool
  nc_canceled :: bool

definition NewNodeHostClient :: "string list \<Rightarrow> string \<Rightarrow> 'w \<Rightarrow> 'w nodeHostClient go" where
  "NewNodeHostClient drummerServers apiAddress w =
     (if length drummerServers = 0 then panic NoDrummerServer
      else Inr \<lparr>nc_client = fst (NewDrummerClient w), nc_masterServers = drummerServers, nc_apiAddress = apiAddress,
             nc_reporterStopper = Some False, nc_stopped = False, nc_canceled = False\<rparr>)"

definition NodeHostClient_Stop :: "'w nodeHostClient \<Rightarrow> 'w nodeHostClient" where
  "NodeHostClient_Stop c =
     (let c1 = c\<lparr>nc_canceled := True\<rparr>;
          c2 = c1\<lparr>nc_reporterStopper := map_option (\<lambda>_. True) (nc_reporterStopper c1)\<rparr>;
          c3 = c2\<lparr>nc_stopped := True\<rparr>
      in c3\<lparr>nc_client := DrummerClient_Stop (nc_client c3)\<rparr>)"

definition StopNodeHostInfoReporter :: "'w nodeHostClient \<Rightarrow> 'w nodeHostClient" where
  "StopNodeHostInfoReporter c =
     (case nc_reporterStopper c of None \<Rightarrow> c | Some _ \<Rightarrow> c\<lparr>nc_reporterStopper := None\<rparr>)"

end
