(* ===== verification/LifecycleFacts.thy ===== *)
theory LifecycleFacts
  imports Lifecycle ServerFacts RepairSamples
begin

text \<open>
  The order in which the parts start: the API of a Drummer server is not served before the deployment
  ID is settled in the replicated database, unless the server is being stopped.
\<close>

section \<open>Attempts at the deployment ID\<close>

lemma lookupDeploymentID_moves:
  assumes "raft_service nh cdc ok dbOf" and "lookupDeploymentID nh cdc w = (r, w')"
  shows "dbMoves cdc ok (dbOf w) (dbOf w')"
proof -
  obtain a w1 where q: "lookupDB nh cdc (kvQuery deploymentIDKey) w = (a, w1)" by fastforce
  from raft_service.query_moves [OF assms(1) q] show ?thesis
    using assms(2) q by (cases a) (auto simp: lookupDeploymentID_def lookupKV_query split: sum.splits)
qed

lemma setDeploymentID_moves:
  assumes svc: "raft_service nh cdc (deploymentCmd cdc) dbOf" and law: "kv_messages cdc"
    and run: "setDeploymentID nh cdc a cs w = (r, w')"
  shows "dbMoves cdc (deploymentCmd cdc) (dbOf w) (dbOf w')"
proof -
  obtain p w1 where p: "proposeFinalizedKV nh cdc cs deploymentIDKey (FormatUint a) 0 w = (p, w1)" by fastforce
  then have "w1 = w \<or> proposeDrummerUpdate nh cdc cs (kvUpdate (deploymentKV a)) w = (p, w1)"
    by (auto simp: proposeFinalizedKV_def deploymentKV_def kvUpdate_def Let_def split: if_splits)
  then have sent: "dbMoves cdc (deploymentCmd cdc) (dbOf w) (dbOf w1)"
    using raft_service.proposeUpdate_sent [OF svc deployment_admitted [OF law]] by auto
  with run p lookupDeploymentID_moves [OF svc] show ?thesis
    by (cases p) (auto simp: setDeploymentID_def split: if_splits intro: dbMoves_trans)
qed

text \<open>The ID is settled: a finalized record holds it, and it is not 0.\<close>

definition settled :: "codec \<Rightarrow> db \<Rightarrow> bool" where
  "settled cdc d \<longleftrightarrow> (\<exists>kv x. finalized cdc d deploymentIDKey kv \<and> ParseUint (kv_Value kv) = Inr x \<and> x \<noteq> 0)"

lemma attempt_settles:
  assumes svc: "raft_service nh cdc (deploymentCmd cdc) dbOf" and law: "kv_messages cdc"
    and start: "deploymentFinal cdc (dbOf (snd st))"
    and run: "deploymentAttempt nh cdc a False False st = (Inr over, st')"
  shows "deploymentFinal cdc (dbOf (snd st')) \<and> (over \<longrightarrow> settled cdc (dbOf (snd st')))"
proof -
  have kc: "kv_codec cdc" using law by (simp add: kv_messages_def)
  note keep = moves_deploymentFinal [OF _ kc]
  obtain session st1 where s: "getSession nh st = (Inr session, st1)"
    using run by (auto simp: deploymentAttempt_def thenDo_Inr)
  have st1: "deploymentFinal cdc (dbOf (snd st1))"
    using keep [OF raft_service.session_moves [OF svc] start] s by (metis snd_conv)
  show ?thesis
  proof (cases session)
    case None
    with run s st1 show ?thesis by (auto simp: deploymentAttempt_def)
  next
    case (Some cs)
    obtain r w2 where p: "setDeploymentID nh cdc a cs (snd st1) = (r, w2)" by fastforce
    have w2: "deploymentFinal cdc (dbOf w2)" by (rule keep [OF setDeploymentID_moves [OF svc law p] st1])
    consider (failed) e where "r = Inl (Err e)" | (answered) did where "r = Inr did"
      using run s Some p by (cases r; cases "projl r") (auto simp: deploymentAttempt_def onWorld_def)
    then show ?thesis
    proof cases
      case failed
      let ?st2 = "(fst st1, w2)"
      have "\<not> over \<and> st' = snd (resetSession nh ?st2)"
        using run s Some p failed by (auto simp: deploymentAttempt_def onWorld_def thenDo_Inr)
      then show ?thesis using keep [OF raft_service.reset_moves [OF svc, of ?st2]] w2 by simp
    next
      case answered
      then have "over = (did \<noteq> 0) \<and> st' = snd (clientProposalCompleted nh (fst st1, w2))"
        using run s Some p by (auto simp: deploymentAttempt_def onWorld_def thenDo_Inr split: if_splits)
      moreover from deployment_settled [OF svc law st1 p [unfolded answered]]
      obtain kv where "finalized cdc (dbOf w2) deploymentIDKey kv" "ParseUint (kv_Value kv) = Inr did" by blast
      ultimately show ?thesis using w2 by (auto simp: settled_def)
    qed
  qed
qed

lemma loop_settles:
  assumes svc: "raft_service nh cdc (deploymentCmd cdc) dbOf" and law: "kv_messages cdc"
  shows "\<lbrakk>deploymentFinal cdc (dbOf (snd st)); list_all (\<lambda>(a, c1, c2). \<not> c1 \<and> \<not> c2) attempts;
      deploymentLoop nh cdc attempts st = (Inr True, st')\<rbrakk> \<Longrightarrow> settled cdc (dbOf (snd st'))"
proof (induction attempts arbitrary: st)
  case (Cons x attempts)
  obtain a where x: "x = (a, False, False)" using Cons.prems(2) by (cases x) auto
  obtain over st1 where one: "deploymentAttempt nh cdc a False False st = (Inr over, st1)"
    and rest: "(if over then (Inr True, st1) else deploymentLoop nh cdc attempts st1) = (Inr True, st')"
    using Cons.prems(3) by (auto simp: x thenDo_Inr)
  show ?case
    using attempt_settles [OF svc law Cons.prems(1) one] rest Cons.IH [of st1] Cons.prems(2)
    by (auto split: if_splits)
qed simp

section \<open>The API waits for the deployment ID\<close>

text \<open>
  C8. A Drummer server serves its API only once the deployment ID is settled: over any Raft layer
  that keeps its contract, if the worker starts the gRPC server and no attempt at the ID saw its context
  cancelled, then \<open>setDeploymentID\<close> returned, and the database it left has a finalized record with an ID
  other than 0, from which point on the server was started and the main loop run.
\<close>

theorem api_waits_for_deployment_id:
  assumes "raft_service nh cdc (deploymentCmd cdc) dbOf" and "kv_messages cdc"
    and "deploymentFinal cdc (dbOf (dr_world (ds_drummer s)))" and "ds_grpcServer s = None"
    and "list_all (\<lambda>(a, canceled, canceledLater). \<not> canceled \<and> \<not> canceledLater) attempts"
    and "drummerWorker nh cdc tr attempts stopping evs s = (r, s')" and "ds_grpcServer s' \<noteq> None"
  shows "\<exists>s1. onDrummer (drummer_setDeploymentID nh cdc attempts) s = (Inr True, s1) \<and>
    settled cdc (dbOf (dr_world (ds_drummer s1))) \<and> ds_grpcServer s1 = None \<and>
    (r, s') = thenDo (startDrummerRPCServer tr s1) (\<lambda>_. onDrummer (drummerMain nh cdc evs))"
proof -
  let ?d = "ds_drummer s"
  obtain b st where loop: "deploymentLoop nh cdc attempts (dr_session ?d, dr_world ?d) = (b, st)"
    by (metis surj_pair)
  let ?s1 = "s\<lparr>ds_drummer := ?d\<lparr>dr_session := fst st, dr_world := snd st\<rparr>\<rparr>"
  have set_id: "onDrummer (drummer_setDeploymentID nh cdc attempts) s = (b, ?s1)"
    using loop by (cases st; cases b) (auto simp: onDrummer_def drummer_setDeploymentID_def withSu_def)
  have b: "b = Inr True" and rest: "(r, s') = thenDo (startDrummerRPCServer tr ?s1) (\<lambda>_. onDrummer (drummerMain nh cdc evs))"
    using assms(4,6,7) set_id by (cases b; auto simp: drummerWorker_def split: if_splits)+
  have "settled cdc (dbOf (snd st))"
    by (rule loop_settles [OF assms(1,2) _ assms(5) loop [unfolded b]]) (use assms(3) in simp)
  with set_id b rest assms(4) show ?thesis by (intro exI [of _ ?s1]) simp
qed

text \<open>
  A server that starts while a rival has set the ID, and one whose Raft layer hands out no session and
  whose context is cancelled while it waits: the second one serves its API too, over an empty database.
\<close>

definition openTransport :: "'w transport" where
  "openTransport = \<lparr>tr_IsValidAddress = (\<lambda>_. True), tr_Listen = (\<lambda>_ w. (Inr (), w)), tr_ServerTLS = (\<lambda>_. Inr None)\<rparr>"

definition newServer :: "'w \<Rightarrow> 'w drummerServer" where
  "newServer w = projr (NewDrummer openTransport countingRand (Inr zero_Config) ''m1:9000'' w)"

definition rivalRaft :: "localWorld raft" where
  "rivalRaft = localRaft kvCodec (deploymentCmd kvCodec)"

definition sessionlessRaft :: "localWorld raft" where
  "sessionlessRaft = rivalRaft\<lparr>SyncGetSession := (\<lambda>w _. (Inl (Err ErrTimeout), w))\<rparr>"

lemma api_waits_for_deployment_id_witness:
  "(\<exists>s1. onDrummer (drummer_setDeploymentID rivalRaft kvCodec [(8, False, False)]) (newServer rivalServers) = (Inr True, s1) \<and>
     settled kvCodec (lw_db (dr_world (ds_drummer s1)))) \<and>
   (let late = drummerWorker sessionlessRaft kvCodec openTransport [(8, False, True)] False [] (newServer rivalServers)
    in ds_grpcServer (snd late) \<noteq> None \<and> db_KVMap (lw_db (dr_world (ds_drummer (snd late)))) = [])"
proof -
  let ?s = "newServer rivalServers"
  let ?run = "drummerWorker rivalRaft kvCodec openTransport [(8, False, False)] False [] ?s"
  have new: "dr_world (ds_drummer ?s) = rivalServers" "ds_grpcServer ?s = None"
    by (simp_all add: newServer_def NewDrummer_def openTransport_def)
  have start: "deploymentFinal kvCodec (lw_db (dr_world (ds_drummer ?s)))"
    unfolding new by (simp add: deploymentFinal_def storedKV_def rivalServers_def NewDB_def)
  have served: "ds_grpcServer (snd ?run) \<noteq> None"
    and late: "let late = drummerWorker sessionlessRaft kvCodec openTransport [(8, False, True)] False [] ?s
      in ds_grpcServer (snd late) \<noteq> None \<and> db_KVMap (lw_db (dr_world (ds_drummer (snd late)))) = []" by code_simp+
  have "?run = (fst ?run, snd ?run)" by simp
  from api_waits_for_deployment_id [OF local_raft.raft_service_axioms kvCodec_law start new(2) _ this [unfolded rivalRaft_def]]
    served late show ?thesis unfolding rivalRaft_def by auto
qed

end
