(* ===== verification/ManagedKV.thy ===== *)
theory ManagedKV
  imports KVCodec Decimal
begin

text \<open>
  The state machines of the managed shards that are kept in memory (\<^verbatim>\<open>tests/kvtest.go\<close>,
  \<^verbatim>\<open>tests/concurrentkv.go\<close>), which the plugin table of the NodeHost client names. Commands are records
  of \<open>KVCodec\<close>. JSON and MD5 are the standard library's: their results are arguments, as is what a
  \<^verbatim>\<open>sync.Pool\<close> hands out.
\<close>

section \<open>Delays\<close>

text \<open>
  \<^verbatim>\<open>getLargeRandomDelay\<close>: the values of the two environment variables and the random number; the
  delay is in milliseconds.
\<close>

definition getLargeRandomDelay :: "string \<Rightarrow> string \<Rightarrow> u64 \<Rightarrow> u64" where
  "getLargeRandomDelay ioei ioeiShard r =
     (if length ioei > 0 then 0
      else if length ioeiShard > 0 then 0
      else
        (let v = r mod 100 in
         if v = 0 then 30 * 1000
         else if v < 10 then 1 * 1000
         else if v < 30 then 500
         else if v < 50 then 100
         else 50))"

text \<open>
  The loop that waits in steps of ten milliseconds and looks at the channel \<^verbatim>\<open>done\<close> after each:
  \<open>Some True\<close> when it found it closed, \<open>None\<close> when it still waits after the looks given.
\<close>

fun waitLoop :: "u64 \<Rightarrow> bool list \<Rightarrow> bool option" where
  "waitLoop delay [] = (if delay > 0 then None else Some False)"
| "waitLoop delay (stop # looks) =
     (if delay > 0 then (if stop then Some True else waitLoop (delay - 10) looks) else Some False)"

section \<open>Byte order\<close>

text \<open>\<^verbatim>\<open>binary.LittleEndian\<close>: a slice of fewer than eight bytes panics.\<close>

definition PutUint64 :: "u64 \<Rightarrow> u8 list" where
  "PutUint64 x = map (\<lambda>i. ucast (drop_bit (8 * i) x)) [0, 1, 2, 3, 4, 5, 6, 7]"

definition Uint64 :: "u8 list \<Rightarrow> u64 go" where
  "Uint64 bs = (if length bs < 8 then panic IndexOutOfRange
     else Inr (fold (\<lambda>i x. x OR push_bit (8 * i) (ucast (bs ! i))) [0, 1, 2, 3, 4, 5, 6, 7] 0))"

section \<open>JSON\<close>

record kvJson =
  kj_KVStore :: "(u8 list, u8 list) gomap"
  kj_Count :: u64
  kj_Junk :: "u8 list"

record jsonCodec =
  js_Marshal :: "kvJson \<Rightarrow> u8 list"
  js_Unmarshal :: "u8 list \<Rightarrow> kvJson option"
  js_MD5 :: "u8 list \<Rightarrow> u8 list"

definition emptyKV :: kvPair where
  "emptyKV = \<lparr>kp_Key = [], kp_Val = []\<rparr>"

definition junkBytes :: "u8 list" where
  "junkBytes = replicate (3 * 1024) 2"

section \<open>The plain state machine\<close>

record kvTest =
  kt_ClusterID :: u64
  kt_NodeID :: u64
  kt_KVStore :: "(u8 list, u8 list) gomap"
  kt_Count :: u64
  kt_Junk :: "u8 list"
  kt_closed :: bool
  kt_aborted :: bool
  kt_externalFileTest :: bool
  kt_noLargeDelay :: bool
  kt_pbkvPool :: "kvPair list"

definition NewKVTest :: "string \<Rightarrow> u64 \<Rightarrow> u64 \<Rightarrow> kvTest" where
  "NewKVTest externalFileTest clusterID nodeID = \<lparr>kt_ClusterID = clusterID, kt_NodeID = nodeID, kt_KVStore = [],
     kt_Count = 0, kt_Junk = junkBytes, kt_closed = False, kt_aborted = False,
     kt_externalFileTest = (length externalFileTest > 0), kt_noLargeDelay = False, kt_pbkvPool = []\<rparr>"

definition DisableLargeDelay :: "kvTest \<Rightarrow> kvTest" where
  "DisableLargeDelay s = s\<lparr>kt_noLargeDelay := True\<rparr>"

definition kt_Lookup :: "u8 list \<Rightarrow> kvTest \<Rightarrow> u8 list go" where
  "kt_Lookup key s =
     (if kt_closed s then panic AlreadyClosed
      else if kt_aborted s then panic AlreadyAborted
      else (case mget (kt_KVStore s) key of Some v \<Rightarrow> Inr v | None \<Rightarrow> Inr []))"

text \<open>
  The pool hands out one of the objects put back before, or a new one; \<open>pick\<close> is its choice. An
  object comes back with the fields it had.
\<close>

definition poolGet :: "nat \<Rightarrow> kvPair list \<Rightarrow> kvPair \<times> kvPair list" where
  "poolGet pick objs = (if pick < length objs then (objs ! pick, take pick objs @ drop (Suc pick) objs)
     else (emptyKV, objs))"

definition updateStore :: "u8 list \<Rightarrow> u8 list \<Rightarrow> kvTest \<Rightarrow> kvTest" where
  "updateStore key val s = s\<lparr>kt_KVStore := mput key val (kt_KVStore s)\<rparr>"

definition kt_Update :: "nat \<Rightarrow> u8 list \<Rightarrow> kvTest \<Rightarrow> u64 go \<times> kvTest" where
  "kt_Update pick cmd s0 =
     (let s = s0\<lparr>kt_Count := kt_Count s0 + 1\<rparr> in
      if kt_aborted s then (panic AlreadyAborted, s)
      else if kt_closed s then (panic AlreadyClosed, s)
      else
        (case poolGet pick (kt_pbkvPool s) of (obj, rest) \<Rightarrow>
           (case UnmarshalBinary cmd obj of
              (Some _, dataKv) \<Rightarrow> (panic UnmarshalFailed, s\<lparr>kt_pbkvPool := rest\<rparr>)
            | (None, dataKv) \<Rightarrow>
                (let s1 = updateStore (kp_Key dataKv) (kp_Val dataKv) (s\<lparr>kt_pbkvPool := rest\<rparr>)
                 in (Inr (of_nat (length cmd)), s1\<lparr>kt_pbkvPool := dataKv # kt_pbkvPool s1\<rparr>)))))"

definition kt_json :: "kvTest \<Rightarrow> kvJson" where
  "kt_json s = \<lparr>kj_KVStore = kt_KVStore s, kj_Count = kt_Count s, kj_Junk = kt_Junk s\<rparr>"

section \<open>The external file\<close>

text \<open>
  With \<^verbatim>\<open>EXTERNALFILETEST\<close> set a snapshot comes with a file. The operating system is an argument; an
  error of it is a panic here. \<open>os_WriteFile\<close> creates, writes and closes.
\<close>

record snapshotFile =
  sf_FileID :: u64
  sf_Filepath :: string
  sf_Metadata :: "u8 list"

record osFiles =
  os_Getwd :: "string go"
  os_Join :: "string \<Rightarrow> string \<Rightarrow> string"
  os_WriteFile :: "string \<Rightarrow> u8 list \<Rightarrow> unit go"
  os_ReadFile :: "string \<Rightarrow> u8 list go"

definition orPanic :: "'a go \<Rightarrow> 'a go" where
  "orPanic r = (case r of Inl (Err e) \<Rightarrow> panic IOFailed | _ \<Rightarrow> r)"

definition saveExternalFile :: "osFiles \<Rightarrow> u64 \<Rightarrow> kvTest \<Rightarrow> snapshotFile go" where
  "saveExternalFile os rn s =
     goThen (orPanic (os_Getwd os)) (\<lambda>dir.
       let fn = ''external-'' @ FormatUint (kt_ClusterID s) @ ''-'' @ FormatUint (kt_NodeID s) @ ''-'' @
             FormatUint (kt_Count s) @ ''-'' @ FormatUint rn @ ''.data'';
           fp = os_Join os dir fn;
           content = bytesOf (''external-test-data-'' @ FormatUint (kt_Count s))
       in goThen (orPanic (os_WriteFile os fp content)) (\<lambda>_.
            Inr \<lparr>sf_FileID = 1, sf_Filepath = fp, sf_Metadata = content\<rparr>))"

definition checkExternalFile :: "osFiles \<Rightarrow> snapshotFile list \<Rightarrow> unit go" where
  "checkExternalFile os files =
     (case files of
        [fr] \<Rightarrow>
          (if sf_FileID fr \<noteq> 1 then panic CorruptedContent
           else goThen (orPanic (os_ReadFile os (sf_Filepath fr))) (\<lambda>content.
             if content \<noteq> sf_Metadata fr then panic CorruptedContent else Inr ()))
      | _ \<Rightarrow> panic CorruptedContent)"

text \<open>
  Snapshots: the random delay, what the waiting loop saw, and the bytes the writer took or the error
  it gave. The result is what was written and the files that were added.
\<close>

definition kt_wait :: "u64 \<Rightarrow> bool list \<Rightarrow> kvTest \<Rightarrow> bool option" where
  "kt_wait delay looks s = waitLoop (if kt_noLargeDelay s then 0 else delay) looks"

definition kt_SaveSnapshot :: "jsonCodec \<Rightarrow> osFiles \<Rightarrow> u64 \<Rightarrow> u64 \<Rightarrow> bool list \<Rightarrow> (u8 list \<Rightarrow> unit go) \<Rightarrow> kvTest
    \<Rightarrow> (u8 list \<times> snapshotFile list) go" where
  "kt_SaveSnapshot js os rn delay looks wr s =
     (if kt_closed s then panic AlreadyClosed
      else goThen (if kt_externalFileTest s then goThen (saveExternalFile os rn s) (\<lambda>f. Inr [f]) else Inr []) (\<lambda>files.
        (case kt_wait delay looks s of
           None \<Rightarrow> Inl Diverges
         | Some True \<Rightarrow> Inl (Err ErrSnapshotStopped)
         | Some False \<Rightarrow>
             (let data = js_Marshal js (kt_json s) in goThen (wr data) (\<lambda>_. Inr (data, files))))))"

definition kt_RecoverFromSnapshot :: "jsonCodec \<Rightarrow> osFiles \<Rightarrow> snapshotFile list \<Rightarrow> u64 \<Rightarrow> bool list \<Rightarrow> u8 list go
    \<Rightarrow> kvTest \<Rightarrow> unit go \<times> kvTest" where
  "kt_RecoverFromSnapshot js os files delay looks rd s =
     (if kt_closed s then (panic AlreadyClosed, s)
      else
        (case (if kt_externalFileTest s then checkExternalFile os files else Inr ()) of
           Inl e \<Rightarrow> (Inl e, s)
         | Inr _ \<Rightarrow>
             (case kt_wait delay looks s of
                None \<Rightarrow> (Inl Diverges, s)
              | Some True \<Rightarrow> (Inl (Err ErrSnapshotStopped), s\<lparr>kt_aborted := True\<rparr>)
              | Some False \<Rightarrow>
                  (case rd of
                     Inl e \<Rightarrow> (Inl e, s)
                   | Inr data \<Rightarrow>
                       (case js_Unmarshal js data of
                          None \<Rightarrow> (Inl (Err ErrIO), s)
                        | Some store \<Rightarrow> (Inr (), s\<lparr>kt_KVStore := kj_KVStore store, kt_Count := kj_Count store,
                            kt_Junk := kj_Junk store\<rparr>))))))"

definition kt_Close :: "kvTest \<Rightarrow> unit go \<times> kvTest" where
  "kt_Close s = (Inr (), s\<lparr>kt_closed := True\<rparr>)"

definition kt_GetHash :: "jsonCodec \<Rightarrow> kvTest \<Rightarrow> u64 go" where
  "kt_GetHash js s = Uint64 (take 8 (js_MD5 js (js_Marshal js (kt_json s))))"

section \<open>The concurrent state machine\<close>

text \<open>
  The field \<^verbatim>\<open>kvdata\<close> is a pointer, which \<^verbatim>\<open>RecoverFromSnapshot\<close> replaces, and the context of a snapshot
  is one too, taken while updates go on: the objects are in a heap, and a pointer is an index into it.
\<close>

record kvdata =
  kd_kvs :: "(u8 list, u8 list) gomap"
  kd_count :: u64
  kd_junk :: "u8 list"

type_synonym kvHeap = "kvdata list"

record concurrentKV =
  ck_ClusterID :: u64
  ck_NodeID :: u64
  ck_kvdata :: nat
  ck_externalFileTest :: bool
  ck_closed :: bool

definition newObject :: "kvdata \<Rightarrow> kvHeap \<Rightarrow> nat \<times> kvHeap" where
  "newObject d h = (length h, h @ [d])"

text \<open>\<^verbatim>\<open>atomic.LoadPointer\<close> and what it points to.\<close>

definition loaded :: "concurrentKV \<times> kvHeap \<Rightarrow> kvdata" where
  "loaded = (\<lambda>(s, h). h ! ck_kvdata s)"

definition NewConcurrentKVTest :: "string \<Rightarrow> u64 \<Rightarrow> u64 \<Rightarrow> kvHeap \<Rightarrow> concurrentKV \<times> kvHeap" where
  "NewConcurrentKVTest externalFileTest clusterID nodeID h =
     (case newObject \<lparr>kd_kvs = [], kd_count = 0, kd_junk = junkBytes\<rparr> h of (p, h1) \<Rightarrow>
        (\<lparr>ck_ClusterID = clusterID, ck_NodeID = nodeID, ck_kvdata = p,
          ck_externalFileTest = (length externalFileTest > 0), ck_closed = False\<rparr>, h1))"

definition ck_Lookup :: "u8 list \<Rightarrow> concurrentKV \<times> kvHeap \<Rightarrow> u8 list go" where
  "ck_Lookup query st = (case mget (kd_kvs (loaded st)) query of Some v \<Rightarrow> Inr v | None \<Rightarrow> Inr [])"

definition ck_store :: "u8 list \<Rightarrow> concurrentKV \<times> kvHeap \<Rightarrow> u64 go \<times> (concurrentKV \<times> kvHeap)" where
  "ck_store cmd st =
     (case UnmarshalBinary cmd emptyKV of
        (Some _, dataKv) \<Rightarrow> (panic UnmarshalFailed, st)
      | (None, dataKv) \<Rightarrow>
          (let d = loaded st in
           (Inr (of_nat (length cmd)), (fst st, (snd st)[ck_kvdata (fst st) :=
              d\<lparr>kd_kvs := mput (kp_Key dataKv) (kp_Val dataKv) (kd_kvs d)\<rparr>]))))"

text \<open>The results are written into the entries: one per entry, in order.\<close>

fun ck_Update :: "u8 list list \<Rightarrow> concurrentKV \<times> kvHeap \<Rightarrow> u64 list go \<times> (concurrentKV \<times> kvHeap)" where
  "ck_Update [] st = (Inr [], st)"
| "ck_Update (cmd # ents) st =
     thenDo (ck_store cmd st) (\<lambda>r st1. thenDo (ck_Update ents st1) (\<lambda>rs st2. (Inr (r # rs), st2)))"

text \<open>The loops that store every entry of a map in an empty one.\<close>

definition copyMap :: "('k, 'v) gomap \<Rightarrow> ('k, 'v) gomap" where
  "copyMap m = fold (\<lambda>(k, v). mput k v) m []"

text \<open>The context points to a new object with a copy of the map.\<close>

definition ck_PrepareSnapshot :: "concurrentKV \<times> kvHeap \<Rightarrow> nat \<times> (concurrentKV \<times> kvHeap)" where
  "ck_PrepareSnapshot st =
     (let p = loaded st in
      case newObject \<lparr>kd_kvs = copyMap (kd_kvs p), kd_count = kd_count p, kd_junk = kd_junk p\<rparr> (snd st) of
        (ctx, h1) \<Rightarrow> (ctx, (fst st, h1)))"

definition kd_json :: "kvdata \<Rightarrow> u8 list \<Rightarrow> kvJson" where
  "kd_json d junk = \<lparr>kj_KVStore = copyMap (kd_kvs d), kj_Count = kd_count d, kj_Junk = junk\<rparr>"

text \<open>The context is read when the waiting is over.\<close>

definition ck_SaveSnapshot :: "jsonCodec \<Rightarrow> nat \<Rightarrow> u64 \<Rightarrow> bool list \<Rightarrow> (u8 list \<Rightarrow> unit go) \<Rightarrow> concurrentKV \<times> kvHeap
    \<Rightarrow> u8 list go" where
  "ck_SaveSnapshot js ctx delay looks wr st =
     (if ck_closed (fst st) then panic AlreadyClosed
      else (case waitLoop delay looks of
           None \<Rightarrow> Inl Diverges
         | Some True \<Rightarrow> Inl (Err ErrSnapshotStopped)
         | Some False \<Rightarrow>
             (let ctxdata = snd st ! ctx; data = js_Marshal js (kd_json ctxdata (kd_junk ctxdata))
              in goThen (wr data) (\<lambda>_. Inr data))))"

definition ck_RecoverFromSnapshot :: "jsonCodec \<Rightarrow> u64 \<Rightarrow> bool list \<Rightarrow> u8 list go \<Rightarrow> concurrentKV \<times> kvHeap
    \<Rightarrow> unit go \<times> (concurrentKV \<times> kvHeap)" where
  "ck_RecoverFromSnapshot js delay looks rd st =
     (if ck_closed (fst st) then (panic AlreadyClosed, st)
      else
        (case waitLoop delay looks of
           None \<Rightarrow> (Inl Diverges, st)
         | Some True \<Rightarrow> (Inl (Err ErrSnapshotStopped), st)
         | Some False \<Rightarrow>
             (case rd of
                Inl e \<Rightarrow> (Inl e, st)
              | Inr data \<Rightarrow>
                  (case js_Unmarshal js data of
                     None \<Rightarrow> (Inl (Err ErrIO), st)
                   | Some jsondata \<Rightarrow>
                       (case newObject \<lparr>kd_kvs = copyMap (kj_KVStore jsondata), kd_count = kj_Count jsondata,
                            kd_junk = kj_Junk jsondata\<rparr> (snd st) of
                          (p, h1) \<Rightarrow> (Inr (), ((fst st)\<lparr>ck_kvdata := p\<rparr>, h1)))))))"

definition ck_Close :: "concurrentKV \<times> kvHeap \<Rightarrow> unit go \<times> (concurrentKV \<times> kvHeap)" where
  "ck_Close st = (Inr (), ((fst st)\<lparr>ck_closed := True\<rparr>, snd st))"

text \<open>The hash leaves the junk out.\<close>

definition ck_GetHash :: "jsonCodec \<Rightarrow> concurrentKV \<times> kvHeap \<Rightarrow> u64 go" where
  "ck_GetHash js st = Uint64 (take 8 (js_MD5 js (js_Marshal js (kd_json (loaded st) []))))"

end
