(* ===== verification/ManagedFacts.thy ===== *)
theory ManagedFacts
  imports ManagedKV LogMachine "HOL-Library.List_Lexorder"
begin

text \<open>
  What the state machines of the managed shards promise: they are key-value maps over the records of
  their log (\<open>managed_kv\<close>), and a replica that starts from a snapshot is a copy of the one that took it
  (\<open>snapshot_kv\<close>, over any JSON encoder with the laws of \<open>json_service\<close>). The machine with a pool keeps
  this only for records without empty fields.
\<close>

section \<open>Byte order and delays\<close>

lemma bit_byte_at:
  assumes "n < 64"
  shows "bit (push_bit k (ucast (ucast (drop_bit k x) :: u8) :: u64)) n \<longleftrightarrow> k \<le> n \<and> n < k + 8 \<and> bit (x :: u64) n"
proof (cases "k \<le> n")
  case True
  then have "bit (drop_bit k x) (n - k) = bit x n" by (simp add: bit_drop_bit_eq)
  with True assms show ?thesis by (auto simp: bit_push_bit_iff bit_ucast_iff dest: bit_imp_le_length)
qed (simp add: bit_push_bit_iff)

lemma Uint64_PutUint64 [simp]: "Uint64 (PutUint64 x) = Inr x"
proof -
  let ?b = "\<lambda>k. push_bit k (ucast (ucast (drop_bit k x) :: u8)) :: u64"
  have "0 OR ?b 0 OR ?b 8 OR ?b 16 OR ?b 24 OR ?b 32 OR ?b 40 OR ?b 48 OR ?b 56 = x"
  proof (rule bit_word_eqI)
    fix n :: nat assume "n < LENGTH(64)"
    then have n: "n < 64" by simp
    then have "n < 8 \<or> 8 \<le> n \<and> n < 16 \<or> 16 \<le> n \<and> n < 24 \<or> 24 \<le> n \<and> n < 32 \<or> 32 \<le> n \<and> n < 40 \<or>
        40 \<le> n \<and> n < 48 \<or> 48 \<le> n \<and> n < 56 \<or> 56 \<le> n \<and> n < 64" by linarith
    then show "bit (0 OR ?b 0 OR ?b 8 OR ?b 16 OR ?b 24 OR ?b 32 OR ?b 40 OR ?b 48 OR ?b 56) n = bit x n"
      unfolding bit_or_iff bit_byte_at [OF n] by auto
  qed
  then show ?thesis unfolding Uint64_def PutUint64_def by (simp add: or.assoc)
qed

lemma length_PutUint64 [simp]: "length (PutUint64 x) = 8"
  by (simp add: PutUint64_def)

lemma waits_end:
  "10 dvd unat delay \<Longrightarrow> unat delay \<le> 10 * length looks \<Longrightarrow> list_all Not looks \<Longrightarrow> waitLoop delay looks = Some False"
proof (induction delay looks rule: waitLoop.induct)
  case (2 delay stop looks)
  show ?case
  proof (cases "delay = 0")
    case False
    then have "10 \<le> unat delay" using 2(2) by (metis dvd_imp_le neq0_conv unat_eq_zero)
    then have "unat (delay - 10) = unat delay - 10" by (simp add: unat_sub word_le_nat_alt)
    with 2 False show ?thesis by (simp add: word_neq_0_conv)
  qed simp
qed (auto simp: word_gt_0 unat_eq_zero)

lemma delays_end:
  assumes "3000 \<le> length looks" and "list_all Not looks"
  shows "waitLoop (getLargeRandomDelay ioei ioeiShard r) looks = Some False"
  by (rule waits_end) (use assms in \<open>simp_all add: getLargeRandomDelay_def Let_def\<close>)

section \<open>A key-value map over a log\<close>

definition written :: "kvPair list \<Rightarrow> (u8 list \<rightharpoonup> u8 list) \<Rightarrow> (u8 list \<rightharpoonup> u8 list)" where
  "written kvs m = fold (\<lambda>kv m. m(kp_Key kv \<mapsto> kp_Val kv)) kvs m"

lemma written_simps [simp]:
  "written [] m = m" "written (kv # kvs) m = written kvs (m(kp_Key kv \<mapsto> kp_Val kv))"
  by (simp_all add: written_def)

text \<open>The records of a log, and those an encoder keeps.\<close>

definition holds :: "(kvPair \<Rightarrow> bool) \<Rightarrow> kvPair list \<Rightarrow> (nat \<times> u8 list) list \<Rightarrow> bool" where
  "holds taken kvs cs \<longleftrightarrow> list_all2 (\<lambda>kv c. taken kv \<and> encodes kv (snd c)) kvs cs"

definition allLegible :: "(u8 list \<Rightarrow> bool) \<Rightarrow> kvPair list \<Rightarrow> bool" where
  "allLegible legible kvs \<longleftrightarrow> list_all (\<lambda>kv. legible (kp_Key kv) \<and> legible (kp_Val kv)) kvs"

lemma holdsI:
  "list_all2 encodes kvs (map snd cs) \<Longrightarrow> list_all taken kvs \<Longrightarrow> holds taken kvs cs"
  by (auto simp: holds_def list_all2_conv_all_nth list_all_length)

text \<open>
  The contract of a machine: an entry is a command with the choices of the run-time, \<open>taken\<close> are the
  records the machine is made for.
\<close>

locale managed_kv =
  fixes upd :: "nat \<times> u8 list \<Rightarrow> 's \<Rightarrow> u64 go \<times> 's" and look :: "u8 list \<Rightarrow> 's \<Rightarrow> u8 list go"
    and view :: "'s \<Rightarrow> (u8 list \<rightharpoonup> u8 list)" and ready :: "'s \<Rightarrow> bool" and taken :: "kvPair \<Rightarrow> bool"
  assumes updated: "ready s \<Longrightarrow> taken kv \<Longrightarrow> encodes kv (snd c) \<Longrightarrow>
      \<exists>t. upd c s = (Inr (of_nat (length (snd c))), t) \<and> ready t \<and> view t = (view s)(kp_Key kv \<mapsto> kp_Val kv)"
    and looked: "ready s \<Longrightarrow> look k s = Inr (case view s k of Some v \<Rightarrow> v | None \<Rightarrow> [])"
begin

lemma feed:
  "holds taken kvs cs \<Longrightarrow> ready s \<Longrightarrow>
     \<exists>t. runLog upd cs s = (map (\<lambda>c. of_nat (length (snd c))) cs, None, t) \<and> ready t \<and> view t = written kvs (view s)"
  unfolding holds_def
proof (induction kvs cs arbitrary: s rule: list_all2_induct)
  case (Cons kv kvs c cs)
  then obtain t where "upd c s = (Inr (of_nat (length (snd c))), t)" "ready t"
      "view t = (view s)(kp_Key kv \<mapsto> kp_Val kv)"
    using updated by meson
  with Cons.IH [of t] show ?case by (auto simp del: fun_upd_apply simp: fun_upd_def)
qed simp

end

section \<open>Snapshots\<close>

text \<open>
  \<open>stamp\<close> is what a snapshot and the hash hold beside the map, which every entry changes by \<open>tick\<close>;
  \<open>legible\<close> are the keys and values that survive the encoding.
\<close>

locale snapshot_kv = managed_kv upd look view ready taken
  for upd :: "nat \<times> u8 list \<Rightarrow> 's \<Rightarrow> u64 go \<times> 's" and look view ready taken +
  fixes snap :: "'s \<Rightarrow> u8 list go" and restore :: "u8 list \<Rightarrow> 's \<Rightarrow> unit go \<times> 's" and hash :: "'s \<Rightarrow> u64 go"
    and legible :: "u8 list \<Rightarrow> bool" and stamp :: "'s \<Rightarrow> 'h" and tick :: "'h \<Rightarrow> 'h"
  assumes stamped: "upd c s = (Inr r, t) \<Longrightarrow> stamp t = tick (stamp s)"
    and snapped: "ready s \<Longrightarrow> ready s0 \<Longrightarrow> (\<And>k v. view s k = Some v \<Longrightarrow> legible k \<and> legible v) \<Longrightarrow>
      \<exists>data t. snap s = Inr data \<and> restore data s0 = (Inr (), t) \<and> ready t \<and> view t = view s \<and> stamp t = stamp s"
    and hashed: "ready s \<Longrightarrow> ready t \<Longrightarrow> (\<And>k v. view s k = Some v \<Longrightarrow> legible k \<and> legible v) \<Longrightarrow>
      view s = view t \<Longrightarrow> stamp s = stamp t \<Longrightarrow> hash s = hash t"
begin

lemma written_legible:
  "allLegible legible kvs \<Longrightarrow> (\<And>k v. m k = Some v \<Longrightarrow> legible k \<and> legible v) \<Longrightarrow>
     written kvs m k = Some v \<Longrightarrow> legible k \<and> legible v"
proof (induction kvs arbitrary: m)
  case (Cons kv kvs)
  have "written kvs (m(kp_Key kv \<mapsto> kp_Val kv)) k = Some v"
    using Cons.prems(3) by (simp only: written_simps)
  moreover have "allLegible legible kvs" using Cons.prems(1) by (simp add: allLegible_def)
  moreover have "legible j \<and> legible w" if "(m(kp_Key kv \<mapsto> kp_Val kv)) j = Some w" for j w
    using that Cons.prems(1,2) by (auto simp: allLegible_def split: if_splits)
  ultimately show ?case using Cons.IH by blast
qed simp

lemma run_stamp: "runLog upd cs s = (rs, None, t) \<Longrightarrow> stamp t = (tick ^^ length cs) (stamp s)"
proof (induction cs arbitrary: s rs)
  case (Cons c cs)
  from Cons.prems obtain r u xs where "upd c s = (Inr r, u)" "runLog upd cs u = (xs, None, t)"
    by (auto split: prod.splits sum.splits)
  with Cons.IH stamped show ?case by (simp add: funpow_swap1)
qed simp

text \<open>Two replicas of the same map that take the same records cannot be told apart.\<close>

lemma copies_agree:
  assumes "holds taken kvs cs" and "holds taken kvs ds" and "ready s" and "ready t" and "view s = view t" and "stamp s = stamp t"
    and "allLegible legible kvs" and "\<And>k v. view s k = Some v \<Longrightarrow> legible k \<and> legible v"
  shows "\<exists>s' t'. runLog upd cs s = (map (\<lambda>c. of_nat (length (snd c))) cs, None, s') \<and>
    runLog upd ds t = (map (\<lambda>c. of_nat (length (snd c))) ds, None, t') \<and> ready s' \<and> ready t' \<and>
    view s' = written kvs (view s) \<and> view t' = view s' \<and> stamp t' = stamp s' \<and>
    (\<forall>k. look k t' = look k s') \<and> hash t' = hash s'"
proof -
  obtain s' where s': "runLog upd cs s = (map (\<lambda>c. of_nat (length (snd c))) cs, None, s')" "ready s'"
      "view s' = written kvs (view s)"
    using feed [OF assms(1,3)] by blast
  obtain t' where t': "runLog upd ds t = (map (\<lambda>c. of_nat (length (snd c))) ds, None, t')" "ready t'"
      "view t' = written kvs (view t)"
    using feed [OF assms(2,4)] by blast
  have same: "view t' = view s'" using s' t' assms(5) by simp
  have "length cs = length ds" using assms(1,2) by (auto simp: holds_def dest!: list_all2_lengthD)
  then have stamps: "stamp t' = stamp s'" using run_stamp s'(1) t'(1) assms(6) by metis
  have "hash t' = hash s'"
    by (rule hashed [OF t'(2) s'(2) _ same stamps])
      (use written_legible [OF assms(7,8)] t'(3) assms(5) in auto)
  then show ?thesis using s' t' same stamps by (auto simp: looked)
qed

text \<open>A replica that starts from a snapshot and takes the rest of the log is a copy of the one that took it all.\<close>

lemma caught_up:
  assumes "holds taken as cs" and "holds taken bs ds" and "holds taken bs es" and "ready s" and "ready s0"
    and "allLegible legible as" and "allLegible legible bs" and "view s = (\<lambda>_. None)"
  shows "\<exists>s1 data t s2 t2. runLog upd cs s = (map (\<lambda>c. of_nat (length (snd c))) cs, None, s1) \<and>
    snap s1 = Inr data \<and> restore data s0 = (Inr (), t) \<and>
    runLog upd ds s1 = (map (\<lambda>c. of_nat (length (snd c))) ds, None, s2) \<and>
    runLog upd es t = (map (\<lambda>c. of_nat (length (snd c))) es, None, t2) \<and> ready s1 \<and> ready s2 \<and>
    view s2 = written (as @ bs) (\<lambda>_. None) \<and> view t2 = view s2 \<and>
    (\<forall>k. look k t2 = look k s2) \<and> hash t2 = hash s2"
proof -
  obtain s1 where s1: "runLog upd cs s = (map (\<lambda>c. of_nat (length (snd c))) cs, None, s1)" "ready s1"
      "view s1 = written as (view s)"
    using feed [OF assms(1,4)] by blast
  have legible: "legible k \<and> legible v" if "view s1 k = Some v" for k v
    using written_legible [OF assms(6), of "\<lambda>_. None" k v] that s1(3) assms(8) by simp
  from snapped [OF s1(2) assms(5) legible] obtain data t where
    t: "snap s1 = Inr data" "restore data s0 = (Inr (), t)" "ready t" "view t = view s1" "stamp t = stamp s1" by blast
  from copies_agree [OF assms(2,3) s1(2) t(3) t(4,5) [symmetric] assms(7) legible] obtain s2 t2 where
    "runLog upd ds s1 = (map (\<lambda>c. of_nat (length (snd c))) ds, None, s2)"
    "runLog upd es t = (map (\<lambda>c. of_nat (length (snd c))) es, None, t2)" "ready s2"
    "view s2 = written bs (view s1)" "view t2 = view s2" "\<forall>k. look k t2 = look k s2" "hash t2 = hash s2" by blast
  with s1 t show ?thesis by (auto simp: assms(8) written_def intro!: exI [of _ s1])
qed

end

section \<open>The encoders\<close>

text \<open>
  What the machines rely on of \<^verbatim>\<open>encoding/json\<close> and \<^verbatim>\<open>crypto/md5\<close>: a document is read back as it was, and
  the same document gives the same bytes, provided its keys and values are \<open>legible\<close> (Go replaces bytes
  that are not UTF-8); a sum has 16 bytes.
\<close>

definition sameMap :: "('k, 'v) gomap \<Rightarrow> ('k, 'v) gomap \<Rightarrow> bool" where
  "sameMap m m' \<longleftrightarrow> gm_ok m \<and> gm_ok m' \<and> mget m = mget m'"

definition legibleMap :: "(u8 list \<Rightarrow> bool) \<Rightarrow> (u8 list, u8 list) gomap \<Rightarrow> bool" where
  "legibleMap legible m \<longleftrightarrow> (\<forall>k v. mget m k = Some v \<longrightarrow> legible k \<and> legible v)"

locale json_service =
  fixes js :: jsonCodec and legible :: "u8 list \<Rightarrow> bool"
  assumes read_back: "gm_ok (kj_KVStore j) \<Longrightarrow> legibleMap legible (kj_KVStore j) \<Longrightarrow>
      \<exists>m. js_Unmarshal js (js_Marshal js j) = Some (j\<lparr>kj_KVStore := m\<rparr>) \<and> sameMap m (kj_KVStore j)"
    and same_bytes: "legibleMap legible (kj_KVStore j) \<Longrightarrow> sameMap m (kj_KVStore j) \<Longrightarrow>
      js_Marshal js (j\<lparr>kj_KVStore := m\<rparr>) = js_Marshal js j"
    and sum_length: "length (js_MD5 js bs) = 16"

lemma gm_ok_stored: "gm_ok a \<Longrightarrow> gm_ok (fold (\<lambda>(k, v). mput k v) m a)"
  by (induction m arbitrary: a) auto

lemma mget_stored: "gm_ok m \<Longrightarrow> mget (fold (\<lambda>(k, v). mput k v) m a) k = (case mget m k of Some v \<Rightarrow> Some v | None \<Rightarrow> mget a k)"
proof (induction m arbitrary: a)
  case (Cons p m)
  have "mget m (fst p) = None" using Cons.prems by (simp add: gm_ok_def map_of_eq_None_iff)
  with Cons show ?case by (cases p) (auto simp: gm_ok_def gomap_simps split: option.split)
qed simp

lemma copyMap_same [simp]: "gm_ok m \<Longrightarrow> sameMap (copyMap m) m"
  by (auto simp: sameMap_def copyMap_def gm_ok_stored mget_stored fun_eq_iff split: option.split)

lemma sameMap_get: "sameMap m m' \<Longrightarrow> mget m = mget m'"
  by (simp add: sameMap_def)

lemma sameMap_trans: "sameMap a b \<Longrightarrow> sameMap b c \<Longrightarrow> sameMap a c"
  by (simp add: sameMap_def)

lemma sameMap_ok: "sameMap m m' \<Longrightarrow> gm_ok m"
  by (simp add: sameMap_def)

section \<open>The machines keep the contracts\<close>

text \<open>
  The machine with the pool, for records without empty fields: whichever object it gets, both fields
  are overwritten.
\<close>

definition filled :: "kvPair \<Rightarrow> bool" where
  "filled kv \<longleftrightarrow> kp_Key kv \<noteq> [] \<and> kp_Val kv \<noteq> []"

definition kt_ready :: "kvTest \<Rightarrow> bool" where
  "kt_ready s \<longleftrightarrow> \<not> kt_closed s \<and> \<not> kt_aborted s \<and> \<not> kt_externalFileTest s \<and> gm_ok (kt_KVStore s)"

lemma filled_reads: "filled kv \<Longrightarrow> readInto kv w = kv"
  by (cases kv) (simp add: filled_def readInto_def)

interpretation kt: managed_kv "\<lambda>c. kt_Update (fst c) (snd c)" kt_Lookup "\<lambda>s. mget (kt_KVStore s)" kt_ready filled
proof unfold_locales
  fix s kv and c :: "nat \<times> u8 list"
  assume "kt_ready s" "filled kv" "encodes kv (snd c)"
  then show "\<exists>t. kt_Update (fst c) (snd c) s = (Inr (of_nat (length (snd c))), t) \<and> kt_ready t \<and>
      mget (kt_KVStore t) = (mget (kt_KVStore s))(kp_Key kv \<mapsto> kp_Val kv)"
    by (auto simp: kt_ready_def kt_Update_def Let_def encodes_reads filled_reads updateStore_def
        update_conv split: prod.split)
qed (auto simp: kt_ready_def kt_Lookup_def split: option.split)

text \<open>The concurrent machine, for every record.\<close>

definition ck_ready :: "concurrentKV \<times> kvHeap \<Rightarrow> bool" where
  "ck_ready st \<longleftrightarrow> \<not> ck_closed (fst st) \<and> ck_kvdata (fst st) < length (snd st) \<and> gm_ok (kd_kvs (loaded st))"

interpretation ck: managed_kv "\<lambda>c. ck_store (snd c)" ck_Lookup "\<lambda>st. mget (kd_kvs (loaded st))" ck_ready "\<lambda>_. True"
proof unfold_locales
  fix st :: "concurrentKV \<times> kvHeap" and kv and c :: "nat \<times> u8 list"
  assume "ck_ready st" "encodes kv (snd c)"
  then show "\<exists>t. ck_store (snd c) st = (Inr (of_nat (length (snd c))), t) \<and> ck_ready t \<and>
      mget (kd_kvs (loaded t)) = (mget (kd_kvs (loaded st)))(kp_Key kv \<mapsto> kp_Val kv)"
    by (auto simp: ck_ready_def ck_store_def encodes_reads emptyKV_def update_conv loaded_def Let_def split: prod.splits)
qed (auto simp: ck_Lookup_def split: option.split)

lemma ck_Update_run: "runLog (\<lambda>c. ck_store (snd c)) (map (Pair 0) cmds) s = (rs, None, t) \<Longrightarrow> ck_Update cmds s = (Inr rs, t)"
proof (induction cmds arbitrary: s rs)
  case (Cons c cs)
  obtain r u where "ck_store c s = (r, u)" by (metis surj_pair)
  with Cons.prems Cons.IH [of u] show ?case by (cases r) (auto split: prod.splits)
qed simp

text \<open>Updates write one object; a new context is another one.\<close>

lemma ck_store_frame:
  assumes "ck_store cmd st = (r, st')"
  shows "fst st' = fst st" "i \<noteq> ck_kvdata (fst st) \<Longrightarrow> snd st' ! i = snd st ! i"
    "kd_count (loaded st') = kd_count (loaded st)" "kd_junk (loaded st') = kd_junk (loaded st)"
proof -
  obtain s h where st: "st = (s, h)" by (cases st)
  obtain x kv where "UnmarshalBinary cmd emptyKV = (x, kv)" by (metis surj_pair)
  then consider "st' = st"
    | "st' = (s, h[ck_kvdata s := (h ! ck_kvdata s)\<lparr>kd_kvs := mput (kp_Key kv) (kp_Val kv) (kd_kvs (h ! ck_kvdata s))\<rparr>])"
    using assms by (cases x) (auto simp: ck_store_def loaded_def st Let_def)
  then have "fst st' = fst st \<and> (i \<noteq> ck_kvdata (fst st) \<longrightarrow> snd st' ! i = snd st ! i) \<and>
    kd_count (loaded st') = kd_count (loaded st) \<and> kd_junk (loaded st') = kd_junk (loaded st)"
  proof cases
    case 2
    then show ?thesis by (cases "ck_kvdata s < length h") (simp_all add: loaded_def st list_update_beyond not_less)
  qed simp
  then show "fst st' = fst st" "i \<noteq> ck_kvdata (fst st) \<Longrightarrow> snd st' ! i = snd st ! i"
    "kd_count (loaded st') = kd_count (loaded st)" "kd_junk (loaded st') = kd_junk (loaded st)" by simp_all
qed

lemma ck_run_frame:
  "runLog (\<lambda>c. ck_store (snd c)) cs st = (rs, f, st') \<Longrightarrow> fst st' = fst st \<and> (i \<noteq> ck_kvdata (fst st) \<longrightarrow> snd st' ! i = snd st ! i)"
proof (induction cs arbitrary: st rs)
  case (Cons c cs)
  obtain r u where one: "ck_store (snd c) st = (r, u)" by (metis surj_pair)
  show ?case
  proof (cases r)
    case (Inl e)
    with Cons.prems one ck_store_frame(1,2) [OF one] show ?thesis by auto
  next
    case (Inr v)
    then obtain xs where "runLog (\<lambda>c. ck_store (snd c)) cs u = (xs, f, st')"
      using Cons.prems one by (auto split: prod.splits)
    from Cons.IH [OF this] ck_store_frame(1,2) [OF one] show ?thesis by auto
  qed
qed simp

lemma ck_prepared:
  assumes "ck_PrepareSnapshot st = (ctx, st1)" and "ck_ready st"
  shows "fst st1 = fst st" "loaded st1 = loaded st" "ck_ready st1" "ctx \<noteq> ck_kvdata (fst st1)"
    "snd st1 ! ctx = (loaded st)\<lparr>kd_kvs := copyMap (kd_kvs (loaded st))\<rparr>"
  using assms
  by (auto simp: ck_PrepareSnapshot_def newObject_def Let_def ck_ready_def loaded_def nth_append split: prod.splits)

lemma kt_waited: "waitLoop delay looks = Some False \<Longrightarrow> kt_wait delay looks s = Some False"
  by (cases looks) (auto simp: kt_wait_def)

definition noFiles :: osFiles where
  "noFiles = \<lparr>os_Getwd = panic IOFailed, os_Join = (@), os_WriteFile = (\<lambda>_ _. panic IOFailed),
     os_ReadFile = (\<lambda>_. panic IOFailed)\<rparr>"

definition kt_snap :: "jsonCodec \<Rightarrow> kvTest \<Rightarrow> u8 list go" where
  "kt_snap js s = goThen (kt_SaveSnapshot js noFiles 0 0 [] (\<lambda>_. Inr ()) s) (\<lambda>r. Inr (fst r))"

lemma waited:
  assumes "waitLoop delay looks = Some False"
  shows "\<not> kt_externalFileTest s \<Longrightarrow> kt_snap js s = Inr data \<Longrightarrow>
      kt_SaveSnapshot js os rn delay looks (\<lambda>_. Inr ()) s = Inr (data, [])"
    "\<not> kt_externalFileTest s \<Longrightarrow> kt_RecoverFromSnapshot js os files delay looks rd s = kt_RecoverFromSnapshot js noFiles [] 0 [] rd s"
    "ck_SaveSnapshot js ctx delay looks wr st = ck_SaveSnapshot js ctx 0 [] wr st"
    "ck_RecoverFromSnapshot js delay looks rd st = ck_RecoverFromSnapshot js 0 [] rd st"
  using assms kt_waited [OF assms] kt_waited [of 0 "[]"]
  by (simp_all add: kt_snap_def kt_SaveSnapshot_def kt_RecoverFromSnapshot_def ck_SaveSnapshot_def
      ck_RecoverFromSnapshot_def panic_def Let_def split: if_splits)

context json_service
begin

lemma decoded:
  assumes "gm_ok m" and "legibleMap legible m"
  shows "\<exists>m'. js_Unmarshal js (js_Marshal js \<lparr>kj_KVStore = m, kj_Count = n, kj_Junk = junk\<rparr>) =
    Some \<lparr>kj_KVStore = m', kj_Count = n, kj_Junk = junk\<rparr> \<and> sameMap m' m"
  using read_back [of "\<lparr>kj_KVStore = m, kj_Count = n, kj_Junk = junk\<rparr>"] assms by simp

lemma encoded_same:
  assumes "sameMap m m'" and "legibleMap legible m'"
  shows "js_Marshal js \<lparr>kj_KVStore = m, kj_Count = n, kj_Junk = junk\<rparr> =
    js_Marshal js \<lparr>kj_KVStore = m', kj_Count = n, kj_Junk = junk\<rparr>"
  using same_bytes [of "\<lparr>kj_KVStore = m', kj_Count = n, kj_Junk = junk\<rparr>" m] assms by simp

end

sublocale json_service \<subseteq> kts: snapshot_kv "\<lambda>c. kt_Update (fst c) (snd c)" kt_Lookup "\<lambda>s. mget (kt_KVStore s)"
  kt_ready filled "kt_snap js"
  "\<lambda>data s. kt_RecoverFromSnapshot js noFiles [] 0 [] (Inr data) s" "kt_GetHash js" legible
  "\<lambda>s. (kt_Count s, kt_Junk s)" "\<lambda>(n, junk). (n + 1, junk)"
proof unfold_locales
  fix s s0
  assume s: "kt_ready s" "kt_ready s0" and "\<And>k v. mget (kt_KVStore s) k = Some v \<Longrightarrow> legible k \<and> legible v"
  then have "gm_ok (kt_KVStore s)" "legibleMap legible (kt_KVStore s)" by (auto simp: kt_ready_def legibleMap_def)
  from decoded [OF this, of "kt_Count s" "kt_Junk s"] s
  show "\<exists>data t. kt_snap js s = Inr data \<and> kt_RecoverFromSnapshot js noFiles [] 0 [] (Inr data) s0 = (Inr (), t) \<and> kt_ready t \<and>
      mget (kt_KVStore t) = mget (kt_KVStore s) \<and> (kt_Count t, kt_Junk t) = (kt_Count s, kt_Junk s)"
    by (auto simp: kt_snap_def kt_SaveSnapshot_def kt_RecoverFromSnapshot_def kt_wait_def kt_ready_def kt_json_def Let_def
        sameMap_ok sameMap_get)
next
  fix s t
  assume "kt_ready s" "kt_ready t" "\<And>k v. mget (kt_KVStore s) k = Some v \<Longrightarrow> legible k \<and> legible v"
    "mget (kt_KVStore s) = mget (kt_KVStore t)" "(kt_Count s, kt_Junk s) = (kt_Count t, kt_Junk t)"
  then show "kt_GetHash js s = kt_GetHash js t"
    using encoded_same [of "kt_KVStore t" "kt_KVStore s" "kt_Count s" "kt_Junk s"]
    by (simp add: kt_GetHash_def kt_json_def kt_ready_def sameMap_def legibleMap_def)
qed (auto simp: kt_Update_def Let_def updateStore_def panic_def split: if_splits prod.splits option.splits)

definition ck_snap :: "jsonCodec \<Rightarrow> concurrentKV \<times> kvHeap \<Rightarrow> u8 list go" where
  "ck_snap js st = (case ck_PrepareSnapshot st of (ctx, st1) \<Rightarrow> ck_SaveSnapshot js ctx 0 [] (\<lambda>_. Inr ()) st1)"

sublocale json_service \<subseteq> cks: snapshot_kv "\<lambda>c. ck_store (snd c)" ck_Lookup "\<lambda>st. mget (kd_kvs (loaded st))"
  ck_ready "\<lambda>_. True" "ck_snap js" "\<lambda>data st. ck_RecoverFromSnapshot js 0 [] (Inr data) st" "ck_GetHash js" legible
  "\<lambda>st. (kd_count (loaded st), kd_junk (loaded st))" "\<lambda>x. x"
proof unfold_locales
  fix s s0 :: "concurrentKV \<times> kvHeap"
  let ?m = "kd_kvs (loaded s)"
  assume s: "ck_ready s" "ck_ready s0" and "\<And>k v. mget ?m k = Some v \<Longrightarrow> legible k \<and> legible v"
  then have m: "gm_ok ?m" "legibleMap legible ?m" by (auto simp: ck_ready_def legibleMap_def)
  have c: "sameMap (copyMap (copyMap ?m)) ?m" by (meson m(1) copyMap_same sameMap_ok sameMap_trans)
  then have "gm_ok (copyMap (copyMap ?m))" "legibleMap legible (copyMap (copyMap ?m))"
    using m by (auto simp: sameMap_def legibleMap_def)
  from decoded [OF this, of "kd_count (loaded s)" "kd_junk (loaded s)"] obtain m' where
    m': "js_Unmarshal js (js_Marshal js \<lparr>kj_KVStore = copyMap (copyMap ?m), kj_Count = kd_count (loaded s), kj_Junk = kd_junk (loaded s)\<rparr>) =
      Some \<lparr>kj_KVStore = m', kj_Count = kd_count (loaded s), kj_Junk = kd_junk (loaded s)\<rparr>"
    and "sameMap m' (copyMap (copyMap ?m))" by blast
  then have read: "sameMap (copyMap m') ?m" using c by (meson copyMap_same sameMap_ok sameMap_trans)
  obtain ctx s1 where prep: "ck_PrepareSnapshot s = (ctx, s1)" by (metis surj_pair)
  note ctx = ck_prepared [OF prep s(1)]
  have "ck_snap js s = Inr (js_Marshal js \<lparr>kj_KVStore = copyMap (copyMap ?m), kj_Count = kd_count (loaded s), kj_Junk = kd_junk (loaded s)\<rparr>)"
    using s(1) by (simp add: ck_snap_def prep ck_SaveSnapshot_def ctx(1,5) ck_ready_def kd_json_def Let_def)
  with m' read s(2) show "\<exists>data t. ck_snap js s = Inr data \<and>
      ck_RecoverFromSnapshot js 0 [] (Inr data) s0 = (Inr (), t) \<and> ck_ready t \<and>
      mget (kd_kvs (loaded t)) = mget ?m \<and>
      (kd_count (loaded t), kd_junk (loaded t)) = (kd_count (loaded s), kd_junk (loaded s))"
    by (auto simp: ck_RecoverFromSnapshot_def ck_ready_def newObject_def loaded_def sameMap_ok sameMap_get)
next
  fix s t :: "concurrentKV \<times> kvHeap"
  let ?m = "kd_kvs (loaded s)" and ?n = "kd_kvs (loaded t)"
  assume h: "ck_ready s" "ck_ready t" "\<And>k v. mget ?m k = Some v \<Longrightarrow> legible k \<and> legible v" "mget ?m = mget ?n"
    "(kd_count (loaded s), kd_junk (loaded s)) = (kd_count (loaded t), kd_junk (loaded t))"
  then have "sameMap (copyMap ?m) (copyMap ?n)" and "legibleMap legible (copyMap ?n)"
    using copyMap_same [of ?m] copyMap_same [of ?n] by (auto simp: ck_ready_def sameMap_def legibleMap_def)
  from encoded_same [OF this] h(5) show "ck_GetHash js s = ck_GetHash js t"
    by (simp add: ck_GetHash_def kd_json_def)
qed (simp add: ck_store_frame)

context json_service
begin

lemmas pooled_caught_up = kts.caught_up

text \<open>The context keeps what it held while the machine goes on.\<close>

lemma concurrent_caught_up:
  assumes "holds (\<lambda>_. True) as cs" and "holds (\<lambda>_. True) bs ds" and "ck_ready s" and "ck_ready s0"
    and "allLegible legible as" and "allLegible legible bs" and empty: "mget (kd_kvs (loaded s)) = (\<lambda>_. None)"
  shows "\<exists>s1 ctx p1 s2 data t t2. runLog (\<lambda>c. ck_store (snd c)) cs s = (map (\<lambda>c. of_nat (length (snd c))) cs, None, s1) \<and>
    ck_PrepareSnapshot s1 = (ctx, p1) \<and>
    runLog (\<lambda>c. ck_store (snd c)) ds p1 = (map (\<lambda>c. of_nat (length (snd c))) ds, None, s2) \<and>
    ck_SaveSnapshot js ctx 0 [] (\<lambda>_. Inr ()) s2 = Inr data \<and> ck_RecoverFromSnapshot js 0 [] (Inr data) s0 = (Inr (), t) \<and>
    ck_GetHash js t = ck_GetHash js s1 \<and> (\<forall>k. ck_Lookup k t = Inr (case written as (\<lambda>_. None) k of Some v \<Rightarrow> v | None \<Rightarrow> [])) \<and>
    runLog (\<lambda>c. ck_store (snd c)) ds t = (map (\<lambda>c. of_nat (length (snd c))) ds, None, t2) \<and> ck_GetHash js t2 = ck_GetHash js s2 \<and>
    (\<forall>k. ck_Lookup k s2 = Inr (case written (as @ bs) (\<lambda>_. None) k of Some v \<Rightarrow> v | None \<Rightarrow> []) \<and> ck_Lookup k t2 = ck_Lookup k s2)"
proof -
  obtain s1 where s1: "runLog (\<lambda>c. ck_store (snd c)) cs s = (map (\<lambda>c. of_nat (length (snd c))) cs, None, s1)" "ck_ready s1"
      "mget (kd_kvs (loaded s1)) = written as (\<lambda>_. None)"
    using ck.feed [OF assms(1,3)] unfolding empty by blast
  have clear: "legible k \<and> legible v" if "mget (kd_kvs (loaded s1)) k = Some v" for k v
    using cks.written_legible [OF assms(5), of "\<lambda>_. None" k v] that s1(3) by simp
  from cks.snapped [OF s1(2) assms(4) clear] obtain data t where
    t: "ck_snap js s1 = Inr data" "ck_RecoverFromSnapshot js 0 [] (Inr data) s0 = (Inr (), t)" "ck_ready t"
      "mget (kd_kvs (loaded t)) = mget (kd_kvs (loaded s1))"
      "(kd_count (loaded t), kd_junk (loaded t)) = (kd_count (loaded s1), kd_junk (loaded s1))" by blast
  have hash: "ck_GetHash js t = ck_GetHash js s1"
    by (rule cks.hashed [OF t(3) s1(2) _ t(4,5)]) (use clear t(4) in simp)
  obtain ctx p1 where prep: "ck_PrepareSnapshot s1 = (ctx, p1)" by (metis surj_pair)
  note ctx = ck_prepared [OF prep s1(2)]
  have "mget (kd_kvs (loaded p1)) = mget (kd_kvs (loaded t))"
    "(kd_count (loaded p1), kd_junk (loaded p1)) = (kd_count (loaded t), kd_junk (loaded t))"
    using t(4,5) by (simp_all add: ctx(2))
  from cks.copies_agree [OF assms(2,2) ctx(3) t(3) this assms(6)] obtain s2 t2 where
    runs: "runLog (\<lambda>c. ck_store (snd c)) ds p1 = (map (\<lambda>c. of_nat (length (snd c))) ds, None, s2)"
      "runLog (\<lambda>c. ck_store (snd c)) ds t = (map (\<lambda>c. of_nat (length (snd c))) ds, None, t2)" and "ck_ready s2"
      "mget (kd_kvs (loaded s2)) = written bs (mget (kd_kvs (loaded p1)))"
      "\<forall>k. ck_Lookup k t2 = ck_Lookup k s2" "ck_GetHash js t2 = ck_GetHash js s2"
    using clear by (auto simp: ctx(2))
  moreover have "fst s2 = fst p1" "snd s2 ! ctx = snd p1 ! ctx"
    using ck_run_frame [OF runs(1), of ctx] ctx(4) by simp_all
  then have "ck_SaveSnapshot js ctx 0 [] (\<lambda>_. Inr ()) s2 = Inr data"
    using t(1) by (cases "ck_closed (fst p1)") (simp_all add: ck_snap_def prep ck_SaveSnapshot_def Let_def)
  moreover have "written bs (mget (kd_kvs (loaded p1))) = written (as @ bs) (\<lambda>_. None)"
    by (simp add: ctx(2) s1(3) written_def)
  ultimately show ?thesis
    using s1 prep t(2) hash ck.looked [OF t(3)] ck.looked [OF \<open>ck_ready s2\<close>] t(4)
    by (intro exI [of _ s1] exI [of _ ctx] exI [of _ p1] exI [of _ s2] exI [of _ data] exI [of _ t] exI [of _ t2]) simp
qed

end

section \<open>An encoder\<close>

text \<open>
  Documents as bytes, with the map in the order of its keys: the contract of the encoders can be kept.
\<close>

definition chunk :: "u8 list \<Rightarrow> u8 list" where
  "chunk bs = concat (map (\<lambda>b. [1, b]) bs) @ [0]"

fun unchunk :: "u8 list \<Rightarrow> (u8 list \<times> u8 list) option" where
  "unchunk (t # rest) = (if t = 0 then Some ([], rest) else
     (case rest of [] \<Rightarrow> None | b # r1 \<Rightarrow> map_option (\<lambda>(bs, r). (b # bs, r)) (unchunk r1)))"
| "unchunk [] = None"

fun unpairs :: "nat \<Rightarrow> u8 list \<Rightarrow> (u8 list \<times> u8 list) list" where
  "unpairs 0 data = []"
| "unpairs (Suc n) data =
     (case unchunk data of
        None \<Rightarrow> []
      | Some (k, r) \<Rightarrow> (case unchunk r of None \<Rightarrow> [] | Some (v, r1) \<Rightarrow> (k, v) # unpairs n r1))"

definition inOrder :: "(u8 list, u8 list) gomap \<Rightarrow> (u8 list \<times> u8 list) list" where
  "inOrder m = map (\<lambda>k. (k, the (mget m k))) (sorted_list_of_set (set (map fst m)))"

definition byteCodec :: jsonCodec where
  "byteCodec = \<lparr>
     js_Marshal = (\<lambda>j. PutUint64 (kj_Count j) @ chunk (kj_Junk j) @
       concat (map (\<lambda>(k, v). chunk k @ chunk v) (inOrder (kj_KVStore j)))),
     js_Unmarshal = (\<lambda>data.
       (case Uint64 (take 8 data) of
          Inl _ \<Rightarrow> None
        | Inr n \<Rightarrow> map_option (\<lambda>(junk, r). \<lparr>kj_KVStore = unpairs (length r) r, kj_Count = n, kj_Junk = junk\<rparr>)
            (unchunk (drop 8 data)))),
     js_MD5 = (\<lambda>bs. replicate 16 (sum_list bs))\<rparr>"

lemma unchunk_chunk [simp]: "unchunk (chunk bs @ rest) = Some (bs, rest)"
  by (induction bs) (simp_all add: chunk_def)

lemma unpairs_chunks:
  "length ps \<le> n \<Longrightarrow> unpairs n (concat (map (\<lambda>(k, v). chunk k @ chunk v) ps)) = ps"
proof (induction ps arbitrary: n)
  case Nil
  show ?case by (cases n) simp_all
next
  case (Cons p ps)
  then show ?case by (cases n; cases p) simp_all
qed

lemma length_chunks: "length ps \<le> length (concat (map (\<lambda>(k, v). chunk k @ chunk v) ps))"
  by (induction ps) (auto simp: chunk_def)

lemma inOrder_same: "gm_ok m \<Longrightarrow> sameMap (inOrder m) m"
  by (auto simp: sameMap_def inOrder_def gm_ok_def comp_def map_of_map_restrict restrict_map_def fun_eq_iff
      map_of_eq_None_iff [THEN iffD2])

lemma inOrder_cong: "sameMap m m' \<Longrightarrow> inOrder m = inOrder m'"
proof -
  assume same: "sameMap m m'"
  then have "set (map fst m) = set (map fst m')" by (simp add: sameMap_def flip: dom_map_of_conv_image_fst)
  with same show ?thesis by (simp add: inOrder_def sameMap_def)
qed

interpretation byte_codec: json_service byteCodec "\<lambda>_. True"
proof unfold_locales
  fix j :: kvJson assume "gm_ok (kj_KVStore j)"
  then show "\<exists>m. js_Unmarshal byteCodec (js_Marshal byteCodec j) = Some (j\<lparr>kj_KVStore := m\<rparr>) \<and> sameMap m (kj_KVStore j)"
    by (intro exI [of _ "inOrder (kj_KVStore j)"])
      (simp add: byteCodec_def unpairs_chunks length_chunks inOrder_same)
qed (auto simp: byteCodec_def dest: inOrder_cong)

section \<open>The properties\<close>

text \<open>
  C30. Replicas of the plain machine agree whatever objects their pools hand out: over JSON and MD5 as
  documented, two replicas that apply the same commands, all of them marshalled records with a key and a
  value, return the same results without a panic, and then answer every lookup with the last value
  written under the key and have the same hash. A replica that recovers from a snapshot taken in between
  and applies the rest is the same again, with any delay of the snapshot.
\<close>

theorem pooled_replicas_agree:
  assumes "json_service js legible"
    and "list_all2 encodes (as @ bs) (cmds @ rest)" and "length as = length cmds"
    and "list_all (\<lambda>kv. filled kv \<and> legible (kp_Key kv) \<and> legible (kp_Val kv)) (as @ bs)"
    and "length picks = length cmds" and "length picks2 = length rest" and "length picks3 = length rest"
    and "3000 \<le> length looks" and "list_all Not looks"
  shows "\<exists>s1 s2 data t t2.
    runLog (\<lambda>c. kt_Update (fst c) (snd c)) (zip picks cmds) (NewKVTest [] shard n) = (map (of_nat \<circ> length) cmds, None, s1) \<and>
    runLog (\<lambda>c. kt_Update (fst c) (snd c)) (zip picks2 rest) s1 = (map (of_nat \<circ> length) rest, None, s2) \<and>
    kt_SaveSnapshot js os rn (getLargeRandomDelay e f r) looks (\<lambda>_. Inr ()) s1 = Inr (data, []) \<and>
    kt_RecoverFromSnapshot js os files (getLargeRandomDelay e' f' r') looks (Inr data) (NewKVTest [] shard n') = (Inr (), t) \<and>
    runLog (\<lambda>c. kt_Update (fst c) (snd c)) (zip picks3 rest) t = (map (of_nat \<circ> length) rest, None, t2) \<and>
    kt_GetHash js t2 = kt_GetHash js s2 \<and>
    (\<forall>k. kt_Lookup k s2 = Inr (case written (as @ bs) (\<lambda>_. None) k of Some v \<Rightarrow> v | None \<Rightarrow> []) \<and> kt_Lookup k t2 = kt_Lookup k s2)"
proof -
  let ?run = "runLog (\<lambda>c. kt_Update (fst c) (snd c))" and ?new = "NewKVTest [] shard"
  have enc: "list_all2 encodes as cmds" "list_all2 encodes bs rest"
    using assms(2) by (simp_all add: list_all2_append [OF assms(3)])
  have filled: "list_all filled as" "list_all filled bs" using assms(4) by (auto simp: list_all_iff)
  have holds: "holds filled as (zip picks cmds)" "holds filled bs (zip picks2 rest)" "holds filled bs (zip picks3 rest)"
    by (rule holdsI; use enc filled assms(5-7) in simp)+
  have clear: "allLegible legible as" "allLegible legible bs"
    using assms(4) by (auto simp: allLegible_def list_all_iff)
  have ready: "kt_ready (?new i)" and empty: "mget (kt_KVStore (?new i)) = (\<lambda>_. None)" for i
    by (simp_all add: kt_ready_def NewKVTest_def)
  have results: "map (\<lambda>c. of_nat (length (snd c))) (zip xs ys) = map (of_nat \<circ> length) ys" if "length xs = length ys"
    for xs :: "nat list" and ys :: "u8 list list"
    using arg_cong [OF map_snd_zip [OF that], of "map (of_nat \<circ> length)"] by (simp add: comp_def)
  from json_service.pooled_caught_up [OF assms(1) holds ready [of n] ready [of n'] clear empty] obtain s1 data t s2 t2 where
    runs: "?run (zip picks cmds) (?new n) = (map (of_nat \<circ> length) cmds, None, s1)"
      "?run (zip picks2 rest) s1 = (map (of_nat \<circ> length) rest, None, s2)"
      "?run (zip picks3 rest) t = (map (of_nat \<circ> length) rest, None, t2)"
    and snap: "kt_snap js s1 = Inr data" "kt_RecoverFromSnapshot js noFiles [] 0 [] (Inr data) (?new n') = (Inr (), t)"
    and s: "kt_ready s1" "kt_ready s2" "mget (kt_KVStore s2) = written (as @ bs) (\<lambda>_. None)"
      "\<forall>k. kt_Lookup k t2 = kt_Lookup k s2" "kt_GetHash js t2 = kt_GetHash js s2"
    unfolding results [OF assms(5)] results [OF assms(6)] results [OF assms(7)] by blast
  note wait = delays_end [OF assms(8,9)]
  have saved: "kt_SaveSnapshot js os rn (getLargeRandomDelay e f r) looks (\<lambda>_. Inr ()) s1 = Inr (data, [])"
    by (rule waited(1) [OF wait _ snap(1)]) (use s(1) in \<open>simp add: kt_ready_def\<close>)
  have recovered: "kt_RecoverFromSnapshot js os files (getLargeRandomDelay e' f' r') looks (Inr data) (?new n') = (Inr (), t)"
    using waited(2) [OF wait] ready [of n'] snap(2) by (simp add: kt_ready_def)
  show ?thesis
    using runs saved recovered s(3-5) kt.looked [OF s(2)]
    by (intro exI [of _ s1] exI [of _ s2] exI [of _ data] exI [of _ t] exI [of _ t2]) simp
qed

lemma short_encodes:
  assumes "length (kp_Key kv) \<le> 100" and "length (kp_Val kv) \<le> 100" and "length (kvBytes kv) \<le> 1000"
  shows "encodes kv (kvBytes kv)"
  using assms by (simp add: encodes_def marshalled sizesOk_def ColferSizeMax_def)

text \<open>Enough looks for any delay.\<close>

definition patience :: "bool list" where
  "patience = replicate 3000 False"

lemma patience_waits: "3000 \<le> length patience" "list_all Not patience"
  unfolding patience_def list_all_length by (simp_all only: length_replicate nth_replicate order_refl simp_thms) simp

text \<open>Two records, a snapshot after the first, and pools that hand out the old object and a new one.\<close>

definition recordOf :: "string \<Rightarrow> string \<Rightarrow> kvPair" where
  "recordOf k v = \<lparr>kp_Key = bytesOf k, kp_Val = bytesOf v\<rparr>"

lemma pooled_replicas_agree_witness:
  "\<exists>s1 s2 data t t2.
    runLog (\<lambda>c. kt_Update (fst c) (snd c)) [(0, kvBytes (recordOf ''a'' ''1''))] (NewKVTest [] 1 1) = ([7], None, s1) \<and>
    runLog (\<lambda>c. kt_Update (fst c) (snd c)) [(0, kvBytes (recordOf ''b'' ''2''))] s1 = ([7], None, s2) \<and>
    kt_SaveSnapshot byteCodec noFiles 0 30000 patience (\<lambda>_. Inr ()) s1 = Inr (data, []) \<and>
    kt_RecoverFromSnapshot byteCodec noFiles [] 0 patience (Inr data) (NewKVTest [] 1 2) = (Inr (), t) \<and>
    runLog (\<lambda>c. kt_Update (fst c) (snd c)) [(7, kvBytes (recordOf ''b'' ''2''))] t = ([7], None, t2) \<and>
    kt_GetHash byteCodec t2 = kt_GetHash byteCodec s2 \<and>
    kt_Lookup (bytesOf ''a'') t2 = Inr (bytesOf ''1'') \<and> kt_Lookup (bytesOf ''b'') t2 = Inr (bytesOf ''2'')"
proof -
  let ?a = "recordOf ''a'' ''1''" and ?b = "recordOf ''b'' ''2''"
  have len: "length (kvBytes ?a) = 7" "length (kvBytes ?b) = 7" by code_simp+
  then have enc: "encodes ?a (kvBytes ?a)" "encodes ?b (kvBytes ?b)" by (simp_all add: short_encodes recordOf_def bytesOf_def)
  have delays: "getLargeRandomDelay [] [] 0 = 30000" "getLargeRandomDelay ''x'' [] 0 = 0"
    by (simp_all add: getLargeRandomDelay_def Let_def)
  have stored: "written [?a, ?b] (\<lambda>_. None) (bytesOf ''a'') = Some (bytesOf ''1'')"
    "written [?a, ?b] (\<lambda>_. None) (bytesOf ''b'') = Some (bytesOf ''2'')" by (simp_all add: recordOf_def bytesOf_def)
  have ok: "list_all (\<lambda>kv. filled kv \<and> True \<and> True) ([?a] @ [?b])" by code_simp
  have cmds: "list_all2 encodes ([?a] @ [?b]) ([kvBytes ?a] @ [kvBytes ?b])" using enc by simp
  have one: "length [x] = length [y]" for x :: 'a and y :: 'b by simp
  note run = pooled_replicas_agree [OF byte_codec.json_service_axioms cmds one ok one one one patience_waits, where
      os = noFiles and rn = 0 and files = "[]" and shard = 1 and n = 1 and e = "[]" and f = "[]" and r = 0 and e' = "''x''" and f' = "[]" and r' = 0 and n' = 2,
      of 0 0 7, unfolded delays zip_Cons_Cons zip_Nil list.map append.simps comp_def len]
  obtain s1 s2 data t t2 where
    "runLog (\<lambda>c. kt_Update (fst c) (snd c)) [(0, kvBytes ?a)] (NewKVTest [] 1 1) = ([7], None, s1)"
    "runLog (\<lambda>c. kt_Update (fst c) (snd c)) [(0, kvBytes ?b)] s1 = ([7], None, s2)"
    "kt_SaveSnapshot byteCodec noFiles 0 30000 patience (\<lambda>_. Inr ()) s1 = Inr (data, [])"
    "kt_RecoverFromSnapshot byteCodec noFiles [] 0 patience (Inr data) (NewKVTest [] 1 2) = (Inr (), t)"
    "runLog (\<lambda>c. kt_Update (fst c) (snd c)) [(7, kvBytes ?b)] t = ([7], None, t2)"
    "kt_GetHash byteCodec t2 = kt_GetHash byteCodec s2"
    and answers: "\<And>k. kt_Lookup k s2 = Inr (case written [?a, ?b] (\<lambda>_. None) k of Some v \<Rightarrow> v | None \<Rightarrow> [])"
      "\<And>k. kt_Lookup k t2 = kt_Lookup k s2"
    using run unfolding of_nat_numeral by blast
  then show ?thesis using answers [of "bytesOf ''a''"] answers [of "bytesOf ''b''"] unfolding stored by fastforce
qed

text \<open>
  C40. Without that condition replicas diverge: the plain machine reads a command into an object that the
  pool may have kept from an earlier one, and an empty value does not overwrite its value. Whenever a record
  with a key and a value is followed by one with a key and an empty value, of two replicas that apply both
  commands the one whose pool hands out a new object answers the second key with the empty value, and the
  other with the value of the first record.
\<close>

theorem pooled_replicas_diverge:
  assumes "encodes kv cmd" and "encodes kv2 cmd2" and "filled kv" and "kp_Key kv2 \<noteq> []" and "kp_Val kv2 = []"
  shows "\<exists>s t. runLog (\<lambda>c. kt_Update (fst c) (snd c)) [(0, cmd), (0, cmd2)] (NewKVTest ext shard n) =
      ([of_nat (length cmd), of_nat (length cmd2)], None, s) \<and>
    runLog (\<lambda>c. kt_Update (fst c) (snd c)) [(0, cmd), (1, cmd2)] (NewKVTest ext shard n) =
      ([of_nat (length cmd), of_nat (length cmd2)], None, t) \<and>
    kt_Lookup (kp_Key kv2) s = Inr (kp_Val kv) \<and> kt_Lookup (kp_Key kv2) t = Inr [] \<and>
    kt_Lookup (kp_Key kv2) s \<noteq> kt_Lookup (kp_Key kv2) t"
  using assms(3-5)
  by (simp add: Let_def kt_Update_def NewKVTest_def encodes_reads [OF assms(1)] encodes_reads [OF assms(2)]
      poolGet_def updateStore_def kt_Lookup_def filled_def readInto_def emptyKV_def)

lemma pooled_replicas_diverge_witness:
  "\<exists>s t. runLog (\<lambda>c. kt_Update (fst c) (snd c)) [(0, kvBytes (recordOf ''k'' ''x'')), (0, kvBytes (recordOf ''j'' []))]
      (NewKVTest [] 1 1) = ([7, 4], None, s) \<and>
    runLog (\<lambda>c. kt_Update (fst c) (snd c)) [(0, kvBytes (recordOf ''k'' ''x'')), (1, kvBytes (recordOf ''j'' []))]
      (NewKVTest [] 1 1) = ([7, 4], None, t) \<and>
    kt_Lookup (bytesOf ''j'') s = Inr (bytesOf ''x'') \<and> kt_Lookup (bytesOf ''j'') t = Inr []"
proof -
  let ?a = "recordOf ''k'' ''x''" and ?b = "recordOf ''j'' []"
  have len: "length (kvBytes ?a) = 7" "length (kvBytes ?b) = 4" by code_simp+
  then have enc: "encodes ?a (kvBytes ?a)" "encodes ?b (kvBytes ?b)" by (simp_all add: short_encodes recordOf_def bytesOf_def)
  have fields: "filled ?a" "kp_Key ?b = bytesOf ''j''" "kp_Val ?b = []" "kp_Val ?a = bytesOf ''x''" "bytesOf ''j'' \<noteq> []"
    by (simp_all add: filled_def recordOf_def bytesOf_def)
  show ?thesis
    using pooled_replicas_diverge [OF enc fields(1), of "[]" 1 1] unfolding fields(2-4) len of_nat_numeral
    using fields(5) by blast
qed

text \<open>
  C29. The replica of a concurrent machine that catches up is a copy: over JSON and MD5 as documented,
  \<open>PrepareSnapshot\<close> gives a context in an object of its own, which keeps what was written before it
  although the machine goes on to write the rest of the log into its object before \<open>SaveSnapshot\<close> reads the
  context. A new replica that recovers from the snapshot answers every lookup, and hashes, as the machine did
  when the context was made, and after the rest of the log as the machine does then, both with the last
  value written under the key.
\<close>

theorem caught_up_replica_is_a_copy:
  assumes "json_service js legible"
    and "list_all2 encodes (as @ bs) (cmds @ rest)" and "length as = length cmds"
    and "list_all (\<lambda>kv. legible (kp_Key kv) \<and> legible (kp_Val kv)) (as @ bs)"
    and "3000 \<le> length looks" and "list_all Not looks"
  shows "\<exists>s1 ctx p1 s2 data t t2.
    ck_Update cmds (NewConcurrentKVTest ext shard n h) = (Inr (map (of_nat \<circ> length) cmds), s1) \<and>
    ck_PrepareSnapshot s1 = (ctx, p1) \<and>
    ck_Update rest p1 = (Inr (map (of_nat \<circ> length) rest), s2) \<and>
    ck_SaveSnapshot js ctx (getLargeRandomDelay e f r) looks (\<lambda>_. Inr ()) s2 = Inr data \<and>
    ck_RecoverFromSnapshot js (getLargeRandomDelay e' f' r') looks (Inr data) (NewConcurrentKVTest ext' shard n' h') = (Inr (), t) \<and>
    ck_GetHash js t = ck_GetHash js s1 \<and>
    (\<forall>k. ck_Lookup k t = Inr (case written as (\<lambda>_. None) k of Some v \<Rightarrow> v | None \<Rightarrow> [])) \<and>
    ck_Update rest t = (Inr (map (of_nat \<circ> length) rest), t2) \<and>
    ck_GetHash js t2 = ck_GetHash js s2 \<and>
    (\<forall>k. ck_Lookup k s2 = Inr (case written (as @ bs) (\<lambda>_. None) k of Some v \<Rightarrow> v | None \<Rightarrow> []) \<and> ck_Lookup k t2 = ck_Lookup k s2)"
proof -
  let ?new = "NewConcurrentKVTest ext shard n h" and ?new' = "NewConcurrentKVTest ext' shard n' h'"
  have holds: "holds (\<lambda>_. True) as (map (Pair 0) cmds)" "holds (\<lambda>_. True) bs (map (Pair 0) rest)"
    by (rule holdsI; use assms(2) in \<open>simp add: list_all2_append [OF assms(3)] comp_def list_all_iff\<close>)+
  have clear: "allLegible legible as" "allLegible legible bs"
    using assms(1,4) by (auto simp: allLegible_def list_all_iff)
  have ready: "ck_ready ?new" "ck_ready ?new'" and empty: "mget (kd_kvs (loaded ?new)) = (\<lambda>_. None)"
    by (simp_all add: ck_ready_def NewConcurrentKVTest_def newObject_def loaded_def)
  have results: "map (\<lambda>c. of_nat (length (snd c))) (map (Pair 0) cs) = map (of_nat \<circ> length) cs" for cs :: "u8 list list"
    by simp
  from json_service.concurrent_caught_up [OF assms(1) holds ready clear empty, unfolded results]
  show ?thesis
    unfolding waited(3,4) [OF delays_end [OF assms(5,6)]] by (blast dest: ck_Update_run)
qed

lemma caught_up_replica_is_a_copy_witness:
  "\<exists>s1 ctx p1 s2 data t t2.
    ck_Update [kvBytes (recordOf ''a'' ''1'')] (NewConcurrentKVTest [] 1 1 []) = (Inr [7], s1) \<and>
    ck_PrepareSnapshot s1 = (ctx, p1) \<and>
    ck_Update [kvBytes (recordOf ''a'' [])] p1 = (Inr [4], s2) \<and>
    ck_SaveSnapshot byteCodec ctx 30000 patience (\<lambda>_. Inr ()) s2 = Inr data \<and>
    ck_RecoverFromSnapshot byteCodec 0 patience (Inr data) (NewConcurrentKVTest [] 1 2 []) = (Inr (), t) \<and>
    ck_Lookup (bytesOf ''a'') t = Inr (bytesOf ''1'') \<and>
    ck_Update [kvBytes (recordOf ''a'' [])] t = (Inr [4], t2) \<and>
    ck_GetHash byteCodec t2 = ck_GetHash byteCodec s2 \<and> ck_Lookup (bytesOf ''a'') t2 = Inr []"
proof -
  let ?a = "recordOf ''a'' ''1''" and ?b = "recordOf ''a'' []"
  have len: "length (kvBytes ?a) = 7" "length (kvBytes ?b) = 4" by code_simp+
  then have enc: "encodes ?a (kvBytes ?a)" "encodes ?b (kvBytes ?b)" by (simp_all add: short_encodes recordOf_def bytesOf_def)
  have delays: "getLargeRandomDelay [] [] 0 = 30000" "getLargeRandomDelay ''x'' [] 0 = 0"
    by (simp_all add: getLargeRandomDelay_def Let_def)
  have stored: "written [?a] (\<lambda>_. None) (bytesOf ''a'') = Some (bytesOf ''1'')"
    "written [?a, ?b] (\<lambda>_. None) (bytesOf ''a'') = Some []" by (simp_all add: recordOf_def bytesOf_def)
  have ok: "list_all (\<lambda>kv. True \<and> True) ([?a] @ [?b])" by simp
  have cmds: "list_all2 encodes ([?a] @ [?b]) ([kvBytes ?a] @ [kvBytes ?b])" using enc by simp
  have one: "length [?a] = length [kvBytes ?a]" by simp
  note run = caught_up_replica_is_a_copy [OF byte_codec.json_service_axioms cmds one ok patience_waits, of
      "[]" 1 1 "[]" "[]" "[]" 0 "''x''" "[]" 0 "[]" 2 "[]", unfolded delays list.map append.simps comp_def len of_nat_numeral]
  then show ?thesis using stored by (metis (no_types, lifting) option.case(2))
qed

end
