(* ===== verification/Healing.thy ===== *)
theory Healing
  imports SchedulerFacts
begin

text \<open>
  The repair loop closed: the scheduler's requests, a Raft group that carries them out, and the reports
  of the running replicas that bring the image of the shard up to date. Whatever fails stays failed; the
  shard is whole again after a bounded number of rounds (\<open>repair_heals\<close>).
\<close>

section \<open>Replicas by state\<close>

definition idsOf :: "(replica \<Rightarrow> bool) \<Rightarrow> (u64, replica) gomap \<Rightarrow> u64 set" where
  "idsOf P rs = {rid. \<exists>n. mget rs rid = Some n \<and> P n}"

lemma finite_idsOf [simp]: "finite (idsOf P rs)"
proof (rule finite_subset)
  show "idsOf P rs \<subseteq> dom (mget rs)" by (auto simp: idsOf_def)
qed (simp add: finite_dom_map_of)

lemma card_idsOf:
  assumes "gm_ok rs"
  shows "length (filter P (mvals rs)) = card (idsOf P rs)"
proof -
  have "idsOf P rs = fst ` set (filter (P \<circ> snd) rs)"
    using assms by (force simp: idsOf_def mget_in_set)
  moreover have "distinct (map fst (filter (P \<circ> snd) rs))"
    using gm_ok_filter [OF assms] by (simp add: gm_ok_def)
  ultimately have "card (idsOf P rs) = length (filter (P \<circ> snd) rs)"
    by (metis distinct_card length_map list.set_map)
  then show ?thesis by (simp add: mvals_def filter_map comp_def)
qed

definition rp_ok :: "replica \<Rightarrow> u64 \<Rightarrow> bool" where
  "rp_ok n t \<longleftrightarrow> \<not> rp_failed n t \<and> \<not> waitingToBeStarted n t"

definition failedIds :: "shard \<Rightarrow> u64 \<Rightarrow> u64 set" where
  "failedIds c t = idsOf (\<lambda>n. rp_failed n t) (sh_Replicas c)"

definition waitingIds :: "shard \<Rightarrow> u64 \<Rightarrow> u64 set" where
  "waitingIds c t = idsOf (\<lambda>n. waitingToBeStarted n t) (sh_Replicas c)"

definition okIds :: "shard \<Rightarrow> u64 \<Rightarrow> u64 set" where
  "okIds c t = idsOf (\<lambda>n. rp_ok n t) (sh_Replicas c)"

lemma counts:
  assumes "gm_ok (sh_Replicas c)"
  shows "length (getFailedReplicas c t) = card (failedIds c t)"
    "length (getReplicasToStart c t) = card (waitingIds c t)"
    "length (getOkReplicas c t) = card (okIds c t)"
  using card_idsOf [OF assms]
  by (simp_all add: getFailedReplicas_def getReplicasToStart_def getOkReplicas_def failedIds_def waitingIds_def
      okIds_def rp_ok_def)

section \<open>The Raft group\<close>

text \<open>The members it agreed on, the index of that agreement, and the replicas that run.\<close>

record raftGroup =
  rg_members :: "(u64, string) gomap"
  rg_index :: u64
  rg_running :: "u64 set"

text \<open>
  A request carried out: a membership change through the peer it is addressed to, or the start of a
  replica on the NodeHost it is addressed to. The ID of an added replica was not in use.
\<close>

definition executed :: "NodeHostRequest \<Rightarrow> raftGroup \<Rightarrow> raftGroup \<Rightarrow> bool" where
  "executed req g g' = (case nr_Change req of None \<Rightarrow> False | Some ch \<Rightarrow>
     (case rq_Type ch of
        Request_DELETE \<Rightarrow> rg_members g' = fold mdel (rq_Members ch) (rg_members g) \<and>
          rg_index g < rg_index g' \<and> rg_running g' = rg_running g
      | Request_ADD \<Rightarrow> (\<exists>new addr. rq_Members ch = [new] \<and> nr_AddressList req = [addr] \<and>
          mget (rg_members g) new = None \<and> rg_members g' = mput new addr (rg_members g) \<and>
          rg_index g < rg_index g' \<and> rg_running g' = rg_running g)
      | Request_CREATE \<Rightarrow> g' = g\<lparr>rg_running := insert (nr_InstantiateReplicaId req) (rg_running g)\<rparr>
      | _ \<Rightarrow> False))"

definition carried :: "NodeHostRequest list \<Rightarrow> raftGroup \<Rightarrow> raftGroup \<Rightarrow> bool" where
  "carried reqs g g' \<longleftrightarrow> reqs = [] \<and> g' = g \<or> (\<exists>req. reqs = [req] \<and> executed req g g')"

text \<open>
  What a report says of the shard \<open>k\<close> when it is true: a running replica, the membership the group agreed on.
\<close>

definition tells :: "u64 \<Rightarrow> raftGroup \<Rightarrow> ShardInfo \<Rightarrow> bool" where
  "tells k g ci \<longleftrightarrow> si_ShardId ci = k \<and> si_ReplicaId ci \<in> rg_running g \<and> si_ConfigChangeIndex ci = rg_index g \<and>
     mget (si_Replicas ci) = mget (rg_members g) \<and> \<not> si_Pending ci \<and> \<not> si_Incomplete ci"

definition toldBy :: "u64 \<Rightarrow> ShardInfo list \<Rightarrow> u64 set" where
  "toldBy k cis = si_ReplicaId ` {ci \<in> set cis. si_ShardId ci = k}"

definition tellsTruth :: "u64 \<Rightarrow> raftGroup \<Rightarrow> ShardInfo list \<Rightarrow> bool" where
  "tellsTruth k g cis \<longleftrightarrow> (\<forall>ci \<in> set cis. si_ShardId ci = k \<longrightarrow> tells k g ci)"

section \<open>The image while reports come in\<close>

text \<open>
  A replica that reported since \<open>T\<close>, and one that did not: as it was in \<open>c\<close>, or new.
\<close>

definition unheard :: "shard \<Rightarrow> u64 \<Rightarrow> replica \<Rightarrow> bool" where
  "unheard c rid n \<longleftrightarrow> (case mget (sh_Replicas c) rid of
     Some m \<Rightarrow> rp_Tick n = rp_Tick m \<and> rp_FirstObserved n = rp_FirstObserved m
   | None \<Rightarrow> rp_Tick n = 0 \<and> rp_FirstObserved n \<noteq> 0)"

definition heard :: "u64 \<Rightarrow> replica \<Rightarrow> bool" where
  "heard T n \<longleftrightarrow> rp_Tick n \<noteq> 0 \<and> T \<le> rp_Tick n"

definition tracked :: "raftGroup \<Rightarrow> u64 \<Rightarrow> shard \<Rightarrow> u64 set \<Rightarrow> shard \<Rightarrow> bool" where
  "tracked g T c0 S c \<longleftrightarrow> gm_ok (sh_Replicas c) \<and> sh_ConfigChangeIndex c = rg_index g \<and>
     (\<forall>rid. mhas (sh_Replicas c) rid = mhas (rg_members g) rid) \<and>
     (\<forall>rid n. mget (sh_Replicas c) rid = Some n \<longrightarrow> (if rid \<in> S then heard T n else unheard c0 rid n))"

lemma unheard_known: "mget (sh_Replicas c) rid = Some n \<Longrightarrow> unheard c rid n"
  by (simp add: unheard_def)

text \<open>A true entry of a report is accepted; the replicas it leaves are the members.\<close>

lemma entry_synced:
  assumes run: "doUpdateShard t ci (kill, m) = (Inr u, (kill', m'))" and ci: "tells k g ci" "gm_ok (si_Replicas ci)"
    and c: "mget m k = Some c" "gm_ok (sh_Replicas c)" "sh_ConfigChangeIndex c \<le> rg_index g"
  obtains c' where "mget m' k = Some c'" "gm_ok (sh_Replicas c')" "sh_ConfigChangeIndex c' = rg_index g"
    "\<And>rid. mget (sh_Replicas c') rid = (case mget (rg_members g) rid of None \<Rightarrow> None
       | Some a \<Rightarrow> Some (case mget (sh_Replicas c) rid of Some n \<Rightarrow> n | None \<Rightarrow> newReplica k t rid a))"
proof -
  have k: "si_ShardId ci = k" and plain: "\<not> si_Pending ci" "\<not> si_Incomplete ci"
    and says: "si_ConfigChangeIndex ci = rg_index g" "mget (si_Replicas ci) = mget (rg_members g)"
    using ci(1) by (simp_all add: tells_def)
  obtain x c' where s: "syncShard c ci t = (x, c')" by (cases "syncShard c ci t")
  with run c(1) plain k obtain rej where x: "x = Inr rej" and m': "m' = mput k c' m"
    by (cases x) (auto simp: doUpdateShard_def Let_def split: if_splits)
  from s [unfolded x] c(2) ci(2) show thesis
  proof (cases rule: syncShard_success)
    case stale
    with c(3) says(1) show ?thesis by simp
  next
    case (accepted rs)
    show ?thesis
      by (rule that [of c']) (simp_all add: m' mget_mput accepted says syncedReplica_def k cong: option.case_cong)
  qed
qed

lemma entry_first:
  assumes "doUpdateShard t ci (kill, m) = (Inr u, (kill', m'))" and "tells k g ci" "gm_ok (si_Replicas ci)"
    and "mget m k = Some c" "gm_ok (sh_Replicas c)" "sh_ConfigChangeIndex c \<le> rg_index g" and "t \<noteq> 0"
  shows "\<exists>c'. mget m' k = Some c' \<and> tracked g T c {} c'"
  using assms(1-6)
proof (rule entry_synced)
  fix c' assume c': "mget m' k = Some c'" "gm_ok (sh_Replicas c')" "sh_ConfigChangeIndex c' = rg_index g"
    "\<And>rid. mget (sh_Replicas c') rid = (case mget (rg_members g) rid of None \<Rightarrow> None
       | Some a \<Rightarrow> Some (case mget (sh_Replicas c) rid of Some n \<Rightarrow> n | None \<Rightarrow> newReplica k t rid a))"
  have "unheard c rid n" if "mget (sh_Replicas c') rid = Some n" for rid n
    using that assms(7) unfolding c'(4)
    by (auto simp: unheard_def newReplica_def split: option.splits)
  moreover have "mhas (sh_Replicas c') rid = mhas (rg_members g) rid" for rid
    by (simp add: mhas_def c'(4) split: option.split)
  ultimately show ?thesis using c'(1-3) by (auto simp: tracked_def)
qed

lemma entry_again:
  assumes "doUpdateShard t ci (kill, m) = (Inr u, (kill', m'))" and "tells k g ci" "gm_ok (si_Replicas ci)"
    and "mget m k = Some c" and c: "tracked g T c0 S c"
  shows "\<exists>c'. mget m' k = Some c' \<and> tracked g T c0 S c'"
proof -
  have ok: "gm_ok (sh_Replicas c)" "sh_ConfigChangeIndex c \<le> rg_index g" and keys: "mhas (sh_Replicas c) rid = mhas (rg_members g) rid" for rid
    using c by (simp_all add: tracked_def)
  from assms(1-4) ok show ?thesis
  proof (rule entry_synced)
    fix c' assume c': "mget m' k = Some c'" "gm_ok (sh_Replicas c')" "sh_ConfigChangeIndex c' = rg_index g"
      "\<And>rid. mget (sh_Replicas c') rid = (case mget (rg_members g) rid of None \<Rightarrow> None
         | Some a \<Rightarrow> Some (case mget (sh_Replicas c) rid of Some n \<Rightarrow> n | None \<Rightarrow> newReplica k t rid a))"
    have "mget (sh_Replicas c') rid = mget (sh_Replicas c) rid" for rid
      using keys [of rid] unfolding c'(4) by (auto simp: mhas_def split: option.split)
    with c c'(1-3) show ?thesis by (auto simp: tracked_def mhas_def)
  qed
qed

lemma trackedD:
  "tracked g T c0 S c \<Longrightarrow> mget (sh_Replicas c) rid = Some n \<Longrightarrow> if rid \<in> S then heard T n else unheard c0 rid n"
  by (simp add: tracked_def)

lemma flag_irrelevant [simp]:
  "heard T (n\<lparr>rp_IsLeader := b\<rparr>) = heard T n" "unheard c rid (n\<lparr>rp_IsLeader := b\<rparr>) = unheard c rid n"
  by (simp_all add: heard_def unheard_def cong: option.case_cong)

text \<open>Writing a replica of the shard.\<close>

lemma tracked_put:
  assumes c: "tracked g T c0 S c" and n: "mget (sh_Replicas c) rid = Some n"
    and new: "if rid \<in> S' then heard T n' else unheard c0 rid n'" and S: "S' = S \<or> S' = insert rid S"
  shows "tracked g T c0 S' (c\<lparr>sh_Replicas := mput rid n' (sh_Replicas c)\<rparr>)"
proof -
  have "mhas (mput rid n' (sh_Replicas c)) j = mhas (rg_members g) j" for j
    using c n by (auto simp: tracked_def mhas_def mget_mput)
  with assms show ?thesis by (auto simp: tracked_def mget_mput)
qed

lemma tracked_not_member:
  "tracked g T c0 S c \<Longrightarrow> mget (sh_Replicas c) rid = None \<Longrightarrow> tracked g T c0 (insert rid S) c"
  by (auto simp: tracked_def)

lemma ticked:
  assumes c: "mget m k = Some c" "tracked g T c0 S c" and t: "t \<noteq> 0" "T \<le> t"
  shows "\<exists>c'. mget (tickShard t ci m) k = Some c' \<and>
    tracked g T c0 (if si_ShardId ci = k then insert (si_ReplicaId ci) S else S) c'"
proof (cases "si_ShardId ci = k")
  case False
  with c show ?thesis by (auto simp: tickShard_def mget_mput split: option.split)
next
  case True
  show ?thesis
  proof (cases "mget (sh_Replicas c) (si_ReplicaId ci)")
    case None
    with True c tracked_not_member [OF c(2) None] show ?thesis by (simp add: tickShard_def)
  next
    case (Some n)
    have "tracked g T c0 (insert (si_ReplicaId ci) S)
        (c\<lparr>sh_Replicas := mput (si_ReplicaId ci) (n\<lparr>rp_Tick := t\<rparr>) (sh_Replicas c)\<rparr>)"
      by (rule tracked_put [OF c(2) Some]) (use t in \<open>simp_all add: heard_def\<close>)
    with True c Some show ?thesis by (simp add: tickShard_def mget_mput)
  qed
qed

lemma tracked_leaders:
  assumes "tracked g T c0 S c"
  shows "tracked g T c0 S (c\<lparr>sh_Replicas := mmap (\<lambda>_ n. n\<lparr>rp_IsLeader := b\<rparr>) (sh_Replicas c)\<rparr>)"
proof -
  have "(if rid \<in> S then heard T (n\<lparr>rp_IsLeader := b\<rparr>) else unheard c0 rid (n\<lparr>rp_IsLeader := b\<rparr>))"
    if "mget (sh_Replicas c) rid = Some n" for rid n
    using trackedD [OF assms that] by simp
  with assms show ?thesis by (auto simp: tracked_def mget_mmap mhas_def)
qed

lemma tracked_leader:
  assumes "tracked g T c0 S c" and "mget (sh_Replicas c) rid = Some n"
  shows "tracked g T c0 S (c\<lparr>sh_Replicas := mput rid (n\<lparr>rp_IsLeader := b\<rparr>) (sh_Replicas c)\<rparr>)"
proof (rule tracked_put [OF assms])
  show "if rid \<in> S then heard T (n\<lparr>rp_IsLeader := b\<rparr>) else unheard c0 rid (n\<lparr>rp_IsLeader := b\<rparr>)"
    using trackedD [OF assms] by simp
qed simp

lemma led:
  assumes c: "mget m k = Some c" "tracked g T c0 S c"
  shows "\<exists>c'. mget (leaderShard ci m) k = Some c' \<and> tracked g T c0 S c'"
proof (cases "si_ShardId ci = k \<and> \<not> sh_ConfigChangeIndex c > si_ConfigChangeIndex ci \<and>
    mget (sh_Replicas c) (si_ReplicaId ci) \<noteq> None")
  case False
  with c show ?thesis by (auto simp: leaderShard_def Let_def mget_mput split: option.split)
next
  case True
  then obtain n where n: "mget (sh_Replicas c) (si_ReplicaId ci) = Some n" by auto
  let ?c = "c\<lparr>sh_Replicas := mmap (\<lambda>_ cn. cn\<lparr>rp_IsLeader := False\<rparr>) (sh_Replicas c)\<rparr>"
  have cleared: "mget (sh_Replicas ?c) (si_ReplicaId ci) = Some (n\<lparr>rp_IsLeader := False\<rparr>)"
    using n by (simp add: mget_mmap)
  from tracked_leader [OF tracked_leaders [OF c(2)] cleared, of True] tracked_leader [OF c(2) n, of False] True c n
  show ?thesis by (auto simp: leaderShard_def Let_def mget_mput)
qed

section \<open>A whole report, and a log of them\<close>

text \<open>Before the first true entry the shard is as it was; after it, \<open>S\<close> are the replicas heard of.\<close>

definition staged :: "u64 \<Rightarrow> raftGroup \<Rightarrow> u64 \<Rightarrow> shard \<Rightarrow> bool \<Rightarrow> u64 set \<Rightarrow> (u64, shard) gomap \<Rightarrow> bool" where
  "staged k g T c0 b S m \<longleftrightarrow>
     (if b then \<exists>c. mget m k = Some c \<and> tracked g T c0 S c else S = {} \<and> mget m k = Some c0)"

lemma toldBy_simps [simp]:
  "toldBy k [] = {}"
  "toldBy k (ci # cis) = (if si_ShardId ci = k then insert (si_ReplicaId ci) (toldBy k cis) else toldBy k cis)"
  by (auto simp: toldBy_def)

lemma tellsTruth_simps [simp]:
  "tellsTruth k g []"
  "tellsTruth k g (ci # cis) \<longleftrightarrow> (si_ShardId ci = k \<longrightarrow> tells k g ci) \<and> tellsTruth k g cis"
  by (auto simp: tellsTruth_def)

lemma updates_staged:
  assumes "foreach (doUpdateShard t) cis (kill, m) = (Inr u, (kill', m'))" and "staged k g T c0 b S m"
    and "tellsTruth k g cis" and "list_all (\<lambda>ci. gm_ok (si_Replicas ci)) cis" and "t \<noteq> 0"
    and "gm_ok (sh_Replicas c0)" "sh_ConfigChangeIndex c0 \<le> rg_index g"
  shows "staged k g T c0 (b \<or> toldBy k cis \<noteq> {}) S m'"
  using assms(1-4)
proof (induction cis arbitrary: b kill m)
  case (Cons ci cis)
  obtain v kill1 m1 where one: "doUpdateShard t ci (kill, m) = (Inr v, (kill1, m1))"
    and rest: "foreach (doUpdateShard t) cis (kill1, m1) = (Inr u, (kill', m'))"
    using Cons.prems(1) by (auto split: prod.splits sum.splits)
  have "staged k g T c0 (b \<or> si_ShardId ci = k) S m1"
  proof (cases "si_ShardId ci = k")
    case False
    then have "mget m1 k = mget m k" using doUpdateShard_others [of k ci t kill m] one by simp
    with False Cons.prems(2) show ?thesis by (simp add: staged_def)
  next
    case True
    then have ci: "tells k g ci" "gm_ok (si_Replicas ci)" using Cons.prems(3,4) by simp_all
    show ?thesis
    proof (cases b)
      case True
      then obtain c where "mget m k = Some c" "tracked g T c0 S c" using Cons.prems(2) by (auto simp: staged_def)
      from entry_again [OF one ci this] True show ?thesis by (simp add: staged_def)
    next
      case False
      then have "mget m k = Some c0" "S = {}" using Cons.prems(2) by (auto simp: staged_def)
      with entry_first [OF one ci this(1) assms(6,7,5)] True show ?thesis by (simp add: staged_def)
    qed
  qed
  from Cons.IH [OF rest this] Cons.prems(3,4) show ?case by (cases "si_ShardId ci = k") simp_all
qed simp

lemma ticks_staged:
  assumes "staged k g T c0 b S m" and "b \<or> toldBy k cis = {}" and "t \<noteq> 0" "T \<le> t"
  shows "staged k g T c0 b (S \<union> toldBy k cis) (fold (tickShard t) cis m)"
  using assms(1,2)
proof (induction cis arbitrary: S m)
  case (Cons ci cis)
  show ?case
  proof (cases b)
    case True
    with Cons.prems(1) obtain c where "mget m k = Some c" "tracked g T c0 S c" by (auto simp: staged_def)
    from ticked [OF this assms(3,4)] True
    have "staged k g T c0 b (if si_ShardId ci = k then insert (si_ReplicaId ci) S else S) (tickShard t ci m)"
      by (simp add: staged_def)
    from Cons.IH [OF this] True show ?thesis by (simp split: if_splits)
  next
    case False
    with Cons.prems have "si_ShardId ci \<noteq> k" "toldBy k cis = {}" by (auto split: if_splits)
    moreover have "staged k g T c0 b S (tickShard t ci m)"
      using False Cons.prems calculation by (auto simp: staged_def tickShard_def mget_mput split: option.split)
    ultimately show ?thesis using Cons.IH by auto
  qed
qed simp

lemma leaders_staged:
  assumes "staged k g T c0 b S m" and "b \<or> toldBy k cis = {}"
  shows "staged k g T c0 b S (fold leaderShard cis m)"
  using assms
proof (induction cis arbitrary: m)
  case (Cons ci cis)
  have "staged k g T c0 b S (leaderShard ci m)"
  proof (cases b)
    case True
    with Cons.prems(1) led show ?thesis by (fastforce simp: staged_def)
  next
    case False
    with Cons.prems show ?thesis
      by (auto simp: staged_def leaderShard_def Let_def mget_mput split: option.split if_splits)
  qed
  with Cons.IH Cons.prems(2) show ?case by (auto split: if_splits)
qed simp

lemma report_staged:
  assumes u: "ms_update mc nhi = (Inr r, mc')" and s: "staged k g T c0 b S (ms_Shards mc)"
    and truth: "tellsTruth k g (nhi_ShardInfo nhi)" and wf: "nhi_wf nhi"
    and t: "nhi_LastTick nhi \<noteq> 0" "T \<le> nhi_LastTick nhi"
    and c0: "gm_ok (sh_Replicas c0)" "sh_ConfigChangeIndex c0 \<le> rg_index g"
  shows "staged k g T c0 (b \<or> toldBy k (nhi_ShardInfo nhi) \<noteq> {}) (S \<union> toldBy k (nhi_ShardInfo nhi)) (ms_Shards mc')"
proof -
  let ?b = "b \<or> toldBy k (nhi_ShardInfo nhi) \<noteq> {}"
  from u obtain toKill shards where
    run: "foreach (doUpdateShard (nhi_LastTick nhi)) (nhi_ShardInfo nhi) ([], ms_Shards mc) = (Inr (), (toKill, shards))"
    and mc': "ms_Shards mc' = fold leaderShard (nhi_ShardInfo nhi) (fold (tickShard (nhi_LastTick nhi)) (nhi_ShardInfo nhi) shards)"
    by (rule ms_update_success)
  have "staged k g T c0 ?b S shards"
    by (rule updates_staged [OF run s truth _ t(1) c0]) (use wf in \<open>simp add: nhi_wf_def\<close>)
  then show ?thesis
    unfolding mc' by (intro leaders_staged ticks_staged t) auto
qed

text \<open>What a command of the log says of shards, and whether it is a tick.\<close>

definition reportIn :: "codec \<Rightarrow> string \<Rightarrow> ShardInfo list" where
  "reportIn cdc cmd = (case uUpdate cdc cmd of None \<Rightarrow> [] | Some u \<Rightarrow>
     (if up_Type u = Update_NODEHOST_INFO then
        (case up_NodehostInfo u of None \<Rightarrow> [] | Some nhi \<Rightarrow> nhi_ShardInfo nhi) else []))"

definition isTick :: "codec \<Rightarrow> string \<Rightarrow> bool" where
  "isTick cdc cmd = (case uUpdate cdc cmd of None \<Rightarrow> False | Some u \<Rightarrow> up_Type u = Update_TICK)"

definition ticksIn :: "codec \<Rightarrow> string list \<Rightarrow> nat" where
  "ticksIn cdc cmds = length (filter (isTick cdc) cmds)"

lemma tick_moves:
  assumes "Update_cmd cdc d cmd = (Inr r, d')" and "db_inv (Suc n) d"
  shows "unat (db_Tick d') = unat (db_Tick d) + 5 * ticksIn cdc [cmd]"
proof -
  obtain u where u: "uUpdate cdc cmd = Some u" "applyUpdate cdc d u = (Inr r, d')"
    using assms(1) by (rule Update_cmd_effect)
  from u(2) show ?thesis
  proof (cases rule: applyUpdate_effect)
    case (create c)
    with tryCreateShard_effect(4) [OF create(4)] u show ?thesis by (simp add: ticksIn_def isTick_def)
  next
    case (kv kv)
    with applyKV_effect(4) [OF kv(3)] u show ?thesis by (simp add: ticksIn_def isTick_def)
  next
    case (report nhi)
    have "db_Tick d' = db_Tick d" using report(3) by (rule applyReport_effect)
    with u report(1) show ?thesis by (simp add: ticksIn_def isTick_def)
  next
    case (requests rs)
    from requests(3) u requests(1) show ?thesis by (cases rule: applyRequests_effect) (simp_all add: ticksIn_def isTick_def)
  next
    case tick
    with applyTick_effect(1) [OF tick(2)] tick_no_wrap(1) [OF assms(2)] u show ?thesis
      by (simp add: ticksIn_def isTick_def)
  qed
qed

lemma command_staged:
  assumes s: "Update_cmd cdc d cmd = (Inr r, d')" and ok: "entry_ok cdc cmd"
    and st: "staged k g T c0 b S (ms_Shards (db_ShardImage d))" and truth: "tellsTruth k g (reportIn cdc cmd)"
    and T: "T \<noteq> 0" "T \<le> db_Tick d" and c0: "gm_ok (sh_Replicas c0)" "sh_ConfigChangeIndex c0 \<le> rg_index g"
  shows "staged k g T c0 (b \<or> toldBy k (reportIn cdc cmd) \<noteq> {}) (S \<union> toldBy k (reportIn cdc cmd))
    (ms_Shards (db_ShardImage d'))"
proof -
  obtain u where u: "uUpdate cdc cmd = Some u" "applyUpdate cdc d u = (Inr r, d')"
    using s by (rule Update_cmd_effect)
  from u(2) show ?thesis
  proof (cases rule: applyUpdate_effect)
    case (create c)
    with tryCreateShard_effect(4) [OF create(4)] u st show ?thesis by (simp add: reportIn_def)
  next
    case (kv kv)
    with applyKV_effect(4) [OF kv(3)] u st show ?thesis by (simp add: reportIn_def)
  next
    case (report nhi)
    have says: "reportIn cdc cmd = nhi_ShardInfo nhi" by (simp add: reportIn_def u report)
    have "nhi_wf (reportOf d nhi)" using entry_okD [OF ok u(1)] report(2) by (simp add: upd_wf_def nhi_wf_def)
    moreover have "db_Tick d \<noteq> 0" using T by auto
    moreover obtain mc where "ms_update (db_ShardImage d) (reportOf d nhi) = (Inr (), mc)" "db_ShardImage d' = mc"
      using report(3) by (rule applyReport_effect)
    ultimately show ?thesis
      using report_staged [of "db_ShardImage d" "reportOf d nhi" "()" mc k g T c0 b S] st truth T c0 says by simp
  next
    case (requests rs)
    from requests(3) u requests(1) st show ?thesis by (cases rule: applyRequests_effect) (simp_all add: reportIn_def)
  next
    case tick
    with applyTick_effect(1) [OF tick(2)] u st show ?thesis by (simp add: reportIn_def)
  qed
qed

definition saidIn :: "codec \<Rightarrow> u64 \<Rightarrow> string list \<Rightarrow> u64 set" where
  "saidIn cdc k cmds = (\<Union>cmd \<in> set cmds. toldBy k (reportIn cdc cmd))"

lemma log_staged:
  assumes "runs (\<lambda>cmd d. Update_cmd cdc d cmd) d cmds rs d'" and "list_all (entry_ok cdc) cmds"
    and "db_inv (length cmds + n) d" and "staged k g T c0 b S (ms_Shards (db_ShardImage d))"
    and "list_all (\<lambda>cmd. tellsTruth k g (reportIn cdc cmd)) cmds" and "T \<noteq> 0" "T \<le> db_Tick d"
    and c0: "gm_ok (sh_Replicas c0)" "sh_ConfigChangeIndex c0 \<le> rg_index g"
  shows "staged k g T c0 (b \<or> saidIn cdc k cmds \<noteq> {}) (S \<union> saidIn cdc k cmds) (ms_Shards (db_ShardImage d')) \<and>
    unat (db_Tick d') = unat (db_Tick d) + 5 * ticksIn cdc cmds \<and> db_inv n d'"
  using assms(1-7)
proof (induction arbitrary: b S rule: runs.induct)
  case (runs_nil s)
  then show ?case by (simp add: saidIn_def ticksIn_def)
next
  case (runs_cons cmd d r d1 cmds rs d')
  have inv: "db_inv (Suc (length cmds + n)) d" using runs_cons.prems(2) by simp
  have ok: "entry_ok cdc cmd" "list_all (entry_ok cdc) cmds" using runs_cons.prems(1) by simp_all
  have d1: "db_inv (length cmds + n) d1" by (rule db_inv_keep [OF ok(1) inv runs_cons.hyps(1)])
  have tick: "unat (db_Tick d1) = unat (db_Tick d) + 5 * ticksIn cdc [cmd]" by (rule tick_moves [OF runs_cons.hyps(1) inv])
  have "staged k g T c0 (b \<or> toldBy k (reportIn cdc cmd) \<noteq> {}) (S \<union> toldBy k (reportIn cdc cmd)) (ms_Shards (db_ShardImage d1))"
    by (rule command_staged [OF runs_cons.hyps(1) ok(1) runs_cons.prems(3) _ runs_cons.prems(5,6) c0])
      (use runs_cons.prems(4) in simp)
  moreover have "T \<le> db_Tick d1" using runs_cons.prems(6) tick by (simp add: word_le_nat_alt)
  ultimately have "staged k g T c0 ((b \<or> toldBy k (reportIn cdc cmd) \<noteq> {}) \<or> saidIn cdc k cmds \<noteq> {})
      ((S \<union> toldBy k (reportIn cdc cmd)) \<union> saidIn cdc k cmds) (ms_Shards (db_ShardImage d')) \<and>
    unat (db_Tick d') = unat (db_Tick d1) + 5 * ticksIn cdc cmds \<and> db_inv n d'"
    by (intro runs_cons.IH [OF ok(2) d1]) (use runs_cons.prems(4,5) in simp_all)
  then show ?case by (simp add: tick saidIn_def ticksIn_def Un_assoc disj_assoc)
qed

section \<open>The states of the replicas after a round\<close>

lemma still_failed:
  assumes "rp_failed n t" and "unat t \<le> unat t'" and "rp_Tick n \<le> t"
  shows "rp_failed n t'"
proof (cases "rp_Tick n = 0")
  case False
  have "unat (t - rp_Tick n) = unat t - unat (rp_Tick n)" "unat (t' - rp_Tick n) = unat t' - unat (rp_Tick n)"
    using assms(2,3) by (simp_all add: unat_sub word_le_nat_alt)
  with False assms show ?thesis by (simp add: rp_failed_def EntityFailed_def word_less_nat_alt word_le_nat_alt)
qed (use assms in \<open>simp add: rp_failed_def\<close>)

lemma heard_ok:
  assumes "heard T n" and "rp_Tick n \<le> t" and "unat t \<le> unat T + 60"
  shows "rp_ok n t"
proof -
  have "unat (t - rp_Tick n) = unat t - unat (rp_Tick n)"
    using assms(2) by (simp add: unat_sub word_le_nat_alt)
  also have "\<dots> \<le> 60" using assms(1,3) by (simp add: heard_def word_le_nat_alt le_diff_conv)
  finally show ?thesis
    using assms(1) by (simp add: rp_ok_def rp_failed_def waitingToBeStarted_def heard_def EntityFailed_def nodeHostTTL_60
        word_less_nat_alt)
qed

lemma unheard_states:
  assumes n: "unheard c rid n" and no: "rid \<notin> okIds c T" and ok: "shard_ok T k c" and t: "unat T \<le> unat t"
  shows "\<not> rp_ok n t" "rp_failed n t = (rid \<in> failedIds c T)"
    "waitingToBeStarted n t = (rid \<in> waitingIds c T \<or> \<not> mhas (sh_Replicas c) rid)"
proof -
  have "\<not> rp_ok n t \<and> rp_failed n t = (rid \<in> failedIds c T) \<and>
    waitingToBeStarted n t = (rid \<in> waitingIds c T \<or> \<not> mhas (sh_Replicas c) rid)"
  proof (cases "mget (sh_Replicas c) rid")
    case None
    with n show ?thesis
      by (simp add: unheard_def failedIds_def waitingIds_def idsOf_def mhas_def rp_ok_def waitingToBeStarted_def rp_failed_def)
  next
    case (Some m)
    with n have same: "rp_Tick n = rp_Tick m" "rp_FirstObserved n = rp_FirstObserved m" by (simp_all add: unheard_def)
    have "rp_Tick m \<le> T" using shard_okD(4) [OF ok Some] by (simp add: replica_ok_def)
    then have "rp_failed m T \<Longrightarrow> rp_failed n t"
      using still_failed [of m T t] t same by (simp add: rp_failed_def)
    moreover have "\<not> rp_ok m T" using no Some by (simp add: okIds_def idsOf_def)
    moreover have "rp_failed m T = (rid \<in> failedIds c T)" "waitingToBeStarted m T = (rid \<in> waitingIds c T)"
      using Some by (simp_all add: failedIds_def waitingIds_def idsOf_def)
    ultimately show ?thesis
      using Some same by (auto simp: rp_ok_def waitingToBeStarted_def rp_failed_def mhas_def)
  qed
  then show "\<not> rp_ok n t" "rp_failed n t = (rid \<in> failedIds c T)"
    "waitingToBeStarted n t = (rid \<in> waitingIds c T \<or> \<not> mhas (sh_Replicas c) rid)" by simp_all
qed

lemma states_after:
  assumes c: "tracked g T c0 (rg_running g) c" and ok: "shard_ok t k c" "shard_ok T k c0"
    and t: "unat T \<le> unat t" "unat t \<le> unat T + 60"
    and run: "okIds c0 T \<subseteq> rg_running g" "rg_running g \<subseteq> {rid. mhas (rg_members g) rid}"
  shows "okIds c t = rg_running g"
    and "failedIds c t = {rid \<in> failedIds c0 T. mhas (rg_members g) rid} - rg_running g"
    and "waitingIds c t = {rid. mhas (rg_members g) rid \<and> (rid \<in> waitingIds c0 T \<or> \<not> mhas (sh_Replicas c0) rid)} - rg_running g"
proof -
  have keys: "mhas (rg_members g) rid \<longleftrightarrow> (\<exists>n. mget (sh_Replicas c) rid = Some n)" for rid
    using c by (auto simp: tracked_def mhas_def)
  have up: "rp_ok n t" if "mget (sh_Replicas c) rid = Some n" "rid \<in> rg_running g" for rid n
    using trackedD [OF c that(1)] that(2) shard_okD(4) [OF ok(1) that(1)] t(2)
    by (auto simp: replica_ok_def intro: heard_ok)
  have down: "unheard c0 rid n" "rid \<notin> okIds c0 T" if "mget (sh_Replicas c) rid = Some n" "rid \<notin> rg_running g" for rid n
    using trackedD [OF c that(1)] that(2) run(1) by auto
  note down = unheard_states [OF down ok(2) t(1)]
  show "okIds c t = rg_running g"
    using up down(1) run(2) keys by (fastforce simp: okIds_def idsOf_def subset_iff)
  show "failedIds c t = {rid \<in> failedIds c0 T. mhas (rg_members g) rid} - rg_running g"
    using up down(2) keys by (fastforce simp: failedIds_def [of c] idsOf_def rp_ok_def)
  show "waitingIds c t = {rid. mhas (rg_members g) rid \<and> (rid \<in> waitingIds c0 T \<or> \<not> mhas (sh_Replicas c0) rid)} - rg_running g"
    using up down(3) keys by (fastforce simp: waitingIds_def [of c] idsOf_def rp_ok_def)
qed

section \<open>One round\<close>

text \<open>The image is in step with the group: the same members and index, and exactly the running ones count as running.\<close>

definition inStep :: "shard \<Rightarrow> u64 \<Rightarrow> raftGroup \<Rightarrow> bool" where
  "inStep c t g \<longleftrightarrow> sh_ConfigChangeIndex c = rg_index g \<and> okIds c t = rg_running g \<and>
     (\<forall>rid. mhas (sh_Replicas c) rid = mhas (rg_members g) rid)"

text \<open>
  A round: the scheduler's iteration for the shard, over the context of the database, with no error; its
  request carried out; and then a log in which every running replica is reported, each report tells the
  truth about the shard, and no more than a minute passes. Of other shards the reports say anything.
\<close>

definition repairRound :: "codec \<Rightarrow> u64 \<Rightarrow> db \<times> raftGroup \<Rightarrow> string list \<Rightarrow> db \<times> raftGroup \<Rightarrow> bool" where
  "repairRound cdc k st cmds st' \<longleftrightarrow> (case (st, st') of ((d, g), (d', g')) \<Rightarrow>
     (\<exists>ctx s0 r c pos reqs pos' rs.
        schedulerContextOf cdc d = Inr ctx \<and> sch_randomSrc s0 = Some r \<and> rand_ok r \<and>
        mget (ms_Shards (db_ShardImage d)) k = Some c \<and>
        repairShard (updateSchedulerContext s0 ctx) (toShardRepair (db_Tick d) c) pos = (Inr reqs, pos') \<and>
        carried reqs g g' \<and>
        runs (\<lambda>cmd d. Update_cmd cdc d cmd) d cmds rs d' \<and> list_all (entry_ok cdc) cmds \<and>
        list_all (\<lambda>cmd. tellsTruth k g' (reportIn cdc cmd)) cmds \<and>
        rg_running g' \<subseteq> saidIn cdc k cmds \<and> ticksIn cdc cmds \<le> 12))"

inductive repairRounds :: "codec \<Rightarrow> u64 \<Rightarrow> nat \<Rightarrow> nat \<Rightarrow> db \<times> raftGroup \<Rightarrow> db \<times> raftGroup \<Rightarrow> bool" for cdc k where
  no_round: "repairRounds cdc k 0 0 st st"
| next_round: "repairRound cdc k st cmds st1 \<Longrightarrow> repairRounds cdc k n m st1 st' \<Longrightarrow>
    repairRounds cdc k (Suc n) (length cmds + m) st st'"

lemma groups_ids:
  assumes "gm_ok (sh_Replicas c)"
  shows "failedIds c t \<inter> waitingIds c t = {}" "failedIds c t \<inter> okIds c t = {}" "waitingIds c t \<inter> okIds c t = {}"
    "rid \<in> failedIds c t \<union> waitingIds c t \<union> okIds c t \<longleftrightarrow> mhas (sh_Replicas c) rid"
    "length (sh_Replicas c) = card (failedIds c t) + card (waitingIds c t) + card (okIds c t)"
  using groups_length [of c t] counts [OF assms, of t]
  by (auto simp: failedIds_def waitingIds_def okIds_def idsOf_def mhas_def rp_ok_def waitingToBeStarted_def)

lemma member_ids:
  assumes "shard_ok T k c"
  shows "n \<in> set (getFailedReplicas c t) \<Longrightarrow> rp_ReplicaID n \<in> failedIds c t"
    "n \<in> set (getReplicasToStart c t) \<Longrightarrow> rp_ReplicaID n \<in> waitingIds c t"
proof -
  have id: "\<exists>rid. mget (sh_Replicas c) rid = Some n \<and> rid = rp_ReplicaID n" if "n \<in> set (mvals (sh_Replicas c))"
    using that shard_okD(2,4) [OF assms] by (fastforce simp: mvals_mget replica_ok_def)
  show "n \<in> set (getFailedReplicas c t) \<Longrightarrow> rp_ReplicaID n \<in> failedIds c t"
    "n \<in> set (getReplicasToStart c t) \<Longrightarrow> rp_ReplicaID n \<in> waitingIds c t"
    using id by (auto simp: getFailedReplicas_def getReplicasToStart_def failedIds_def waitingIds_def idsOf_def)
qed

lemma findShard_unique:
  assumes "c \<in> set cs" "sd_ShardId c = k" and "\<And>e. e \<in> set cs \<Longrightarrow> sd_ShardId e = k \<Longrightarrow> e = c"
  shows "findShard cs k = Inr c"
proof -
  obtain e where "findShard cs k = Inr e" using findShard_ok [of k cs] assms(1,2) by auto
  with findShard_in [OF this] assms(3) show ?thesis by auto
qed

lemma size_defined:
  assumes "db_inv n d" and "mget (db_Shards d) k = Some dfn" and "schedulerContextOf cdc d = Inr ctx"
  shows "getShardSize (updateSchedulerContext s ctx) k = Inr (length (sd_Members dfn))"
proof -
  have keyed: "shards_keyed (db_Shards d)" by (rule db_invD(6) [OF assms(1)])
  have "gm_ok (db_Shards d)" using db_invD(1) [OF assms(1)] by (auto simp: db_ok_def db_eq_def dest: mrel_ok)
  then have "findShard (mvals (db_Shards d)) k = Inr dfn"
    by (intro findShard_unique) (use keyed assms(2) in \<open>auto simp: shards_keyed_def mvals_mget\<close>)
  then show ?thesis by (simp add: getShardSize_def schedulerContextOf_fields [OF assms(3)])
qed

text \<open>What the group became, by the decision the request carries out.\<close>

definition groupStep :: "repairAction \<Rightarrow> shard \<Rightarrow> u64 \<Rightarrow> raftGroup \<Rightarrow> raftGroup \<Rightarrow> bool" where
  "groupStep a c t g g' = (case a of
     NoAction \<Rightarrow> g' = g
   | DeleteFailed \<Rightarrow> \<exists>x \<in> failedIds c t. rg_running g' = rg_running g \<and>
       (\<forall>rid. mhas (rg_members g') rid \<longleftrightarrow> mhas (rg_members g) rid \<and> rid \<noteq> x)
   | CreateWaiting \<Rightarrow> \<exists>x \<in> waitingIds c t. rg_running g' = insert x (rg_running g) \<and> rg_members g' = rg_members g
   | ReplaceFailed \<Rightarrow> \<exists>x. \<not> mhas (rg_members g) x \<and> rg_running g' = rg_running g \<and>
       (\<forall>rid. mhas (rg_members g') rid \<longleftrightarrow> mhas (rg_members g) rid \<or> rid = x))"

lemma carried_step:
  assumes "carriesOut a s t c reqs" and "carried reqs g g'" and "shard_ok T k c"
  shows "groupStep a c t g g' \<and> rg_index g \<le> rg_index g'"
proof (cases a)
  case NoAction
  with assms(1,2) show ?thesis by (auto simp: carriesOut_def carried_def groupStep_def)
next
  case DeleteFailed
  then obtain dead where "dead \<in> set (getFailedReplicas c t)" and
    "rg_members g' = mdel (rp_ReplicaID dead) (rg_members g)" "rg_index g < rg_index g'" "rg_running g' = rg_running g"
    using assms(1,2) by (auto simp: carriesOut_def deletes_def carried_def executed_def)
  with DeleteFailed member_ids(1) [OF assms(3)] show ?thesis by (auto simp: groupStep_def mhas_def mget_mdel)
next
  case CreateWaiting
  then obtain new where "new \<in> set (getReplicasToStart c t)" and
    "g' = g\<lparr>rg_running := insert (rp_ReplicaID new) (rg_running g)\<rparr>"
    using assms(1,2)
    by (auto simp: carriesOut_def creates_def carried_def executed_def getCreateRequest_def Let_def)
  with CreateWaiting member_ids(2) [OF assms(3)] show ?thesis by (auto simp: groupStep_def)
next
  case ReplaceFailed
  then obtain new addr where "mget (rg_members g) new = None" "rg_members g' = mput new addr (rg_members g)"
    "rg_index g < rg_index g'" "rg_running g' = rg_running g"
    using assms(1,2) by (auto simp: carriesOut_def replaces_def carried_def executed_def)
  with ReplaceFailed show ?thesis by (auto simp: groupStep_def mhas_def mget_mput)
qed

definition acted :: "repairAction \<Rightarrow> shard \<Rightarrow> u64 \<Rightarrow> shard \<Rightarrow> u64 \<Rightarrow> bool" where
  "acted a c t c' t' = (case a of
     NoAction \<Rightarrow> failedIds c' t' = failedIds c t \<and> waitingIds c' t' = waitingIds c t \<and> okIds c' t' = okIds c t
   | DeleteFailed \<Rightarrow> \<exists>x \<in> failedIds c t. failedIds c' t' = failedIds c t - {x} \<and>
       waitingIds c' t' = waitingIds c t \<and> okIds c' t' = okIds c t
   | CreateWaiting \<Rightarrow> \<exists>x \<in> waitingIds c t. failedIds c' t' = failedIds c t \<and>
       waitingIds c' t' = waitingIds c t - {x} \<and> okIds c' t' = insert x (okIds c t)
   | ReplaceFailed \<Rightarrow> \<exists>x. \<not> mhas (sh_Replicas c) x \<and> failedIds c' t' = failedIds c t \<and>
       waitingIds c' t' = insert x (waitingIds c t) \<and> okIds c' t' = okIds c t)"

lemma state_sets:
  fixes M :: "'a set"
  assumes "F \<inter> W = {}" and "F \<inter> R = {}" and "W \<inter> R = {}" and "M = F \<union> W \<union> R"
  shows "{i \<in> F. i \<in> M} - R = F" "{i. i \<in> M \<and> (i \<in> W \<or> i \<notin> M)} - R = W"
    "x \<in> F \<Longrightarrow> {i \<in> F. i \<in> M \<and> i \<noteq> x} - R = F - {x}"
    "x \<in> F \<Longrightarrow> {i. (i \<in> M \<and> i \<noteq> x) \<and> (i \<in> W \<or> i \<notin> M)} - R = W"
    "x \<in> W \<Longrightarrow> {i \<in> F. i \<in> M} - insert x R = F"
    "x \<in> W \<Longrightarrow> {i. i \<in> M \<and> (i \<in> W \<or> i \<notin> M)} - insert x R = W - {x}"
    "x \<notin> M \<Longrightarrow> {i \<in> F. i \<in> M \<or> i = x} - R = F"
    "x \<notin> M \<Longrightarrow> {i. (i \<in> M \<or> i = x) \<and> (i \<in> W \<or> i \<notin> M)} - R = insert x W"
  using assms by blast+

lemma step_acted:
  assumes g: "groupStep a c T g g'" and step: "inStep c T g" and c': "tracked g' T c (rg_running g') c'"
    and ok: "shard_ok t k c'" "shard_ok T k c" and t: "unat T \<le> unat t" "unat t \<le> unat T + 60"
  shows "acted a c T c' t \<and> okIds c' t = rg_running g'"
proof -
  let ?F = "failedIds c T" and ?W = "waitingIds c T" and ?R = "rg_running g"
  define M where "M = {i. mhas (rg_members g) i}"
  have O: "okIds c T = ?R" and keys: "mhas (sh_Replicas c) i = (i \<in> M)" and mem: "mhas (rg_members g) i = (i \<in> M)" for i
    using step by (simp_all add: inStep_def M_def)
  note part = groups_ids(1-4) [OF shard_okD(2) [OF ok(2)], where t = T, unfolded O keys]
  have M: "M = ?F \<union> ?W \<union> ?R" using part(4) by auto
  note sets = state_sets [OF part(1-3) M]
  have run: "okIds c T \<subseteq> rg_running g'" "rg_running g' \<subseteq> {i. mhas (rg_members g') i}"
    using g part(2) M unfolding groupStep_def O by (cases a; auto simp: mem)+
  note after = states_after [OF c' ok t run, unfolded keys]
  have "acted a c T c' t"
  proof (cases a)
    case NoAction
    with g show ?thesis by (simp add: acted_def groupStep_def after O mem sets)
  next
    case DeleteFailed
    then obtain x where x: "x \<in> ?F" "rg_running g' = ?R" "\<And>i. mhas (rg_members g') i = (i \<in> M \<and> i \<noteq> x)"
      using g by (auto simp: groupStep_def mem)
    note now = after [unfolded x(2,3) sets(3) [OF x(1)] sets(4) [OF x(1)]]
    from x(1) show ?thesis unfolding acted_def DeleteFailed repairAction.case now O by blast
  next
    case CreateWaiting
    then obtain x where x: "x \<in> ?W" "rg_running g' = insert x ?R" "rg_members g' = rg_members g"
      using g by (auto simp: groupStep_def)
    note now = after [unfolded x(2,3) mem sets(5) [OF x(1)] sets(6) [OF x(1)]]
    from x(1) show ?thesis unfolding acted_def CreateWaiting repairAction.case now O by blast
  next
    case ReplaceFailed
    then obtain x where x: "x \<notin> M" "rg_running g' = ?R" "\<And>i. mhas (rg_members g') i = (i \<in> M \<or> i = x)"
      using g by (auto simp: groupStep_def mem)
    note now = after [unfolded x(2,3) sets(7) [OF x(1)] sets(8) [OF x(1)]]
    from x(1) show ?thesis unfolding acted_def ReplaceFailed repairAction.case now O keys by blast
  qed
  with after(1) show ?thesis by simp
qed

lemma round_effect:
  assumes rnd: "repairRound cdc k (d, g) cmds (d', g')" and inv: "db_inv (length cmds + m) d" and T: "db_Tick d \<noteq> 0"
    and c: "mget (ms_Shards (db_ShardImage d)) k = Some c" and step: "inStep c (db_Tick d) g"
    and dfn: "mget (db_Shards d) k = Some dfn"
    and quorum: "sh_quorum c \<le> card (okIds c (db_Tick d)) + card (waitingIds c (db_Tick d))"
  shows "\<exists>c'. mget (ms_Shards (db_ShardImage d')) k = Some c' \<and> inStep c' (db_Tick d') g' \<and>
    acted (decide c (db_Tick d) (length (sd_Members dfn))) c (db_Tick d) c' (db_Tick d') \<and>
    db_inv m d' \<and> db_Tick d' \<noteq> 0 \<and> mget (db_Shards d') k = Some dfn"
proof -
  let ?T = "db_Tick d" and ?a = "decide c (db_Tick d) (length (sd_Members dfn))"
  obtain ctx s0 r pos reqs pos' rs where
    ctx: "schedulerContextOf cdc d = Inr ctx" and src: "sch_randomSrc s0 = Some r" "rand_ok r"
    and rep: "repairShard (updateSchedulerContext s0 ctx) (toShardRepair ?T c) pos = (Inr reqs, pos')"
    and car: "carried reqs g g'" and run: "runs (\<lambda>cmd d. Update_cmd cdc d cmd) d cmds rs d'"
    and ok: "list_all (entry_ok cdc) cmds" and truth: "list_all (\<lambda>cmd. tellsTruth k g' (reportIn cdc cmd)) cmds"
    and said: "rg_running g' \<subseteq> saidIn cdc k cmds" and ticks: "ticksIn cdc cmds \<le> 12"
    using rnd c by (auto simp: repairRound_def)
  have shard: "shard_ok ?T k c" by (rule image_ok_get [OF db_invD(3) [OF inv] c])
  note gm = shard_okD(2) [OF shard]
  have "carriesOut ?a (updateSchedulerContext s0 ctx) ?T c reqs"
    by (rule repairShard_decides [OF rep]) (use src size_defined [OF inv dfn ctx] shard_okD(1) [OF shard] in simp_all)
  from carried_step [OF this car shard] have g: "groupStep ?a c ?T g g'" and idx: "rg_index g \<le> rg_index g'" by simp_all
  have index: "sh_ConfigChangeIndex c \<le> rg_index g'" and O: "okIds c ?T = rg_running g"
    using step idx by (simp_all add: inStep_def)
  have "rg_running g' \<noteq> {}"
  proof (cases ?a)
    case CreateWaiting
    with g show ?thesis by (auto simp: groupStep_def)
  next
    case NoAction
    then have "card (waitingIds c ?T) = 0" using counts [OF gm] by (auto simp: decide_def Let_def split: if_splits)
    with quorum O NoAction g show ?thesis by (auto simp: sh_quorum_def groupStep_def)
  qed (use g O counts(3) [OF gm, of ?T] in \<open>auto simp: decide_def Let_def groupStep_def sh_available_def sh_quorum_def split: if_splits\<close>)
  have "staged k g' ?T c False {} (ms_Shards (db_ShardImage d))" using c by (simp add: staged_def)
  from log_staged [OF run ok inv this truth T order_refl gm index]
  have st: "staged k g' ?T c (saidIn cdc k cmds \<noteq> {}) (saidIn cdc k cmds) (ms_Shards (db_ShardImage d'))"
    and tick: "unat (db_Tick d') = unat ?T + 5 * ticksIn cdc cmds" and inv': "db_inv m d'" by simp_all
  have "saidIn cdc k cmds \<subseteq> rg_running g'"
    using truth by (auto simp: saidIn_def toldBy_def tellsTruth_def tells_def list_all_iff)
  with said have S: "saidIn cdc k cmds = rg_running g'" by simp
  with st \<open>rg_running g' \<noteq> {}\<close> obtain c' where
    c': "mget (ms_Shards (db_ShardImage d')) k = Some c'" "tracked g' ?T c (rg_running g') c'" by (auto simp: staged_def)
  have shard': "shard_ok (db_Tick d') k c'" by (rule image_ok_get [OF db_invD(3) [OF inv'] c'(1)])
  have "acted ?a c ?T c' (db_Tick d') \<and> okIds c' (db_Tick d') = rg_running g'"
    by (rule step_acted [OF g step c'(2) shard' shard]) (use tick ticks in simp_all)
  moreover have "inStep c' (db_Tick d') g'" using c'(2) calculation by (simp add: inStep_def tracked_def)
  moreover have "db_Tick d' \<noteq> 0" using tick T by (auto simp flip: unat_eq_zero)
  moreover have "images_wf d" using image_ok_mono [OF db_invD(3) [OF inv], of "- 1"] by (simp add: images_wf_def)
  then have "db_le cdc d d'" by (rule db_moves.run_advances [OF run ok])
  then have "mget (db_Shards d') k = Some dfn" by (rule db_leD(3)) (rule dfn)
  ultimately show ?thesis using c'(1) inv' by blast
qed

section \<open>The shard becomes whole\<close>

lemma acted_counts:
  assumes "acted a c t c' t'" and "gm_ok (sh_Replicas c)"
  shows "case a of
     NoAction \<Rightarrow> card (failedIds c' t') = card (failedIds c t) \<and> card (waitingIds c' t') = card (waitingIds c t) \<and>
       card (okIds c' t') = card (okIds c t)
   | DeleteFailed \<Rightarrow> Suc (card (failedIds c' t')) = card (failedIds c t) \<and> card (waitingIds c' t') = card (waitingIds c t) \<and>
       card (okIds c' t') = card (okIds c t)
   | CreateWaiting \<Rightarrow> card (failedIds c' t') = card (failedIds c t) \<and> Suc (card (waitingIds c' t')) = card (waitingIds c t) \<and>
       card (okIds c' t') = Suc (card (okIds c t))
   | ReplaceFailed \<Rightarrow> card (failedIds c' t') = card (failedIds c t) \<and> card (waitingIds c' t') = Suc (card (waitingIds c t)) \<and>
       card (okIds c' t') = card (okIds c t)"
proof -
  have fin: "finite (failedIds c t)" "finite (waitingIds c t)" "finite (okIds c t)"
    by (simp_all add: failedIds_def waitingIds_def okIds_def)
  note part = groups_ids(1-4) [OF assms(2), where t = t]
  show ?thesis
  proof (cases a)
    case DeleteFailed
    then obtain x where x: "x \<in> failedIds c t" "failedIds c' t' = failedIds c t - {x}"
        "waitingIds c' t' = waitingIds c t" "okIds c' t' = okIds c t" using assms(1) by (auto simp: acted_def)
    with DeleteFailed card_Suc_Diff1 [OF fin(1) x(1)] show ?thesis by simp
  next
    case CreateWaiting
    then obtain x where x: "x \<in> waitingIds c t" "failedIds c' t' = failedIds c t" "waitingIds c' t' = waitingIds c t - {x}"
        "okIds c' t' = insert x (okIds c t)" using assms(1) by (auto simp: acted_def)
    moreover have "x \<notin> okIds c t" using x(1) part(3) by blast
    ultimately show ?thesis using fin CreateWaiting card_Suc_Diff1 [OF fin(2) x(1)] by simp
  next
    case ReplaceFailed
    then obtain x where x: "\<not> mhas (sh_Replicas c) x" "failedIds c' t' = failedIds c t" "waitingIds c' t' = insert x (waitingIds c t)"
        "okIds c' t' = okIds c t" using assms(1) by (auto simp: acted_def)
    moreover have "x \<notin> waitingIds c t" using x(1) part(4) by blast
    ultimately show ?thesis using fin ReplaceFailed by simp
  qed (use assms(1) in \<open>simp add: acted_def\<close>)
qed

text \<open>
  The rounds a shard still needs: three for a failed replica (its replacement is added, started, and it is
  removed), one for a waiting one, less what was done for the replica whose replacement is a member already.
\<close>

definition effort :: "nat \<Rightarrow> shard \<Rightarrow> u64 \<Rightarrow> nat" where
  "effort expected c t = 3 * card (failedIds c t) + card (waitingIds c t) -
     (if expected < length (sh_Replicas c) \<and> failedIds c t \<noteq> {} then 2 else 0)"

text \<open>A shard that can be repaired: it has its size, and at most one extra replica while some has failed.\<close>

definition repairable :: "nat \<Rightarrow> nat \<Rightarrow> shard \<Rightarrow> u64 \<Rightarrow> bool" where
  "repairable expected limit c t \<longleftrightarrow> sh_quorum c \<le> card (okIds c t) + card (waitingIds c t) \<and> expected \<le> length (sh_Replicas c) \<and>
     (length (sh_Replicas c) \<le> limit \<or> length (sh_Replicas c) = Suc limit \<and> failedIds c t \<noteq> {})"

lemma repair_progress:
  assumes a: "acted (decide c t expected) c t c' t'" and gm: "gm_ok (sh_Replicas c)" "gm_ok (sh_Replicas c')"
    and c: "repairable expected limit c t" and "expected \<le> limit"
  shows "repairable expected limit c' t' \<and> effort expected c' t' \<le> effort expected c t - 1"
proof -
  define f w r f' w' r' where "f = card (failedIds c t)" and "w = card (waitingIds c t)" and "r = card (okIds c t)"
    and "f' = card (failedIds c' t')" and "w' = card (waitingIds c' t')" and "r' = card (okIds c' t')"
  note names = f_def [symmetric] w_def [symmetric] r_def [symmetric] f'_def [symmetric] w'_def [symmetric] r'_def [symmetric]
  have n: "length (sh_Replicas c) = f + w + r" "length (sh_Replicas c') = f' + w' + r'"
    using groups_ids(5) [OF gm(1), of t] groups_ids(5) [OF gm(2), of t'] by (simp_all add: names)
  have empty: "failedIds c t = {} \<longleftrightarrow> f = 0" "failedIds c' t' = {} \<longleftrightarrow> f' = 0"
    by (simp_all add: f_def f'_def failedIds_def)
  have c: "(f + w + r) div 2 + 1 \<le> r + w" "expected \<le> f + w + r" "f + w + r \<le> limit \<or> f + w + r = Suc limit \<and> f \<noteq> 0"
    using c by (simp_all add: repairable_def sh_quorum_def n empty names)
  have d: "decide c t expected = (if (f + w + r) div 2 + 1 \<le> r \<and> f > 0 \<and> f + r > expected then DeleteFailed
      else if w > 0 then CreateWaiting else if (f + w + r) div 2 + 1 \<le> r \<and> f > 0 then ReplaceFailed else NoAction)"
    unfolding decide_def Let_def sh_available_def sh_quorum_def counts [OF gm(1)] n names by (rule refl)
  note k = acted_counts [OF a gm(1), unfolded names]
  show ?thesis
    using c assms(5) k unfolding repairable_def effort_def sh_quorum_def n empty names d
    by (auto split: if_splits)
qed

text \<open>The rounds, from any image that can be repaired: they bring the effort to nothing.\<close>

lemma rounds_heal:
  assumes "repairRounds cdc k rounds cmds st st'"
  shows "\<lbrakk>st = (d, g); st' = (d', g'); db_inv cmds d; db_Tick d \<noteq> 0; mget (ms_Shards (db_ShardImage d)) k = Some c;
    inStep c (db_Tick d) g; mget (db_Shards d) k = Some dfn; length (sd_Members dfn) \<le> limit;
    repairable (length (sd_Members dfn)) limit c (db_Tick d); effort (length (sd_Members dfn)) c (db_Tick d) \<le> rounds\<rbrakk> \<Longrightarrow>
    \<exists>c'. mget (ms_Shards (db_ShardImage d')) k = Some c' \<and> db_inv 0 d' \<and> inStep c' (db_Tick d') g' \<and>
      repairable (length (sd_Members dfn)) limit c' (db_Tick d') \<and> effort (length (sd_Members dfn)) c' (db_Tick d') = 0"
  using assms
proof (induction arbitrary: d g c rule: repairRounds.induct)
  case (no_round st)
  then show ?case by auto
next
  case (next_round st cmds st1 n m st')
  let ?e = "length (sd_Members dfn)"
  obtain d1 g1 where st1: "st1 = (d1, g1)" by (cases st1)
  have image: "image_ok i (ms_Shards (db_ShardImage e)) \<Longrightarrow> mget (ms_Shards (db_ShardImage e)) k = Some x \<Longrightarrow> gm_ok (sh_Replicas x)" for i e x
    using image_ok_get shard_okD(2) by blast
  have gm: "gm_ok (sh_Replicas c)" by (rule image [OF db_invD(3) [OF next_round.prems(3)] next_round.prems(5)])
  have "sh_quorum c \<le> card (okIds c (db_Tick d)) + card (waitingIds c (db_Tick d))"
    using next_round.prems(9) by (simp add: repairable_def)
  from round_effect [OF next_round.hyps(1) [unfolded next_round.prems(1) st1] next_round.prems(3-7) this]
  obtain c1 where c1: "mget (ms_Shards (db_ShardImage d1)) k = Some c1" "inStep c1 (db_Tick d1) g1"
    "acted (decide c (db_Tick d) ?e) c (db_Tick d) c1 (db_Tick d1)" "db_inv m d1" "db_Tick d1 \<noteq> 0" "mget (db_Shards d1) k = Some dfn"
    by blast
  have gm1: "gm_ok (sh_Replicas c1)" by (rule image [OF db_invD(3) [OF c1(4)] c1(1)])
  note progress = repair_progress [OF c1(3) gm gm1 next_round.prems(9,8)]
  have "effort ?e c1 (db_Tick d1) \<le> n" using conjunct2 [OF progress] next_round.prems(10) by linarith
  from next_round.IH [OF st1 next_round.prems(2) c1(4,5,1,2,6) next_round.prems(8) conjunct1 [OF progress] this] show ?case .
qed

text \<open>
  C4. The repair loop heals a shard. Take a database that the log has reached, a shard whose image is in step
  with its Raft group, that has at least as many replicas as its definition and a quorum of replicas that
  run or can be started. In each round the scheduler looks at the shard without an error, its request is
  carried out, and reports of all running replicas, which tell the truth about this shard and say anything
  of the others, are applied with at most a minute of ticks; no further replica fails. Then after three
  rounds for each failed replica and one for each that waits to be started no replica is failed or waiting,
  every member runs, and the shard has at least its size and no more replicas than before.
\<close>

theorem repair_heals:
  assumes "repairRounds cdc k rounds cmds (d, g) (d', g')" and "reachableDB cdc n d" and "5 * (n + cmds) < 2 ^ 64"
    and "db_Tick d \<noteq> 0" and "mget (ms_Shards (db_ShardImage d)) k = Some c" and "inStep c (db_Tick d) g"
    and "mget (db_Shards d) k = Some dfn" and "length (sd_Members dfn) \<le> length (sh_Replicas c)"
    and "sh_quorum c \<le> length (getOkReplicas c (db_Tick d)) + length (getReplicasToStart c (db_Tick d))"
    and "3 * length (getFailedReplicas c (db_Tick d)) + length (getReplicasToStart c (db_Tick d)) \<le> rounds"
  shows "\<exists>c'. mget (ms_Shards (db_ShardImage d')) k = Some c' \<and>
    getFailedReplicas c' (db_Tick d') = [] \<and> getReplicasToStart c' (db_Tick d') = [] \<and>
    length (getOkReplicas c' (db_Tick d')) = length (sh_Replicas c') \<and>
    length (sd_Members dfn) \<le> length (sh_Replicas c') \<and> length (sh_Replicas c') \<le> length (sh_Replicas c) \<and>
    rg_running g' = {rid. mhas (rg_members g') rid}"
proof -
  let ?e = "length (sd_Members dfn)" and ?T = "db_Tick d" and ?limit = "length (sh_Replicas c)"
  have inv: "db_inv cmds d" by (rule reachableDB_inv [OF assms(2,3)])
  have gm: "gm_ok (sh_Replicas c)" using image_ok_get [OF db_invD(3) [OF inv] assms(5)] by (rule shard_okD(2))
  have "repairable ?e ?limit c ?T" "effort ?e c ?T \<le> rounds"
    using assms(8-10) by (simp_all add: repairable_def effort_def counts [OF gm])
  from rounds_heal [OF assms(1) refl refl inv assms(4-8) this] obtain c' where
    c': "mget (ms_Shards (db_ShardImage d')) k = Some c'" "inStep c' (db_Tick d') g'"
    and inv': "db_inv 0 d'" and rep: "repairable ?e ?limit c' (db_Tick d')" and eff: "effort ?e c' (db_Tick d') = 0" by blast
  have gm': "gm_ok (sh_Replicas c')" using image_ok_get [OF db_invD(3) [OF inv'] c'(1)] by (rule shard_okD(2))
  have ids0: "A = {}" if "3 * card A + w \<le> 2" "finite A" for A :: "u64 set" and w
    using that by (cases "card A") simp_all
  have zero: "card (failedIds c' (db_Tick d')) = 0" "card (waitingIds c' (db_Tick d')) = 0"
    using eff ids0 [of "failedIds c' (db_Tick d')" "card (waitingIds c' (db_Tick d'))"]
    unfolding effort_def failedIds_def by (simp_all split: if_splits)
  then have none: "failedIds c' (db_Tick d') = {}" "waitingIds c' (db_Tick d') = {}"
    by (simp_all add: failedIds_def waitingIds_def)
  have "rg_running g' = {rid. mhas (rg_members g') rid}"
    using groups_ids(4) [OF gm', of _ "db_Tick d'"] c'(2) none by (auto simp: inStep_def)
  moreover have "getFailedReplicas c' (db_Tick d') = []" "getReplicasToStart c' (db_Tick d') = []"
    using counts(1,2) [OF gm', of "db_Tick d'"] zero by simp_all
  moreover have "length (getOkReplicas c' (db_Tick d')) = length (sh_Replicas c')"
    using groups_ids(5) [OF gm', of "db_Tick d'"] counts(3) [OF gm'] zero by simp
  ultimately show ?thesis using c'(1) rep none by (auto simp: repairable_def)
qed

section \<open>A run\<close>

text \<open>
  The shard of three with the silent third replica, healed in three rounds: a replica 102 is added on
  \<open>a4\<close>, started there, and the third is removed. \<open>v\<close> counts the membership changes.
\<close>

definition healGroup :: "u64 \<Rightarrow> u64 set \<Rightarrow> raftGroup" where
  "healGroup v run = \<lparr>rg_members = (if v = 4 then [(1, ''a1''), (2, ''a2''), (3, ''a3'')]
       else if v = 5 then [(1, ''a1''), (2, ''a2''), (3, ''a3''), (102, ''a4'')]
       else [(1, ''a1''), (2, ''a2''), (102, ''a4'')]), rg_index = v, rg_running = run\<rparr>"

definition healReport :: "u64 \<Rightarrow> u64 \<Rightarrow> string \<Rightarrow> NodeHostInfo" where
  "healReport v i a = hostReport i a\<lparr>nhi_ShardInfo := [sample_info\<lparr>si_ReplicaId := i, si_IsLeader := (i = 1),
     si_Replicas := rg_members (healGroup v {}), si_ConfigChangeIndex := v\<rparr>]\<rparr>"

definition heal_uUpdate :: "string \<Rightarrow> Update option" where
  "heal_uUpdate s =
     (let rep = \<lambda>v i a. Some (zero_Update\<lparr>up_Type := Update_NODEHOST_INFO, up_NodehostInfo := Some (healReport v i a)\<rparr>)
      in if s = ''51'' then rep 5 1 ''a1'' else if s = ''52'' then rep 5 2 ''a2'' else if s = ''54'' then rep 5 102 ''a4''
         else if s = ''61'' then rep 6 1 ''a1'' else if s = ''62'' then rep 6 2 ''a2'' else if s = ''64'' then rep 6 102 ''a4''
         else report_uUpdate s)"

definition healCodec :: codec where
  "healCodec = repairCodec\<lparr>uUpdate := heal_uUpdate\<rparr>"

lemma heal_entries: "entry_ok healCodec cmd"
  using repair_entries [of cmd]
  by (simp add: entry_ok_def healCodec_def repairCodec_def heal_uUpdate_def Let_def upd_wf_def zero_Update_def nhi_wf_def
      healReport_def hostReport_def sample_info_def gm_ok_def healGroup_def)

definition healLog :: "nat \<Rightarrow> string list" where
  "healLog n = [[''51'', ''T'', ''52''], [''T'', ''51'', ''54'', ''52''], [''61'', ''64'', ''T'', ''62'']] ! n"

fun healDB :: "nat \<Rightarrow> db" where
  "healDB 0 = repairDB"
| "healDB (Suc n) = snd (snd (runLog (\<lambda>cmd d. Update_cmd healCodec d cmd) (healLog n) (healDB n)))"

text \<open>What the scheduler's iteration asks for, as far as the group sees it.\<close>

definition healContext :: "db \<Rightarrow> schedulerContext" where
  "healContext d = \<lparr>ctx_Tick = db_Tick d, ctx_Shards = db_Shards d, ctx_Regions = None,
     ctx_ShardImage = db_ShardImage d, ctx_NodeHostImage = db_NodeHostImage d, ctx_NodeHostInfo = db_NodeHostInfo d\<rparr>"

definition healActs :: "db \<Rightarrow> (Request option \<times> string list \<times> u64) list option" where
  "healActs d = (if mhas (db_KVMap d) regionsKey then None else case mget (ms_Shards (db_ShardImage d)) 1 of
     None \<Rightarrow> None
   | Some c \<Rightarrow> (case fst (repairShard (updateSchedulerContext (newScheduler (Some countingRand) zero_Config) (healContext d))
         (toShardRepair (db_Tick d) c) 0) of
       Inl e \<Rightarrow> None
     | Inr reqs \<Rightarrow> Some (map (\<lambda>req. (nr_Change req, nr_AddressList req, nr_InstantiateReplicaId req)) reqs)))"

lemma heal_round:
  assumes run: "fst (snd (runLog (\<lambda>cmd d. Update_cmd healCodec d cmd) cmds d)) = None"
      "snd (snd (runLog (\<lambda>cmd d. Update_cmd healCodec d cmd) cmds d)) = d'"
    and acts: "healActs d = Some [(Some ch, addrs, i)]"
    and group: "executed (zero_NodeHostRequest\<lparr>nr_Change := Some ch, nr_AddressList := addrs, nr_InstantiateReplicaId := i\<rparr>) g g'"
    and truth: "list_all (\<lambda>cmd. tellsTruth 1 g' (reportIn healCodec cmd)) cmds" "rg_running g' \<subseteq> saidIn healCodec 1 cmds"
      "ticksIn healCodec cmds \<le> 12"
  shows "repairRound healCodec 1 (d, g) cmds (d', g')"
proof -
  let ?s = "newScheduler (Some countingRand) zero_Config"
  obtain c reqs where c: "mget (ms_Shards (db_ShardImage d)) 1 = Some c" and kv: "mget (db_KVMap d) regionsKey = None"
    and rep: "fst (repairShard (updateSchedulerContext ?s (healContext d)) (toShardRepair (db_Tick d) c) 0) = Inr reqs"
    and reqs: "map (\<lambda>req. (nr_Change req, nr_AddressList req, nr_InstantiateReplicaId req)) reqs = [(Some ch, addrs, i)]"
    using acts by (auto simp: healActs_def mhas_def split: if_splits option.splits sum.splits)
  have "carried reqs g g'" using reqs group
    by (cases "rq_Type ch") (auto simp: carried_def executed_def)
  moreover have "schedulerContextOf healCodec d = Inr (healContext d)"
    by (simp add: schedulerContextOf_def healContext_def kv)
  moreover have "runs (\<lambda>cmd d. Update_cmd healCodec d cmd) d cmds
      (fst (runLog (\<lambda>cmd d. Update_cmd healCodec d cmd) cmds d)) d'"
    unfolding runs_runLog using run by (metis prod.collapse)
  moreover have "sch_randomSrc ?s = Some countingRand" by (simp add: newScheduler_def)
  moreover have "list_all (entry_ok healCodec) cmds" by (simp add: list_all_iff heal_entries)
  ultimately show ?thesis
    unfolding repairRound_def prod.case using c rep countingRand_ok truth
    by (intro exI [of _ "healContext d"] exI [of _ ?s] exI [of _ countingRand] exI [of _ c] exI [of _ 0] exI [of _ reqs]
        exI conjI) (auto intro: prod_eqI)
qed

lemma heal_runs:
  "fst (snd (runLog (\<lambda>cmd d. Update_cmd healCodec d cmd) (healLog 0) (healDB 0))) = None"
  "fst (snd (runLog (\<lambda>cmd d. Update_cmd healCodec d cmd) (healLog 1) (healDB 1))) = None"
  "fst (snd (runLog (\<lambda>cmd d. Update_cmd healCodec d cmd) (healLog 2) (healDB 2))) = None"
  by code_simp+

lemma heal_acts:
  "healActs (healDB 0) = Some [(Some \<lparr>rq_Type = Request_ADD, rq_ShardId = 1, rq_Members = [102],
     rq_AppName = [], rq_ConfChangeId = 4\<rparr>, [''a4''], 0)]"
  "healActs (healDB 1) = Some [(Some \<lparr>rq_Type = Request_CREATE, rq_ShardId = 1, rq_Members = [1, 2, 3, 102],
     rq_AppName = [], rq_ConfChangeId = 0\<rparr>, [''a1'', ''a2'', ''a3'', ''a4''], 102)]"
  "healActs (healDB 2) = Some [(Some \<lparr>rq_Type = Request_DELETE, rq_ShardId = 1, rq_Members = [3],
     rq_AppName = [], rq_ConfChangeId = 5\<rparr>, [], 0)]"
  by code_simp+

lemma heal_groups:
  "rq_Type ch = Request_ADD \<Longrightarrow> rq_Members ch = [102] \<Longrightarrow>
     executed (zero_NodeHostRequest\<lparr>nr_Change := Some ch, nr_AddressList := [''a4''], nr_InstantiateReplicaId := i\<rparr>)
     (healGroup 4 {1, 2}) (healGroup 5 {1, 2})"
  "rq_Type ch = Request_CREATE \<Longrightarrow>
     executed (zero_NodeHostRequest\<lparr>nr_Change := Some ch, nr_AddressList := addrs, nr_InstantiateReplicaId := 102\<rparr>)
     (healGroup 5 {1, 2}) (healGroup 5 {1, 2, 102})"
  "rq_Type ch = Request_DELETE \<Longrightarrow> rq_Members ch = [3] \<Longrightarrow>
     executed (zero_NodeHostRequest\<lparr>nr_Change := Some ch, nr_AddressList := addrs, nr_InstantiateReplicaId := i\<rparr>)
     (healGroup 5 {1, 2, 102}) (healGroup 6 {1, 2, 102})"
  by (auto simp: executed_def healGroup_def mdel_def)

lemma heal_truth:
  "list_all (\<lambda>cmd. tellsTruth 1 (healGroup 5 {1, 2}) (reportIn healCodec cmd)) (healLog 0)"
  "list_all (\<lambda>cmd. tellsTruth 1 (healGroup 5 {1, 2, 102}) (reportIn healCodec cmd)) (healLog 1)"
  "list_all (\<lambda>cmd. tellsTruth 1 (healGroup 6 {1, 2, 102}) (reportIn healCodec cmd)) (healLog 2)"
  by (simp_all add: healLog_def reportIn_def healCodec_def heal_uUpdate_def Let_def report_uUpdate_def sample_uUpdate_def
      zero_Update_def healReport_def hostReport_def sample_info_def tells_def healGroup_def)

lemma heal_said:
  "rg_running (healGroup 5 {1, 2}) \<subseteq> saidIn healCodec 1 (healLog 0)"
  "rg_running (healGroup 5 {1, 2, 102}) \<subseteq> saidIn healCodec 1 (healLog 1)"
  "rg_running (healGroup 6 {1, 2, 102}) \<subseteq> saidIn healCodec 1 (healLog 2)"
  "ticksIn healCodec (healLog 0) \<le> 12" "ticksIn healCodec (healLog 1) \<le> 12" "ticksIn healCodec (healLog 2) \<le> 12"
  by code_simp+

lemma heal_rounds: "repairRounds healCodec 1 3 11 (healDB 0, healGroup 4 {1, 2}) (healDB 3, healGroup 6 {1, 2, 102})"
proof -
  have "repairRound healCodec 1 (healDB 0, healGroup 4 {1, 2}) (healLog 0) (healDB 1, healGroup 5 {1, 2})"
    by (rule heal_round [OF heal_runs(1) _ heal_acts(1) heal_groups(1) heal_truth(1) heal_said(1,4)]) simp_all
  moreover have "repairRound healCodec 1 (healDB 1, healGroup 5 {1, 2}) (healLog 1) (healDB 2, healGroup 5 {1, 2, 102})"
    by (rule heal_round [OF heal_runs(2) _ heal_acts(2) heal_groups(2) heal_truth(2) heal_said(2,5)]) (simp_all add: numeral_2_eq_2)
  moreover have "repairRound healCodec 1 (healDB 2, healGroup 5 {1, 2, 102}) (healLog 2) (healDB 3, healGroup 6 {1, 2, 102})"
    by (rule heal_round [OF heal_runs(3) _ heal_acts(3) heal_groups(3) heal_truth(3) heal_said(3,6)]) (simp_all add: numeral_3_eq_3 numeral_2_eq_2)
  ultimately have "repairRounds healCodec 1 (Suc (Suc (Suc 0))) (length (healLog 0) + (length (healLog 1) + (length (healLog 2) + 0)))
      (healDB 0, healGroup 4 {1, 2}) (healDB 3, healGroup 6 {1, 2, 102})"
    by (blast intro: next_round no_round)
  moreover have "length (healLog 0) + (length (healLog 1) + (length (healLog 2) + 0)) = 11" by (simp add: healLog_def)
  ultimately show ?thesis unfolding numeral_3_eq_3 by (simp only:)
qed

lemma heal_reachable: "reachableDB healCodec 21 repairDB"
proof -
  have "snd (runLog (\<lambda>cmd d. Update_cmd healCodec d cmd) repairLog (NewDB 0 1)) =
      snd (runLog (\<lambda>cmd d. Update_cmd repairCodec d cmd) repairLog (NewDB 0 1))"
    by code_simp
  then show ?thesis
    unfolding reachableDB_def runs_runLog repairDB_def
    using repair_finishes
    by (intro exI [of _ 0] exI [of _ 1] exI [of _ repairLog] exI conjI)
      (auto intro!: prod_eqI simp: repairLog_def heal_entries list_all_iff)
qed

lemma repair_heals_witness:
  "\<exists>c'. mget (ms_Shards (db_ShardImage (healDB 3))) 1 = Some c' \<and> getFailedReplicas c' (db_Tick (healDB 3)) = [] \<and>
     length (getOkReplicas c' (db_Tick (healDB 3))) = 3"
proof -
  have c: "mget (ms_Shards (db_ShardImage repairDB)) 1 = Some repairShard3" by (simp add: repairDB_image)
  have lens: "length (getOkReplicas repairShard3 70) = 2" "length (getFailedReplicas repairShard3 70) = 1"
    "length (getReplicasToStart repairShard3 70) = 0" by code_simp+
  have "okIds repairShard3 70 = {1, 2}"
    by (auto simp: okIds_def idsOf_def repairShard3_def repairReplica_def rp_ok_def rp_failed_def waitingToBeStarted_def
        EntityFailed_def nodeHostTTL_60 split: if_splits)
  then have step: "inStep repairShard3 (db_Tick repairDB) (healGroup 4 {1, 2})"
    by (simp add: inStep_def repairDB_Tick repairShard3_def healGroup_def mhas_def)
  have "mget (db_Shards repairDB) 1 = Some \<lparr>sd_Members = [1, 2, 3], sd_ShardId = 1, sd_AppName = ''kv''\<rparr>"
    by (simp add: repairDB_Shards)
  from repair_heals [OF heal_rounds [unfolded healDB.simps(1)] heal_reachable _ _ c step this]
  have "\<exists>c'. mget (ms_Shards (db_ShardImage (healDB 3))) 1 = Some c' \<and> getFailedReplicas c' (db_Tick (healDB 3)) = [] \<and>
      length (getOkReplicas c' (db_Tick (healDB 3))) = length (sh_Replicas c') \<and>
      3 \<le> length (sh_Replicas c') \<and> length (sh_Replicas c') \<le> 3"
    unfolding repairDB_Tick lens by (simp add: sh_quorum_def repairShard3_def numeral_3_eq_3) blast
  then show ?thesis by (metis le_antisym)
qed

end
