(* ===== verification/Spec2Isabelle.thy ===== *)
theory Spec2Isabelle
  imports DBOperations DBProperties LaunchFacts DrummerFacts SessionFacts ElectionFacts ServerFacts KVCodec
    AgentRequests Delivery CheckSamples LifecycleFacts ManagedFacts Healing
begin

text \<open>
  \<^bold>\<open>Drummer\<close> is the management plane of a fleet of dragonboat NodeHosts. A few Drummer servers
  replicate a database (\<^verbatim>\<open>db.go\<close>) by Raft. Every NodeHost runs an agent (\<^verbatim>\<open>client/\<close>) that reports its
  shards to a server and executes the requests the server answers with. One of the servers is
  elected as the leader (\<^verbatim>\<open>election.go\<close>, by records in the same database); it launches the defined
  shards, and repairs or restores those that lost replicas (\<^verbatim>\<open>drummer.go\<close>, \<^verbatim>\<open>scheduler.go\<close>).

  \<^bold>\<open>Conventions.\<close> \<open>GoPrelude\<close> fixes how Go is read: a \<^verbatim>\<open>uint64\<close> is a 64-bit word with its wrap-around;
  a map is a list of pairs with distinct keys whose order is the iteration order, so a theorem for
  every list is a theorem for every order; a call that can panic, return an error or never return
  has a result of type \<open>gofail + 'a\<close>, paired with the receiver it wrote. Third-party code is an
  argument: encoders (\<open>codec\<close>), the random source, the Raft layer (\<open>raft\<close>, whose contract is the
  locale \<open>raft_service\<close>), the NodeHost (\<open>nodehost\<close>), the network (\<open>network\<close>). Definitions have the
  names of the Go functions, prefixed where two types share a method name (\<open>ms_\<close> \<open>multiShard\<close>,
  \<open>mn_\<close> \<open>multiNodeHost\<close>, \<open>sh_\<close> \<open>shard\<close>, \<open>em_\<close> the election manager, \<open>api_\<close> the NodeHost API).

  \<^bold>\<open>The model\<close>, in the order of the calls:
  \<^item> \<open>Settings\<close> (\<^verbatim>\<open>settings/soft.go\<close>), \<open>Drummerpb\<close> (the messages of \<^verbatim>\<open>drummerpb/\<close>).
  \<^item> \<open>ShardImage\<close>, \<open>ShardRepair\<close> (\<^verbatim>\<open>shardimage.go\<close>): what the servers know of every shard, updated from
    reports by \<open>ms_update\<close>, and the split of a shard's replicas that repair decisions are made on.
    \<open>NodeHostImage\<close> (\<^verbatim>\<open>nodehostimage.go\<close>): the same for NodeHosts. \<open>ShardStates\<close>: what clients are told.
  \<^item> \<open>Filters\<close>, \<open>Selector\<close> (\<^verbatim>\<open>filter.go\<close>, \<^verbatim>\<open>selector.go\<close>): the choice of NodeHosts. The selection loop
    may not end; \<open>selectLoop\<close> is a partial function and returning is part of what is proved.
  \<^item> \<open>DrummerDB\<close> (\<^verbatim>\<open>db.go\<close>): the state \<open>db\<close> and its operations \<open>Update_cmd\<close>, \<open>Lookup_query\<close>,
    \<open>SaveSnapshot\<close>, \<open>RecoverFromSnapshot\<close>, \<open>GetHash\<close>.
  \<^item> \<open>Scheduler\<close> (\<^verbatim>\<open>scheduler.go\<close>), \<open>Validation\<close> (\<^verbatim>\<open>validation.go\<close>).
  \<^item> \<open>Server\<close> (\<^verbatim>\<open>server.go\<close>): the gRPC handlers over the Raft layer; \<open>Drummer\<close> (\<^verbatim>\<open>drummer.go\<close>): sessions,
    ticks, maintenance rounds; \<open>Election\<close> (\<^verbatim>\<open>election.go\<close>).
  \<^item> \<open>KVCodec\<close> (\<^verbatim>\<open>kv/kv.go\<close>): the encoder of the records of the managed shards, byte by byte.
  \<^item> \<open>Dragonboat\<close>, \<open>NodehostAPI\<close> (\<^verbatim>\<open>nodehostapi.go\<close>), \<open>Client\<close> (\<^verbatim>\<open>client.go\<close>), \<open>Connections\<close>,
    \<open>Agent\<close> and \<open>AgentRequests\<close> (\<^verbatim>\<open>client/\<close>): the NodeHost side. \<open>Lifecycle\<close>: how the Drummer server, the
    NodeHost API and the client are built, started and stopped, over a \<open>transport\<close> that is an argument.
  \<^item> \<open>ManagedKV\<close> (\<^verbatim>\<open>tests/kvtest.go\<close>, \<^verbatim>\<open>tests/concurrentkv.go\<close>): the state machines of the managed shards
    that are kept in memory, with JSON, MD5 and what a pool hands out as arguments. The concurrent one
    keeps a pointer to its data, which a snapshot that is being saved may not share: its data are objects of a heap.
  \<^item> \<open>Bitset\<close>, \<open>Porcupine\<close> (\<^verbatim>\<open>lcm/porcupine/\<close>): the linearizability checker of the monkey tests, its search
    over a doubly linked list in a heap of nodes. \<open>EtcdModel\<close> (\<^verbatim>\<open>etcd.go\<close>, \<^verbatim>\<open>lcm/checker/main.go\<close>): the
    register it checks against, the reader of its logs, the command. \<open>Coordinator\<close> (\<^verbatim>\<open>lcm/manager.go\<close>,
    \<^verbatim>\<open>lcm/process.go\<close>): what writes these logs, with the steps of its goroutines as \<open>goroutineStep\<close> and
    its runs as \<open>lcmRun\<close>. \<open>Decimal\<close>: numbers as text.

  \<^bold>\<open>What is proved.\<close>
  \<^item> \<open>LogMachine\<close> has the contracts of a replicated state machine as locales: a relation between two
    copies (\<open>log_relation\<close>), an invariant (with a budget where ticks could wrap), progress. They are
    interpreted on \<open>Update_cmd\<close>: \<open>Determinism\<close> shows that servers that iterate maps in different orders
    stay equal up to the order (\<open>db_eq\<close>); \<open>DBInvariants\<close> that keys, IDs, ticks and queues fit together
    and a shard has one leader at most; \<open>DBProgress\<close> that finalized records, definitions and
    configuration indexes are never taken back. \<open>DBProperties\<close> states these over reachable databases,
    \<open>DBOperations\<close> the behaviour of the operations branch by branch.
  \<^item> \<open>SchedulerFacts\<close> and \<open>LaunchFacts\<close>: an abstract decision per shard and that repair implements it;
    that selections are live, distinct and new; that restoration reaches a quorum; the launch batch.
    \<open>Healing\<close> closes the loop with a Raft group that carries the requests out and is reported: rounds
    of it (\<open>repairRounds\<close>) replace every failed replica, and how many are enough is a bound.
  \<^item> \<open>RaftService\<close> is the interface between the servers and Raft, with a Raft layer over one database
    and an arbitrary list of commands of other servers as its interpretation. \<open>ElectionFacts\<close> and
    \<open>ServerFacts\<close> prove over any such layer that a leader was the recorded one and that all servers
    agree on the deployment ID; \<open>DrummerFacts\<close> the maintenance batch; \<open>SessionFacts\<close> that the calls
    of the leader for its session follow the protocol of a session, whatever the Raft layer answers.
  \<^item> \<open>KVCodec\<close> has its round trip and the exact bytes; \<open>ReportFacts\<close> and \<open>AgentRequests\<close> the agent.
    \<open>Delivery\<close> follows the requests across the database, the handlers and the agent: a report that
    returns brings the NodeHost the queue of one point of the log, which it empties.
  \<^item> \<open>LinkedList\<close>, \<open>LinearSearch\<close>, \<open>LinkedHistory\<close>: lifting a call out of the list and back restores the
    heap, and the search with its cache decides whether the calls have an order. \<open>Linearizability\<close> has
    the specification \<open>linearizable\<close>, \<open>CheckFacts\<close> that the checks of whole histories decide it.
    \<open>JepsenLog\<close> and \<open>CoordinatorFacts\<close>: the log of every run reads back as a complete history, so the
    command answers for it; \<open>RegisterBook\<close> and \<open>RegisterRun\<close>: against a store that is an atomic register,
    failed and late writes included, it never reports a violation; \<open>CheckSamples\<close> has histories and runs on which the model is evaluated.
  \<^item> \<open>LifecycleFacts\<close>: no API before the deployment ID. \<open>ManagedFacts\<close>: the machines in memory are
    key-value maps (\<open>managed_kv\<close>) whose replicas agree, also after catching up from a snapshot
    (\<open>snapshot_kv\<close>, over the encoders of \<open>json_service\<close>); with records that have an empty field the plain one is not.

  \<^bold>\<open>Bounds.\<close> The results on ticks hold for logs of fewer than \<open>2 ^ 64\<close> ticks' worth of seconds, the budget
  of \<open>DBInvariants\<close>; those on histories for fewer than \<open>2 ^ 63\<close> log entries, where IDs do not wrap, and
  for at most 1000 processes, beyond which the code's own log format fails. No fuel is used: loops that may not end are partial functions.

  \<^bold>\<open>Not modelled.\<close> Goroutines and stoppers beyond their flags: a worker is the sequence of its ticks.
  Timeouts are outcomes of the calls that have them. Generated code (\<^verbatim>\<open>*.pb.go\<close>), the other tests and scripts.
  The files of \<^verbatim>\<open>lcm/\<close> are their contents; the errors of writing them are left out. What the goroutines
  and the timer of a check deliver is a list of arrivals.
\<close>

end
